(* ===== verification/Vp_Prelude.thy ===== *)
theory Vp_Prelude
  imports Main "HOL-Library.Word" "HOL-Library.Monad_Syntax"
begin

text \<open>
  Shared vocabulary of the development: the machine integer types of the C sources,
  byte buffers with bounds-checked copies (the model of \<open>memcpy\<close>), the little-endian
  layout of integers in memory and on the wire, and the interface \<open>byte_store\<close> of every
  byte-addressed store of the program.

  An access outside the bounds of its object is undefined behaviour in C. It is the value
  \<open>None\<close> of the option monad here, so that "the code is memory safe" is the statement
  that a definition returns \<open>Some\<close>.
\<close>

unbundle bit_operations_syntax

named_theorems mem_simps \<open>bounds-checked copies\<close>
named_theorems le_simps \<open>little-endian layout\<close>
named_theorems const_defs \<open>constants of the protocol and of the PCI headers\<close>

section \<open>Machine integers and pointers\<close>

type_synonym byte = "8 word"
type_synonym u16 = "16 word"
type_synonym u32 = "32 word"
type_synonym u64 = "64 word"
type_synonym ptr = "64 word"

lemma word_le_nat: "(a :: 'a::len word) \<le> b \<longleftrightarrow> unat a \<le> unat b"
  by (simp add: word_le_nat_alt)

lemma unat_add_no_wrap:
  fixes a b :: "'a::len word"
  assumes "a \<le> a + b"
  shows "unat (a + b) = unat a + unat b"
  using assms by (metis unat_plus_simple)

lemma unat_ucast_up:
  fixes x :: "'a::len word"
  assumes "LENGTH('a) \<le> LENGTH('b::len)"
  shows "unat (ucast x :: 'b word) = unat x"
  using assms by transfer (simp add: take_bit_take_bit min_def)

lemma unat_ucast_mod:
  fixes x :: "'a::len word"
  shows "unat (ucast x :: 'b::len word) = unat x mod 2 ^ LENGTH('b)"
  by (simp add: unsigned_ucast_eq take_bit_eq_mod)

lemma unat_of_nat_u64: "n < 2 ^ 64 \<Longrightarrow> unat (of_nat n :: u64) = n"
  by (subst unat_of_nat) simp

lemma u64_add_wraps: "(a :: u64) + b < a \<longleftrightarrow> 2 ^ 64 \<le> unat a + unat b"
proof -
  have l: "unat a < 2 ^ 64" "unat b < 2 ^ 64"
    using unsigned_less [of a, where ?'a = nat] unsigned_less [of b, where ?'a = nat] by simp_all
  have s: "unat (a + b) = (unat a + unat b) mod 2 ^ 64" by (simp add: unat_word_ariths)
  show ?thesis
  proof (cases "unat a + unat b < 2 ^ 64")
    case True
    then show ?thesis unfolding word_less_nat_alt s by simp
  next
    case False
    then have "(unat a + unat b) mod 2 ^ 64 = unat a + unat b - 2 ^ 64" using l by (simp add: le_mod_geq)
    then show ?thesis unfolding word_less_nat_alt s using False l by simp
  qed
qed

lemma length_2E:
  assumes "length xs = 2"
  obtains a b where "xs = [a, b]"
  using assms by (cases xs; cases "tl xs") auto

section \<open>Buffers\<close>

definition mem_read :: "byte list \<Rightarrow> nat \<Rightarrow> nat \<Rightarrow> byte list option" where
  "mem_read b off n = (if off + n \<le> length b then Some (take n (drop off b)) else None)"

definition mem_write :: "byte list \<Rightarrow> nat \<Rightarrow> byte list \<Rightarrow> byte list option" where
  "mem_write b off d =
     (if off + length d \<le> length b
      then Some (take off b @ d @ drop (off + length d) b) else None)"

lemma mem_read_None [mem_simps]: "mem_read b off n = None \<longleftrightarrow> length b < off + n"
  by (auto simp: mem_read_def)

lemma mem_write_None [mem_simps]: "mem_write b off d = None \<longleftrightarrow> length b < off + length d"
  by (auto simp: mem_write_def)

lemma mem_write_length: "mem_write b off d = Some b' \<Longrightarrow> length b' = length b"
  by (auto simp: mem_write_def split: if_splits)

lemma mem_read_length: "mem_read b off n = Some d \<Longrightarrow> length d = n"
  by (auto simp: mem_read_def split: if_splits)

lemma mem_read_write_same:
  "mem_write b off d = Some b' \<Longrightarrow> mem_read b' off (length d) = Some d"
  by (auto simp: mem_write_def mem_read_def split: if_splits)

lemma mem_write_nth:
  assumes "mem_write b off d = Some b'" and "i < length b"
  shows "b' ! i = (if off \<le> i \<and> i < off + length d then d ! (i - off) else b ! i)"
  using assms
  by (auto simp: mem_write_def nth_append min_def split: if_splits)

lemma mem_read_nth:
  assumes "mem_read b off n = Some d" and "i < n"
  shows "d ! i = b ! (off + i)"
  using assms by (auto simp: mem_read_def split: if_splits)

lemma mem_read_eqI:
  assumes "length b = length b'" and "\<And>i. off \<le> i \<Longrightarrow> i < off + n \<Longrightarrow> i < length b \<Longrightarrow> b ! i = b' ! i"
  shows "mem_read b off n = mem_read b' off n"
  using assms by (auto simp: mem_read_def intro!: nth_equalityI)

lemma mem_read_write_other:
  assumes w: "mem_write b off d = Some b'"
    and "off' + n \<le> off \<or> off + length d \<le> off'"
  shows "mem_read b' off' n = mem_read b off' n"
proof (rule mem_read_eqI)
  show "length b' = length b" by (rule mem_write_length [OF w])
next
  fix i assume "off' \<le> i" "i < off' + n" "i < length b'"
  then show "b' ! i = b ! i"
    using mem_write_nth [OF w] mem_write_length [OF w] assms(2) by auto
qed

text \<open>The content after a copy that fits.\<close>

definition mem_patch :: "byte list \<Rightarrow> nat \<Rightarrow> byte list \<Rightarrow> byte list" where
  "mem_patch b off d = take off b @ d @ drop (off + length d) b"

lemma mem_write_patch: "off + length d \<le> length b \<Longrightarrow> mem_write b off d = Some (mem_patch b off d)"
  by (simp add: mem_write_def mem_patch_def)

lemma length_mem_patch: "off + length d \<le> length b \<Longrightarrow> length (mem_patch b off d) = length b"
  by (simp add: mem_patch_def)

lemma nth_mem_patch:
  "off + length d \<le> length b \<Longrightarrow> i < length b \<Longrightarrow>
     mem_patch b off d ! i = (if off \<le> i \<and> i < off + length d then d ! (i - off) else b ! i)"
  by (auto simp: mem_patch_def nth_append min_def)

section \<open>The little-endian layout of integers\<close>

definition le_bytes :: "nat \<Rightarrow> 'a::len word \<Rightarrow> byte list" where
  "le_bytes n w = map (\<lambda>i. ucast (drop_bit (8 * i) w)) [0..<n]"

primrec of_le :: "byte list \<Rightarrow> 'a::len word" where
  "of_le [] = 0"
| "of_le (b # bs) = ucast b OR push_bit 8 (of_le bs)"

lemma length_le_bytes [simp]: "length (le_bytes n w) = n"
  by (simp add: le_bytes_def)

lemma nth_le_bytes [le_simps]: "i < n \<Longrightarrow> le_bytes n w ! i = ucast (drop_bit (8 * i) w)"
  by (simp add: le_bytes_def)

lemma bit_of_le:
  "bit (of_le bs :: 'a::len word) k \<longleftrightarrow>
     k < LENGTH('a) \<and> k div 8 < length bs \<and> bit (bs ! (k div 8)) (k mod 8)"
proof (induction bs arbitrary: k)
  case Nil
  then show ?case by simp
next
  case (Cons b bs)
  show ?case
  proof (cases "k < 8")
    case True
    then show ?thesis
      by (auto simp: bit_or_iff bit_push_bit_iff bit_ucast_iff)
  next
    case False
    then have k: "k div 8 = Suc ((k - 8) div 8)" "k mod 8 = (k - 8) mod 8"
      by (auto simp: le_div_geq le_mod_geq)
    have nb: "\<not> bit b k" using False by (auto dest: bit_imp_le_length)
    show ?thesis
      using False nb
      by (auto simp: bit_or_iff bit_push_bit_iff bit_ucast_iff Cons.IH k dest: bit_imp_le_length)
  qed
qed

lemma of_le_le_bytes [le_simps]:
  fixes w :: "'a::len word"
  assumes "LENGTH('a) \<le> 8 * n"
  shows "of_le (le_bytes n w) = w"
proof (rule bit_word_eqI)
  fix k assume k: "k < LENGTH('a)"
  then have "k div 8 < n" using assms by auto
  then show "bit (of_le (le_bytes n w) :: 'a word) k = bit w k"
    using k by (auto simp: bit_of_le nth_le_bytes bit_ucast_iff bit_drop_bit_eq dest: bit_imp_le_length)
qed

lemma le_bytes_of_le [le_simps]:
  assumes "8 * length bs \<le> LENGTH('a::len)"
  shows "le_bytes (length bs) (of_le bs :: 'a word) = bs"
proof (rule nth_equalityI)
  show "length (le_bytes (length bs) (of_le bs :: 'a word)) = length bs" by simp
next
  fix i assume "i < length (le_bytes (length bs) (of_le bs :: 'a word))"
  then have i: "i < length bs" by simp
  show "le_bytes (length bs) (of_le bs :: 'a word) ! i = bs ! i"
  proof (rule bit_word_eqI)
    fix k assume k: "k < LENGTH(8)"
    then have "8 * i + k < LENGTH('a)" using i assms by auto
    moreover have "(8 * i + k) div 8 = i" "(8 * i + k) mod 8 = k" using k by auto
    ultimately show "bit (le_bytes (length bs) (of_le bs :: 'a word) ! i) k = bit (bs ! i) k"
      using i k by (simp add: nth_le_bytes bit_ucast_iff bit_drop_bit_eq bit_of_le)
  qed
qed

lemma of_le_append_zeros:
  "(of_le (bs @ replicate n 0) :: 'a::len word) = of_le bs"
  by (rule bit_word_eqI) (auto simp: bit_of_le nth_append)

subsection \<open>Arrays of 32-bit words seen as bytes\<close>

definition words_to_bytes :: "u32 list \<Rightarrow> byte list" where
  "words_to_bytes ws = concat (map (le_bytes 4) ws)"

fun bytes_to_words :: "byte list \<Rightarrow> u32 list" where
  "bytes_to_words (a # b # c # d # bs) = of_le [a, b, c, d] # bytes_to_words bs"
| "bytes_to_words _ = []"

lemma le_bytes_4: "le_bytes 4 w =
    [ucast w, ucast (drop_bit 8 w), ucast (drop_bit 16 w), ucast (drop_bit 24 w)]"
  by (simp add: le_bytes_def upt_rec)

lemma length_words_to_bytes [simp]: "length (words_to_bytes ws) = 4 * length ws"
  by (induction ws) (simp_all add: words_to_bytes_def)

lemma words_to_bytes_Nil [simp]: "words_to_bytes [] = []"
  by (simp add: words_to_bytes_def)

lemma words_to_bytes_Cons [simp]: "words_to_bytes (w # ws) = le_bytes 4 w @ words_to_bytes ws"
  by (simp add: words_to_bytes_def)

lemma words_to_bytes_append [simp]:
  "words_to_bytes (xs @ ys) = words_to_bytes xs @ words_to_bytes ys"
  by (simp add: words_to_bytes_def)

lemma bytes_to_words_le_append [simp]:
  "bytes_to_words (le_bytes 4 w @ bs) = w # bytes_to_words bs"
proof -
  have "of_le (le_bytes 4 w) = w" by (rule of_le_le_bytes) simp
  then show ?thesis by (simp add: le_bytes_4)
qed

lemma bytes_to_words_inverse [simp]: "bytes_to_words (words_to_bytes ws) = ws"
  by (induction ws) simp_all

lemma length_bytes_to_words: "length (bytes_to_words bs) = length bs div 4"
  by (induction bs rule: bytes_to_words.induct) auto

lemma bytes_to_words_append:
  "length xs mod 4 = 0 \<Longrightarrow> bytes_to_words (xs @ ys) = bytes_to_words xs @ bytes_to_words ys"
proof (induction xs rule: bytes_to_words.induct)
  case (1 a b c d bs)
  then show ?case by simp
qed auto

lemma take_words_to_bytes: "take (4 * i) (words_to_bytes ws) = words_to_bytes (take i ws)"
proof (induction ws arbitrary: i)
  case (Cons w ws)
  then show ?case by (cases i) auto
qed simp

lemma drop_words_to_bytes: "drop (4 * i) (words_to_bytes ws) = words_to_bytes (drop i ws)"
proof (induction ws arbitrary: i)
  case (Cons w ws)
  then show ?case by (cases i) auto
qed simp

text \<open>An aligned four-byte copy into a word array is the update of one element.\<close>

lemma mem_write_word:
  assumes "i < length ws"
  shows "mem_write (words_to_bytes ws) (4 * i) (le_bytes 4 w) = Some (words_to_bytes (ws[i := w]))"
proof -
  have "drop (4 * i + 4) (words_to_bytes ws) = words_to_bytes (drop (Suc i) ws)"
    using drop_words_to_bytes [of "Suc i" ws] by (simp add: add.commute)
  then show ?thesis
    using assms
    by (simp add: mem_write_def take_words_to_bytes upd_conv_take_nth_drop)
qed

lemma mem_read_word:
  assumes "i < length ws"
  shows "mem_read (words_to_bytes ws) (4 * i) 4 = Some (le_bytes 4 (ws ! i))"
proof -
  have "drop i ws = ws ! i # drop (Suc i) ws" using assms by (simp add: Cons_nth_drop_Suc)
  then show ?thesis
    using assms by (simp add: mem_read_def drop_words_to_bytes)
qed

section \<open>The interface of a byte-addressed store\<close>

text \<open>
  The contract between the code that copies integers in and out of a structure and the
  structure: bounds, and which bytes a later read returns.
\<close>

locale byte_store =
  fixes rd :: "'m \<Rightarrow> 'a \<Rightarrow> nat \<Rightarrow> byte list option"
    and wr :: "'m \<Rightarrow> 'a \<Rightarrow> byte list \<Rightarrow> 'm option"
    and cap :: "'m \<Rightarrow> nat"
    and off :: "'a \<Rightarrow> nat"
  assumes rd_ok: "rd m a n = None \<longleftrightarrow> cap m < off a + n"
    and wr_ok: "wr m a d = None \<longleftrightarrow> cap m < off a + length d"
    and wr_cap: "wr m a d = Some m' \<Longrightarrow> cap m' = cap m"
    and rd_len: "rd m a n = Some d \<Longrightarrow> length d = n"
    and rd_wr_same: "wr m a d = Some m' \<Longrightarrow> rd m' a (length d) = Some d"
    and rd_wr_other: "wr m a d = Some m' \<Longrightarrow> off a' + n \<le> off a \<or> off a + length d \<le> off a' \<Longrightarrow>
           rd m' a' n = rd m a' n"
begin

lemma wr_some: "off a + length d \<le> cap m \<Longrightarrow> \<exists>m'. wr m a d = Some m'"
  using wr_ok [of m a d] by (cases "wr m a d") auto

lemma rd_some: "off a + n \<le> cap m \<Longrightarrow> \<exists>d. rd m a n = Some d"
  using rd_ok [of m a n] by (cases "rd m a n") auto

text \<open>An integer stored little-endian is read back as itself.\<close>

lemma load_store:
  assumes "wr m a (le_bytes n (w :: 'w::len word)) = Some m'" and "LENGTH('w) \<le> 8 * n"
  shows "map_option of_le (rd m' a n) = Some w"
  using rd_wr_same [OF assms(1)] assms(2) by (simp add: of_le_le_bytes)

text \<open>Stores to disjoint ranges leave each other's integer alone.\<close>

lemma load_store_other:
  assumes "wr m a (le_bytes n (w :: 'w::len word)) = Some m'"
    and "off a' + k \<le> off a \<or> off a + n \<le> off a'"
  shows "rd m' a' k = rd m a' k"
  using rd_wr_other [OF assms(1), of a' k] assms(2) by simp

end

interpretation buf: byte_store mem_read mem_write length id
  by unfold_locales
    (auto simp: mem_simps mem_write_length mem_read_length mem_read_write_same
      intro: mem_read_write_other)

text \<open>The low byte of sums and counters.\<close>

lemma ucast_add_low: "ucast (a + b :: u32) = (ucast a + ucast b :: byte)"
  by (rule word_unat_eq_iff [THEN iffD2])
    (simp add: unat_word_ariths unsigned_ucast_eq take_bit_eq_mod mod_mod_cancel mod_add_eq)

lemma ucast_of_nat_low: "ucast (of_nat k :: u32) = (of_nat k :: byte)"
  by (rule word_unat_eq_iff [THEN iffD2])
    (simp add: unat_of_nat unsigned_ucast_eq take_bit_eq_mod mod_mod_cancel)

text \<open>A 32-bit integer as the low half of a 64-bit one.\<close>

lemma le_bytes_ucast: "le_bytes 8 (ucast (x :: u32) :: u64) = le_bytes 4 x @ replicate 4 0"
proof (rule nth_equalityI)
  fix i assume "i < length (le_bytes 8 (ucast x :: u64))"
  then have i: "i < 8" by simp
  have hi: "\<not> bit x (8 * i + n)" if "4 \<le> i" for n
    using bit_imp_le_length [of x "8 * i + n"] that by auto
  show "le_bytes 8 (ucast x :: u64) ! i = (le_bytes 4 x @ replicate 4 0) ! i"
    using i hi by (cases "i < 4") (auto simp: nth_append nth_le_bytes bit_simps intro!: bit_word_eqI)
qed simp

lemma take_4_bytes: "take 4 (le_bytes 8 (ucast (x :: u32) :: u64)) = le_bytes 4 x"
  by (simp add: le_bytes_ucast)

lemma ucast_u32_zero: "(ucast (x :: u32) :: u64) = 0 \<longleftrightarrow> x = 0"
proof -
  have "unat (ucast x :: u64) = unat x" by (rule unat_ucast_up) simp
  then show ?thesis by (simp add: word_unat_eq_iff)
qed

end
