(* ===== verification/Drv_Core.thy ===== *)
theory Drv_Core
  imports Vp_Prelude "HOL-Library.Multiset"
begin

text \<open>
  What the two Linux drivers of the repository share word for word,
  \<open>src/src/dma/sw/k/kdma.c\<close> and \<open>src/src/sbone/k/sbone.c\<close>: the bitmap of allocated devices, the
  mapping of the BARs, \<open>probe\<close> with its error labels and \<open>remove\<close>. The lines named here are
  those of \<open>kdma.c\<close>; the theories of the drivers instantiate the definitions.

  The kernel is not part of the repository. The results of its functions are an environment, and
  the calls of the driver with their results are a log, from which the properties compute what
  the driver holds.
\<close>

section \<open>Atomic words\<close>

type_synonym atomic32 = u32

definition atomic32_init :: "atomic32 \<Rightarrow> atomic32" where "atomic32_init x = 0"

text \<open>The previous value and the new one.\<close>

definition atomic32_or :: "atomic32 \<Rightarrow> u32 \<Rightarrow> u32 \<times> atomic32" where
  "atomic32_or x v = (x, x OR v)"

definition atomic32_and :: "atomic32 \<Rightarrow> u32 \<Rightarrow> u32 \<times> atomic32" where
  "atomic32_and x v = (x, x AND v)"

definition atomic32_inc :: "atomic32 \<Rightarrow> u32 \<times> atomic32" where
  "atomic32_inc x = (x, x + 1)"

section \<open>The table of devices\<close>

text \<open>
  The part of \<open>kdma_dev_t\<close> and \<open>sbone_dev_t\<close> that both have; \<open>dv_pci\<close> is the PCI device, by its
  pointer.
\<close>

record drv_dev =
  dv_pci :: ptr
  dv_vadr :: "u64 list"
  dv_len :: "u64 list"

text \<open>\<open>kdma_driver_t\<close> and \<open>sbone_driver_t\<close>: a device is known by its index.\<close>

record 'd drv =
  d_devs :: "'d list"
  d_bits :: atomic32
  d_major :: int

definition NBAR :: nat where [const_defs]: "NBAR = 6"

definition ENOMEM :: int where [const_defs]: "ENOMEM = 12"
definition EFAULT :: int where [const_defs]: "EFAULT = 14"
definition EINVAL :: int where [const_defs]: "EINVAL = 22"
definition ENOSYS :: int where [const_defs]: "ENOSYS = 38"

definition dev_init_bars :: "'z drv_dev_scheme \<Rightarrow> 'z drv_dev_scheme" where
  "dev_init_bars dev = dev\<lparr>dv_vadr := replicate NBAR 0, dv_len := replicate NBAR 0\<rparr>"

section \<open>Allocating a device\<close>

text \<open>
  One iteration of the loop of \<open>dev_alloc\<close> at index \<open>i\<close>, with the rest \<open>x\<close> of the captured
  value; \<open>bits\<close> is the bitmap at the moment of the atomic access.
\<close>

datatype alloc_res = Alloc_Full | Alloc_Got | Alloc_Next

definition alloc_iter :: "nat \<Rightarrow> nat \<Rightarrow> u32 \<Rightarrow> atomic32 \<Rightarrow> alloc_res \<times> atomic32" where
  "alloc_iter ndev i x bits =
     (let mask = push_bit (ndev - i) 1 - 1 in
      if x AND mask = mask then (Alloc_Full, bits)
      else if x AND 1 = 0 then
        let mask = push_bit i 1; (prev, bits) = atomic32_or bits mask in
        if prev AND mask = 0 then (Alloc_Got, bits) else (Alloc_Next, bits)
      else (Alloc_Next, bits))"

text \<open>
  The loop. \<open>others i\<close> is what other processors do to the bitmap before the access of iteration
  \<open>i\<close>; it is the identity when there are none.
\<close>

function dev_alloc_loop ::
  "(nat \<Rightarrow> atomic32 \<Rightarrow> atomic32) \<Rightarrow> nat \<Rightarrow> nat \<Rightarrow> u32 \<Rightarrow> atomic32 \<Rightarrow> nat option \<times> atomic32" where
  "dev_alloc_loop others ndev i x bits =
     (if i < ndev then
        case alloc_iter ndev i x (others i bits) of
          (Alloc_Full, bits) \<Rightarrow> (None, bits)
        | (Alloc_Got, bits) \<Rightarrow> (Some i, bits)
        | (Alloc_Next, bits) \<Rightarrow> dev_alloc_loop others ndev (i + 1) (drop_bit 1 x) bits
      else (None, bits))"
  by pat_completeness auto

termination dev_alloc_loop
  by (relation "measure (\<lambda>(_, ndev, i, _). ndev - i)") auto

declare dev_alloc_loop.simps [simp del]

definition dev_alloc ::
  "('d \<Rightarrow> 'd) \<Rightarrow> nat \<Rightarrow> (nat \<Rightarrow> atomic32 \<Rightarrow> atomic32) \<Rightarrow> ('d, 'y) drv_scheme \<Rightarrow>
     nat option \<times> ('d, 'y) drv_scheme" where
  "dev_alloc dev_init ndev others drv =
     (let x = d_bits drv;
          (r, bits) = dev_alloc_loop others ndev 0 x (d_bits drv);
          drv = drv\<lparr>d_bits := bits\<rparr>
      in case r of
           None \<Rightarrow> (None, drv)
         | Some i \<Rightarrow> (Some i, drv\<lparr>d_devs := (d_devs drv)[i := dev_init (d_devs drv ! i)]\<rparr>))"

definition dev_free :: "nat \<Rightarrow> ('d, 'y) drv_scheme \<Rightarrow> ('d, 'y) drv_scheme" where
  "dev_free i drv = (let mask = NOT (push_bit i 1) in
     drv\<lparr>d_bits := snd (atomic32_and (d_bits drv) mask)\<rparr>)"

definition is_dev_allocated :: "nat \<Rightarrow> ('d, 'y) drv_scheme \<Rightarrow> bool" where
  "is_dev_allocated i drv \<longleftrightarrow> d_bits drv AND push_bit i 1 \<noteq> 0"

text \<open>
  A device pointer is an address here: \<open>base\<close> is that of the table and \<open>sz\<close> the size of an
  element.
\<close>

definition dev_to_bit32 :: "u64 \<Rightarrow> u64 \<Rightarrow> u64 \<Rightarrow> u32" where
  "dev_to_bit32 base sz dev = ucast (ucast ((ucast (dev - base) :: u32)) div sz)"

definition bit32_to_dev :: "u64 \<Rightarrow> u64 \<Rightarrow> u32 \<Rightarrow> u64" where
  "bit32_to_dev base sz x = base + ucast x * sz"

definition is_dev_valid :: "u64 \<Rightarrow> u64 \<Rightarrow> nat \<Rightarrow> u64 \<Rightarrow> bool" where
  "is_dev_valid base sz ndev dev \<longleftrightarrow>
     \<not> dev < base \<and> \<not> base + of_nat ndev * sz \<le> dev"

section \<open>Kernel calls\<close>

text \<open>The calls of the drivers, with their results where the caller looks at them.\<close>

datatype kcall =
    K_enable_device int | K_disable_device
  | K_request_region nat int | K_release_region nat
  | K_ioremap u64 u64 ptr | K_iounmap ptr
  | K_enable_msi int | K_disable_msi
  | K_request_irq nat int | K_free_irq nat
  | K_cdev_add nat int | K_cdev_del nat
  | K_set_drvdata "nat option"

section \<open>Mapping the BARs\<close>

definition IORESOURCE_MEM :: u64 where [const_defs]: "IORESOURCE_MEM = 0x200"

text \<open>The resources of a PCI device, and what requesting and mapping each of them returns.\<close>

record bar_env =
  be_flags :: "nat \<Rightarrow> u64"
  be_start :: "nat \<Rightarrow> u64"
  be_len :: "nat \<Rightarrow> u64"
  be_request :: "nat \<Rightarrow> int"
  be_ioremap :: "nat \<Rightarrow> ptr"

definition unmap_bar ::
  "nat \<Rightarrow> kcall list \<times> 'z drv_dev_scheme \<Rightarrow> kcall list \<times> 'z drv_dev_scheme" where
  "unmap_bar i = (\<lambda>(calls, dev).
     if dv_vadr dev ! i \<noteq> 0 then
       (calls @ [K_release_region i, K_iounmap (dv_vadr dev ! i)],
        dev\<lparr>dv_vadr := (dv_vadr dev)[i := 0], dv_len := (dv_len dev)[i := 0]\<rparr>)
     else (calls, dev))"

definition dev_unmap_bars :: "'z drv_dev_scheme \<Rightarrow> kcall list \<times> 'z drv_dev_scheme" where
  "dev_unmap_bars dev = fold unmap_bar [0..<NBAR] ([], dev)"

definition map_bar ::
  "('e bar_env_scheme) \<Rightarrow> nat \<Rightarrow> int \<times> kcall list \<times> 'z drv_dev_scheme \<Rightarrow>
     int \<times> kcall list \<times> 'z drv_dev_scheme" where
  "map_bar e i = (\<lambda>(err, calls, dev).
     let flags = be_flags e i; addr = be_start e i; len = be_len e i in
     if err = 0 \<and> flags AND IORESOURCE_MEM \<noteq> 0 \<and> addr \<noteq> 0 \<and> len \<noteq> 0 then
       let err = be_request e i; calls = calls @ [K_request_region i err] in
       if err \<noteq> 0 then
         (err, calls, dev\<lparr>dv_len := (dv_len dev)[i := 0], dv_vadr := (dv_vadr dev)[i := 0]\<rparr>)
       else
         let v = be_ioremap e i; calls = calls @ [K_ioremap addr len v];
             dev = dev\<lparr>dv_vadr := (dv_vadr dev)[i := v], dv_len := (dv_len dev)[i := len]\<rparr> in
         if dv_vadr dev ! i = 0 then (- ENOMEM, calls, dev\<lparr>dv_len := (dv_len dev)[i := 0]\<rparr>)
         else (err, calls, dev)
     else (err, calls, dev\<lparr>dv_vadr := (dv_vadr dev)[i := 0], dv_len := (dv_len dev)[i := 0]\<rparr>))"

definition dev_map_bars ::
  "('e bar_env_scheme) \<Rightarrow> 'z drv_dev_scheme \<Rightarrow> int \<times> kcall list \<times> 'z drv_dev_scheme" where
  "dev_map_bars e dev =
     (let (err, calls, dev) = fold (map_bar e) [0..<NBAR] (0, [], dev) in
      if err \<noteq> 0 then let (calls', dev) = dev_unmap_bars dev in (err, calls @ calls', dev)
      else (err, calls, dev))"

section \<open>probe and remove\<close>

record probe_env = bar_env +
  pe_is_enabled :: bool
  pe_enable :: int
  pe_msi :: int
  pe_irq :: int
  pe_cdev :: int

text \<open>The labels of \<open>probe\<close>, each falling through to the next.\<close>

definition on_error_1 ::
  "nat \<Rightarrow> int \<Rightarrow> kcall list \<Rightarrow> ('d, 'y) drv_scheme \<Rightarrow> int \<times> kcall list \<times> ('d, 'y) drv_scheme" where
  "on_error_1 i err calls drv = (err, calls @ [K_set_drvdata None], dev_free i drv)"

definition on_error_2 ::
  "nat \<Rightarrow> int \<Rightarrow> kcall list \<Rightarrow> ('z drv_dev_scheme, 'y) drv_scheme \<Rightarrow>
     int \<times> kcall list \<times> ('z drv_dev_scheme, 'y) drv_scheme" where
  "on_error_2 i err calls drv =
     (let (c, dev) = dev_unmap_bars (d_devs drv ! i) in
      on_error_1 i err (calls @ c @ [K_disable_device]) (drv\<lparr>d_devs := (d_devs drv)[i := dev]\<rparr>))"

definition on_error_3 ::
  "nat \<Rightarrow> int \<Rightarrow> kcall list \<Rightarrow> ('z drv_dev_scheme, 'y) drv_scheme \<Rightarrow>
     int \<times> kcall list \<times> ('z drv_dev_scheme, 'y) drv_scheme" where
  "on_error_3 i err calls drv = on_error_2 i err (calls @ [K_disable_msi]) drv"

definition on_error_4 ::
  "nat \<Rightarrow> int \<Rightarrow> kcall list \<Rightarrow> ('z drv_dev_scheme, 'y) drv_scheme \<Rightarrow>
     int \<times> kcall list \<times> ('z drv_dev_scheme, 'y) drv_scheme" where
  "on_error_4 i err calls drv = on_error_3 i err (calls @ [K_free_irq i]) drv"

text \<open>\<open>probe\<close> once device \<open>i\<close> is allocated.\<close>

definition probe_rest ::
  "probe_env \<Rightarrow> nat \<Rightarrow> ('z drv_dev_scheme, 'y) drv_scheme \<Rightarrow>
     int \<times> kcall list \<times> ('z drv_dev_scheme, 'y) drv_scheme" where
  "probe_rest e i drv =
     (let calls = [K_set_drvdata (Some i)];
          (err, calls) = (if pe_is_enabled e then (0, calls)
                          else (pe_enable e, calls @ [K_enable_device (pe_enable e)])) in
      if err \<noteq> 0 then on_error_1 i err calls drv else
      let (err, c, dev) = dev_map_bars e (d_devs drv ! i);
          drv = drv\<lparr>d_devs := (d_devs drv)[i := dev]\<rparr>; calls = calls @ c in
      if err \<noteq> 0 then on_error_2 i err calls drv else
      let err = pe_msi e; calls = calls @ [K_enable_msi err] in
      if err \<noteq> 0 then on_error_2 i err calls drv else
      let err = pe_irq e; calls = calls @ [K_request_irq i err] in
      if err \<noteq> 0 then on_error_3 i err calls drv else
      let err = pe_cdev e; calls = calls @ [K_cdev_add i err] in
      if err \<noteq> 0 then on_error_4 i err calls drv
      else (0, calls, drv))"

definition pci_probe ::
  "('z drv_dev_scheme \<Rightarrow> 'z drv_dev_scheme) \<Rightarrow> nat \<Rightarrow> (nat \<Rightarrow> atomic32 \<Rightarrow> atomic32) \<Rightarrow> probe_env \<Rightarrow> ptr \<Rightarrow>
     ('z drv_dev_scheme, 'y) drv_scheme \<Rightarrow> int \<times> kcall list \<times> ('z drv_dev_scheme, 'y) drv_scheme" where
  "pci_probe dev_init ndev others e pci drv =
     (case dev_alloc dev_init ndev others drv of
        (None, drv) \<Rightarrow> (- ENOMEM, [], drv)
      | (Some i, drv) \<Rightarrow>
          probe_rest e i (drv\<lparr>d_devs := (d_devs drv)[i := (d_devs drv ! i)\<lparr>dv_pci := pci\<rparr>]\<rparr>))"

text \<open>\<open>remove\<close> of the device found in the driver data of the PCI device.\<close>

definition pci_remove ::
  "nat \<Rightarrow> ('z drv_dev_scheme, 'y) drv_scheme \<Rightarrow> kcall list \<times> ('z drv_dev_scheme, 'y) drv_scheme" where
  "pci_remove i drv =
     (let calls = [K_cdev_del i, K_free_irq i, K_disable_msi];
          (c, dev) = dev_unmap_bars (d_devs drv ! i);
          drv = drv\<lparr>d_devs := (d_devs drv)[i := dev]\<rparr>
      in (calls @ c @ [K_disable_device, K_set_drvdata None], dev_free i drv))"

text \<open>PCI error recovery.\<close>

datatype pci_channel_state = Io_normal | Io_frozen | Io_perm_failure

datatype pci_ers_result = Ers_Disconnect | Ers_Need_reset | Ers_Recovered

definition error_detected :: "pci_channel_state \<Rightarrow> pci_ers_result \<times> kcall list" where
  "error_detected s = (if s = Io_perm_failure then (Ers_Disconnect, [])
     else (Ers_Need_reset, [K_disable_device]))"

section \<open>The bitmap allocator\<close>

lemma and_mask_full: "(x :: u32) AND (push_bit n 1 - 1) = push_bit n 1 - 1 \<longleftrightarrow> (\<forall>k<n. k < 32 \<longrightarrow> bit x k)"
proof -
  have m: "(push_bit n 1 - 1 :: u32) = mask n" by (simp add: mask_eq_exp_minus_1 push_bit_eq_mult)
  have "x AND mask n = mask n \<longleftrightarrow> (\<forall>k<32. bit (x AND mask n) k = bit (mask n :: u32) k)"
    by (auto intro: bit_word_eqI)
  then show ?thesis unfolding m by (auto simp: bit_and_iff bit_mask_iff)
qed

lemma and_bit_iff: "(x :: u32) AND push_bit i 1 = 0 \<longleftrightarrow> \<not> bit x i"
  using and_exp_eq_0_iff_not_bit [of x i] by (simp add: push_bit_eq_mult)

lemma or_bit_iff: "bit ((x :: u32) OR push_bit i 1) j \<longleftrightarrow> bit x j \<or> j = i \<and> i < 32"
  by (auto simp: bit_or_iff bit_exp_iff)

lemma clear_bit_iff: "bit ((x :: u32) AND NOT (push_bit i 1)) j \<longleftrightarrow> bit x j \<and> j \<noteq> i"
  by (auto simp: bit_and_iff bit_not_iff bit_exp_iff dest: bit_imp_le_length)

lemmas set_bit_simps = or_bit_iff [simplified] clear_bit_iff [simplified]

lemma alloc_iter_cases:
  "alloc_iter ndev i x b =
     (if \<forall>k<ndev - i. k < 32 \<longrightarrow> bit x k then (Alloc_Full, b)
      else if bit x 0 then (Alloc_Next, b)
      else if bit b i then (Alloc_Next, b)
      else (Alloc_Got, b OR push_bit i 1))"
proof -
  have x0: "x AND 1 = 0 \<longleftrightarrow> \<not> bit x 0" using and_bit_iff [of x 0] by simp
  have same: "b OR push_bit i 1 = b" if "bit b i"
    by (rule bit_word_eqI) (use that or_bit_iff [of b i] in auto)
  show ?thesis
    unfolding alloc_iter_def Let_def atomic32_or_def and_mask_full x0
    by (simp only: prod.case and_bit_iff) (use same in simp)
qed

lemma alloc_iter_disj:
  "alloc_iter ndev i x b = (Alloc_Full, b) \<or> alloc_iter ndev i x b = (Alloc_Next, b) \<or>
   alloc_iter ndev i x b = (Alloc_Got, b OR push_bit i 1) \<and> \<not> bit b i"
  unfolding alloc_iter_cases by simp

text \<open>Alone, the loop finds the first free device and takes exactly its bit.\<close>

lemma alloc_loop_alone:
  assumes "ndev < 32"
  shows "dev_alloc_loop (\<lambda>_ b. b) ndev i (drop_bit i bits) bits =
     (case find (\<lambda>j. \<not> bit bits j) [i..<ndev] of None \<Rightarrow> (None, bits)
      | Some j \<Rightarrow> (Some j, bits OR push_bit j 1))"
proof (induction "ndev - i" arbitrary: i)
  case 0
  then show ?case by (subst dev_alloc_loop.simps) simp
next
  case (Suc n)
  then have i: "i < ndev" by simp
  have upt: "[i..<ndev] = i # [Suc i..<ndev]" using i by (simp add: upt_conv_Cons)
  have IH: "dev_alloc_loop (\<lambda>_ b. b) ndev (i + 1) (drop_bit 1 (drop_bit i bits)) bits =
     (case find (\<lambda>j. \<not> bit bits j) [Suc i..<ndev] of None \<Rightarrow> (None, bits)
      | Some j \<Rightarrow> (Some j, bits OR push_bit j 1))"
    using Suc.hyps(1) [of "Suc i"] Suc.hyps(2) by (simp add: drop_bit_drop_bit)
  have full: "(\<forall>k<ndev - i. k < 32 \<longrightarrow> bit (drop_bit i bits) k) \<longleftrightarrow> find (\<lambda>j. \<not> bit bits j) [i..<ndev] = None"
  proof -
    have "(\<forall>k<ndev - i. k < 32 \<longrightarrow> bit (drop_bit i bits) k) \<longleftrightarrow> (\<forall>j\<in>{i..<ndev}. bit bits j)"
    proof (intro iffI ballI allI impI)
      fix j assume a: "\<forall>k<ndev - i. k < 32 \<longrightarrow> bit (drop_bit i bits) k" and "j \<in> {i..<ndev}"
      with assms have "j - i < ndev - i" "j - i < 32" "i + (j - i) = j" by auto
      with a show "bit bits j" by (metis bit_drop_bit_eq comp_apply)
    next
      fix k assume "\<forall>j\<in>{i..<ndev}. bit bits j" "k < ndev - i"
      then show "bit (drop_bit i bits) k" by (simp add: bit_drop_bit_eq)
    qed
    then show ?thesis by (auto simp: find_None_iff)
  qed
  show ?case
  proof (cases "find (\<lambda>j. \<not> bit bits j) [i..<ndev]")
    case None
    then show ?thesis using full i by (subst dev_alloc_loop.simps) (simp add: alloc_iter_cases)
  next
    case (Some j)
    then have nf: "\<not> (\<forall>k<ndev - i. k < 32 \<longrightarrow> bit (drop_bit i bits) k)" using full by simp
    then have it: "alloc_iter ndev i (drop_bit i bits) bits =
        (if bit bits i then (Alloc_Next, bits) else (Alloc_Got, bits OR push_bit i 1))"
      unfolding alloc_iter_cases if_not_P [OF nf] by (simp add: bit_drop_bit_eq)
    show ?thesis
      by (subst dev_alloc_loop.simps) (use i it IH upt in simp)
  qed
qed

text \<open>
  Whatever other processors do, a device handed out was free at the atomic access that took it.
\<close>

lemma alloc_loop_taken:
  "dev_alloc_loop others ndev i x bits = (Some j, bits') \<Longrightarrow>
     i \<le> j \<and> j < ndev \<and> (\<exists>b. \<not> bit b j \<and> bits' = b OR push_bit j 1)"
proof (induction "ndev - i" arbitrary: i x bits)
  case 0
  then show ?case by (subst (asm) dev_alloc_loop.simps) simp
next
  case (Suc n)
  then have i: "i < ndev" by simp
  from alloc_iter_disj [of ndev i x "others i bits"] show ?case
  proof (elim disjE conjE)
    assume "alloc_iter ndev i x (others i bits) = (Alloc_Full, others i bits)"
    with Suc.prems i show ?thesis by (subst (asm) dev_alloc_loop.simps) simp
  next
    assume "alloc_iter ndev i x (others i bits) = (Alloc_Next, others i bits)"
    with Suc.prems i have "dev_alloc_loop others ndev (i + 1) (drop_bit 1 x) (others i bits) = (Some j, bits')"
      by (subst (asm) dev_alloc_loop.simps) simp
    moreover have "n = ndev - (i + 1)" using Suc.hyps(2) by simp
    ultimately have "i + 1 \<le> j \<and> j < ndev \<and> (\<exists>b. \<not> bit b j \<and> bits' = b OR push_bit j 1)"
      using Suc.hyps(1) by blast
    then show ?thesis by auto
  next
    assume 3: "alloc_iter ndev i x (others i bits) = (Alloc_Got, others i bits OR push_bit i 1)"
      "\<not> bit (others i bits) i"
    with Suc.prems i have "j = i" "bits' = others i bits OR push_bit i 1"
      by (subst (asm) dev_alloc_loop.simps; simp)+
    with 3 i show ?thesis by blast
  qed
qed

section \<open>The interface of the device allocator\<close>

text \<open>The devices in use, of the \<open>ndev\<close> there are.\<close>

definition used_devs :: "nat \<Rightarrow> ('d, 'y) drv_scheme \<Rightarrow> nat set" where
  "used_devs ndev drv = {i. i < ndev \<and> bit (d_bits drv) i}"

locale dev_allocator =
  fixes alloc :: "'s \<Rightarrow> nat option \<times> 's"
    and release :: "nat \<Rightarrow> 's \<Rightarrow> 's"
    and used :: "'s \<Rightarrow> nat set"
    and cap :: nat
  assumes alloc_some: "alloc s = (Some i, s') \<Longrightarrow> i < cap \<and> i \<notin> used s \<and> used s' = insert i (used s)"
    and alloc_none: "alloc s = (None, s') \<Longrightarrow> used s' = used s \<and> {..<cap} \<subseteq> used s"
    and release_used: "used (release i s) = used s - {i}"
begin

fun alloc_many :: "nat \<Rightarrow> 's \<Rightarrow> nat option list \<times> 's" where
  "alloc_many 0 s = ([], s)"
| "alloc_many (Suc n) s = (let (r, s) = alloc s; (rs, s) = alloc_many n s in (r # rs, s))"

lemma release_alloc: "alloc s = (Some i, s') \<Longrightarrow> used (release i s') = used s"
  using alloc_some [of s i s'] by (auto simp: release_used)

text \<open>Devices handed out and not released are all different and below the capacity.\<close>

lemma alloc_many_distinct:
  "alloc_many n s = (rs, s') \<Longrightarrow>
     distinct (List.map_filter id rs) \<and> set (List.map_filter id rs) \<inter> used s = {} \<and>
     set (List.map_filter id rs) \<subseteq> {..<cap} \<and> used s' = used s \<union> set (List.map_filter id rs)"
proof (induction n arbitrary: s rs s')
  case 0
  then show ?case by (simp add: map_filter_simps)
next
  case (Suc n)
  obtain r s1 where 1: "alloc s = (r, s1)" by (cases "alloc s")
  obtain rs2 s2 where 2: "alloc_many n s1 = (rs2, s2)" by (cases "alloc_many n s1")
  have e: "rs = r # rs2" "s' = s2" using Suc.prems 1 2 by auto
  note IH = Suc.IH [OF 2]
  show ?case
  proof (cases r)
    case None
    then show ?thesis using IH e alloc_none [of s s1] 1 by (auto simp: map_filter_simps)
  next
    case (Some i)
    then show ?thesis using IH e alloc_some [of s i s1] 1 by (auto simp: map_filter_simps)
  qed
qed

end

lemma dev_alloc_result:
  assumes "ndev < 32"
  shows "dev_alloc ini ndev (\<lambda>_ b. b) drv = (case find (\<lambda>j. \<not> bit (d_bits drv) j) [0..<ndev] of
      None \<Rightarrow> (None, drv)
    | Some i \<Rightarrow> (Some i, drv\<lparr>d_bits := d_bits drv OR push_bit i 1,
          d_devs := (d_devs drv)[i := ini (d_devs drv ! i)]\<rparr>))"
  using alloc_loop_alone [OF assms, of 0 "d_bits drv"]
  by (simp add: dev_alloc_def split: option.split)

lemma dev_allocator_impl:
  assumes "ndev < 32"
  shows "dev_allocator (dev_alloc ini ndev (\<lambda>_ b. b)) dev_free (used_devs ndev) ndev"
proof
  fix s :: "('a, 'b) drv_scheme" and i s'
  assume "dev_alloc ini ndev (\<lambda>_ b. b) s = (Some i, s')"
  then have "find (\<lambda>j. \<not> bit (d_bits s) j) [0..<ndev] = Some i" "d_bits s' = d_bits s OR push_bit i 1"
    by (auto simp: dev_alloc_result [OF assms] split: option.splits)
  then show "i < ndev \<and> i \<notin> used_devs ndev s \<and> used_devs ndev s' = insert i (used_devs ndev s)"
    using assms by (auto simp: find_Some_iff used_devs_def set_bit_simps)
next
  fix s :: "('a, 'b) drv_scheme" and s'
  assume "dev_alloc ini ndev (\<lambda>_ b. b) s = (None, s')"
  then show "used_devs ndev s' = used_devs ndev s \<and> {..<ndev} \<subseteq> used_devs ndev s"
    by (auto simp: dev_alloc_result [OF assms] find_None_iff used_devs_def split: option.splits)
next
  fix s :: "('a, 'b) drv_scheme" and i
  show "used_devs ndev (dev_free i s) = used_devs ndev s - {i}"
    by (auto simp: used_devs_def dev_free_def atomic32_and_def Let_def set_bit_simps)
qed

text \<open>
  C32. Without other processors, \<open>dev_alloc\<close> hands out the lowest free device, sets exactly its
  bit and initialises exactly its entry; it fails exactly when all devices are taken, and then
  changes nothing.
\<close>

theorem dev_alloc_lowest_free:
  assumes "ndev < 32"
  shows "dev_alloc ini ndev (\<lambda>_ b. b) drv =
     (if {i. i < ndev \<and> \<not> bit (d_bits drv) i} = {} then (None, drv)
      else let i = (LEAST i. i < ndev \<and> \<not> bit (d_bits drv) i) in
        (Some i, drv\<lparr>d_bits := d_bits drv OR push_bit i 1,
           d_devs := (d_devs drv)[i := ini (d_devs drv ! i)]\<rparr>))"
proof (cases "find (\<lambda>j. \<not> bit (d_bits drv) j) [0..<ndev]")
  case None
  then show ?thesis
    unfolding dev_alloc_result [OF assms] None by (use None in \<open>auto simp: find_None_iff\<close>)
next
  case (Some i)
  then have i: "i < ndev" "\<not> bit (d_bits drv) i" "\<forall>j<i. bit (d_bits drv) j"
    by (auto simp: find_Some_iff)
  then have "(LEAST i. i < ndev \<and> \<not> bit (d_bits drv) i) = i"
    by (intro Least_equality) (auto simp: not_less [symmetric])
  with i Some show ?thesis unfolding dev_alloc_result [OF assms] by auto
qed

theorem dev_alloc_lowest_free_witness:
  "fst (dev_alloc dev_init_bars 2 (\<lambda>_ b. b) \<lparr>d_devs = [\<lparr>dv_pci = 0, dv_vadr = [], dv_len = []\<rparr>,
      \<lparr>dv_pci = 0, dv_vadr = [], dv_len = []\<rparr>], d_bits = 1, d_major = 0\<rparr>) = Some 1"
proof -
  let ?drv = "\<lparr>d_devs = [\<lparr>dv_pci = 0, dv_vadr = [], dv_len = []\<rparr>,
      \<lparr>dv_pci = 0, dv_vadr = [], dv_len = []\<rparr>], d_bits = 1, d_major = 0\<rparr>"
  have l: "(LEAST i. i < 2 \<and> \<not> bit (d_bits ?drv) i) = 1"
    by (rule Least_equality) (auto simp: bit_1_iff not_less_eq_eq)
  have "1 \<in> {i. i < 2 \<and> \<not> bit (d_bits ?drv) i}" by (simp add: bit_1_iff)
  then have "{i. i < 2 \<and> \<not> bit (d_bits ?drv) i} \<noteq> {}" by blast
  then show ?thesis
    using dev_alloc_lowest_free [of 2 dev_init_bars ?drv] l by simp
qed

section \<open>The address of a device\<close>

text \<open>
  The index computed from the address of entry \<open>i\<close> is \<open>i\<close>, and the address is taken as valid
  exactly when \<open>i\<close> is an entry of the table.
\<close>

lemma dev_address:
  assumes sz: "sz \<noteq> 0" and base: "unat base + Suc ndev * unat sz \<le> 2 ^ 64" and i: "i * unat sz < 2 ^ 32" "i \<le> ndev"
  shows "unat (dev_to_bit32 base sz (base + of_nat i * sz)) = i"
    and "is_dev_valid base sz ndev (base + of_nat i * sz) \<longleftrightarrow> i < ndev"
    and "bit32_to_dev base sz (of_nat i) = base + of_nat i * sz"
proof -
  have s0: "0 < unat sz" using sz by (simp add: unat_gt_0)
  then have "i * 1 \<le> i * unat sz" by (intro mult_le_mono2) simp
  then have il: "i < 2 ^ 32" using i(1) by linarith
  have u: "unat (of_nat i :: u64) = i" using il by (subst unat_of_nat) simp
  have d: "unat (of_nat i * sz) = i * unat sz"
    using i(1) by (simp add: unat_word_ariths u)
  have c32: "unat (ucast (of_nat i * sz) :: u32) = i * unat sz"
    using i(1) d by (simp add: unat_ucast_mod)
  have c64: "unat (ucast (ucast (of_nat i * sz) :: u32) :: u64) = i * unat sz"
    by (subst unat_ucast_up) (simp_all add: c32)
  have "unat (ucast (ucast (of_nat i * sz) :: u32) div sz :: u64) = i"
    using s0 by (simp add: unat_div_distrib c64)
  then show "unat (dev_to_bit32 base sz (base + of_nat i * sz)) = i"
    using il by (simp add: dev_to_bit32_def unat_ucast_mod)
  have le: "i * unat sz \<le> ndev * unat sz" using i(2) by (rule mult_le_mono1)
  have lt: "unat base + ndev * unat sz < 2 ^ 64" using base s0 by simp
  have a: "unat (base + of_nat i * sz) = unat base + i * unat sz"
  proof -
    have "unat base + i * unat sz < 2 ^ 64" using lt le by linarith
    then show ?thesis by (simp add: unat_word_ariths(1) d)
  qed
  have nl: "ndev < 2 ^ 64"
  proof -
    have "ndev * 1 \<le> ndev * unat sz" using s0 by (intro mult_le_mono2) simp
    then show ?thesis using lt by linarith
  qed
  have "unat (of_nat ndev * sz) = ndev * unat sz"
    using lt unat_of_nat_u64 [OF nl] by (simp add: unat_word_ariths(2))
  then have b: "unat (base + of_nat ndev * sz) = unat base + ndev * unat sz"
    using lt by (simp add: unat_word_ariths(1))
  show "is_dev_valid base sz ndev (base + of_nat i * sz) \<longleftrightarrow> i < ndev"
    using s0 by (simp add: is_dev_valid_def word_less_nat_alt word_le_nat a b not_le)
  have "unat (of_nat i :: u32) = i" using il by (subst unat_of_nat) simp
  then have "(ucast (of_nat i :: u32) :: u64) = of_nat i" by (metis of_nat_unat)
  then show "bit32_to_dev base sz (of_nat i) = base + of_nat i * sz" by (simp add: bit32_to_dev_def)
qed

section \<open>Several processors\<close>

text \<open>
  The allocator run by any number of processors at once: each is idle, in iteration \<open>i\<close> of the
  loop with the rest \<open>x\<close> of the value it captured, or holds a device. One step is one access to
  the bitmap.
\<close>

datatype alloc_pc = P_idle | P_loop nat u32 | P_own nat

type_synonym alloc_sys = "u32 \<times> (nat \<Rightarrow> alloc_pc)"

inductive alloc_step :: "nat \<Rightarrow> alloc_sys \<Rightarrow> alloc_sys \<Rightarrow> bool" for ndev :: nat where
  capture: "pc t = P_idle \<Longrightarrow> alloc_step ndev (b, pc) (b, pc(t := P_loop 0 b))"
| full: "pc t = P_loop i x \<Longrightarrow> i < ndev \<Longrightarrow> alloc_iter ndev i x b = (Alloc_Full, b') \<Longrightarrow>
    alloc_step ndev (b, pc) (b', pc(t := P_idle))"
| got: "pc t = P_loop i x \<Longrightarrow> i < ndev \<Longrightarrow> alloc_iter ndev i x b = (Alloc_Got, b') \<Longrightarrow>
    alloc_step ndev (b, pc) (b', pc(t := P_own i))"
| retry: "pc t = P_loop i x \<Longrightarrow> i < ndev \<Longrightarrow> alloc_iter ndev i x b = (Alloc_Next, b') \<Longrightarrow>
    alloc_step ndev (b, pc) (b', pc(t := P_loop (i + 1) (drop_bit 1 x)))"
| fail: "pc t = P_loop i x \<Longrightarrow> \<not> i < ndev \<Longrightarrow> alloc_step ndev (b, pc) (b, pc(t := P_idle))"
| release: "pc t = P_own i \<Longrightarrow>
    alloc_step ndev (b, pc) (snd (atomic32_and b (NOT (push_bit i 1))), pc(t := P_idle))"

inductive_cases alloc_stepE: "alloc_step ndev (b, pc) s'"

definition alloc_sys_inv :: "nat \<Rightarrow> alloc_sys \<Rightarrow> bool" where
  "alloc_sys_inv ndev = (\<lambda>(b, pc).
     (\<forall>i. bit b i \<longleftrightarrow> (\<exists>t. pc t = P_own i)) \<and>
     (\<forall>t u i. pc t = P_own i \<longrightarrow> pc u = P_own i \<longrightarrow> t = u) \<and>
     (\<forall>t i. pc t = P_own i \<longrightarrow> i < ndev))"

lemma alloc_iter_results:
  "alloc_iter ndev i x b = (Alloc_Full, b') \<Longrightarrow> b' = b"
  "alloc_iter ndev i x b = (Alloc_Next, b') \<Longrightarrow> b' = b"
  "alloc_iter ndev i x b = (Alloc_Got, b') \<Longrightarrow> b' = b OR push_bit i 1 \<and> \<not> bit b i"
  using alloc_iter_disj [of ndev i x b] by auto

lemma alloc_step_inv:
  assumes "ndev < 32" and "alloc_step ndev s s'" and "alloc_sys_inv ndev s"
  shows "alloc_sys_inv ndev s'"
proof -
  obtain b pc where s: "s = (b, pc)" by (cases s)
  have own: "\<And>i. bit b i \<longleftrightarrow> (\<exists>t. pc t = P_own i)"
    "\<And>t u i. pc t = P_own i \<Longrightarrow> pc u = P_own i \<Longrightarrow> t = u" "\<And>t i. pc t = P_own i \<Longrightarrow> i < ndev"
    using assms(3) s by (auto simp: alloc_sys_inv_def)
  have other: "(\<exists>u. (pc(t := q)) u = P_own i) \<longleftrightarrow> (\<exists>u. pc u = P_own i)"
    if "\<And>j. pc t \<noteq> P_own j" "\<And>j. q \<noteq> P_own j" for t q i
    using that by (metis fun_upd_other fun_upd_same)
  have gain: "(\<exists>u. (pc(t := P_own i)) u = P_own j) \<longleftrightarrow> i = j \<or> (\<exists>u. pc u = P_own j)"
    if "\<And>k. pc t \<noteq> P_own k" for t i j
    using that by (metis alloc_pc.inject(2) fun_upd_other fun_upd_same)
  have drop: "(\<exists>u. (pc(t := P_idle)) u = P_own j) \<longleftrightarrow> (\<exists>u. pc u = P_own j) \<and> j \<noteq> i"
    if "pc t = P_own i" "\<And>t u i. pc t = P_own i \<Longrightarrow> pc u = P_own i \<Longrightarrow> t = u" for t i j
    using that by (metis alloc_pc.distinct(3) alloc_pc.inject(2) fun_upd_apply)
  have plain: "alloc_sys_inv ndev (b, pc(t := q))" if "\<And>j. pc t \<noteq> P_own j" "\<And>j. q \<noteq> P_own j" for t q
    unfolding alloc_sys_inv_def prod.case other [OF that]
    using own that by (auto split: if_splits)
  show ?thesis
    using assms(2) unfolding s
  proof (cases rule: alloc_step.cases)
    case (got t i x b')
    then have b': "b' = b OR push_bit i 1" "\<not> bit b i" using alloc_iter_results(3) by blast+
    have no: "pc u \<noteq> P_own i" for u using b'(2) own(1) by blast
    have "bit b' j \<longleftrightarrow> (\<exists>u. (pc(t := P_own i)) u = P_own j)" for j
      unfolding b'(1) or_bit_iff own(1) using gain [of t i j] got assms(1) by auto
    then show ?thesis
      using got own(2,3) no unfolding alloc_sys_inv_def by (auto split: if_splits)
  next
    case (release t i)
    have "bit (b AND NOT (push_bit i 1)) j \<longleftrightarrow> (\<exists>u. (pc(t := P_idle)) u = P_own j)" for j
      unfolding clear_bit_iff own(1) using drop [OF release(2) own(2)] release(2) by auto
    then show ?thesis
      using release own(2,3) unfolding alloc_sys_inv_def atomic32_and_def by (auto split: if_splits)
  qed (use plain in \<open>auto dest: alloc_iter_results(1,2)\<close>)
qed

text \<open>
  C23. Any interleaving of allocations and releases on any number of processors: a device is
  never held by two of them, and the bitmap has exactly the bits of the devices held, so that
  none is lost and none is handed out twice.
\<close>

theorem alloc_exclusive:
  assumes "ndev < 32" and "(alloc_step ndev)\<^sup>*\<^sup>* (0, \<lambda>_. P_idle) (b, pc)"
  shows "(pc t = P_own i \<longrightarrow> pc u = P_own i \<longrightarrow> t = u) \<and>
     (bit b i \<longleftrightarrow> (\<exists>t. pc t = P_own i)) \<and> (pc t = P_own i \<longrightarrow> i < ndev)"
proof -
  have "alloc_sys_inv ndev (b, pc)"
    using assms(2)
  proof (induction rule: rtranclp_induct)
    case base
    then show ?case by (simp add: alloc_sys_inv_def)
  next
    case (step s s')
    then show ?case using alloc_step_inv [OF assms(1)] by blast
  qed
  then show ?thesis by (auto simp: alloc_sys_inv_def)
qed

theorem alloc_exclusive_witness:
  "\<exists>b pc. (alloc_step 2)\<^sup>*\<^sup>* (0, \<lambda>_. P_idle) (b, pc) \<and> pc 0 = P_own 0 \<and> pc 1 = P_loop 1 0 \<and> bit b 0"
proof -
  let ?p1 = "(\<lambda>_. P_idle)(0 := P_loop 0 0)"
  let ?p2 = "?p1(1 := P_loop 0 0)"
  have r: "alloc_iter 2 0 0 0 = (Alloc_Got, 1)" "alloc_iter 2 0 0 1 = (Alloc_Next, 1)"
    by (simp_all add: alloc_iter_def atomic32_or_def)
  have s: "alloc_step 2 (0, \<lambda>_. P_idle) (0, ?p1)" "alloc_step 2 (0, ?p1) (0, ?p2)"
    "alloc_step 2 (0, ?p2) (1, ?p2(0 := P_own 0))"
    "alloc_step 2 (1, ?p2(0 := P_own 0)) (1, ?p2(0 := P_own 0, 1 := P_loop (0 + 1) (drop_bit 1 0)))"
    by (rule alloc_step.capture, simp) (rule alloc_step.capture, simp, rule alloc_step.got, simp, simp,
      rule r(1), rule alloc_step.retry, simp, simp, rule r(2))
  have run: "(alloc_step 2)\<^sup>*\<^sup>* (0, \<lambda>_. P_idle) (1, ?p2(0 := P_own 0, 1 := P_loop (0 + 1) (drop_bit 1 0)))"
    using s by (meson converse_rtranclp_into_rtranclp rtranclp.rtrancl_refl)
  have "bit (1 :: u32) 0"
    using alloc_exclusive [OF _ run, of 0 0 0] by auto
  with run show ?thesis by fastforce
qed

section \<open>What a log holds\<close>

text \<open>The regions requested and not released, and the mappings made and not undone.\<close>

fun region_upd :: "kcall \<Rightarrow> nat set \<Rightarrow> nat set" where
  "region_upd (K_request_region i r) S = (if r = 0 then insert i S else S)"
| "region_upd (K_release_region i) S = S - {i}"
| "region_upd _ S = S"

fun map_upd :: "kcall \<Rightarrow> ptr multiset \<Rightarrow> ptr multiset" where
  "map_upd (K_ioremap a l v) M = (if v \<noteq> 0 then add_mset v M else M)"
| "map_upd (K_iounmap v) M = M - {#v#}"
| "map_upd _ M = M"

definition regions :: "kcall list \<Rightarrow> nat set" where "regions cs = fold region_upd cs {}"

definition maps :: "kcall list \<Rightarrow> ptr multiset" where "maps cs = fold map_upd cs {#}"

lemma regions_Nil [simp]: "regions [] = {}" by (simp add: regions_def)

lemma regions_snoc [simp]: "regions (cs @ [c]) = region_upd c (regions cs)"
  by (simp add: regions_def)

lemma maps_Nil [simp]: "maps [] = {#}" by (simp add: maps_def)

lemma maps_snoc [simp]: "maps (cs @ [c]) = map_upd c (maps cs)"
  by (simp add: maps_def)

lemma regions_append: "regions (cs @ ds) = fold region_upd ds (regions cs)"
  by (simp add: regions_def)

lemma maps_append: "maps (cs @ ds) = fold map_upd ds (maps cs)"
  by (simp add: maps_def)

section \<open>Mapping and unmapping\<close>

text \<open>A resource the driver maps, and one it cannot map.\<close>

definition usable :: "'e bar_env_scheme \<Rightarrow> nat \<Rightarrow> bool" where
  "usable e i \<longleftrightarrow> be_flags e i AND IORESOURCE_MEM \<noteq> 0 \<and> be_start e i \<noteq> 0 \<and> be_len e i \<noteq> 0"

definition bar_fails :: "'e bar_env_scheme \<Rightarrow> nat \<Rightarrow> bool" where
  "bar_fails e i \<longleftrightarrow> usable e i \<and> (be_request e i \<noteq> 0 \<or> be_ioremap e i = 0)"

text \<open>The entries of the device after mapping the resources below \<open>m\<close>.\<close>

definition mapped_dev :: "'e bar_env_scheme \<Rightarrow> nat \<Rightarrow> 'z drv_dev_scheme \<Rightarrow> 'z drv_dev_scheme" where
  "mapped_dev e m dev = dev\<lparr>
     dv_vadr := map (\<lambda>i. if i < m \<and> usable e i then be_ioremap e i else 0) [0..<NBAR],
     dv_len := map (\<lambda>i. if i < m \<and> usable e i then be_len e i else 0) [0..<NBAR]\<rparr>"

definition mapped_addrs :: "'e bar_env_scheme \<Rightarrow> nat \<Rightarrow> ptr multiset" where
  "mapped_addrs e m = mset (map (be_ioremap e) (filter (usable e) [0..<m]))"

lemma mapped_addrs_simps:
  "mapped_addrs e 0 = {#}"
  "usable e n \<Longrightarrow> mapped_addrs e (Suc n) = add_mset (be_ioremap e n) (mapped_addrs e n)"
  "\<not> usable e n \<Longrightarrow> mapped_addrs e (Suc n) = mapped_addrs e n"
  by (simp_all add: mapped_addrs_def)

lemma map_upt_update:
  assumes "k < n"
  shows "(map f [0..<n])[k := v] = map (\<lambda>i. if i = k then v else f i) [0..<n]"
  by (rule nth_equalityI) (use assms in \<open>auto simp: nth_list_update\<close>)

lemma mapped_zero:
  assumes "m \<le> n" and "n < NBAR"
  shows "(dv_vadr (mapped_dev e m dev))[n := 0] = dv_vadr (mapped_dev e m dev)"
    "(dv_len (mapped_dev e m dev))[n := 0] = dv_len (mapped_dev e m dev)"
  using assms by (simp_all add: mapped_dev_def map_upt_update)

lemma mapped_skip: "\<not> usable e n \<Longrightarrow> mapped_dev e (Suc n) dev = mapped_dev e n dev"
  by (simp add: mapped_dev_def less_Suc_eq conj_disj_distribR cong: conj_cong)

lemma mapped_next:
  assumes "usable e n" and "n < NBAR"
  shows "(dv_vadr (mapped_dev e n dev))[n := be_ioremap e n] = dv_vadr (mapped_dev e (Suc n) dev)"
    "(dv_len (mapped_dev e n dev))[n := be_len e n] = dv_len (mapped_dev e (Suc n) dev)"
  using assms by (auto simp: mapped_dev_def map_upt_update less_Suc_eq)

lemma mapped_eqI:
  "(mapped_dev e m dev)\<lparr>dv_vadr := dv_vadr (mapped_dev e k dev), dv_len := dv_len (mapped_dev e k dev)\<rparr> =
     mapped_dev e k dev"
  by (simp add: mapped_dev_def)

lemma mapped_nth: "n < NBAR \<Longrightarrow> dv_vadr (mapped_dev e m dev) ! n =
    (if n < m \<and> usable e n then be_ioremap e n else 0)"
  "length (dv_vadr (mapped_dev e m dev)) = NBAR" "length (dv_len (mapped_dev e m dev)) = NBAR"
  by (simp_all add: mapped_dev_def)

lemma find_snoc:
  "find P (xs @ ys) = (case find P xs of Some x \<Rightarrow> Some x | None \<Rightarrow> find P ys)"
  by (induction xs) auto

text \<open>One iteration, by what the resource and the kernel say.\<close>

lemma map_bar_failed:
  assumes "err \<noteq> 0" and "k \<le> n" and "n < NBAR"
  shows "map_bar e n (err, cs, mapped_dev e k dev) = (err, cs, mapped_dev e k dev)"
  using assms by (simp add: map_bar_def Let_def mapped_zero)

lemma map_bar_skip:
  assumes "\<not> usable e n" and "n < NBAR"
  shows "map_bar e n (0, cs, mapped_dev e n dev) = (0, cs, mapped_dev e (Suc n) dev)"
proof -
  have "\<not> (0 = (0::int) \<and> be_flags e n AND IORESOURCE_MEM \<noteq> 0 \<and> be_start e n \<noteq> 0 \<and> be_len e n \<noteq> 0)"
    using assms(1) by (simp add: usable_def)
  then show ?thesis
    unfolding map_bar_def Let_def prod.case mapped_skip [OF assms(1)]
    using assms(2) by (simp only: if_False mapped_zero) simp
qed

lemma map_bar_usable:
  assumes "usable e n" and "n < NBAR"
  shows "map_bar e n (0, cs, mapped_dev e n dev) =
     (if be_request e n \<noteq> 0 then
        (be_request e n, cs @ [K_request_region n (be_request e n)], mapped_dev e n dev)
      else if be_ioremap e n = 0 then
        (- ENOMEM, cs @ [K_request_region n 0] @ [K_ioremap (be_start e n) (be_len e n) 0],
         mapped_dev e n dev)
      else (0, cs @ [K_request_region n 0] @ [K_ioremap (be_start e n) (be_len e n) (be_ioremap e n)],
        mapped_dev e (Suc n) dev))"
proof -
  have u: "0 = (0::int) \<and> be_flags e n AND IORESOURCE_MEM \<noteq> 0 \<and> be_start e n \<noteq> 0 \<and> be_len e n \<noteq> 0"
    using assms(1) by (simp add: usable_def)
  have z: "(mapped_dev e n dev)\<lparr>dv_vadr := (dv_vadr (mapped_dev e n dev))[n := 0],
      dv_len := (dv_len (mapped_dev e n dev))[n := 0]\<rparr> = mapped_dev e n dev"
    "(mapped_dev e n dev)\<lparr>dv_len := (dv_len (mapped_dev e n dev))[n := 0],
      dv_vadr := (dv_vadr (mapped_dev e n dev))[n := 0]\<rparr> = mapped_dev e n dev"
    using assms(2) by (simp_all add: mapped_zero)
  have o: "(mapped_dev e n dev)\<lparr>dv_vadr := (dv_vadr (mapped_dev e n dev))[n := be_ioremap e n],
      dv_len := (dv_len (mapped_dev e n dev))[n := be_len e n]\<rparr> = mapped_dev e (Suc n) dev"
    using mapped_next [OF assms, of dev] mapped_eqI [where e = e and m = n and k = "Suc n" and dev = dev] by (simp only:)
  show ?thesis
    unfolding map_bar_def Let_def prod.case
    using u z o assms by (simp add: mapped_nth mapped_zero)
qed

text \<open>
  The loop up to resource \<open>n\<close>: everything usable is mapped, or the first that failed stopped it.
\<close>

definition map_state :: "'e bar_env_scheme \<Rightarrow> nat \<Rightarrow> 'z drv_dev_scheme \<Rightarrow>
    int \<times> kcall list \<times> 'z drv_dev_scheme \<Rightarrow> bool" where
  "map_state e n dev = (\<lambda>(err, cs, dev'). case find (bar_fails e) [0..<n] of
      None \<Rightarrow> err = 0 \<and> dev' = mapped_dev e n dev \<and> regions cs = {i. i < n \<and> usable e i} \<and>
        maps cs = mapped_addrs e n
    | Some k \<Rightarrow> k < n \<and> err \<noteq> 0 \<and> err = (if be_request e k \<noteq> 0 then be_request e k else - ENOMEM) \<and>
        dev' = mapped_dev e k dev \<and>
        regions cs = {i. i < k \<and> usable e i} \<union> (if be_request e k \<noteq> 0 then {} else {k}) \<and>
        maps cs = mapped_addrs e k)"

lemma map_state_step:
  assumes "n < NBAR" and s: "map_state e n dev (err, cs, dev')"
  shows "map_state e (Suc n) dev (map_bar e n (err, cs, dev'))"
proof -
  have find: "find (bar_fails e) [0..<Suc n] = (case find (bar_fails e) [0..<n] of
      Some k \<Rightarrow> Some k | None \<Rightarrow> if bar_fails e n then Some n else None)"
    by (simp add: find_snoc split: option.split)
  show ?thesis
  proof (cases "find (bar_fails e) [0..<n]")
    case (Some k)
    then have 1: "k < n" "err \<noteq> 0" "dev' = mapped_dev e k dev" using s by (simp_all add: map_state_def)
    then have "map_bar e n (err, cs, dev') = (err, cs, dev')" using map_bar_failed [of err k n e cs dev] assms(1) by simp
    then show ?thesis using s Some find by (simp add: map_state_def)
  next
    case None
    then have 1: "err = 0" "dev' = mapped_dev e n dev" "regions cs = {i. i < n \<and> usable e i}"
      "maps cs = mapped_addrs e n" using s by (simp_all add: map_state_def)
    show ?thesis
    proof (cases "usable e n")
      case False
      then have "{i. i < Suc n \<and> usable e i} = {i. i < n \<and> usable e i}" by (auto simp: less_Suc_eq)
      then show ?thesis using False 1 None find map_bar_skip [OF False assms(1), of cs dev]
        by (simp add: map_state_def bar_fails_def mapped_addrs_simps)
    next
      case True
      then have "{i. i < Suc n \<and> usable e i} = insert n {i. i < n \<and> usable e i}"
        by (auto simp: less_Suc_eq)
      then show ?thesis using True 1 None find map_bar_usable [OF True assms(1), of cs dev]
        by (simp add: map_state_def bar_fails_def mapped_addrs_simps ENOMEM_def regions_append maps_append)
    qed
  qed
qed

lemma map_bars_loop:
  "n \<le> NBAR \<Longrightarrow> map_state e n dev (fold (map_bar e) [0..<n] (0, [], mapped_dev e 0 dev))"
proof (induction n)
  case 0
  then show ?case by (simp add: map_state_def mapped_addrs_simps)
next
  case (Suc n)
  then have "map_state e n dev (fold (map_bar e) [0..<n] (0, [], mapped_dev e 0 dev))" by simp
  then show ?case
    using map_state_step [of n e dev] Suc.prems
    by (cases "fold (map_bar e) [0..<n] (0, [], mapped_dev e 0 dev)") simp
qed

text \<open>Unmapping releases what the entries hold, and clears them.\<close>

definition held_maps :: "'z drv_dev_scheme \<Rightarrow> nat \<Rightarrow> ptr multiset" where
  "held_maps dev n = mset (filter (\<lambda>v. v \<noteq> 0) (map ((!) (dv_vadr dev)) [0..<n]))"

lemma held_maps_simps:
  "held_maps dev 0 = {#}"
  "dv_vadr dev ! n = 0 \<Longrightarrow> held_maps dev (Suc n) = held_maps dev n"
  "dv_vadr dev ! n \<noteq> 0 \<Longrightarrow> held_maps dev (Suc n) = add_mset (dv_vadr dev ! n) (held_maps dev n)"
  by (simp_all add: held_maps_def)

lemma map_until_simps:
  fixes f :: "nat \<Rightarrow> u64"
  shows "n < NBAR \<Longrightarrow> (map (\<lambda>i. if i < n then 0 else f i) [0..<NBAR])[n := 0] =
      map (\<lambda>i. if i < Suc n then 0 else f i) [0..<NBAR]"
    and "f n = 0 \<Longrightarrow> map (\<lambda>i. if i < n then 0 else f i) [0..<NBAR] =
      map (\<lambda>i. if i < Suc n then 0 else f i) [0..<NBAR]"
  by (auto simp: map_upt_update less_Suc_eq)

lemma unmap_prefix:
  assumes "length (dv_vadr dev) = NBAR" and "length (dv_len dev) = NBAR"
    and "\<And>i. i < NBAR \<Longrightarrow> dv_vadr dev ! i = 0 \<Longrightarrow> dv_len dev ! i = 0"
  shows "n \<le> NBAR \<Longrightarrow> \<exists>ds. fold unmap_bar [0..<n] ([], dev) = (ds, dev\<lparr>
        dv_vadr := map (\<lambda>i. if i < n then 0 else dv_vadr dev ! i) [0..<NBAR],
        dv_len := map (\<lambda>i. if i < n then 0 else dv_len dev ! i) [0..<NBAR]\<rparr>) \<and>
     fold region_upd ds S = S - {i. i < n \<and> dv_vadr dev ! i \<noteq> 0} \<and>
     fold map_upd ds M = M - held_maps dev n"
proof (induction n)
  case 0
  have "map ((!) (dv_vadr dev)) [0..<NBAR] = dv_vadr dev" "map ((!) (dv_len dev)) [0..<NBAR] = dv_len dev"
    using assms(1,2) map_nth by metis+
  then show ?case by (simp add: held_maps_simps)
next
  case (Suc n)
  then obtain ds where IH: "fold unmap_bar [0..<n] ([], dev) = (ds, dev\<lparr>
        dv_vadr := map (\<lambda>i. if i < n then 0 else dv_vadr dev ! i) [0..<NBAR],
        dv_len := map (\<lambda>i. if i < n then 0 else dv_len dev ! i) [0..<NBAR]\<rparr>)"
     "fold region_upd ds S = S - {i. i < n \<and> dv_vadr dev ! i \<noteq> 0}"
     "fold map_upd ds M = M - held_maps dev n" by auto
  have n: "n < NBAR" using Suc.prems by simp
  let ?D = "\<lambda>n. dev\<lparr>dv_vadr := map (\<lambda>i. if i < n then 0 else dv_vadr dev ! i) [0..<NBAR],
        dv_len := map (\<lambda>i. if i < n then 0 else dv_len dev ! i) [0..<NBAR]\<rparr>"
  have nth: "dv_vadr (?D n) ! n = dv_vadr dev ! n" using n by simp
  have fold: "fold unmap_bar [0..<Suc n] ([], dev) = unmap_bar n (ds, ?D n)" using IH(1) by simp
  show ?case
  proof (cases "dv_vadr dev ! n = 0")
    case True
    have "?D n = ?D (Suc n)"
      using map_until_simps(2) [of "(!) (dv_vadr dev)" n] map_until_simps(2) [of "(!) (dv_len dev)" n]
        True assms(3) [OF n True] by simp
    then have "unmap_bar n (ds, ?D n) = (ds, ?D (Suc n))"
      unfolding unmap_bar_def prod.case nth using True by simp
    moreover have "{i. i < Suc n \<and> dv_vadr dev ! i \<noteq> 0} = {i. i < n \<and> dv_vadr dev ! i \<noteq> 0}"
      using True by (auto simp: less_Suc_eq)
    ultimately show ?thesis unfolding fold using IH(2,3) True by (simp add: held_maps_simps)
  next
    case False
    have "unmap_bar n (ds, ?D n) =
        (ds @ [K_release_region n, K_iounmap (dv_vadr dev ! n)], ?D (Suc n))"
      unfolding unmap_bar_def prod.case nth using False n by (simp add: map_until_simps(1))
    moreover have "{i. i < Suc n \<and> dv_vadr dev ! i \<noteq> 0} = insert n {i. i < n \<and> dv_vadr dev ! i \<noteq> 0}"
      using False by (auto simp: less_Suc_eq)
    ultimately show ?thesis unfolding fold using IH(2,3) False
      by (auto simp: held_maps_simps diff_diff_add)
  qed
qed

subsection \<open>The calls of mapping concern regions and mappings only\<close>

fun bar_call :: "kcall \<Rightarrow> bool" where
  "bar_call (K_request_region i r) = True"
| "bar_call (K_release_region i) = True"
| "bar_call (K_ioremap a l v) = True"
| "bar_call (K_iounmap v) = True"
| "bar_call _ = False"

lemma unmap_calls: "set (fst (fold unmap_bar is (cs, dev))) \<subseteq> set cs \<union> Collect bar_call"
proof (induction "is" arbitrary: cs dev)
  case (Cons i "is")
  have "\<exists>cs' dev'. unmap_bar i (cs, dev) = (cs', dev') \<and> set cs' \<subseteq> set cs \<union> Collect bar_call"
    by (simp add: unmap_bar_def)
  with Cons show ?case by fastforce
qed simp

lemma map_calls: "set (fst (snd (fold (map_bar e) is (err, cs, dev)))) \<subseteq> set cs \<union> Collect bar_call"
proof (induction "is" arbitrary: err cs dev)
  case (Cons i "is")
  have "\<exists>err' cs' dev'. map_bar e i (err, cs, dev) = (err', cs', dev') \<and> set cs' \<subseteq> set cs \<union> Collect bar_call"
    by (simp add: map_bar_def Let_def)
  with Cons show ?case by fastforce
qed simp

subsection \<open>The results of mapping and unmapping\<close>

definition bars_wf :: "'z drv_dev_scheme \<Rightarrow> bool" where
  "bars_wf dev \<longleftrightarrow> length (dv_vadr dev) = NBAR \<and> length (dv_len dev) = NBAR \<and>
     (\<forall>i<NBAR. dv_vadr dev ! i = 0 \<longrightarrow> dv_len dev ! i = 0)"

definition bars_clear :: "'z drv_dev_scheme \<Rightarrow> bool" where
  "bars_clear dev \<longleftrightarrow> dv_vadr dev = replicate NBAR 0 \<and> dv_len dev = replicate NBAR 0"

lemma mapped_0: "bars_clear dev \<Longrightarrow> mapped_dev e 0 dev = dev"
  by (simp add: bars_clear_def mapped_dev_def map_replicate_const)

lemma unmap_result:
  assumes "bars_wf dev"
  shows "\<exists>ds. dev_unmap_bars dev = (ds, dev\<lparr>dv_vadr := replicate NBAR 0, dv_len := replicate NBAR 0\<rparr>) \<and>
     list_all bar_call ds \<and>
     regions (cs @ ds) = regions cs - {i. i < NBAR \<and> dv_vadr dev ! i \<noteq> 0} \<and>
     maps (cs @ ds) = maps cs - held_maps dev NBAR"
proof -
  obtain ds where ds: "fold unmap_bar [0..<NBAR] ([], dev) = (ds, dev\<lparr>
        dv_vadr := map (\<lambda>i. if i < NBAR then 0 else dv_vadr dev ! i) [0..<NBAR],
        dv_len := map (\<lambda>i. if i < NBAR then 0 else dv_len dev ! i) [0..<NBAR]\<rparr>)"
     "fold region_upd ds (regions cs) = regions cs - {i. i < NBAR \<and> dv_vadr dev ! i \<noteq> 0}"
     "fold map_upd ds (maps cs) = maps cs - held_maps dev NBAR"
    using unmap_prefix [of dev NBAR "regions cs" "maps cs"] assms by (auto simp: bars_wf_def)
  have z: "map (\<lambda>i. if i < NBAR then 0 else f i) [0..<NBAR] = replicate NBAR 0" for f :: "nat \<Rightarrow> u64"
    by (rule nth_equalityI) simp_all
  have "list_all bar_call ds"
    using unmap_calls [of "[0..<NBAR]" "[]" dev] ds(1) by (auto simp: list_all_iff)
  then show ?thesis using ds z by (auto simp: dev_unmap_bars_def regions_append maps_append)
qed

lemma held_mapped:
  assumes "\<forall>i<k. usable e i \<longrightarrow> be_ioremap e i \<noteq> 0"
  shows "n \<le> NBAR \<Longrightarrow> held_maps (mapped_dev e k dev) n = mapped_addrs e (min n k)"
proof (induction n)
  case (Suc n)
  then have n: "dv_vadr (mapped_dev e k dev) ! n = (if n < k \<and> usable e n then be_ioremap e n else 0)"
    using mapped_nth(1) [of n e k dev] Suc.prems by simp
  show ?case
  proof (cases "n < k \<and> usable e n")
    case True
    with Suc n assms show ?thesis by (simp add: held_maps_simps mapped_addrs_simps min_def)
  next
    case False
    then have "mapped_addrs e (min (Suc n) k) = mapped_addrs e (min n k)"
      by (cases "n < k") (auto simp: mapped_addrs_simps min_def)
    moreover have "dv_vadr (mapped_dev e k dev) ! n = 0" using n False by auto
    ultimately show ?thesis using Suc by (simp add: held_maps_simps)
  qed
qed (simp add: held_maps_simps mapped_addrs_simps)

lemma mapped_wf: "bars_wf (mapped_dev e k dev)" if "\<forall>i<k. usable e i \<longrightarrow> be_ioremap e i \<noteq> 0"
  using that by (simp add: bars_wf_def mapped_nth(2,3)) (simp add: mapped_dev_def)

lemma map_bars_result:
  assumes c: "bars_clear dev"
  shows "\<exists>err calls dev'. dev_map_bars e dev = (err, calls, dev') \<and> list_all bar_call calls \<and>
    (case find (bar_fails e) [0..<NBAR] of
       None \<Rightarrow> err = 0 \<and> dev' = mapped_dev e NBAR dev \<and> regions calls = {i. i < NBAR \<and> usable e i} \<and>
         maps calls = mapped_addrs e NBAR \<and> bars_wf dev'
     | Some k \<Rightarrow> err \<noteq> 0 \<and> err = (if be_request e k \<noteq> 0 then be_request e k else - ENOMEM) \<and>
         dev' = dev \<and> regions calls = (if be_request e k \<noteq> 0 then {} else {k}) \<and> maps calls = {#})"
proof -
  obtain err cs dev' where f: "fold (map_bar e) [0..<NBAR] (0, [], dev) = (err, cs, dev')"
    by (cases "fold (map_bar e) [0..<NBAR] (0, [], dev)")
  then have st: "map_state e NBAR dev (err, cs, dev')"
    using map_bars_loop [of NBAR e dev] mapped_0 [OF c, of e] by simp
  have bc: "list_all bar_call cs"
    using map_calls [of e "[0..<NBAR]" 0 "[]" dev] f by (auto simp: list_all_iff)
  show ?thesis
  proof (cases "find (bar_fails e) [0..<NBAR]")
    case None
    then have "\<forall>i<NBAR. usable e i \<longrightarrow> be_ioremap e i \<noteq> 0"
      by (auto simp: find_None_iff bar_fails_def)
    then have "bars_wf (mapped_dev e NBAR dev)" by (rule mapped_wf)
    with None f st bc show ?thesis by (simp add: dev_map_bars_def map_state_def)
  next
    case (Some k)
    then have nf: "\<forall>i<k. usable e i \<longrightarrow> be_ioremap e i \<noteq> 0" and k: "k < NBAR"
      by (auto simp: find_Some_iff bar_fails_def)
    from st Some have s: "err \<noteq> 0" "err = (if be_request e k \<noteq> 0 then be_request e k else - ENOMEM)"
      "dev' = mapped_dev e k dev"
      "regions cs = {i. i < k \<and> usable e i} \<union> (if be_request e k \<noteq> 0 then {} else {k})"
      "maps cs = mapped_addrs e k"
      by (simp_all add: map_state_def)
    obtain ds where ds: "dev_unmap_bars dev' =
        (ds, dev'\<lparr>dv_vadr := replicate NBAR 0, dv_len := replicate NBAR 0\<rparr>)" "list_all bar_call ds"
      "regions (cs @ ds) = regions cs - {i. i < NBAR \<and> dv_vadr dev' ! i \<noteq> 0}"
      "maps (cs @ ds) = maps cs - held_maps dev' NBAR"
      using unmap_result [OF mapped_wf [OF nf], of dev cs] s(3) by auto
    have "{i. i < NBAR \<and> dv_vadr dev' ! i \<noteq> 0} = {i. i < k \<and> usable e i}"
      using nf k s(3) by (auto simp: mapped_nth split: if_splits)
    then have "regions (cs @ ds) = (if be_request e k \<noteq> 0 then {} else {k})"
      using ds(3) s(4) by auto
    moreover have "maps (cs @ ds) = {#}"
      using ds(4) s(3,5) held_mapped [OF nf, of NBAR dev] k by simp
    moreover have "dev'\<lparr>dv_vadr := replicate NBAR 0, dv_len := replicate NBAR 0\<rparr> = dev"
      using c s(3) by (simp add: mapped_dev_def bars_clear_def)
    ultimately show ?thesis
      using Some f s(1,2) ds(1,2) bc by (simp add: dev_map_bars_def)
  qed
qed

text \<open>
  Mapping the BARs of a fresh device maps every usable memory resource at the address and
  with the length the kernel gave, or returns the error of the first that failed, with all
  entries cleared and no mapping left. A failed \<open>ioremap\<close> leaves the region it had requested
  reserved: exactly that region leaks.
\<close>

lemma map_bars_all_or_nothing:
  assumes "dv_vadr dev = replicate 6 0" and "dv_len dev = replicate 6 0"
    and "dev_map_bars e dev = (err, calls, dev')"
  shows "case find (bar_fails e) [0..<6] of
      None \<Rightarrow> err = 0 \<and> regions calls = {i. i < 6 \<and> usable e i} \<and>
        (\<forall>i<6. dv_vadr dev' ! i = (if usable e i then be_ioremap e i else 0) \<and>
               dv_len dev' ! i = (if usable e i then be_len e i else 0))
    | Some k \<Rightarrow> err = (if be_request e k \<noteq> 0 then be_request e k else - ENOMEM) \<and> dev' = dev \<and>
        maps calls = {#} \<and> regions calls = (if be_request e k \<noteq> 0 then {} else {k})"
  using map_bars_result [of dev e] assms
  by (auto simp: bars_clear_def NBAR_def mapped_dev_def simp del: upt_rec_numeral split: option.splits)

lemma map_bars_all_or_nothing_example:
  "\<exists>calls. dev_map_bars \<lparr>be_flags = \<lambda>_. 0x200, be_start = \<lambda>_. 0x1000, be_len = \<lambda>_. 0x100,
       be_request = \<lambda>_. 0, be_ioremap = \<lambda>i. if i = 1 then 0 else 0x5000\<rparr>
       \<lparr>dv_pci = 0, dv_vadr = replicate 6 0, dv_len = replicate 6 0\<rparr> =
     (- 12, calls, \<lparr>dv_pci = 0, dv_vadr = replicate 6 0, dv_len = replicate 6 0\<rparr>) \<and> regions calls = {1}"
proof -
  let ?e = "\<lparr>be_flags = \<lambda>_. 0x200, be_start = \<lambda>_. 0x1000, be_len = \<lambda>_. 0x100,
       be_request = \<lambda>_. 0, be_ioremap = \<lambda>i. if i = (1 :: nat) then 0 else 0x5000\<rparr>"
  let ?d = "\<lparr>dv_pci = 0, dv_vadr = replicate 6 0, dv_len = replicate 6 0\<rparr>"
  have f: "find (bar_fails ?e) [0..<6] = Some 1"
    by (simp add: upt_rec bar_fails_def usable_def IORESOURCE_MEM_def)
  obtain err calls dev' where d: "dev_map_bars ?e ?d = (err, calls, dev')" by (cases "dev_map_bars ?e ?d")
  show ?thesis
    using map_bars_all_or_nothing [OF _ _ d] d unfolding f by (simp add: ENOMEM_def)
qed

section \<open>probe and remove\<close>

text \<open>
  What a log of calls leaves besides regions and mappings: how often the device was enabled,
  whether MSI is on, the interrupt handlers and character devices by the device they are for,
  and the driver data.
\<close>

record ledger =
  lg_enable :: int
  lg_msi :: bool
  lg_irq :: "nat set"
  lg_cdev :: "nat set"
  lg_data :: "nat option"

fun ledger_upd :: "kcall \<Rightarrow> ledger \<Rightarrow> ledger" where
  "ledger_upd (K_enable_device r) l = (if r = 0 then l\<lparr>lg_enable := lg_enable l + 1\<rparr> else l)"
| "ledger_upd K_disable_device l = l\<lparr>lg_enable := lg_enable l - 1\<rparr>"
| "ledger_upd (K_enable_msi r) l = (if r = 0 then l\<lparr>lg_msi := True\<rparr> else l)"
| "ledger_upd K_disable_msi l = l\<lparr>lg_msi := False\<rparr>"
| "ledger_upd (K_request_irq i r) l = (if r = 0 then l\<lparr>lg_irq := insert i (lg_irq l)\<rparr> else l)"
| "ledger_upd (K_free_irq i) l = l\<lparr>lg_irq := lg_irq l - {i}\<rparr>"
| "ledger_upd (K_cdev_add i r) l = (if r = 0 then l\<lparr>lg_cdev := insert i (lg_cdev l)\<rparr> else l)"
| "ledger_upd (K_cdev_del i) l = l\<lparr>lg_cdev := lg_cdev l - {i}\<rparr>"
| "ledger_upd (K_set_drvdata x) l = l\<lparr>lg_data := x\<rparr>"
| "ledger_upd _ l = l"

definition no_ledger :: ledger where
  "no_ledger = \<lparr>lg_enable = 0, lg_msi = False, lg_irq = {}, lg_cdev = {}, lg_data = None\<rparr>"

definition ledger :: "kcall list \<Rightarrow> ledger" where "ledger cs = fold ledger_upd cs no_ledger"

lemma ledger_bar_calls: "list_all bar_call ds \<Longrightarrow> fold ledger_upd ds l = l"
  by (induction ds arbitrary: l) (auto elim: bar_call.elims)

text \<open>The other calls touch neither regions nor mappings.\<close>

lemma other_call: "\<not> bar_call c \<Longrightarrow> region_upd c S = S \<and> map_upd c M = M"
  by (cases c) auto

lemma ledger_append: "ledger (cs @ ds) = fold ledger_upd ds (ledger cs)"
  by (simp add: ledger_def)

lemmas account_simps = regions_append maps_append ledger_append

lemma bits_restored: "\<not> bit b i \<Longrightarrow> ((b :: u32) OR push_bit i 1) AND NOT (push_bit i 1) = b"
  by (rule bit_word_eqI) (auto simp: set_bit_simps)

lemma free_after_alloc:
  "\<not> bit (d_bits drv) i \<Longrightarrow> d_bits d = d_bits drv OR push_bit i 1 \<Longrightarrow>
     d_bits (dev_free i d) = d_bits drv"
  using bits_restored [of "d_bits drv" i] by (simp add: dev_free_def atomic32_and_def Let_def)

lemma on_error_2_result:
  assumes "bars_wf (d_devs drv ! i)"
    and "regions cs = {j. j < NBAR \<and> dv_vadr (d_devs drv ! i) ! j \<noteq> 0} \<union> R"
    and "R \<inter> {j. j < NBAR \<and> dv_vadr (d_devs drv ! i) ! j \<noteq> 0} = {}"
    and "maps cs = held_maps (d_devs drv ! i) NBAR"
  shows "\<exists>cs' drv'. on_error_2 i err cs drv = (err, cs', drv') \<and> regions cs' = R \<and> maps cs' = {#} \<and>
     ledger cs' = (ledger cs)\<lparr>lg_enable := lg_enable (ledger cs) - 1, lg_data := None\<rparr> \<and>
     d_bits drv' = d_bits (dev_free i drv)"
proof -
  obtain ds where ds: "dev_unmap_bars (d_devs drv ! i) = (ds, (d_devs drv ! i)\<lparr>dv_vadr := replicate NBAR 0,
        dv_len := replicate NBAR 0\<rparr>)" "list_all bar_call ds"
     "fold region_upd ds (regions cs) = R" "fold map_upd ds (maps cs) = {#}"
    using unmap_result [OF assms(1), of cs] assms(2-4) by (auto simp: account_simps)
  then show ?thesis
    by (simp add: on_error_2_def on_error_1_def account_simps ledger_bar_calls dev_free_def Let_def)
qed

lemma on_error_3_result:
  assumes "bars_wf (d_devs drv ! i)"
    and "regions cs = {j. j < NBAR \<and> dv_vadr (d_devs drv ! i) ! j \<noteq> 0}"
    and "maps cs = held_maps (d_devs drv ! i) NBAR"
  shows "\<exists>cs' drv'. on_error_3 i err cs drv = (err, cs', drv') \<and> regions cs' = {} \<and> maps cs' = {#} \<and>
     ledger cs' = (ledger cs)\<lparr>lg_enable := lg_enable (ledger cs) - 1, lg_msi := False, lg_data := None\<rparr> \<and>
     d_bits drv' = d_bits (dev_free i drv)"
  using on_error_2_result [OF assms(1), of "cs @ [K_disable_msi]" "{}" err] assms(2,3)
  by (auto simp: on_error_3_def account_simps)

lemma on_error_4_result:
  assumes "bars_wf (d_devs drv ! i)"
    and "regions cs = {j. j < NBAR \<and> dv_vadr (d_devs drv ! i) ! j \<noteq> 0}"
    and "maps cs = held_maps (d_devs drv ! i) NBAR"
  shows "\<exists>cs' drv'. on_error_4 i err cs drv = (err, cs', drv') \<and> regions cs' = {} \<and> maps cs' = {#} \<and>
     ledger cs' = (ledger cs)\<lparr>lg_enable := lg_enable (ledger cs) - 1, lg_msi := False,
        lg_irq := lg_irq (ledger cs) - {i}, lg_data := None\<rparr> \<and>
     d_bits drv' = d_bits (dev_free i drv)"
  using on_error_3_result [OF assms(1), of "cs @ [K_free_irq i]" err] assms(2,3)
  by (auto simp: on_error_4_def account_simps)

lemma pci_probe_rest:
  assumes "ndev < 32"
  shows "pci_probe ini ndev (\<lambda>_ b. b) e pci drv =
     (case find (\<lambda>j. \<not> bit (d_bits drv) j) [0..<ndev] of
        None \<Rightarrow> (- ENOMEM, [], drv)
      | Some i \<Rightarrow> probe_rest e i (drv\<lparr>d_bits := d_bits drv OR push_bit i 1,
          d_devs := (d_devs drv)[i := ((d_devs drv)[i := ini (d_devs drv ! i)] ! i)\<lparr>dv_pci := pci\<rparr>]\<rparr>))"
  unfolding pci_probe_def dev_alloc_result [OF assms] by (simp split: option.split)

text \<open>The state of \<open>probe_rest\<close> after a successful mapping, and after a failed one.\<close>

definition probe_outcome :: "probe_env \<Rightarrow> nat \<Rightarrow> ('z drv_dev_scheme, 'y) drv_scheme \<Rightarrow>
    int \<times> kcall list \<times> ('z drv_dev_scheme, 'y) drv_scheme \<Rightarrow> bool" where
  "probe_outcome e i drv = (\<lambda>(err, cs, drv').
     if err = 0 then
       find (bar_fails e) [0..<NBAR] = None \<and>
       drv' = drv\<lparr>d_devs := (d_devs drv)[i := mapped_dev e NBAR (d_devs drv ! i)]\<rparr> \<and>
       regions cs = {j. j < NBAR \<and> usable e j} \<and> maps cs = mapped_addrs e NBAR \<and>
       ledger cs = \<lparr>lg_enable = if pe_is_enabled e then 0 else 1, lg_msi = True, lg_irq = {i},
          lg_cdev = {i}, lg_data = Some i\<rparr>
     else
       d_bits drv' = d_bits (dev_free i drv) \<and> maps cs = {#} \<and>
       regions cs \<subseteq> {k. find (bar_fails e) [0..<NBAR] = Some k \<and> be_request e k = 0} \<and>
       ledger cs = no_ledger\<lparr>lg_enable := if pe_is_enabled e then -1 else 0\<rparr>)"
text \<open>The calls before the mapping, and what follows it.\<close>

definition probe_head :: "probe_env \<Rightarrow> nat \<Rightarrow> kcall list" where
  "probe_head e i =
     [K_set_drvdata (Some i)] @ (if pe_is_enabled e then [] else [K_enable_device (pe_enable e)])"

definition probe_tail ::
  "probe_env \<Rightarrow> nat \<Rightarrow> int \<Rightarrow> kcall list \<Rightarrow> ('z drv_dev_scheme, 'y) drv_scheme \<Rightarrow>
     int \<times> kcall list \<times> ('z drv_dev_scheme, 'y) drv_scheme" where
  "probe_tail e i err cs drv =
     (if err \<noteq> 0 then on_error_2 i err cs drv else
      if pe_msi e \<noteq> 0 then on_error_2 i (pe_msi e) (cs @ [K_enable_msi (pe_msi e)]) drv else
      if pe_irq e \<noteq> 0 then
        on_error_3 i (pe_irq e) ((cs @ [K_enable_msi 0]) @ [K_request_irq i (pe_irq e)]) drv else
      if pe_cdev e \<noteq> 0 then on_error_4 i (pe_cdev e)
        (((cs @ [K_enable_msi 0]) @ [K_request_irq i 0]) @ [K_cdev_add i (pe_cdev e)]) drv
      else (0, ((cs @ [K_enable_msi 0]) @ [K_request_irq i 0]) @ [K_cdev_add i 0], drv))"

lemma probe_rest_split:
  assumes "pe_is_enabled e \<or> pe_enable e = 0" and "dev_map_bars e (d_devs drv ! i) = (err, cs, dev')"
  shows "probe_rest e i drv =
    probe_tail e i err (probe_head e i @ cs) (drv\<lparr>d_devs := (d_devs drv)[i := dev']\<rparr>)"
  using assms
  by (cases "pe_is_enabled e") (simp_all add: probe_rest_def probe_tail_def probe_head_def Let_def)

lemma probe_head_account:
  assumes "list_all bar_call cs" and "pe_is_enabled e \<or> pe_enable e = 0"
  shows "regions (probe_head e i @ cs) = regions cs" "maps (probe_head e i @ cs) = maps cs"
    "ledger (probe_head e i @ cs) = no_ledger\<lparr>lg_data := Some i,
        lg_enable := if pe_is_enabled e then 0 else 1\<rparr>"
  using assms(2)
  by (auto simp: account_simps probe_head_def ledger_bar_calls [OF assms(1)] regions_def maps_def
      ledger_def no_ledger_def)

text \<open>The mapping failed: the device has no mapping, at most one region is held.\<close>

lemma probe_tail_failed:
  assumes c: "bars_clear (d_devs drv ! i)" and "err \<noteq> 0" and "maps cs = {#}"
    and l: "ledger cs = no_ledger\<lparr>lg_data := Some i, lg_enable := n\<rparr>"
  shows "\<exists>cs' drv'. probe_tail e i err cs drv = (err, cs', drv') \<and> regions cs' = regions cs \<and>
    maps cs' = {#} \<and> ledger cs' = no_ledger\<lparr>lg_enable := n - 1\<rparr> \<and>
    d_bits drv' = d_bits (dev_free i drv)"
proof -
  have z: "dv_vadr (d_devs drv ! i) ! j = 0" if "j < NBAR" for j
    using c that by (simp add: bars_clear_def)
  then have none: "{j. j < NBAR \<and> dv_vadr (d_devs drv ! i) ! j \<noteq> 0} = {}"
    "held_maps (d_devs drv ! i) NBAR = {#}" by (auto simp: held_maps_def)
  have "bars_wf (d_devs drv ! i)" using c by (simp add: bars_wf_def bars_clear_def)
  from on_error_2_result [OF this, of cs "regions cs" err] show ?thesis
    unfolding none using assms(2,3) l by (simp add: probe_tail_def no_ledger_def)
qed

text \<open>The mapping succeeded: each later failure gives back all of it.\<close>

lemma probe_tail_mapped:
  assumes w: "bars_wf (d_devs drv ! i)"
    and r: "regions cs = {j. j < NBAR \<and> dv_vadr (d_devs drv ! i) ! j \<noteq> 0}"
    and m: "maps cs = held_maps (d_devs drv ! i) NBAR"
    and l: "ledger cs = no_ledger\<lparr>lg_data := Some i, lg_enable := n\<rparr>"
  obtains cs' where "probe_tail e i 0 cs drv = (0, cs', drv)" and "regions cs' = regions cs"
      and "maps cs' = maps cs"
      and "ledger cs' = \<lparr>lg_enable = n, lg_msi = True, lg_irq = {i}, lg_cdev = {i}, lg_data = Some i\<rparr>"
  | err cs' drv' where "probe_tail e i 0 cs drv = (err, cs', drv')" and "err \<noteq> 0" and "regions cs' = {}"
      and "maps cs' = {#}" and "ledger cs' = no_ledger\<lparr>lg_enable := n - 1\<rparr>"
      and "d_bits drv' = d_bits (dev_free i drv)"
proof -
  consider "pe_msi e \<noteq> 0" | "pe_msi e = 0" "pe_irq e \<noteq> 0" | "pe_msi e = 0" "pe_irq e = 0" "pe_cdev e \<noteq> 0"
    | "pe_msi e = 0" "pe_irq e = 0" "pe_cdev e = 0" by blast
  then show ?thesis
  proof cases
    case 1
    then show ?thesis using that(2) r m l on_error_2_result [OF w, of "cs @ [K_enable_msi (pe_msi e)]" "{}" "pe_msi e"]
      by (auto simp: probe_tail_def account_simps no_ledger_def)
  next
    case 2
    let ?c = "(cs @ [K_enable_msi 0]) @ [K_request_irq i (pe_irq e)]"
    show ?thesis using that(2) r m l 2 on_error_3_result [OF w, of ?c "pe_irq e"]
      by (auto simp: probe_tail_def account_simps no_ledger_def)
  next
    case 3
    let ?c = "((cs @ [K_enable_msi 0]) @ [K_request_irq i 0]) @ [K_cdev_add i (pe_cdev e)]"
    show ?thesis using that(2) r m l 3 on_error_4_result [OF w, of ?c "pe_cdev e"]
      by (auto simp: probe_tail_def account_simps no_ledger_def)
  next
    case 4
    then show ?thesis using that(1) r m l by (auto simp: probe_tail_def account_simps no_ledger_def)
  qed
qed

text \<open>What the device holds once every usable resource is mapped.\<close>

lemma mapped_all:
  assumes "find (bar_fails e) [0..<NBAR] = None"
  shows "bars_wf (mapped_dev e NBAR dev)"
    and "{j. j < NBAR \<and> dv_vadr (mapped_dev e NBAR dev) ! j \<noteq> 0} = {i. i < NBAR \<and> usable e i}"
    and "held_maps (mapped_dev e NBAR dev) NBAR = mapped_addrs e NBAR"
proof -
  have nf: "\<forall>i<NBAR. usable e i \<longrightarrow> be_ioremap e i \<noteq> 0"
    using assms by (auto simp: find_None_iff bar_fails_def)
  then show "bars_wf (mapped_dev e NBAR dev)" by (rule mapped_wf)
  show "{j. j < NBAR \<and> dv_vadr (mapped_dev e NBAR dev) ! j \<noteq> 0} = {i. i < NBAR \<and> usable e i}"
    using nf by (auto simp: mapped_nth split: if_splits)
  show "held_maps (mapped_dev e NBAR dev) NBAR = mapped_addrs e NBAR"
    using held_mapped [OF nf, of NBAR dev] by simp
qed

lemma probe_rest_outcome:
  assumes i: "i < length (d_devs drv)" and c: "bars_clear (d_devs drv ! i)"
  shows "probe_outcome e i drv (probe_rest e i drv)"
proof (cases "pe_is_enabled e \<or> pe_enable e = 0")
  case False
  then show ?thesis
    by (simp add: probe_rest_def probe_outcome_def on_error_1_def regions_def maps_def ledger_def no_ledger_def Let_def)
next
  case en: True
  obtain err cs dev' where m: "dev_map_bars e (d_devs drv ! i) = (err, cs, dev')"
    by (cases "dev_map_bars e (d_devs drv ! i)")
  note mr = map_bars_result [OF c, of e, unfolded m]
  have bc: "list_all bar_call cs" using mr by auto
  let ?drv = "drv\<lparr>d_devs := (d_devs drv)[i := dev']\<rparr>" and ?n = "if pe_is_enabled e then 0 else 1 :: int"
  note rest = probe_rest_split [OF en m] and acc = probe_head_account [OF bc en, of i]
  have free: "d_bits (dev_free i ?drv) = d_bits (dev_free i drv)" by (simp add: dev_free_def Let_def)
  show ?thesis
  proof (cases "find (bar_fails e) [0..<NBAR]")
    case (Some k)
    then have f: "err \<noteq> 0" "dev' = d_devs drv ! i" "maps cs = {#}"
      "regions cs = (if be_request e k \<noteq> 0 then {} else {k})" using mr by auto
    have "bars_clear (d_devs ?drv ! i)" "maps (probe_head e i @ cs) = {#}" using f(2,3) c i acc(2) by simp_all
    from probe_tail_failed [OF this(1) f(1) this(2) acc(3), of e] show ?thesis
      unfolding rest probe_outcome_def using f(1,4) Some acc(1) free by (auto simp: no_ledger_def split: if_splits)
  next
    case None
    then have s: "err = 0" "dev' = mapped_dev e NBAR (d_devs drv ! i)"
      "regions cs = {i. i < NBAR \<and> usable e i}" "maps cs = mapped_addrs e NBAR" using mr by auto
    note ma = mapped_all [OF None, of "d_devs drv ! i", folded s(2)]
    have dev_i: "d_devs ?drv ! i = dev'" using i by simp
    show ?thesis
      unfolding rest s(1)
      by (rule probe_tail_mapped [of ?drv i "probe_head e i @ cs" ?n e, unfolded dev_i ma(2,3) acc(1,2)])
        (use None s ma acc(3) free in \<open>auto simp: probe_outcome_def no_ledger_def\<close>)
  qed
qed

text \<open>
  C24. A failed \<open>probe\<close> gives back everything it took: the device, the mappings, the interrupt,
  MSI, the character device and the driver data; of the regions only one whose \<open>ioremap\<close> failed
  stays. It also disables a PCI device that somebody else had enabled, unless it failed before
  having a device of its own.
\<close>

theorem probe_failure_releases:
  assumes "ndev < 32" and "length (d_devs drv) = ndev"
    and "\<And>d. dv_vadr (ini d) = replicate 6 0" and "\<And>d. dv_len (ini d) = replicate 6 0"
    and "pci_probe ini ndev (\<lambda>_ b. b) e pci drv = (err, calls, drv')" and "err \<noteq> 0"
  shows "d_bits drv' = d_bits drv \<and> maps calls = {#} \<and>
     regions calls \<subseteq> {k. find (bar_fails e) [0..<6] = Some k \<and> be_request e k = 0} \<and>
     ledger calls = \<lparr>lg_enable = if pe_is_enabled e \<and> (\<exists>i<ndev. \<not> bit (d_bits drv) i) then -1 else 0,
       lg_msi = False, lg_irq = {}, lg_cdev = {}, lg_data = None\<rparr>"
proof (cases "find (\<lambda>j. \<not> bit (d_bits drv) j) [0..<ndev]")
  case None
  then have "calls = []" "drv' = drv" using assms(5) by (simp_all add: pci_probe_rest [OF assms(1)])
  moreover have "\<not> (\<exists>i<ndev. \<not> bit (d_bits drv) i)" using None by (auto simp: find_None_iff)
  ultimately show ?thesis by (simp add: ledger_def no_ledger_def)
next
  case (Some i)
  then have i: "i < ndev" "\<not> bit (d_bits drv) i" by (auto simp: find_Some_iff)
  let ?drv = "drv\<lparr>d_bits := d_bits drv OR push_bit i 1,
      d_devs := (d_devs drv)[i := ((d_devs drv)[i := ini (d_devs drv ! i)] ! i)\<lparr>dv_pci := pci\<rparr>]\<rparr>"
  have "probe_rest e i ?drv = (err, calls, drv')"
    using assms(5) Some by (simp add: pci_probe_rest [OF assms(1)])
  moreover have "bars_clear (d_devs ?drv ! i)"
    using assms(2-4) i(1) by (simp add: bars_clear_def NBAR_def)
  ultimately have "probe_outcome e i ?drv (err, calls, drv')"
    using probe_rest_outcome [of i ?drv e] i(1) assms(2) by simp
  moreover have "d_bits (dev_free i ?drv) = d_bits drv" by (rule free_after_alloc) (use i in simp_all)
  ultimately show ?thesis
    using assms(6) i by (auto simp: probe_outcome_def no_ledger_def NBAR_def)
qed

lemma probe_remove_result:
  assumes "ndev < 32" and "length (d_devs drv) = ndev"
    and "\<And>d. dv_vadr (ini d) = replicate 6 0" and "\<And>d. dv_len (ini d) = replicate 6 0"
    and "pci_probe ini ndev (\<lambda>_ b. b) e pci drv = (0, calls, drv')"
  shows "\<exists>i<ndev. \<not> bit (d_bits drv) i \<and> is_dev_allocated i drv' \<and>
     regions calls = {k. k < 6 \<and> usable e k} \<and>
     ledger calls = \<lparr>lg_enable = if pe_is_enabled e then 0 else 1, lg_msi = True, lg_irq = {i},
       lg_cdev = {i}, lg_data = Some i\<rparr> \<and>
     (\<exists>calls2 drv2. pci_remove i drv' = (calls2, drv2) \<and> d_bits drv2 = d_bits drv \<and>
        regions (calls @ calls2) = {} \<and> maps (calls @ calls2) = {#} \<and>
        ledger (calls @ calls2) = \<lparr>lg_enable = if pe_is_enabled e then -1 else 0, lg_msi = False,
          lg_irq = {}, lg_cdev = {}, lg_data = None\<rparr>)"
proof (cases "find (\<lambda>j. \<not> bit (d_bits drv) j) [0..<ndev]")
  case None
  then show ?thesis using assms(5) by (simp add: pci_probe_rest [OF assms(1)] ENOMEM_def)
next
  case (Some i)
  then have i: "i < ndev" "\<not> bit (d_bits drv) i" by (auto simp: find_Some_iff)
  let ?drv = "drv\<lparr>d_bits := d_bits drv OR push_bit i 1,
      d_devs := (d_devs drv)[i := ((d_devs drv)[i := ini (d_devs drv ! i)] ! i)\<lparr>dv_pci := pci\<rparr>]\<rparr>"
  let ?dev = "mapped_dev e NBAR (d_devs ?drv ! i)"
  have "probe_rest e i ?drv = (0, calls, drv')"
    using assms(5) Some by (simp add: pci_probe_rest [OF assms(1)])
  moreover have "bars_clear (d_devs ?drv ! i)"
    using assms(2-4) i(1) by (simp add: bars_clear_def NBAR_def)
  ultimately have "probe_outcome e i ?drv (0, calls, drv')"
    using probe_rest_outcome [of i ?drv e] i(1) assms(2) by simp
  then have p: "find (bar_fails e) [0..<NBAR] = None" "drv' = ?drv\<lparr>d_devs := (d_devs ?drv)[i := ?dev]\<rparr>"
    "regions calls = {j. j < NBAR \<and> usable e j}" "maps calls = mapped_addrs e NBAR"
    "ledger calls = \<lparr>lg_enable = if pe_is_enabled e then 0 else 1, lg_msi = True, lg_irq = {i},
          lg_cdev = {i}, lg_data = Some i\<rparr>"
    by (simp_all add: probe_outcome_def)
  note ma = mapped_all [OF p(1), of "d_devs ?drv ! i"]
  have dev_i: "d_devs drv' ! i = ?dev" using p(2) i(1) assms(2) by simp
  let ?c = "calls @ [K_cdev_del i, K_free_irq i, K_disable_msi]"
  obtain ds where ds: "dev_unmap_bars ?dev = (ds, ?dev\<lparr>dv_vadr := replicate NBAR 0, dv_len := replicate NBAR 0\<rparr>)"
     "list_all bar_call ds" "fold region_upd ds (regions ?c) = {}" "fold map_upd ds (maps ?c) = {#}"
    using unmap_result [OF ma(1), of ?c] ma(2,3) p(3,4)
    by (auto simp: account_simps)
  let ?drv2 = "dev_free i (drv'\<lparr>d_devs := (d_devs drv')[i := ?dev\<lparr>dv_vadr := replicate NBAR 0,
      dv_len := replicate NBAR 0\<rparr>]\<rparr>)"
  let ?c2 = "[K_cdev_del i, K_free_irq i, K_disable_msi] @ ds @ [K_disable_device, K_set_drvdata None]"
  have rm: "pci_remove i drv' = (?c2, ?drv2)"
    unfolding pci_remove_def dev_i ds(1) by (simp add: Let_def)
  have acc: "regions (calls @ ?c2) = {}" "maps (calls @ ?c2) = {#}"
    "ledger (calls @ ?c2) = \<lparr>lg_enable = if pe_is_enabled e then -1 else 0, lg_msi = False,
          lg_irq = {}, lg_cdev = {}, lg_data = None\<rparr>"
    using ds(3,4) p(5) by (simp_all add: account_simps ledger_bar_calls [OF ds(2)])
  have bits: "d_bits ?drv2 = d_bits drv" by (rule free_after_alloc) (use i p(2) in simp_all)
  have "is_dev_allocated i drv'"
    using p(2) i(1) assms(1) and_bit_iff [of "d_bits drv'" i] by (simp add: is_dev_allocated_def set_bit_simps)
  then show ?thesis
    using i rm acc bits p(3,5) by (intro exI [of _ i]) (auto simp: NBAR_def)
qed

text \<open>
  C25. A successful \<open>probe\<close> holds one device that was free, its MSI, interrupt and character
  device, and exactly the usable memory resources; \<open>remove\<close> of that device gives all of it back
  and the bitmap is what it was before.
\<close>

theorem probe_remove_balance:
  assumes "ndev < 32" and "length (d_devs drv) = ndev"
    and "\<And>d. dv_vadr (ini d) = replicate 6 0" and "\<And>d. dv_len (ini d) = replicate 6 0"
    and "pci_probe ini ndev (\<lambda>_ b. b) e pci drv = (0, calls, drv')"
  shows "\<exists>i<ndev. \<not> bit (d_bits drv) i \<and> is_dev_allocated i drv' \<and>
     regions calls = {k. k < 6 \<and> usable e k} \<and>
     ledger calls = \<lparr>lg_enable = if pe_is_enabled e then 0 else 1, lg_msi = True, lg_irq = {i},
       lg_cdev = {i}, lg_data = Some i\<rparr> \<and>
     (\<exists>calls2 drv2. pci_remove i drv' = (calls2, drv2) \<and> d_bits drv2 = d_bits drv \<and>
        regions (calls @ calls2) = {} \<and> maps (calls @ calls2) = {#} \<and>
        ledger (calls @ calls2) = \<lparr>lg_enable = if pe_is_enabled e then -1 else 0, lg_msi = False,
          lg_irq = {}, lg_cdev = {}, lg_data = None\<rparr>)"
  by (rule probe_remove_result [OF assms])

text \<open>The environment and the driver of the witnesses: three usable resources out of six.\<close>

definition wit_env :: "int \<Rightarrow> probe_env" where
  "wit_env irq = \<lparr>be_flags = \<lambda>_. 0x200, be_start = \<lambda>i. if i < 3 then 0x1000 else 0, be_len = \<lambda>_. 0x100,
     be_request = \<lambda>_. 0, be_ioremap = \<lambda>_. 0x10000, pe_is_enabled = True,
     pe_enable = 0, pe_msi = 0, pe_irq = irq, pe_cdev = 0\<rparr>"

definition wit_drv :: "drv_dev drv" where
  "wit_drv = \<lparr>d_devs = replicate 2 \<lparr>dv_pci = 0, dv_vadr = replicate 6 0, dv_len = replicate 6 0\<rparr>,
     d_bits = 1, d_major = 250\<rparr>"

lemma dev_init_bars_simps: "dv_vadr (dev_init_bars d) = replicate 6 0"
  "dv_len (dev_init_bars d) = replicate 6 0"
  by (simp_all add: dev_init_bars_def NBAR_def)

lemma wit_drv_simps: "length (d_devs wit_drv) = 2" "d_bits wit_drv = 1"
  by (simp_all add: wit_drv_def)

lemma wit_env_ok: "find (bar_fails (wit_env r)) [0..<NBAR] = None"
  by (simp add: find_None_iff bar_fails_def usable_def wit_env_def)

lemma wit_probe_gen:
  assumes d: "length (d_devs drv) = 2" "d_bits drv = 1"
    and ini: "\<And>d. dv_vadr (ini d) = replicate 6 0" "\<And>d. dv_len (ini d) = replicate 6 0"
    and p: "pci_probe ini 2 (\<lambda>_ b. b) (wit_env irq) 7 drv = (err, calls, drv')"
  shows "err = 0 \<longleftrightarrow> irq = 0"
proof -
  have f: "find (\<lambda>j. \<not> bit (d_bits drv) j) [0..<2] = Some 1"
    by (simp add: d upt_rec bit_1_iff)
  let ?drv = "drv\<lparr>d_bits := d_bits drv OR push_bit 1 1, d_devs := (d_devs drv)
     [1 := ((d_devs drv)[1 := ini (d_devs drv ! 1)] ! 1)\<lparr>dv_pci := 7\<rparr>]\<rparr>"
  have p: "probe_rest (wit_env irq) 1 ?drv = (err, calls, drv')"
    using p f by (simp add: pci_probe_rest)
  have c: "bars_clear (d_devs ?drv ! 1)"
    by (simp add: bars_clear_def d ini NBAR_def)
  obtain cs dev' where "dev_map_bars (wit_env irq) (d_devs ?drv ! 1) = (0, cs, dev')"
    using map_bars_result [OF c, of "wit_env irq"] wit_env_ok by auto
  then show ?thesis
    using p by (auto simp: probe_rest_def wit_env_def Let_def on_error_3_def on_error_2_def on_error_1_def
        split: if_splits prod.splits)
qed

lemmas wit_probe = wit_probe_gen [OF wit_drv_simps dev_init_bars_simps]

theorem probe_failure_releases_witness:
  "\<exists>err calls drv'. pci_probe dev_init_bars 2 (\<lambda>_ b. b) (wit_env (-16)) 7 wit_drv = (err, calls, drv') \<and>
     d_bits drv' = 1 \<and> maps calls = {#} \<and> lg_enable (ledger calls) = -1"
proof -
  obtain err calls drv' where p: "pci_probe dev_init_bars 2 (\<lambda>_ b. b) (wit_env (-16)) 7 wit_drv =
      (err, calls, drv')" by (cases "pci_probe dev_init_bars 2 (\<lambda>_ b. b) (wit_env (-16)) 7 wit_drv")
  have n: "err \<noteq> 0" using wit_probe [OF p] by simp
  have "\<exists>i<2. \<not> bit (d_bits wit_drv) i"
    by (rule exI [of _ 1]) (simp add: wit_drv_simps bit_1_iff)
  with probe_failure_releases [OF _ wit_drv_simps(1) dev_init_bars_simps p n] p show ?thesis
    by (simp add: wit_drv_simps(2) wit_env_def)
qed

theorem probe_remove_balance_witness:
  "\<exists>calls drv' i calls2 drv2. pci_probe dev_init_bars 2 (\<lambda>_ b. b) (wit_env 0) 7 wit_drv = (0, calls, drv') \<and>
     pci_remove i drv' = (calls2, drv2) \<and> d_bits drv2 = 1 \<and> regions (calls @ calls2) = {}"
proof -
  obtain err calls drv' where p: "pci_probe dev_init_bars 2 (\<lambda>_ b. b) (wit_env 0) 7 wit_drv =
      (err, calls, drv')" by (cases "pci_probe dev_init_bars 2 (\<lambda>_ b. b) (wit_env 0) 7 wit_drv")
  have "err = 0" using wit_probe [OF p] by simp
  with p have p0: "pci_probe dev_init_bars 2 (\<lambda>_ b. b) (wit_env 0) 7 wit_drv = (0, calls, drv')" by simp
  from probe_remove_balance [OF _ wit_drv_simps(1) dev_init_bars_simps p0] p0 wit_drv_simps(2)
  show ?thesis by fastforce
qed


section \<open>PCI error recovery\<close>

text \<open>
  The handlers of \<open>kdma_err_handler\<close> (\<open>sbone_err_handler\<close>) besides \<open>error_detected\<close>: they only
  report, and the one for the reset of the slot does not enable the device again.
\<close>

definition mmio_enabled :: "pci_ers_result \<times> kcall list" where "mmio_enabled = (Ers_Recovered, [])"
definition link_reset :: "pci_ers_result \<times> kcall list" where "link_reset = (Ers_Recovered, [])"
definition slot_reset :: "pci_ers_result \<times> kcall list" where "slot_reset = (Ers_Recovered, [])"

datatype ers_event = Ev_error_detected pci_channel_state | Ev_mmio_enabled | Ev_link_reset
  | Ev_slot_reset | Ev_resume

text \<open>The table of the handlers: what the kernel is told, if anything, and the calls.\<close>

fun err_handler :: "ers_event \<Rightarrow> pci_ers_result option \<times> kcall list" where
  "err_handler (Ev_error_detected s) = (case error_detected s of (r, c) \<Rightarrow> (Some r, c))"
| "err_handler Ev_mmio_enabled = (case mmio_enabled of (r, c) \<Rightarrow> (Some r, c))"
| "err_handler Ev_link_reset = (case link_reset of (r, c) \<Rightarrow> (Some r, c))"
| "err_handler Ev_slot_reset = (case slot_reset of (r, c) \<Rightarrow> (Some r, c))"
| "err_handler Ev_resume = (None, [])"

definition recovery :: "ers_event list \<Rightarrow> kcall list" where
  "recovery es = concat (map (\<lambda>e. snd (err_handler e)) es)"

text \<open>
  What the kernel announces, whatever the driver does about it: an error after which the channel may come
  back, and the loss of the channel.
\<close>

fun transient :: "ers_event \<Rightarrow> bool" where
  "transient (Ev_error_detected s) \<longleftrightarrow> s \<noteq> Io_perm_failure"
| "transient _ \<longleftrightarrow> False"

fun channel_lost :: "ers_event \<Rightarrow> bool" where
  "channel_lost (Ev_error_detected s) \<longleftrightarrow> s = Io_perm_failure"
| "channel_lost _ \<longleftrightarrow> False"

definition errors :: "ers_event list \<Rightarrow> nat" where
  "errors es = length (filter transient es)"

lemma handler_calls: "snd (err_handler e) = (if transient e then [K_disable_device] else [])"
  by (cases e) (simp_all add: error_detected_def mmio_enabled_def link_reset_def slot_reset_def)

lemma handler_result:
  "fst (err_handler e) = (if transient e then Some Ers_Need_reset else if channel_lost e then Some Ers_Disconnect
     else if e = Ev_resume then None else Some Ers_Recovered)"
  by (cases e) (simp_all add: error_detected_def mmio_enabled_def link_reset_def slot_reset_def)

lemma recovery_calls: "recovery es = replicate (errors es) K_disable_device"
  by (induction es) (simp_all add: recovery_def errors_def handler_calls)

text \<open>Disabling the device commutes with every other entry of the ledger.\<close>

lemma disable_commutes:
  "ledger_upd c (l\<lparr>lg_enable := lg_enable l - k\<rparr>) =
     (ledger_upd c l)\<lparr>lg_enable := lg_enable (ledger_upd c l) - k\<rparr>"
  by (cases c) simp_all

lemma disables_commute:
  "fold ledger_upd cs (l\<lparr>lg_enable := lg_enable l - k\<rparr>) =
     (fold ledger_upd cs l)\<lparr>lg_enable := lg_enable (fold ledger_upd cs l) - k\<rparr>"
proof (induction cs arbitrary: l)
  case (Cons c cs)
  then show ?case by (simp only: fold_Cons comp_apply disable_commutes)
qed simp

lemma disables_fold:
  "fold ledger_upd (replicate n K_disable_device) l = l\<lparr>lg_enable := lg_enable l - int n\<rparr>"
  by (induction n arbitrary: l) (simp_all del: fold_replicate)

lemma recovery_account:
  "regions (cs @ recovery es @ ds) = regions (cs @ ds)" "maps (cs @ recovery es @ ds) = maps (cs @ ds)"
  "ledger (cs @ recovery es @ ds) = (ledger (cs @ ds))\<lparr>lg_enable := lg_enable (ledger (cs @ ds)) -
     int (errors es)\<rparr>"
proof -
  have r: "fold region_upd (replicate n K_disable_device) S = S" for n S
    by (induction n) (simp_all del: fold_replicate)
  have m: "fold map_upd (replicate n K_disable_device) M = M" for n M
    by (induction n) (simp_all del: fold_replicate)
  show "regions (cs @ recovery es @ ds) = regions (cs @ ds)" "maps (cs @ recovery es @ ds) = maps (cs @ ds)"
    unfolding recovery_calls account_simps fold_append comp_apply r m by simp_all
  show "ledger (cs @ recovery es @ ds) = (ledger (cs @ ds))\<lparr>lg_enable := lg_enable (ledger (cs @ ds)) -
     int (errors es)\<rparr>"
    unfolding recovery_calls account_simps fold_append comp_apply disables_fold
    by (rule disables_commute)
qed

text \<open>
  C36. However the kernel takes a probed device through error recovery, each error that is not permanent
  disables it once more, and no handler enables it again: the kernel is asked for a reset at exactly these
  errors, told of the disconnection when the channel is lost, and told that the device has recovered
  after everything else, also after the reset, although from the first such error on the device is
  disabled. When it is removed at the end, the rest is given back, but it has been disabled once too
  often for each of these errors.
\<close>

theorem recovery_leaves_disabled:
  assumes "ndev < 32" and "length (d_devs drv) = ndev"
    and "\<And>d. dv_vadr (ini d) = replicate 6 0" and "\<And>d. dv_len (ini d) = replicate 6 0"
    and "pci_probe ini ndev (\<lambda>_ b. b) e pci drv = (0, calls, drv')"
  shows "\<exists>i calls2 drv2. pci_remove i drv' = (calls2, drv2) \<and>
     lg_enable (ledger (calls @ recovery es)) = (if pe_is_enabled e then 0 else 1) - int (errors es) \<and>
     (0 < errors es \<longrightarrow> lg_enable (ledger (calls @ recovery es)) \<le> 0) \<and>
     (\<forall>ev. (fst (err_handler ev) = Some Ers_Need_reset \<longleftrightarrow> transient ev) \<and>
        (fst (err_handler ev) = Some Ers_Disconnect \<longleftrightarrow> channel_lost ev) \<and>
        (fst (err_handler ev) = Some Ers_Recovered \<longleftrightarrow> ev \<in> {Ev_mmio_enabled, Ev_link_reset, Ev_slot_reset})) \<and>
     regions (calls @ recovery es @ calls2) = {} \<and> maps (calls @ recovery es @ calls2) = {#} \<and>
     lg_enable (ledger (calls @ recovery es @ calls2)) = (if pe_is_enabled e then -1 else 0) - int (errors es)"
proof -
  obtain i calls2 drv2 where p: "ledger calls = \<lparr>lg_enable = if pe_is_enabled e then 0 else 1, lg_msi = True,
       lg_irq = {i}, lg_cdev = {i}, lg_data = Some i\<rparr>" "pci_remove i drv' = (calls2, drv2)"
     "d_bits drv2 = d_bits drv" "regions (calls @ calls2) = {}" "maps (calls @ calls2) = {#}"
     "ledger (calls @ calls2) = \<lparr>lg_enable = if pe_is_enabled e then -1 else 0, lg_msi = False,
          lg_irq = {}, lg_cdev = {}, lg_data = None\<rparr>"
    using probe_remove_result [OF assms] by blast
  have e: "lg_enable (ledger (calls @ recovery es)) = (if pe_is_enabled e then 0 else 1) - int (errors es)"
    using recovery_account(3) [of calls es "[]"] p(1) by simp
  have "(fst (err_handler ev) = Some Ers_Need_reset \<longleftrightarrow> transient ev) \<and>
      (fst (err_handler ev) = Some Ers_Disconnect \<longleftrightarrow> channel_lost ev) \<and>
      (fst (err_handler ev) = Some Ers_Recovered \<longleftrightarrow> ev \<in> {Ev_mmio_enabled, Ev_link_reset, Ev_slot_reset})" for ev
    unfolding handler_result by (cases ev) simp_all
  then show ?thesis
    using recovery_account [of calls es calls2] p e
    by (intro exI [of _ i] exI [of _ calls2] exI [of _ drv2]) simp
qed

text \<open>A frozen channel: the driver asks for a reset, is told of it, and the device stays disabled.\<close>

theorem recovery_leaves_disabled_witness:
  "\<exists>calls drv' i calls2 drv2. pci_probe dev_init_bars 2 (\<lambda>_ b. b) (wit_env 0) 7 wit_drv = (0, calls, drv') \<and>
     pci_remove i drv' = (calls2, drv2) \<and>
     lg_enable (ledger (calls @ recovery [Ev_error_detected Io_frozen, Ev_slot_reset, Ev_resume])) = -1 \<and>
     regions (calls @ recovery [Ev_error_detected Io_frozen, Ev_slot_reset, Ev_resume] @ calls2) = {}"
proof -
  obtain err calls drv' where p: "pci_probe dev_init_bars 2 (\<lambda>_ b. b) (wit_env 0) 7 wit_drv =
      (err, calls, drv')" by (cases "pci_probe dev_init_bars 2 (\<lambda>_ b. b) (wit_env 0) 7 wit_drv")
  have "err = 0" using wit_probe [OF p] by simp
  with p have p0: "pci_probe dev_init_bars 2 (\<lambda>_ b. b) (wit_env 0) 7 wit_drv = (0, calls, drv')" by simp
  have "errors [Ev_error_detected Io_frozen, Ev_slot_reset, Ev_resume] = 1" by (simp add: errors_def)
  moreover have "pe_is_enabled (wit_env 0)" by (simp add: wit_env_def)
  ultimately show ?thesis
    using recovery_leaves_disabled [OF _ wit_drv_simps(1) dev_init_bars_simps p0,
        of "[Ev_error_detected Io_frozen, Ev_slot_reset, Ev_resume]"] p0 by fastforce
qed

section \<open>The table of PCI ids\<close>

text \<open>The entries of \<open>DEFINE_PCI_DEVICE_TABLE\<close> before the terminating one: vendor and device.\<close>

type_synonym pci_id = "u16 \<times> u16"

definition drv_pci_ids :: "pci_id list" where "drv_pci_ids = [(0x2a2a, 0x2b2b)]"

section \<open>The table of the driver\<close>

text \<open>\<open>struct pci_driver\<close> without the name, which the build gives.\<close>

record 'd pci_driver =
  pd_id_table :: "pci_id list"
  pd_probe :: "(nat \<Rightarrow> atomic32 \<Rightarrow> atomic32) \<Rightarrow> probe_env \<Rightarrow> ptr \<Rightarrow> 'd drv \<Rightarrow> int \<times> kcall list \<times> 'd drv"
  pd_remove :: "nat \<Rightarrow> 'd drv \<Rightarrow> kcall list \<times> 'd drv"
  pd_err_handler :: "ers_event \<Rightarrow> pci_ers_result option \<times> kcall list"

end
