(* ===== verification/Kernel_User.thy ===== *)
theory Kernel_User
  imports Vp_Prelude
begin

text \<open>
  The boundary between the two drivers and the processes that use them, as far as both drivers
  use it: the memory of a process with \<open>copy_from_user\<close> and \<open>copy_to_user\<close>, the bits of
  \<open>poll\<close>, device numbers and the calls of the module entry points.
\<close>

section \<open>The memory of a process\<close>

type_synonym umem = "u64 \<rightharpoonup> byte"

text \<open>\<open>copy_from_user\<close>: the bytes, or \<open>None\<close> for a non-zero result.\<close>

fun copy_from_user :: "umem \<Rightarrow> u64 \<Rightarrow> nat \<Rightarrow> byte list option" where
  "copy_from_user m a 0 = Some []"
| "copy_from_user m a (Suc n) = do { b \<leftarrow> m a; bs \<leftarrow> copy_from_user m (a + 1) n; Some (b # bs) }"

text \<open>\<open>copy_to_user\<close>: how many bytes were not copied, and the memory.\<close>

fun copy_to_user :: "umem \<Rightarrow> u64 \<Rightarrow> byte list \<Rightarrow> nat \<times> umem" where
  "copy_to_user m a [] = (0, m)"
| "copy_to_user m a (b # bs) = (if m a = None then (Suc (length bs), m)
     else copy_to_user (m(a \<mapsto> b)) (a + 1) bs)"

section \<open>poll, device numbers and module calls\<close>

definition POLLIN :: u32 where [const_defs]: "POLLIN = 0x001"
definition POLLRDNORM :: u32 where [const_defs]: "POLLRDNORM = 0x040"

definition MKDEV :: "int \<Rightarrow> int \<Rightarrow> int" where "MKDEV ma mi = ma * 2 ^ 20 + mi"
definition MAJOR :: "int \<Rightarrow> int" where "MAJOR d = d div 2 ^ 20"

datatype mod_call = Mc_alloc_chrdev_region nat int | Mc_unregister_chrdev_region int nat
  | Mc_register_driver int | Mc_unregister_driver | Mc_cdev_add int int | Mc_cdev_del

text \<open>
  \<open>struct file_operations\<close>: which of the two entries holds \<open>ioctl\<close> depends on the version of the
  kernel, and the entry for \<open>mmap\<close> may be missing.
\<close>

record ('ioctl, 'open, 'poll, 'release, 'mmap) file_operations =
  fo_unlocked_ioctl :: "'ioctl option"
  fo_ioctl :: "'ioctl option"
  fo_open :: 'open
  fo_poll :: 'poll
  fo_release :: 'release
  fo_mmap :: "'mmap option"

text \<open>
  What the calls of a module leave: the ranges of device numbers it has, of which the first number
  is \<open>d\<close>, and whether its driver is registered.
\<close>

fun mod_upd :: "int \<Rightarrow> mod_call \<Rightarrow> (int \<times> nat) set \<times> bool \<Rightarrow> (int \<times> nat) set \<times> bool" where
  "mod_upd d (Mc_alloc_chrdev_region n r) (R, b) = (if r < 0 then R else insert (d, n) R, b)"
| "mod_upd d (Mc_unregister_chrdev_region e n) (R, b) = (R - {(e, n)}, b)"
| "mod_upd d (Mc_register_driver r) (R, b) = (R, b \<or> r = 0)"
| "mod_upd d Mc_unregister_driver (R, b) = (R, False)"
| "mod_upd d _ (R, b) = (R, b)"

definition mod_held :: "int \<Rightarrow> mod_call list \<Rightarrow> (int \<times> nat) set \<times> bool" where
  "mod_held d cs = fold (mod_upd d) cs ({}, False)"

lemma first_minor: "d mod 2 ^ 20 = 0 \<Longrightarrow> MKDEV (MAJOR d) 0 = d"
  using div_mult_mod_eq [of d "2 ^ 20"] by (simp add: MKDEV_def MAJOR_def)

section \<open>Copies between kernel and process\<close>

lemma copy_from_length: "copy_from_user m a n = Some d \<Longrightarrow> length d = n"
  by (induction n arbitrary: a d) (auto split: Option.bind_splits)

lemma copy_to_frame:
  "copy_to_user m a d = (0, m') \<Longrightarrow> length d \<le> 2 ^ 64 \<Longrightarrow> length d \<le> unat (b - a) \<Longrightarrow> m' b = m b"
proof (induction d arbitrary: m a)
  case Nil
  then show ?case by simp
next
  case (Cons x d)
  have ne: "b \<noteq> a" using Cons.prems(3) by auto
  then have nz: "b - a \<noteq> 0" by simp
  have "b - (a + 1) = (b - a) - 1" by simp
  then have "unat (b - (a + 1)) = unat (b - a) - 1" by (simp only: unat_minus_one [OF nz])
  then have "length d \<le> unat (b - (a + 1))" using Cons.prems(3) by simp
  with Cons ne show ?case by (auto split: if_splits)
qed

lemma copy_from_frame:
  "(\<And>j. j < n \<Longrightarrow> m (a + of_nat j) = m' (a + of_nat j)) \<Longrightarrow> copy_from_user m a n = copy_from_user m' a n"
proof (induction n arbitrary: a)
  case (Suc n)
  have "m (a + 1 + of_nat j) = m' (a + 1 + of_nat j)" if "j < n" for j
    using Suc.prems [of "Suc j"] that by (simp add: algebra_simps)
  then have "copy_from_user m (a + 1) n = copy_from_user m' (a + 1) n" by (rule Suc.IH)
  moreover have "m a = m' a" using Suc.prems [of 0] by simp
  ultimately show ?case by simp
qed simp

text \<open>What was copied out without error is what the process then has there.\<close>

lemma copy_to_from:
  "copy_to_user m a d = (0, m') \<Longrightarrow> length d \<le> 2 ^ 64 \<Longrightarrow> copy_from_user m' a (length d) = Some d"
proof (induction d arbitrary: m a)
  case Nil
  then show ?case by simp
next
  case (Cons x d)
  then have c: "copy_to_user (m(a \<mapsto> x)) (a + 1) d = (0, m')" by (auto split: if_splits)
  have IH: "copy_from_user m' (a + 1) (length d) = Some d" using Cons.IH [OF c] Cons.prems by simp
  have "unat (a - (a + 1)) = 2 ^ 64 - 1" by (simp add: unsigned_minus_1_eq_mask mask_eq_exp_minus_1)
  then have "m' a = (m(a \<mapsto> x)) a"
    using copy_to_frame [OF c, of a] Cons.prems(2) by simp
  with IH show ?case by simp
qed

text \<open>A copy to mapped memory succeeds and maps or unmaps nothing.\<close>

lemma copy_to_mapped:
  "(\<And>j. j < length d \<Longrightarrow> m (a + of_nat j) \<noteq> None) \<Longrightarrow> \<exists>m'. copy_to_user m a d = (0, m') \<and> dom m' = dom m"
proof (induction d arbitrary: m a)
  case (Cons b d)
  have a: "m a \<noteq> None" using Cons.prems [of 0] by simp
  have "(m(a \<mapsto> b)) (a + 1 + of_nat j) \<noteq> None" if "j < length d" for j
    using Cons.prems [of "Suc j"] that by (simp add: algebra_simps)
  then obtain m' where "copy_to_user (m(a \<mapsto> b)) (a + 1) d = (0, m')" "dom m' = dom (m(a \<mapsto> b))"
    using Cons.IH by blast
  then show ?case using a by auto
qed simp

lemma copy_to_dom: "copy_to_user m a d = (n, m') \<Longrightarrow> dom m' = dom m"
  by (induction d arbitrary: m a) (auto split: if_splits)

text \<open>Memory the process has, and copies at known distances from one address.\<close>

definition has_mem :: "umem \<Rightarrow> u64 \<Rightarrow> nat \<Rightarrow> bool" where
  "has_mem m a n \<longleftrightarrow> (\<forall>j<n. a + of_nat j \<in> dom m)"

lemma has_mem_sub: "has_mem m a n \<Longrightarrow> p + k \<le> n \<Longrightarrow> has_mem m (a + of_nat p) k"
  unfolding has_mem_def
proof (intro allI impI)
  fix j assume a: "\<forall>j<n. a + of_nat j \<in> dom m" "p + k \<le> n" "j < k"
  then have "p + j < n" by simp
  with a(1) have "a + of_nat (p + j) \<in> dom m" by blast
  then show "a + of_nat p + of_nat j \<in> dom m" by (simp only: of_nat_add add.assoc)
qed

lemma has_mem_dom: "dom m' = dom m \<Longrightarrow> has_mem m' a n = has_mem m a n"
  by (simp add: has_mem_def)

lemma copy_to_has:
  "has_mem m a (length d) \<Longrightarrow> \<exists>m'. copy_to_user m a d = (0, m') \<and> dom m' = dom m"
  by (rule copy_to_mapped) (auto simp: has_mem_def)

lemma copy_from_has: "has_mem m a n \<Longrightarrow> \<exists>d. copy_from_user m a n = Some d"
proof (induction n arbitrary: a)
  case (Suc n)
  have "has_mem m (a + 1) n" using has_mem_sub [OF Suc.prems, of 1 n] by simp
  moreover have "m a \<noteq> None" using Suc.prems by (auto simp: has_mem_def dest: spec [of _ 0])
  ultimately show ?case using Suc.IH by fastforce
qed simp

lemma copy_from_append:
  "copy_from_user m a (n + k) = do {
     x \<leftarrow> copy_from_user m a n; y \<leftarrow> copy_from_user m (a + of_nat n) k; Some (x @ y) }"
proof (induction n arbitrary: a)
  case (Suc n)
  have s: "a + of_nat (Suc n) = a + 1 + of_nat n" by simp
  have b: "m a \<bind> (\<lambda>b. (x \<bind> (\<lambda>x. y \<bind> (\<lambda>y. Some (x @ y)))) \<bind> (\<lambda>bs. Some (b # bs))) =
      (m a \<bind> (\<lambda>b. x \<bind> (\<lambda>bs. Some (b # bs)))) \<bind> (\<lambda>x. y \<bind> (\<lambda>y. Some (x @ y)))" for x y
    by (cases "m a"; cases x; cases y) simp_all
  show ?case unfolding s add_Suc copy_from_user.simps Suc by (rule b)
qed simp

lemma store_elsewhere:
  assumes c: "copy_to_user m (a + of_nat p) d = (0, m')" and r: "p + length d \<le> b \<or> b + n \<le> p"
    and lim: "p + length d < 2 ^ 63" "b + n < 2 ^ 63"
  shows "copy_from_user m' (a + of_nat b) n = copy_from_user m (a + of_nat b) n"
proof (rule copy_from_frame)
  fix j assume j: "j < n"
  have "length d \<le> unat (a + of_nat b + of_nat j - (a + of_nat p))"
  proof (cases "p + length d \<le> b")
    case True
    then have e: "a + of_nat b + of_nat j - (a + of_nat p) = (of_nat (b + j - p) :: u64)"
      using j by (simp add: of_nat_diff)
    have "unat (of_nat (b + j - p) :: u64) = b + j - p"
      by (rule unat_of_nat_u64) (use lim j in simp)
    then show ?thesis unfolding e using True by simp
  next
    case False
    then have le: "b + j < p" using r j by simp
    then have e: "a + of_nat b + of_nat j - (a + of_nat p) = - (of_nat (p - (b + j)) :: u64)"
      by (simp add: of_nat_diff)
    have u: "unat (of_nat (p - (b + j)) :: u64) = p - (b + j)"
      by (rule unat_of_nat_u64) (use lim in simp)
    have "0 < unat (of_nat (p - (b + j)) :: u64)" using u le by simp
    then have "unat (- (of_nat (p - (b + j)) :: u64)) = 2 ^ 64 - (p - (b + j))"
      using unat_sub_if_size [of 0 "of_nat (p - (b + j)) :: u64"] unfolding u by (simp add: word_size)
    then show ?thesis unfolding e using lim by simp
  qed
  then show "m' (a + of_nat b + of_nat j) = m (a + of_nat b + of_nat j)"
    by (intro copy_to_frame [OF c]) (use lim in simp_all)
qed

end
