(* ===== verification/Kdma.thy ===== *)
theory Kdma
  imports Drv_Core Kernel_User
begin

text \<open>
  The driver of the DMA engine, \<open>src/src/dma/sw/k/kdma.c\<close> and \<open>kdma_ioctl.h\<close>: access to the
  BARs, the interrupt handler, the physical memory list, and the file operations. What it shares
  with the other driver is in \<open>Drv_Core\<close>. The file is compiled with \<open>CONFIG_PMEM_DYNAMIC\<close> and
  without the direct input/output branches.

  The hardware is an argument of the definitions that access it: a state and the functions
  \<open>readl\<close> and \<open>writel\<close> on it. The memory of the calling process is a partial map of bytes.
\<close>

section \<open>Hardware, user memory and kernel memory\<close>

record 'h mmio =
  io_readl :: "u64 \<Rightarrow> 'h \<Rightarrow> u32 \<times> 'h"
  io_writel :: "u32 \<Rightarrow> u64 \<Rightarrow> 'h \<Rightarrow> 'h"

text \<open>
  What the kernel answers in one call: whether \<open>kmalloc\<close> succeeds, the address of the pages it
  hands out (0 for none), and its constant functions.
\<close>

record kenv =
  ke_kmalloc :: bool
  ke_pages :: u64
  ke_get_order :: "u64 \<Rightarrow> nat"
  ke_virt_to_phys :: "u64 \<Rightarrow> u64"
  ke_phys_to_virt :: "u64 \<Rightarrow> u64"

datatype kmem_call = Km_alloc_pages int u64 nat | Km_free_pages u64 nat
  | Km_sync_for_device u64 u64 | Km_remap u64 u64 u64 | Km_wake_up

section \<open>State\<close>

text \<open>\<open>kdma_dev_t\<close>, and everything the operations work on.\<close>

record kdma_dev = drv_dev +
  irq_sta :: u32

record pmem_node =
  pn_paddr :: u64
  pn_size :: u64

record 'h kdma =
  kd_drv :: "kdma_dev drv"
  kd_pmem :: "pmem_node list"
  kd_user :: umem
  kd_hw :: 'h
  kd_log :: "kmem_call list"

definition KDMA_DEV_COUNT :: nat where [const_defs]: "KDMA_DEV_COUNT = 2"

definition kdma_dev_init :: "kdma_dev \<Rightarrow> kdma_dev" where
  "kdma_dev_init dev = (dev_init_bars dev)\<lparr>irq_sta := 0\<rparr>"

definition kdma_driver_init :: "kdma_dev drv \<Rightarrow> kdma_dev drv" where
  "kdma_driver_init d = d\<lparr>d_bits := atomic32_init (d_bits d)\<rparr>"

definition kdma_dev_alloc :: "(nat \<Rightarrow> atomic32 \<Rightarrow> atomic32) \<Rightarrow> kdma_dev drv \<Rightarrow> nat option \<times> kdma_dev drv" where
  "kdma_dev_alloc = dev_alloc kdma_dev_init KDMA_DEV_COUNT"

definition kdma_pci_ids :: "pci_id list" where "kdma_pci_ids = drv_pci_ids"

definition kdma_err_handler :: "ers_event \<Rightarrow> pci_ers_result option \<times> kcall list" where
  "kdma_err_handler = err_handler"

definition kdma_pci_probe where
  "kdma_pci_probe others e pci (drv :: kdma_dev drv) =
     pci_probe kdma_dev_init KDMA_DEV_COUNT others e pci drv"

definition kdma_pci_driver :: "kdma_dev pci_driver" where
  "kdma_pci_driver = \<lparr>pd_id_table = kdma_pci_ids, pd_probe = kdma_pci_probe, pd_remove = pci_remove,
     pd_err_handler = kdma_err_handler\<rparr>"

section \<open>Access to the BARs\<close>

primrec read_bar_words :: "'h mmio \<Rightarrow> u64 \<Rightarrow> nat \<Rightarrow> 'h \<Rightarrow> u32 list \<times> 'h" where
  "read_bar_words io p 0 hw = ([], hw)"
| "read_bar_words io p (Suc n) hw =
     (let (x, hw) = io_readl io p hw; (xs, hw) = read_bar_words io (p + 4) n hw in (x # xs, hw))"

primrec write_bar_words :: "'h mmio \<Rightarrow> u64 \<Rightarrow> u32 list \<Rightarrow> 'h \<Rightarrow> 'h" where
  "write_bar_words io p [] hw = hw"
| "write_bar_words io p (x # xs) hw = write_bar_words io (p + 4) xs (io_writel io x p hw)"

definition read_bar_safe ::
  "'h mmio \<Rightarrow> 'z drv_dev_scheme \<Rightarrow> nat \<Rightarrow> u64 \<Rightarrow> u32 \<Rightarrow> 'h \<Rightarrow> u32 list \<times> 'h" where
  "read_bar_safe io dev bar off wcount hw =
     read_bar_words io (dv_vadr dev ! bar + off) (unat wcount) hw"

definition write_bar_safe ::
  "'h mmio \<Rightarrow> 'z drv_dev_scheme \<Rightarrow> nat \<Rightarrow> u64 \<Rightarrow> u32 list \<Rightarrow> 'h \<Rightarrow> 'h" where
  "write_bar_safe io dev bar off ws hw = write_bar_words io (dv_vadr dev ! bar + off) ws hw"

definition check_bar_access :: "'z drv_dev_scheme \<Rightarrow> u32 \<Rightarrow> u64 \<Rightarrow> u32 \<Rightarrow> int" where
  "check_bar_access dev bar off wcount =
     (let nbar = 6 in
      if bar \<ge> nbar then -1
      else let i = unat bar in
      if dv_vadr dev ! i = 0 then 0
      else if (ucast wcount :: u64) > ucast (-1 :: u32) div 4 then -1
      else let size = ucast wcount * 4; bar_addr = dv_vadr dev ! i + off in
      if bar_addr < dv_vadr dev ! i then -1
      else if bar_addr + size < bar_addr then -1
      else if off + size > dv_len dev ! i then -1
      else if off AND (4 - 1) \<noteq> 0 then -1
      else 0)"

definition read_bar_unsafe ::
  "'h mmio \<Rightarrow> 'z drv_dev_scheme \<Rightarrow> u32 \<Rightarrow> u64 \<Rightarrow> u32 \<Rightarrow> 'h \<Rightarrow> int \<times> u32 list \<times> 'h" where
  "read_bar_unsafe io dev bar off wcount hw =
     (if check_bar_access dev bar off wcount \<noteq> 0 then (-1, [], hw)
      else let (ws, hw) = read_bar_safe io dev (unat bar) off wcount hw in (0, ws, hw))"

definition write_bar_unsafe ::
  "'h mmio \<Rightarrow> 'z drv_dev_scheme \<Rightarrow> u32 \<Rightarrow> u64 \<Rightarrow> u32 list \<Rightarrow> 'h \<Rightarrow> int \<times> 'h" where
  "write_bar_unsafe io dev bar off ws hw =
     (if check_bar_access dev bar off (of_nat (length ws)) \<noteq> 0 then (-1, hw)
      else (0, write_bar_safe io dev (unat bar) off ws hw))"

text \<open>The registers of the engine; they are not checked.\<close>

definition KDMA_REG_BAR :: nat where [const_defs]: "KDMA_REG_BAR = 1"
definition KDMA_REG_CTL :: u64 where [const_defs]: "KDMA_REG_CTL = 0x00"
definition KDMA_REG_STA :: u64 where [const_defs]: "KDMA_REG_STA = 0x04"
definition KDMA_REG_ADL :: u64 where [const_defs]: "KDMA_REG_ADL = 0x08"
definition KDMA_REG_ADH :: u64 where [const_defs]: "KDMA_REG_ADH = 0x0c"

definition read_sta :: "'h mmio \<Rightarrow> 'z drv_dev_scheme \<Rightarrow> 'h \<Rightarrow> u32 \<times> 'h" where
  "read_sta io dev hw = io_readl io (dv_vadr dev ! KDMA_REG_BAR + KDMA_REG_STA) hw"

definition write_ctl :: "'h mmio \<Rightarrow> 'z drv_dev_scheme \<Rightarrow> u32 \<Rightarrow> 'h \<Rightarrow> 'h" where
  "write_ctl io dev x hw = io_writel io x (dv_vadr dev ! KDMA_REG_BAR + KDMA_REG_CTL) hw"

definition write_adl :: "'h mmio \<Rightarrow> 'z drv_dev_scheme \<Rightarrow> u32 \<Rightarrow> 'h \<Rightarrow> 'h" where
  "write_adl io dev x hw = io_writel io x (dv_vadr dev ! KDMA_REG_BAR + KDMA_REG_ADL) hw"

definition write_adh :: "'h mmio \<Rightarrow> 'z drv_dev_scheme \<Rightarrow> u32 \<Rightarrow> 'h \<Rightarrow> 'h" where
  "write_adh io dev x hw = io_writel io x (dv_vadr dev ! KDMA_REG_BAR + KDMA_REG_ADH) hw"

section \<open>The interrupt handler\<close>

abbreviation kdma_dev_of :: "('h, 'z) kdma_scheme \<Rightarrow> nat \<Rightarrow> kdma_dev" where
  "kdma_dev_of k i \<equiv> d_devs (kd_drv k) ! i"

definition set_irq_sta :: "nat \<Rightarrow> u32 \<Rightarrow> ('h, 'z) kdma_scheme \<Rightarrow> ('h, 'z) kdma_scheme" where
  "set_irq_sta i x k = k\<lparr>kd_drv := (kd_drv k)\<lparr>d_devs := (d_devs (kd_drv k))[i := (kdma_dev_of k i)\<lparr>irq_sta := x\<rparr>]\<rparr>\<rparr>"

text \<open>The result is 1 for a handled interrupt and 0 for one of somebody else.\<close>

definition kdma_irq_handler :: "'h mmio \<Rightarrow> nat \<Rightarrow> ('h, 'z) kdma_scheme \<Rightarrow> int \<times> ('h, 'z) kdma_scheme" where
  "kdma_irq_handler io i k =
     (let (sta, hw) = read_sta io (kdma_dev_of k i) (kd_hw k); k = k\<lparr>kd_hw := hw\<rparr> in
      if sta AND push_bit 31 1 \<noteq> 0 then
        let k = set_irq_sta i sta k in (1, k\<lparr>kd_log := kd_log k @ [Km_wake_up]\<rparr>)
      else (0, k))"

section \<open>Physical memory\<close>

fun del_pmem_node :: "u64 \<Rightarrow> pmem_node list \<Rightarrow> int \<times> pmem_node list" where
  "del_pmem_node paddr [] = (-1, [])"
| "del_pmem_node paddr (pos # rest) =
     (if pn_paddr pos = paddr then (0, rest)
      else let (r, rest) = del_pmem_node paddr rest in (r, pos # rest))"

definition add_pmem_node :: "bool \<Rightarrow> u64 \<Rightarrow> u64 \<Rightarrow> pmem_node list \<Rightarrow> int \<times> pmem_node list" where
  "add_pmem_node kmalloc_ok paddr sz ns =
     (if \<not> kmalloc_ok then (-1, ns) else (0, \<lparr>pn_paddr = paddr, pn_size = sz\<rparr> # ns))"

definition pmem_free :: "kenv \<Rightarrow> u64 \<Rightarrow> u64 \<Rightarrow> ('h, 'z) kdma_scheme \<Rightarrow> ('h, 'z) kdma_scheme" where
  "pmem_free e paddr sz k =
     (let order = ke_get_order e sz; vaddr = ke_phys_to_virt e paddr;
          k = k\<lparr>kd_log := kd_log k @ [Km_free_pages vaddr order]\<rparr>
      in k\<lparr>kd_pmem := snd (del_pmem_node paddr (kd_pmem k))\<rparr>)"

text \<open>\<open>pmem_alloc\<close>: the error, and the address stored through the pointer if there is one.\<close>

definition pmem_alloc ::
  "kenv \<Rightarrow> u64 \<Rightarrow> int \<Rightarrow> ('h, 'z) kdma_scheme \<Rightarrow> int \<times> u64 option \<times> ('h, 'z) kdma_scheme" where
  "pmem_alloc e sz nid k =
     (let order = ke_get_order e sz; vaddr = ke_pages e in
      if vaddr = 0 then (- ENOMEM, None, k)
      else let k = k\<lparr>kd_log := kd_log k @ [Km_alloc_pages (if nid < 0 then -1 else nid) vaddr order]\<rparr>;
               paddr = ke_virt_to_phys e vaddr;
               (r, ns) = add_pmem_node (ke_kmalloc e) paddr sz (kd_pmem k);
               k = k\<lparr>kd_pmem := ns\<rparr>
      in if r \<noteq> 0 then (- ENOMEM, Some 0, k\<lparr>kd_log := kd_log k @ [Km_free_pages vaddr order]\<rparr>)
         else (0, Some paddr, k))"

lemma del_head: "del_pmem_node (pn_paddr p) (p # ps) = (0, ps)"
  by simp

function free_pmem_nodes :: "kenv \<Rightarrow> ('h, 'z) kdma_scheme \<Rightarrow> ('h, 'z) kdma_scheme" where
  "free_pmem_nodes e k = (case kd_pmem k of
      [] \<Rightarrow> k
    | p # ps \<Rightarrow> free_pmem_nodes e (pmem_free e (pn_paddr p) (pn_size p) k))"
  by pat_completeness auto

termination free_pmem_nodes
  by (relation "measure (\<lambda>(e, k). length (kd_pmem k))") (auto simp: pmem_free_def Let_def)

declare free_pmem_nodes.simps [simp del]

section \<open>File operations\<close>

text \<open>
  \<open>kdma_file_open\<close>: \<open>dev\<close> is the address \<open>container_of\<close> computes, \<open>base\<close> and \<open>sz\<close> locate the
  table. The result holds the private data of the file, the index of the device.
\<close>

definition kdma_file_open :: "u64 \<Rightarrow> u64 \<Rightarrow> u64 \<Rightarrow> kdma_dev drv \<Rightarrow> int \<times> nat option" where
  "kdma_file_open base sz dev drv =
     (if \<not> (is_dev_valid base sz KDMA_DEV_COUNT dev \<and>
            is_dev_allocated (unat (dev_to_bit32 base sz dev)) drv)
      then (- EFAULT, None)
      else (0, Some (unat (dev_to_bit32 base sz dev))))"

definition kdma_file_close :: "kenv \<Rightarrow> ('h, 'z) kdma_scheme \<Rightarrow> int \<times> nat option \<times> ('h, 'z) kdma_scheme" where
  "kdma_file_close e k = (let k = free_pmem_nodes e k in (0, None, k))"

subsection \<open>ioctl\<close>

text \<open>The argument structures, as they lie in the memory of the process (LP64).\<close>

record ioctl_readwrite =
  rw_addr :: u64
  rw_bar :: u32
  rw_off :: u64
  rw_word32_count :: u32

definition sizeof_readwrite :: nat where [const_defs]: "sizeof_readwrite = 32"

definition decode_readwrite :: "byte list \<Rightarrow> ioctl_readwrite" where
  "decode_readwrite b = \<lparr>rw_addr = of_le (take 8 b), rw_bar = of_le (take 4 (drop 8 b)),
     rw_off = of_le (take 8 (drop 16 b)), rw_word32_count = of_le (take 4 (drop 24 b))\<rparr>"

record ioctl_pmem =
  pm_vaddr :: u64
  pm_paddr :: u64
  pm_word32_count :: u32
  pm_nid :: u32

definition sizeof_pmem :: nat where [const_defs]: "sizeof_pmem = 24"

definition decode_pmem :: "byte list \<Rightarrow> ioctl_pmem" where
  "decode_pmem b = \<lparr>pm_vaddr = of_le (take 8 b), pm_paddr = of_le (take 8 (drop 8 b)),
     pm_word32_count = of_le (take 4 (drop 16 b)), pm_nid = of_le (take 4 (drop 20 b))\<rparr>"

definition encode_pmem :: "ioctl_pmem \<Rightarrow> byte list" where
  "encode_pmem a = le_bytes 8 (pm_vaddr a) @ le_bytes 8 (pm_paddr a) @
     le_bytes 4 (pm_word32_count a) @ le_bytes 4 (pm_nid a)"

definition KDMA_IOCTL_WRITE_BAR :: u32 where [const_defs]: "KDMA_IOCTL_WRITE_BAR = 0x40086501"
definition KDMA_IOCTL_READ_BAR :: u32 where [const_defs]: "KDMA_IOCTL_READ_BAR = 0x80086502"
definition KDMA_IOCTL_GET_IRQCONTEXT :: u32 where
  [const_defs]: "KDMA_IOCTL_GET_IRQCONTEXT = 0x80086503"
definition KDMA_IOCTL_PMEM_ALLOC :: u32 where [const_defs]: "KDMA_IOCTL_PMEM_ALLOC = 0x6504"
definition KDMA_IOCTL_PMEM_FREE :: u32 where [const_defs]: "KDMA_IOCTL_PMEM_FREE = 0x6505"
definition KDMA_IOCTL_PMEM_SYNC :: u32 where [const_defs]: "KDMA_IOCTL_PMEM_SYNC = 0x6508"

definition ioctl_read_bar ::
  "'h mmio \<Rightarrow> kenv \<Rightarrow> nat \<Rightarrow> u64 \<Rightarrow> ('h, 'z) kdma_scheme \<Rightarrow> int \<times> ('h, 'z) kdma_scheme" where
  "ioctl_read_bar io e i uaddr k =
     (case copy_from_user (kd_user k) uaddr sizeof_readwrite of
        None \<Rightarrow> (- EFAULT, k)
      | Some b \<Rightarrow>
        let arg = decode_readwrite b; dev = kdma_dev_of k i in
        if check_bar_access dev (rw_bar arg) (rw_off arg) (rw_word32_count arg) = -1 then (- EFAULT, k)
        else let sz = ucast (rw_word32_count arg) * 4 :: u64 in
        if sz > 4 \<and> \<not> ke_kmalloc e then (- ENOMEM, k)
        else let (ws, hw) = read_bar_safe io dev (unat (rw_bar arg)) (rw_off arg) (rw_word32_count arg) (kd_hw k);
                 (n, m) = copy_to_user (kd_user k) (rw_addr arg) (words_to_bytes ws);
                 k = k\<lparr>kd_hw := hw, kd_user := m\<rparr>
        in if n \<noteq> 0 then (- EFAULT, k) else (0, k))"

definition ioctl_write_bar ::
  "'h mmio \<Rightarrow> kenv \<Rightarrow> nat \<Rightarrow> u64 \<Rightarrow> ('h, 'z) kdma_scheme \<Rightarrow> int \<times> ('h, 'z) kdma_scheme" where
  "ioctl_write_bar io e i uaddr k =
     (case copy_from_user (kd_user k) uaddr sizeof_readwrite of
        None \<Rightarrow> (- EFAULT, k)
      | Some b \<Rightarrow>
        let arg = decode_readwrite b; dev = kdma_dev_of k i in
        if check_bar_access dev (rw_bar arg) (rw_off arg) (rw_word32_count arg) = -1 then (- EFAULT, k)
        else let sz = ucast (rw_word32_count arg) * 4 :: u64 in
        if sz > 4 \<and> \<not> ke_kmalloc e then (- ENOMEM, k)
        else case copy_from_user (kd_user k) (rw_addr arg) (unat sz) of
            None \<Rightarrow> (- EFAULT, k)
          | Some d \<Rightarrow> (0, k\<lparr>kd_hw := write_bar_safe io dev (unat (rw_bar arg)) (rw_off arg)
                                       (bytes_to_words d) (kd_hw k)\<rparr>))"

text \<open>
  \<open>between\<close> is what interrupt handlers do on other processors between reading the context and
  clearing it.
\<close>

definition ioctl_get_irqcontext ::
  "(('h, 'z) kdma_scheme \<Rightarrow> ('h, 'z) kdma_scheme) \<Rightarrow> nat \<Rightarrow> u64 \<Rightarrow> ('h, 'z) kdma_scheme \<Rightarrow>
     int \<times> ('h, 'z) kdma_scheme" where
  "ioctl_get_irqcontext between i uaddr k =
     (let sta = irq_sta (kdma_dev_of k i);
          k = between k;
          k = set_irq_sta i 0 k;
          (n, m) = copy_to_user (kd_user k) uaddr (le_bytes 4 sta);
          k = k\<lparr>kd_user := m\<rparr>
      in if n \<noteq> 0 then (- EFAULT, k) else (0, k))"

definition ioctl_pmem_alloc ::
  "kenv \<Rightarrow> u64 \<Rightarrow> ('h, 'z) kdma_scheme \<Rightarrow> int \<times> ('h, 'z) kdma_scheme" where
  "ioctl_pmem_alloc e uaddr k =
     (case copy_from_user (kd_user k) uaddr sizeof_pmem of
        None \<Rightarrow> (- EFAULT, k)
      | Some b \<Rightarrow>
        let arg = decode_pmem b in
        if (ucast (pm_word32_count arg) :: u64) > ucast (-1 :: u32) div 4 then (- EINVAL, k)
        else let sz = ucast (pm_word32_count arg) * 4;
                 (err, p, k) = pmem_alloc e sz (sint (pm_nid arg)) k in
        if err \<noteq> 0 then (err, k)
        else let paddr = (case p of Some a \<Rightarrow> a | None \<Rightarrow> 0);
                 (n, m) = copy_to_user (kd_user k) uaddr (encode_pmem (arg\<lparr>pm_paddr := paddr\<rparr>));
                 k = k\<lparr>kd_user := m\<rparr>
        in if n \<noteq> 0 then (- EFAULT, pmem_free e paddr sz k) else (0, k))"

definition ioctl_pmem_free ::
  "kenv \<Rightarrow> u64 \<Rightarrow> ('h, 'z) kdma_scheme \<Rightarrow> int \<times> ('h, 'z) kdma_scheme" where
  "ioctl_pmem_free e uaddr k =
     (case copy_from_user (kd_user k) uaddr sizeof_pmem of
        None \<Rightarrow> (- EFAULT, k)
      | Some b \<Rightarrow>
        let arg = decode_pmem b; sz = ucast (pm_word32_count arg) * 4
        in (0, pmem_free e (pm_paddr arg) sz k))"

definition ioctl_pmem_sync ::
  "u64 \<Rightarrow> ('h, 'z) kdma_scheme \<Rightarrow> int \<times> ('h, 'z) kdma_scheme" where
  "ioctl_pmem_sync uaddr k =
     (case copy_from_user (kd_user k) uaddr sizeof_pmem of
        None \<Rightarrow> (- EFAULT, k)
      | Some b \<Rightarrow>
        let arg = decode_pmem b; sz = ucast (pm_word32_count arg) * 4
        in (0, k\<lparr>kd_log := kd_log k @ [Km_sync_for_device (pm_paddr arg) sz]\<rparr>))"

definition kdma_file_ioctl ::
  "'h mmio \<Rightarrow> kenv \<Rightarrow> (('h, 'z) kdma_scheme \<Rightarrow> ('h, 'z) kdma_scheme) \<Rightarrow> nat \<Rightarrow> u32 \<Rightarrow> u64 \<Rightarrow>
     ('h, 'z) kdma_scheme \<Rightarrow> int \<times> ('h, 'z) kdma_scheme" where
  "kdma_file_ioctl io e between i cmd uaddr k =
     (if cmd = KDMA_IOCTL_READ_BAR then ioctl_read_bar io e i uaddr k
      else if cmd = KDMA_IOCTL_WRITE_BAR then ioctl_write_bar io e i uaddr k
      else if cmd = KDMA_IOCTL_GET_IRQCONTEXT then ioctl_get_irqcontext between i uaddr k
      else if cmd = KDMA_IOCTL_PMEM_ALLOC then ioctl_pmem_alloc e uaddr k
      else if cmd = KDMA_IOCTL_PMEM_FREE then ioctl_pmem_free e uaddr k
      else if cmd = KDMA_IOCTL_PMEM_SYNC then ioctl_pmem_sync uaddr k
      else (- ENOSYS, k))"

subsection \<open>poll and mmap\<close>

definition kdma_file_poll :: "nat \<Rightarrow> ('h, 'z) kdma_scheme \<Rightarrow> u32" where
  "kdma_file_poll i k =
     (let mask = 0 in
      if irq_sta (kdma_dev_of k i) AND push_bit 31 1 \<noteq> 0
      then mask OR (POLLIN OR POLLRDNORM) else mask)"

text \<open>\<open>ret\<close> is the result of \<open>remap_pfn_range\<close>.\<close>

definition kdma_file_mmap ::
  "int \<Rightarrow> u64 \<Rightarrow> u64 \<Rightarrow> u64 \<Rightarrow> ('h, 'z) kdma_scheme \<Rightarrow> int \<times> ('h, 'z) kdma_scheme" where
  "kdma_file_mmap ret vm_start vm_end vm_pgoff k =
     (let sz = vm_end - vm_start;
          k = k\<lparr>kd_log := kd_log k @ [Km_remap vm_start vm_pgoff sz]\<rparr>
      in if ret \<noteq> 0 then (ret, k) else (0, k))"

text \<open>The table of these functions, by whether the kernel has \<open>HAVE_UNLOCKED_IOCTL\<close>.\<close>

definition kdma_fops where
  "kdma_fops unlocked = \<lparr>fo_unlocked_ioctl = (if unlocked then Some kdma_file_ioctl else None),
     fo_ioctl = (if unlocked then None else Some kdma_file_ioctl), fo_open = kdma_file_open, fo_poll = kdma_file_poll,
     fo_release = kdma_file_close, fo_mmap = Some kdma_file_mmap\<rparr>"

section \<open>The module\<close>

definition kdma_cdev_init :: "int \<Rightarrow> nat \<Rightarrow> kdma_dev drv \<Rightarrow> int \<times> mod_call list" where
  "kdma_cdev_init ret i drv =
     (let minor = int i; devno = MKDEV (d_major drv) minor in (ret, [Mc_cdev_add devno ret]))"

definition kdma_cdev_fini :: "mod_call list" where "kdma_cdev_fini = [Mc_cdev_del]"

text \<open>The strategy that is compiled in for physical memory has nothing to initialise.\<close>

definition pmem_reserved_size :: u32 where [const_defs]: "pmem_reserved_size = 128 * 1024 * 1024"

definition pmem_init :: "u32 \<Rightarrow> int" where "pmem_init sz = 0"

definition pmem_fini :: "('h, 'z) kdma_scheme \<Rightarrow> ('h, 'z) kdma_scheme" where "pmem_fini k = k"

text \<open>
  \<open>kdma_init\<close>: \<open>region_ret\<close> and \<open>first_dev\<close> are the result of \<open>alloc_chrdev_region\<close>, \<open>pci_ret\<close> that
  of \<open>pci_register_driver\<close>. Calls of \<open>pmem_fini\<close>, which does nothing, are left out.
\<close>

definition kdma_pci_init :: "int \<Rightarrow> int \<times> mod_call list" where
  "kdma_pci_init pci_ret = (if pci_ret \<noteq> 0 then (pci_ret, [Mc_register_driver pci_ret])
     else (0, [Mc_register_driver pci_ret]))"

definition kdma_init :: "int \<Rightarrow> int \<Rightarrow> int \<Rightarrow> kdma_dev drv \<Rightarrow> int \<times> mod_call list \<times> kdma_dev drv" where
  "kdma_init region_ret first_dev pci_ret drv =
     (let ndev = KDMA_DEV_COUNT; err = pmem_init pmem_reserved_size in
      if err \<noteq> 0 then (err, [], drv) else
      let
          drv = kdma_driver_init drv;
          calls = [Mc_alloc_chrdev_region ndev region_ret] in
      if region_ret < 0 then (region_ret, calls, drv)
      else let drv = drv\<lparr>d_major := MAJOR first_dev\<rparr>; (err, c) = kdma_pci_init pci_ret; calls = calls @ c in
      if err \<noteq> 0 then (err, calls @ [Mc_unregister_chrdev_region first_dev ndev], drv)
      else (0, calls, drv))"

definition kdma_exit :: "kdma_dev drv \<Rightarrow> mod_call list" where
  "kdma_exit drv = [Mc_unregister_driver,
     Mc_unregister_chrdev_region (MKDEV (d_major drv) 0) KDMA_DEV_COUNT]"

text \<open>
  Loading the module registers its device numbers and its driver or nothing at all, and unloading
  gives both back: the kernel hands out ranges whose first minor number is 0, as \<open>kdma_exit\<close> assumes.
\<close>

lemma kdma_module_balance:
  assumes "kdma_init region_ret first_dev pci_ret drv = (r, cs, drv')" and "first_dev mod 2 ^ 20 = 0"
  shows "(r = 0 \<longleftrightarrow> 0 \<le> region_ret \<and> pci_ret = 0) \<and>
    mod_held first_dev cs = (if r = 0 then ({(first_dev, KDMA_DEV_COUNT)}, True) else ({}, False)) \<and>
    (r = 0 \<longrightarrow> d_bits drv' = 0 \<and> mod_held first_dev (cs @ kdma_exit drv') = ({}, False))"
  using assms(1) first_minor [OF assms(2)]
  by (auto simp: kdma_init_def pmem_init_def kdma_pci_init_def kdma_exit_def mod_held_def Let_def
      kdma_driver_init_def atomic32_init_def split: if_splits)

section \<open>The check of an access\<close>

text \<open>The comparisons of the check, on natural numbers.\<close>

lemma count_limit: "(ucast wcount :: u64) > ucast (-1 :: u32) div 4 \<longleftrightarrow> 2 ^ 30 \<le> unat (wcount :: u32)"
proof -
  have "unat (ucast (-1 :: u32) :: u64) = unat (-1 :: u32)" by (rule unat_ucast_up) simp
  then have "unat (ucast (-1 :: u32) div 4 :: u64) = 2 ^ 30 - 1"
    by (simp add: unat_div_distrib unsigned_minus_1_eq_mask mask_eq_exp_minus_1)
  moreover have "unat (ucast wcount :: u64) = unat wcount" by (rule unat_ucast_up) simp
  ultimately show ?thesis unfolding word_less_nat_alt by auto
qed

lemma count_bytes: "unat ((ucast (wcount :: u32) :: u64) * 4) = 4 * unat wcount"
proof -
  have "unat (ucast wcount :: u64) = unat wcount" by (rule unat_ucast_up) simp
  moreover have "unat wcount < 2 ^ 32" using unsigned_less [of wcount, where ?'a = nat] by simp
  ultimately show ?thesis by (simp add: unat_word_ariths)
qed

lemma aligned_4: "(off :: u64) AND (4 - 1) = 0 \<longleftrightarrow> unat off mod 4 = 0"
proof -
  have "off AND (4 - 1) = off AND mask 2" by (simp add: mask_eq_exp_minus_1)
  also have "\<dots> = take_bit 2 off" by (simp add: take_bit_eq_mask)
  finally have "unat (off AND (4 - 1)) = unat off mod 4"
    by (simp add: unsigned_take_bit_eq take_bit_eq_mod unat_mod_distrib)
  then show ?thesis by (metis unat_eq_zero)
qed

lemma check_bar_access_cases:
  assumes "dv_vadr dev ! unat bar \<noteq> 0"
    and "unat (dv_vadr dev ! unat bar) + unat (dv_len dev ! unat bar) < 2 ^ 64"
  shows "check_bar_access dev bar off wcount =
     (if unat bar < 6 \<and> unat off mod 4 = 0 \<and> unat wcount < 2 ^ 30 \<and>
         unat off + 4 * unat wcount \<le> unat (dv_len dev ! unat bar) then 0 else -1)"
proof -
  let ?v = "dv_vadr dev ! unat bar" and ?l = "dv_len dev ! unat bar"
  let ?c = "ucast wcount :: u64"
  note big = count_limit [of wcount] and sz = count_bytes [of wcount] and al = aligned_4 [of off]
  have bar: "bar \<ge> 6 \<longleftrightarrow> \<not> unat bar < 6" by (auto simp: word_le_nat)
  have w1: "?v + off < ?v \<longleftrightarrow> 2 ^ 64 \<le> unat ?v + unat off"
    by (rule u64_add_wraps)
  have w2: "?v + off + ?c * 4 < ?v + off \<longleftrightarrow> 2 ^ 64 \<le> unat ?v + unat off + 4 * unat wcount"
    if "unat ?v + unat off < 2 ^ 64"
  proof -
    have "unat (?v + off) = unat ?v + unat off" using that by (simp add: unat_word_ariths)
    then show ?thesis unfolding u64_add_wraps sz by simp
  qed
  have w3: "off + ?c * 4 > ?l \<longleftrightarrow> unat ?l < unat off + 4 * unat wcount"
    if "unat ?v + unat off + 4 * unat wcount < 2 ^ 64"
    using that unfolding word_less_nat_alt unat_word_ariths(1) sz by simp
  consider (bar) "\<not> unat bar < 6" | (count) "unat bar < 6" "2 ^ 30 \<le> unat wcount"
    | (far) "unat bar < 6" "unat wcount < 2 ^ 30" "2 ^ 64 \<le> unat ?v + unat off + 4 * unat wcount"
    | (near) "unat bar < 6" "unat wcount < 2 ^ 30" "unat ?v + unat off + 4 * unat wcount < 2 ^ 64"
    by linarith
  then show ?thesis
  proof cases
    case bar
    then have "bar \<ge> 6" using word_le_nat [of 6 bar] by simp
    with bar show ?thesis by (simp add: check_bar_access_def Let_def)
  next
    case count
    then show ?thesis using bar big assms(1) by (simp add: check_bar_access_def Let_def)
  next
    case far
    have "\<not> unat off + 4 * unat wcount \<le> unat ?l" using far assms(2) by linarith
    moreover have "?v + off < ?v \<or> ?v + off + ?c * 4 < ?v + off"
      using w1 w2 far by linarith
    ultimately show ?thesis
      using far bar big assms(1) unfolding check_bar_access_def Let_def by (auto simp del: word_less_nat_alt)
  next
    case near
    have "\<not> ?v + off < ?v" "\<not> ?v + off + ?c * 4 < ?v + off" using w1 w2 near by linarith+
    then show ?thesis
      using near bar big al w3 assms(1) unfolding check_bar_access_def Let_def by auto
  qed
qed
text \<open>
  C27. Exactness of the check: for a mapped BAR that does not wrap around the address space, an
  access is accepted exactly when it is aligned, ends inside the BAR and has fewer than 2^30
  words, in unbounded arithmetic; no overflow of the 64-bit sums lets another one through.
\<close>

theorem check_bar_access_exact:
  assumes "dv_vadr dev ! unat bar \<noteq> 0"
    and "unat (dv_vadr dev ! unat bar) + unat (dv_len dev ! unat bar) < 2 ^ 64"
  shows "check_bar_access dev bar off wcount =
     (if unat bar < 6 \<and> unat off mod 4 = 0 \<and> unat wcount < 2 ^ 30 \<and>
         unat off + 4 * unat wcount \<le> unat (dv_len dev ! unat bar) then 0 else -1)"
  by (rule check_bar_access_cases [OF assms])
text \<open>A device whose BAR 1 is mapped, and the state around it, for the witnesses.\<close>

definition wit_dev :: kdma_dev where
  "wit_dev = \<lparr>dv_pci = 0, dv_vadr = [0, 0x1000, 0, 0, 0, 0], dv_len = [0, 0x100, 0, 0, 0, 0], irq_sta = 0\<rparr>"

theorem check_bar_access_exact_witness:
  "check_bar_access wit_dev 1 0xfc 1 = 0 \<and> check_bar_access wit_dev 1 0xfc 2 = -1 \<and>
   check_bar_access wit_dev 1 0xfffffffffffffffc 2 = -1"
proof -
  have h: "dv_vadr wit_dev ! unat (1 :: u32) \<noteq> 0"
    "unat (dv_vadr wit_dev ! unat (1 :: u32)) + unat (dv_len wit_dev ! unat (1 :: u32)) < 2 ^ 64"
    by (simp_all add: wit_dev_def)
  show ?thesis unfolding check_bar_access_exact [OF h] by (simp add: wit_dev_def)
qed

section \<open>Reading and writing a BAR\<close>

lemma length_read_words: "read_bar_words io p n hw = (ws, hw') \<Longrightarrow> length ws = n"
  by (induction n arbitrary: p hw ws) (auto simp: Let_def split: prod.splits)

lemma word_count_bytes: "unat (ucast (c :: u32) * 4 :: u64) = 4 * unat c"
proof -
  have "unat (ucast c :: u64) = unat c" by (rule unat_ucast_up) simp
  moreover have "unat c < 2 ^ 32" using unsigned_less [of c, where ?'a = nat] by simp
  ultimately show ?thesis by (simp add: unat_word_ariths)
qed

text \<open>
  C28. A \<open>KDMA_IOCTL_READ_BAR\<close> that returns 0 has read the asked number of words, in ascending
  order, from the place in the BAR the process named; the process finds exactly these words,
  little-endian, at the address it gave, and nothing else of its memory or of the driver has
  changed. On a mapped BAR every word read lies inside the BAR.
\<close>

theorem read_bar_delivers:
  assumes "ioctl_read_bar io e i uaddr k = (0, k')"
  shows "\<exists>b arg ws hw. copy_from_user (kd_user k) uaddr 32 = Some b \<and> arg = decode_readwrite b \<and>
     read_bar_words io (dv_vadr (kdma_dev_of k i) ! unat (rw_bar arg) + rw_off arg)
       (unat (rw_word32_count arg)) (kd_hw k) = (ws, hw) \<and>
     k' = k\<lparr>kd_hw := hw, kd_user := kd_user k'\<rparr> \<and>
     copy_from_user (kd_user k') (rw_addr arg) (4 * unat (rw_word32_count arg)) = Some (words_to_bytes ws) \<and>
     (\<forall>a. 4 * unat (rw_word32_count arg) \<le> unat (a - rw_addr arg) \<longrightarrow> kd_user k' a = kd_user k a) \<and>
     (dv_vadr (kdma_dev_of k i) ! unat (rw_bar arg) \<noteq> 0 \<longrightarrow>
       unat (dv_vadr (kdma_dev_of k i) ! unat (rw_bar arg)) +
         unat (dv_len (kdma_dev_of k i) ! unat (rw_bar arg)) < 2 ^ 64 \<longrightarrow>
       unat (rw_off arg) + 4 * unat (rw_word32_count arg) \<le>
         unat (dv_len (kdma_dev_of k i) ! unat (rw_bar arg)))"
proof -
  let ?dev = "kdma_dev_of k i"
  obtain b where b: "copy_from_user (kd_user k) uaddr 32 = Some b"
    using assms by (cases "copy_from_user (kd_user k) uaddr 32")
      (simp_all add: ioctl_read_bar_def sizeof_readwrite_def EFAULT_def)
  let ?a = "decode_readwrite b"
  let ?n = "unat (rw_word32_count ?a)"
  obtain ws hw where r: "read_bar_words io (dv_vadr ?dev ! unat (rw_bar ?a) + rw_off ?a) ?n (kd_hw k) = (ws, hw)"
    by (cases "read_bar_words io (dv_vadr ?dev ! unat (rw_bar ?a) + rw_off ?a) ?n (kd_hw k)")
  obtain n m where c: "copy_to_user (kd_user k) (rw_addr ?a) (words_to_bytes ws) = (n, m)"
    by (cases "copy_to_user (kd_user k) (rw_addr ?a) (words_to_bytes ws)")
  have "n = 0 \<and> k' = k\<lparr>kd_hw := hw, kd_user := m\<rparr> \<and>
      check_bar_access ?dev (rw_bar ?a) (rw_off ?a) (rw_word32_count ?a) \<noteq> -1"
    using assms b r c
    by (auto simp: ioctl_read_bar_def sizeof_readwrite_def read_bar_safe_def Let_def EFAULT_def ENOMEM_def
        split: if_splits)
  then have k': "n = 0" "k' = k\<lparr>kd_hw := hw, kd_user := m\<rparr>"
    and chk: "check_bar_access ?dev (rw_bar ?a) (rw_off ?a) (rw_word32_count ?a) \<noteq> -1" by blast+
  have len: "length (words_to_bytes ws) = 4 * ?n" using length_read_words [OF r] by simp
  have small: "length (words_to_bytes ws) \<le> 2 ^ 64"
    using len unsigned_less [of "rw_word32_count ?a", where ?'a = nat] by simp
  have "copy_from_user m (rw_addr ?a) (4 * ?n) = Some (words_to_bytes ws)"
    using copy_to_from [of "kd_user k" "rw_addr ?a" "words_to_bytes ws" m] c k'(1) small len by simp
  moreover have "\<forall>a. 4 * ?n \<le> unat (a - rw_addr ?a) \<longrightarrow> m a = kd_user k a"
    using copy_to_frame [of "kd_user k" "rw_addr ?a" "words_to_bytes ws" m] c k'(1) small len by auto
  moreover have "unat (rw_off ?a) + 4 * ?n \<le> unat (dv_len ?dev ! unat (rw_bar ?a))"
    if "dv_vadr ?dev ! unat (rw_bar ?a) \<noteq> 0"
      "unat (dv_vadr ?dev ! unat (rw_bar ?a)) + unat (dv_len ?dev ! unat (rw_bar ?a)) < 2 ^ 64"
    using check_bar_access_cases [OF that, of "rw_off ?a" "rw_word32_count ?a"] chk
    by (simp split: if_splits)
  ultimately show ?thesis using b r k'(2) by auto
qed

text \<open>
  The witnesses' process: its memory holds the argument \<open>b\<close> at 0x2000 and zeros elsewhere. The
  hardware returns the address as the content of a register, and counts the writes.
\<close>

definition wit_user :: "byte list \<Rightarrow> umem" where
  "wit_user b a = Some (if unat (a - 0x2000) < length b then b ! unat (a - 0x2000) else 0)"

definition wit_io :: "nat mmio" where
  "wit_io = \<lparr>io_readl = \<lambda>a hw. (ucast a, hw), io_writel = \<lambda>x a hw. hw + 1\<rparr>"

definition wit_kdma :: "byte list \<Rightarrow> nat kdma" where
  "wit_kdma b = \<lparr>kd_drv = \<lparr>d_devs = [wit_dev, wit_dev], d_bits = 1, d_major = 250\<rparr>, kd_pmem = [],
     kd_user = wit_user b, kd_hw = 0, kd_log = []\<rparr>"

definition wit_kenv :: kenv where
  "wit_kenv = \<lparr>ke_kmalloc = True, ke_pages = 0x7000, ke_get_order = \<lambda>n. unat n div 4096,
     ke_virt_to_phys = \<lambda>x. x - 0x1000, ke_phys_to_virt = \<lambda>x. x + 0x1000\<rparr>"

lemma wit_copy_from:
  assumes "length b < 2 ^ 63"
  shows "copy_from_user (wit_user b) 0x2000 (length b) = Some b"
proof -
  have "n \<le> length b \<Longrightarrow> copy_from_user (wit_user b) (0x2000 + of_nat (length b - n)) n = Some (drop (length b - n) b)" for n
  proof (induction n)
    case (Suc n)
    let ?j = "length b - Suc n"
    have j: "?j < length b" "Suc ?j = length b - n" using Suc.prems by auto
    then have "unat (of_nat ?j :: u64) = ?j" using assms by (intro unat_of_nat_u64) simp
    then have 1: "wit_user b (0x2000 + of_nat ?j) = Some (b ! ?j)"
      using j(1) unfolding wit_user_def by (simp only: add_diff_cancel_left' if_True)
    have "(0x2000 + of_nat ?j + 1 :: u64) = 0x2000 + of_nat (Suc ?j)" by simp
    then have "copy_from_user (wit_user b) (0x2000 + of_nat ?j + 1) n = Some (drop (Suc ?j) b)"
      using Suc.IH Suc.prems j(2) by simp
    moreover have "drop ?j b = b ! ?j # drop (Suc ?j) b" using j(1) by (simp add: Cons_nth_drop_Suc)
    ultimately show ?case using 1 by simp
  qed simp
  from this [of "length b"] show ?thesis by simp
qed

lemma wit_copy_to: "(\<And>x. m x \<noteq> None) \<Longrightarrow> \<exists>m'. copy_to_user m a d = (0, m')"
proof (induction d arbitrary: m a)
  case (Cons x d)
  have "\<exists>m'. copy_to_user (m(a \<mapsto> x)) (a + 1) d = (0, m')"
    by (rule Cons.IH) (use Cons.prems in simp)
  with Cons.prems [of a] show ?case by simp
qed simp

theorem read_bar_delivers_witness:
  "\<exists>k'. ioctl_read_bar wit_io wit_kenv 0 0x2000 (wit_kdma
      (le_bytes 8 (0x3000 :: u64) @ le_bytes 8 (1 :: u64) @ le_bytes 8 (4 :: u64) @ le_bytes 8 (2 :: u64))) = (0, k') \<and>
     copy_from_user (kd_user k') 0x3000 8 = Some (words_to_bytes [0x1004, 0x1008])"
proof -
  let ?b = "le_bytes 8 (0x3000 :: u64) @ le_bytes 8 (1 :: u64) @ le_bytes 8 (4 :: u64) @ le_bytes 8 (2 :: u64)"
  let ?k = "wit_kdma ?b"
  have b: "copy_from_user (kd_user ?k) 0x2000 32 = Some ?b"
    using wit_copy_from [of ?b] by (simp add: wit_kdma_def)
  have dec: "decode_readwrite ?b = \<lparr>rw_addr = 0x3000, rw_bar = 1, rw_off = 4, rw_word32_count = 2\<rparr>"
  proof -
    have "le_bytes 8 (1 :: u64) = le_bytes 4 (1 :: u32) @ le_bytes 4 (0 :: u32)"
      "le_bytes 8 (2 :: u64) = le_bytes 4 (2 :: u32) @ le_bytes 4 (0 :: u32)"
      by (simp_all add: le_bytes_def upt_rec)
    then show ?thesis by (simp add: decode_readwrite_def of_le_le_bytes)
  qed
  have dev: "kdma_dev_of ?k 0 = wit_dev" by (simp add: wit_kdma_def)
  have chk: "check_bar_access wit_dev 1 4 2 = 0"
    by (simp add: check_bar_access_cases wit_dev_def)
  have rd: "read_bar_safe wit_io wit_dev 1 4 2 hw = ([0x1004, 0x1008], hw)" for hw
  proof -
    have "unat (2 :: u32) = Suc (Suc 0)" by simp
    then show ?thesis by (simp only: read_bar_safe_def) (simp add: wit_dev_def wit_io_def)
  qed
  obtain m where m: "copy_to_user (kd_user ?k) 0x3000 (words_to_bytes [0x1004, 0x1008]) = (0, m)"
    using wit_copy_to [of "kd_user ?k"] by (auto simp: wit_kdma_def wit_user_def)
  have r: "ioctl_read_bar wit_io wit_kenv 0 0x2000 ?k = (0, ?k\<lparr>kd_hw := kd_hw ?k, kd_user := m\<rparr>)"
    unfolding ioctl_read_bar_def sizeof_readwrite_def b
    using dec dev chk rd m by (simp add: Let_def wit_kenv_def)
  from read_bar_delivers [OF r] have "copy_from_user m 0x3000 8 = Some (words_to_bytes [0x1004, 0x1008])"
    using b dec dev rd [of "kd_hw ?k"] by (auto simp: read_bar_safe_def wit_dev_def)
  with r show ?thesis by simp
qed

text \<open>
  On a BAR that is not mapped the check accepts everything: a read is then made at the
  absolute address the process gives as the offset, of as many words as it asks for.
\<close>

lemma unmapped_bar_unchecked:
  assumes "copy_from_user (kd_user k) uaddr 32 = Some b" and "arg = decode_readwrite b"
    and "unat (rw_bar arg) < 6" and "dv_vadr (kdma_dev_of k i) ! unat (rw_bar arg) = 0"
    and "ke_kmalloc e"
  shows "check_bar_access (kdma_dev_of k i) (rw_bar arg) (rw_off arg) (rw_word32_count arg) = 0 \<and>
     kd_hw (snd (ioctl_read_bar io e i uaddr k)) =
       snd (read_bar_words io (rw_off arg) (unat (rw_word32_count arg)) (kd_hw k))"
proof -
  have "\<not> rw_bar arg \<ge> 6" using assms(3) word_le_nat [of 6 "rw_bar arg"] by simp
  then have "check_bar_access (kdma_dev_of k i) (rw_bar arg) (rw_off arg) (rw_word32_count arg) = 0"
    using assms(4) by (simp add: check_bar_access_def Let_def)
  then show ?thesis
    using assms by (simp add: ioctl_read_bar_def sizeof_readwrite_def read_bar_safe_def Let_def
        split: prod.split)
qed

lemma unmapped_bar_unchecked_witness:
  "\<exists>b. check_bar_access (kdma_dev_of (wit_kdma b) 0) (rw_bar (decode_readwrite b))
       (rw_off (decode_readwrite b)) (rw_word32_count (decode_readwrite b)) = 0 \<and>
     rw_off (decode_readwrite b) = 0xdeadbeef"
proof -
  let ?b = "le_bytes 8 (0x3000 :: u64) @ le_bytes 8 (0 :: u64) @ le_bytes 8 (0xdeadbeef :: u64) @
    le_bytes 8 (0 :: u64)"
  have z: "le_bytes 8 (0 :: u64) = le_bytes 4 (0 :: u32) @ le_bytes 4 (0 :: u32)"
    by (simp add: le_bytes_def upt_rec)
  have dec: "decode_readwrite ?b =
      \<lparr>rw_addr = 0x3000, rw_bar = 0, rw_off = 0xdeadbeef, rw_word32_count = 0\<rparr>"
    unfolding z by (simp add: decode_readwrite_def of_le_le_bytes)
  have c: "copy_from_user (kd_user (wit_kdma ?b)) 0x2000 32 = Some ?b"
    using wit_copy_from [of ?b] by (simp add: wit_kdma_def)
  have v: "dv_vadr (kdma_dev_of (wit_kdma ?b) 0) ! unat (0 :: u32) = 0"
    by (simp add: wit_kdma_def wit_dev_def)
  from unmapped_bar_unchecked [OF c refl, of 0 wit_kenv wit_io] v
  have "check_bar_access (kdma_dev_of (wit_kdma ?b) 0) (rw_bar (decode_readwrite ?b))
       (rw_off (decode_readwrite ?b)) (rw_word32_count (decode_readwrite ?b)) = 0"
    by (simp add: dec wit_kenv_def)
  then show ?thesis using dec by (intro exI [of _ ?b]) simp
qed

text \<open>
  C29. A \<open>KDMA_IOCTL_WRITE_BAR\<close> that returns 0 has written exactly the words of the process, in
  ascending order from the place it named, which on a mapped BAR lies inside it; one that fails
  has not touched the hardware. Nothing else changes in either case.
\<close>

theorem write_bar_exact:
  assumes "ioctl_write_bar io e i uaddr k = (err, k')"
  shows "k' = k\<lparr>kd_hw := kd_hw k'\<rparr> \<and> (err \<noteq> 0 \<longrightarrow> k' = k) \<and>
     (err = 0 \<longrightarrow> (\<exists>b arg d. copy_from_user (kd_user k) uaddr 32 = Some b \<and> arg = decode_readwrite b \<and>
        copy_from_user (kd_user k) (rw_addr arg) (4 * unat (rw_word32_count arg)) = Some d \<and>
        length (bytes_to_words d) = unat (rw_word32_count arg) \<and>
        kd_hw k' = write_bar_words io (dv_vadr (kdma_dev_of k i) ! unat (rw_bar arg) + rw_off arg)
          (bytes_to_words d) (kd_hw k) \<and>
        (dv_vadr (kdma_dev_of k i) ! unat (rw_bar arg) \<noteq> 0 \<longrightarrow>
          unat (dv_vadr (kdma_dev_of k i) ! unat (rw_bar arg)) +
            unat (dv_len (kdma_dev_of k i) ! unat (rw_bar arg)) < 2 ^ 64 \<longrightarrow>
          unat (rw_off arg) + 4 * unat (rw_word32_count arg) \<le>
            unat (dv_len (kdma_dev_of k i) ! unat (rw_bar arg)))))"
proof (cases "err = 0")
  case False
  then have "k' = k"
    using assms by (auto simp: ioctl_write_bar_def Let_def split: if_splits option.splits)
  with False show ?thesis by simp
next
  case True
  let ?dev = "kdma_dev_of k i"
  obtain b where b: "copy_from_user (kd_user k) uaddr 32 = Some b"
    using assms True by (cases "copy_from_user (kd_user k) uaddr 32")
      (simp_all add: ioctl_write_bar_def sizeof_readwrite_def EFAULT_def)
  let ?a = "decode_readwrite b"
  let ?n = "unat (rw_word32_count ?a)"
  obtain d where d: "copy_from_user (kd_user k) (rw_addr ?a) (4 * ?n) = Some d"
    and k': "k' = k\<lparr>kd_hw := write_bar_safe io ?dev (unat (rw_bar ?a)) (rw_off ?a)
                                       (bytes_to_words d) (kd_hw k)\<rparr>"
    and chk: "check_bar_access ?dev (rw_bar ?a) (rw_off ?a) (rw_word32_count ?a) \<noteq> -1"
    using assms True b
    by (auto simp: ioctl_write_bar_def sizeof_readwrite_def word_count_bytes Let_def EFAULT_def ENOMEM_def
        split: if_splits option.splits)
  have "length (bytes_to_words d) = ?n"
    using copy_from_length [OF d] by (simp add: length_bytes_to_words)
  moreover have "unat (rw_off ?a) + 4 * ?n \<le> unat (dv_len ?dev ! unat (rw_bar ?a))"
    if "dv_vadr ?dev ! unat (rw_bar ?a) \<noteq> 0"
      "unat (dv_vadr ?dev ! unat (rw_bar ?a)) + unat (dv_len ?dev ! unat (rw_bar ?a)) < 2 ^ 64"
    using check_bar_access_cases [OF that, of "rw_off ?a" "rw_word32_count ?a"] chk
    by (simp split: if_splits)
  ultimately show ?thesis using True b d k' by (auto simp: write_bar_safe_def)
qed

section \<open>Interrupts\<close>

lemma set_irq_sta_of: "i < length (d_devs (kd_drv k)) \<Longrightarrow>
    kdma_dev_of (set_irq_sta i x k) i = (kdma_dev_of k i)\<lparr>irq_sta := x\<rparr>"
  by (simp add: set_irq_sta_def)

lemma set_irq_sta_other: "kd_user (set_irq_sta i x k) = kd_user k" "kd_hw (set_irq_sta i x k) = kd_hw k"
  "kd_log (set_irq_sta i x k) = kd_log k" "kd_pmem (set_irq_sta i x k) = kd_pmem k"
  "length (d_devs (kd_drv (set_irq_sta i x k))) = length (d_devs (kd_drv k))"
  by (simp_all add: set_irq_sta_def)

lemma irq_handled:
  assumes "kdma_irq_handler io i k = (1, k1)" and "i < length (d_devs (kd_drv k))"
  shows "irq_sta (kdma_dev_of k1 i) = fst (read_sta io (kdma_dev_of k i) (kd_hw k)) \<and>
     fst (read_sta io (kdma_dev_of k i) (kd_hw k)) AND push_bit 31 1 \<noteq> 0 \<and>
     length (d_devs (kd_drv k1)) = length (d_devs (kd_drv k)) \<and> kd_user k1 = kd_user k"
  using assms by (auto simp: kdma_irq_handler_def set_irq_sta_def Let_def split: prod.splits if_splits)

text \<open>
  An interrupt whose status has the completion bit makes \<open>poll\<close> report the file readable
  until a process gets the context, which is the status register read by the handler; then the
  file is not readable. An interrupt without the bit is refused and changes no state of the driver.
\<close>

lemma irq_poll_get:
  assumes "i < length (d_devs (kd_drv k))" and "kdma_irq_handler io i k = (r, k1)"
    and "ioctl_get_irqcontext id i uaddr k1 = (0, k2)"
  shows "(r = 0 \<longrightarrow> k1 = k\<lparr>kd_hw := kd_hw k1\<rparr>) \<and>
     (r \<noteq> 0 \<longrightarrow> r = 1 \<and> Km_wake_up \<in> set (kd_log k1) \<and>
        kdma_file_poll i k1 = POLLIN OR POLLRDNORM \<and>
        copy_from_user (kd_user k2) uaddr 4 =
          Some (le_bytes 4 (fst (read_sta io (kdma_dev_of k i) (kd_hw k))))) \<and>
     kdma_file_poll i k2 = 0"
proof -
  have len: "length (d_devs (kd_drv k1)) = length (d_devs (kd_drv k))"
    using assms(2) by (auto simp: kdma_irq_handler_def set_irq_sta_def Let_def split: prod.splits if_splits)
  then have i: "i < length (d_devs (kd_drv k1))" using assms(1) by simp
  obtain m where m: "copy_to_user (kd_user k1) uaddr (le_bytes 4 (irq_sta (kdma_dev_of k1 i))) = (0, m)"
    "k2 = (set_irq_sta i 0 k1)\<lparr>kd_user := m\<rparr>"
    using assms(3)
    by (auto simp: ioctl_get_irqcontext_def set_irq_sta_other EFAULT_def Let_def split: prod.splits if_splits)
  have got: "copy_from_user (kd_user k2) uaddr 4 = Some (le_bytes 4 (irq_sta (kdma_dev_of k1 i)))"
    using copy_to_from [OF m(1)] m(2) by simp
  have p2: "kdma_file_poll i k2 = 0"
    using set_irq_sta_of [OF i, of 0] m(2) by (simp add: kdma_file_poll_def)
  consider "r = 0" "k1 = k\<lparr>kd_hw := kd_hw k1\<rparr>" | "r = 1" "Km_wake_up \<in> set (kd_log k1)"
    using assms(2) by (auto simp: kdma_irq_handler_def Let_def split: prod.splits if_splits)
  then show ?thesis
  proof cases
    case 1
    then show ?thesis using p2 by simp
  next
    case 2
    with irq_handled [of io i k k1] assms(1,2) got p2 show ?thesis
      by (simp add: kdma_file_poll_def Let_def)
  qed
qed

text \<open>
  An interrupt handled between the read and the clear of \<open>KDMA_IOCTL_GET_IRQCONTEXT\<close> is
  lost: its status is in the context for a moment, and afterwards the process has the old one
  and \<open>poll\<close> reports nothing.
\<close>

lemma get_irqcontext_loses:
  assumes "i < length (d_devs (kd_drv k))" and "kdma_irq_handler io i k = (1, k1)"
    and "ioctl_get_irqcontext (\<lambda>k. snd (kdma_irq_handler io i k)) i uaddr k = (0, k2)"
  shows "kdma_file_poll i k1 \<noteq> 0 \<and> kdma_file_poll i k2 = 0 \<and>
     copy_from_user (kd_user k2) uaddr 4 = Some (le_bytes 4 (irq_sta (kdma_dev_of k i)))"
proof -
  note h = irq_handled [OF assms(2,1)]
  have i: "i < length (d_devs (kd_drv k1))" using h assms(1) by simp
  obtain m where m: "copy_to_user (kd_user k) uaddr (le_bytes 4 (irq_sta (kdma_dev_of k i))) = (0, m)"
    "k2 = (set_irq_sta i 0 k1)\<lparr>kd_user := m\<rparr>"
    using assms(2,3) h
    by (auto simp: ioctl_get_irqcontext_def set_irq_sta_other EFAULT_def Let_def split: prod.splits if_splits)
  have "copy_from_user (kd_user k2) uaddr 4 = Some (le_bytes 4 (irq_sta (kdma_dev_of k i)))"
    using copy_to_from [OF m(1)] m(2) by simp
  then show ?thesis
    using set_irq_sta_of [OF i, of 0] m(2) h
    by (simp add: kdma_file_poll_def Let_def POLLIN_def POLLRDNORM_def)
qed
text \<open>Hardware whose registers read as completed, for the witnesses of the interrupts.\<close>

definition wit_done :: "nat mmio" where
  "wit_done = \<lparr>io_readl = \<lambda>a hw. (0x80001000, hw), io_writel = \<lambda>x a hw. hw + 1\<rparr>"

lemma wit_irq: "kdma_irq_handler wit_done 0 (wit_kdma b) =
    (1, (set_irq_sta 0 0x80001000 (wit_kdma b))\<lparr>kd_log := [Km_wake_up]\<rparr>)"
  by (simp add: kdma_irq_handler_def read_sta_def wit_done_def wit_kdma_def set_irq_sta_def)

lemma wit_get:
  assumes "\<And>x. kd_user k x \<noteq> None" and "\<And>x. kd_user (between k) x = kd_user k x"
  shows "\<exists>k2. ioctl_get_irqcontext between i uaddr k = (0, k2)"
proof -
  have "kd_user (between k) = kd_user k" using assms(2) by auto
  then show ?thesis
    using wit_copy_to [of "kd_user k" uaddr "le_bytes 4 (irq_sta (kdma_dev_of k i))"] assms(1)
    by (auto simp: ioctl_get_irqcontext_def set_irq_sta_other Let_def)
qed

theorem write_bar_exact_witness:
  "\<exists>k'. ioctl_write_bar wit_io wit_kenv 0 0x2000 (wit_kdma
      (le_bytes 8 (0x3000 :: u64) @ le_bytes 8 (1 :: u64) @ le_bytes 8 (0x100 :: u64) @ le_bytes 8 (1 :: u64))) =
     (- 14, k') \<and> kd_hw k' = 0"
proof -
  let ?b = "le_bytes 8 (0x3000 :: u64) @ le_bytes 8 (1 :: u64) @ le_bytes 8 (0x100 :: u64) @ le_bytes 8 (1 :: u64)"
  let ?k = "wit_kdma ?b"
  have b: "copy_from_user (kd_user ?k) 0x2000 32 = Some ?b"
    using wit_copy_from [of ?b] by (simp add: wit_kdma_def)
  have one: "le_bytes 8 (1 :: u64) = le_bytes 4 (1 :: u32) @ le_bytes 4 (0 :: u32)"
    by (simp add: le_bytes_def upt_rec)
  have dec: "decode_readwrite ?b = \<lparr>rw_addr = 0x3000, rw_bar = 1, rw_off = 0x100, rw_word32_count = 1\<rparr>"
    unfolding one by (simp add: decode_readwrite_def of_le_le_bytes)
  have "check_bar_access (kdma_dev_of ?k 0) 1 0x100 1 = -1"
    by (simp add: check_bar_access_cases wit_dev_def wit_kdma_def)
  then have r: "ioctl_write_bar wit_io wit_kenv 0 0x2000 ?k = (- EFAULT, ?k)"
    unfolding ioctl_write_bar_def sizeof_readwrite_def b using dec by (simp add: Let_def)
  from write_bar_exact [OF r] r show ?thesis by (simp add: EFAULT_def wit_kdma_def)
qed

lemma irq_poll_get_witness:
  "\<exists>k1 k2. kdma_irq_handler wit_done 0 (wit_kdma []) = (1, k1) \<and>
     ioctl_get_irqcontext id 0 0x2000 k1 = (0, k2) \<and> kdma_file_poll 0 k1 = 0x41 \<and>
     copy_from_user (kd_user k2) 0x2000 4 = Some (le_bytes 4 (0x80001000 :: u32)) \<and> kdma_file_poll 0 k2 = 0"
proof -
  let ?k1 = "(set_irq_sta 0 0x80001000 (wit_kdma []))\<lparr>kd_log := [Km_wake_up]\<rparr>"
  obtain k2 where g: "ioctl_get_irqcontext id 0 0x2000 ?k1 = (0, k2)"
    using wit_get [of ?k1 id] by (auto simp: set_irq_sta_other wit_kdma_def wit_user_def)
  have "0 < length (d_devs (kd_drv (wit_kdma [])))" by (simp add: wit_kdma_def)
  from irq_poll_get [OF this wit_irq g] g wit_irq [of "[]"] show ?thesis
    by (auto simp: read_sta_def wit_done_def POLLIN_def POLLRDNORM_def)
qed

lemma get_irqcontext_loses_witness:
  "\<exists>k2. ioctl_get_irqcontext (\<lambda>k. snd (kdma_irq_handler wit_done 0 k)) 0 0x2000 (wit_kdma []) = (0, k2) \<and>
     kdma_file_poll 0 k2 = 0 \<and> copy_from_user (kd_user k2) 0x2000 4 = Some (le_bytes 4 (0 :: u32))"
proof -
  let ?bt = "\<lambda>k. snd (kdma_irq_handler wit_done 0 k)"
  obtain k2 where g: "ioctl_get_irqcontext ?bt 0 0x2000 (wit_kdma []) = (0, k2)"
  proof -
    have "kd_user (wit_kdma []) x \<noteq> None" for x by (simp add: wit_kdma_def wit_user_def)
    moreover have "kd_user (?bt (wit_kdma [])) x = kd_user (wit_kdma []) x" for x
      by (simp add: wit_irq set_irq_sta_other)
    ultimately show ?thesis using wit_get [of "wit_kdma []" ?bt 0 "0x2000"] that by blast
  qed
  have "0 < length (d_devs (kd_drv (wit_kdma [])))" by (simp add: wit_kdma_def)
  from get_irqcontext_loses [OF this wit_irq g] g show ?thesis
    by (simp add: wit_kdma_def wit_dev_def)
qed

section \<open>Physical memory\<close>

text \<open>
  The pages a log of calls has allocated and not freed, as addresses and orders, and whether
  every free was of such pages.
\<close>

fun page_upd :: "kmem_call \<Rightarrow> (u64 \<times> nat) multiset \<times> bool \<Rightarrow> (u64 \<times> nat) multiset \<times> bool" where
  "page_upd (Km_alloc_pages nid v o') (M, ok) = (add_mset (v, o') M, ok)"
| "page_upd (Km_free_pages v o') (M, ok) = (M - {#(v, o')#}, ok \<and> (v, o') \<in># M)"
| "page_upd _ x = x"

definition pages :: "kmem_call list \<Rightarrow> (u64 \<times> nat) multiset \<times> bool" where
  "pages cs = fold page_upd cs ({#}, True)"

lemma pages_snoc: "pages (cs @ [c]) = page_upd c (pages cs)"
  by (simp add: pages_def)

lemma pages_append: "pages (cs @ ds) = fold page_upd ds (pages cs)"
  by (simp add: pages_def)

definition node_pages :: "kenv \<Rightarrow> pmem_node \<Rightarrow> u64 \<times> nat" where
  "node_pages e n = (ke_phys_to_virt e (pn_paddr n), ke_get_order e (pn_size n))"

text \<open>The list and the kernel agree: every node is a block that is allocated, and no other is.\<close>

definition pmem_ok :: "kenv \<Rightarrow> ('h, 'z) kdma_scheme \<Rightarrow> bool" where
  "pmem_ok e k \<longleftrightarrow> pages (kd_log k) = (image_mset (node_pages e) (mset (kd_pmem k)), True)"

lemma del_pmem_node_found:
  "find (\<lambda>n. pn_paddr n = a) ns = Some n \<Longrightarrow> mset (snd (del_pmem_node a ns)) = mset ns - {#n#} \<and> n \<in> set ns"
proof (induction ns)
  case (Cons p ns)
  show ?case
  proof (cases "pn_paddr p = a")
    case True
    with Cons show ?thesis by auto
  next
    case False
    with Cons have "mset (snd (del_pmem_node a ns)) = mset ns - {#n#}" "n \<in> set ns" by auto
    with False show ?thesis by (auto split: prod.splits simp: add_mset_diff_bothsides)
  qed
qed simp

lemma del_pmem_node_absent:
  "find (\<lambda>n. pn_paddr n = a) ns = None \<Longrightarrow> snd (del_pmem_node a ns) = ns"
  by (induction ns) (auto split: if_splits prod.splits)
lemma pmem_free_steps:
  "kd_log (pmem_free e a sz k) = kd_log k @ [Km_free_pages (ke_phys_to_virt e a) (ke_get_order e sz)]"
  "kd_pmem (pmem_free e a sz k) = snd (del_pmem_node a (kd_pmem k))"
  by (simp_all add: pmem_free_def Let_def)

text \<open>Freeing the block of a node keeps list and kernel in agreement.\<close>

lemma pmem_free_node:
  assumes "pmem_ok e k" and "find (\<lambda>n. pn_paddr n = a) (kd_pmem k) = Some n"
    and "ke_get_order e sz = ke_get_order e (pn_size n)"
  shows "pmem_ok e (pmem_free e a sz k)"
proof -
  have n: "mset (kd_pmem (pmem_free e a sz k)) = mset (kd_pmem k) - {#n#}" "n \<in> set (kd_pmem k)" "pn_paddr n = a"
    using del_pmem_node_found [OF assms(2)] assms(2)
    by (auto simp: pmem_free_steps find_Some_iff)
  have np: "(ke_phys_to_virt e a, ke_get_order e sz) = node_pages e n"
    using n(3) assms(3) by (simp add: node_pages_def)
  have "image_mset (node_pages e) (mset (kd_pmem k) - {#n#}) =
      image_mset (node_pages e) (mset (kd_pmem k)) - {#node_pages e n#}"
    using n(2) by (simp add: image_mset_Diff)
  moreover have "pages (kd_log k) = (image_mset (node_pages e) (mset (kd_pmem k)), True)"
    using assms(1) by (simp add: pmem_ok_def)
  ultimately show ?thesis
    using n(2) by (simp add: pmem_ok_def pmem_free_steps(1) pages_snoc np n(1))
qed

lemma pmem_ok_user [simp]: "pmem_ok e (k\<lparr>kd_user := m\<rparr>) = pmem_ok e k"
  by (simp add: pmem_ok_def)

text \<open>
  \<open>KDMA_IOCTL_PMEM_ALLOC\<close> leaks nothing on any of its paths: whether it succeeds, gets no
  pages, gets no node or cannot copy the result out, the pages the kernel has handed out and not
  taken back remain exactly those of the list.
\<close>

lemma pmem_alloc_balanced:
  assumes "pmem_ok e k" and "ke_phys_to_virt e (ke_virt_to_phys e (ke_pages e)) = ke_pages e"
  shows "pmem_ok e (snd (ioctl_pmem_alloc e uaddr k))"
proof (cases "copy_from_user (kd_user k) uaddr sizeof_pmem")
  case None
  then show ?thesis using assms(1) by (simp add: ioctl_pmem_alloc_def)
next
  case (Some b)
  let ?sz = "ucast (pm_word32_count (decode_pmem b)) * 4 :: u64"
  let ?nid = "sint (pm_nid (decode_pmem b))"
  obtain err p k1 where a: "pmem_alloc e ?sz ?nid k = (err, p, k1)" by (cases "pmem_alloc e ?sz ?nid k")
  let ?pa = "ke_virt_to_phys e (ke_pages e)"
  have k1: "pmem_ok e k1 \<and> (err = 0 \<longrightarrow> p = Some ?pa \<and>
      kd_pmem k1 = \<lparr>pn_paddr = ?pa, pn_size = ?sz\<rparr> # kd_pmem k)"
    using a assms
    by (auto simp: pmem_alloc_def add_pmem_node_def pmem_ok_def pages_append node_pages_def ENOMEM_def Let_def
        split: if_splits)
  obtain n m where c: "copy_to_user (kd_user k1) uaddr (encode_pmem ((decode_pmem b)\<lparr>pm_paddr := ?pa\<rparr>)) = (n, m)"
    by (cases "copy_to_user (kd_user k1) uaddr (encode_pmem ((decode_pmem b)\<lparr>pm_paddr := ?pa\<rparr>))")
  have "pmem_ok e (pmem_free e ?pa ?sz (k1\<lparr>kd_user := m\<rparr>))" if "err = 0"
    by (rule pmem_free_node [where n = "\<lparr>pn_paddr = ?pa, pn_size = ?sz\<rparr>"]) (use k1 that in simp_all)
  then show ?thesis
    using Some a k1 c assms(1) by (auto simp: ioctl_pmem_alloc_def Let_def)
qed

text \<open>
  C30. \<open>KDMA_IOCTL_PMEM_FREE\<close> trusts the process: it keeps list and kernel in agreement exactly
  when the process passes the address of a block in the list with a size of the same order.
  Otherwise it frees pages that are not the driver's.
\<close>

theorem pmem_free_trusts_process:
  assumes "pmem_ok e k" and "distinct (map pn_paddr (kd_pmem k))" and "inj (ke_phys_to_virt e)"
    and "copy_from_user (kd_user k) uaddr 24 = Some b"
  shows "pmem_ok e (snd (ioctl_pmem_free e uaddr k)) \<longleftrightarrow>
     (\<exists>n\<in>set (kd_pmem k). pn_paddr n = pm_paddr (decode_pmem b) \<and>
        ke_get_order e (pn_size n) = ke_get_order e (ucast (pm_word32_count (decode_pmem b)) * 4))"
    (is "?ok \<longleftrightarrow> ?ex")
proof -
  let ?a = "pm_paddr (decode_pmem b)" and ?sz = "ucast (pm_word32_count (decode_pmem b)) * 4 :: u64"
  have r: "snd (ioctl_pmem_free e uaddr k) = pmem_free e ?a ?sz k"
    using assms(4) by (simp add: ioctl_pmem_free_def sizeof_pmem_def Let_def)
  show ?thesis
  proof
    assume ?ok
    then have "(ke_phys_to_virt e ?a, ke_get_order e ?sz) \<in># image_mset (node_pages e) (mset (kd_pmem k))"
      using assms(1) unfolding r pmem_ok_def pmem_free_steps(1) pages_snoc by auto
    then obtain n where n: "n \<in> set (kd_pmem k)"
      "ke_phys_to_virt e ?a = ke_phys_to_virt e (pn_paddr n)" "ke_get_order e ?sz = ke_get_order e (pn_size n)"
      by (auto simp: node_pages_def)
    then have "pn_paddr n = ?a" using injD [OF assms(3) n(2)] by simp
    with n show ?ex by auto
  next
    assume ?ex
    then obtain n where n: "n \<in> set (kd_pmem k)" "pn_paddr n = ?a"
      "ke_get_order e (pn_size n) = ke_get_order e ?sz" by blast
    have "find (\<lambda>n. pn_paddr n = ?a) (kd_pmem k) \<noteq> None" using n(1,2) by (auto simp: find_None_iff)
    then obtain n' where f: "find (\<lambda>n. pn_paddr n = ?a) (kd_pmem k) = Some n'" by blast
    then have "n' \<in> set (kd_pmem k)" "pn_paddr n' = ?a" by (auto simp: find_Some_iff)
    moreover have "inj_on pn_paddr (set (kd_pmem k))" using assms(2) by (simp add: distinct_map)
    ultimately have "n' = n" using n(1,2) by (metis inj_onD)
    with pmem_free_node [OF assms(1) f, of ?sz] n(3) r show ?ok by simp
  qed
qed

text \<open>
  C31. Closing a file ends, empties the list and gives every block in it back to the kernel once,
  and nothing else: no page the driver had is left. The list is one for all processes, so the
  blocks of other open files go too.
\<close>

theorem close_frees_all:
  assumes "pmem_ok e k"
  shows "\<exists>k'. kdma_file_close e k = (0, None, k') \<and> kd_pmem k' = [] \<and> pages (kd_log k') = ({#}, True) \<and>
     kd_log k' = kd_log k @ map (\<lambda>n. Km_free_pages (ke_phys_to_virt e (pn_paddr n)) (ke_get_order e (pn_size n)))
       (kd_pmem k) \<and>
     k' = k\<lparr>kd_pmem := [], kd_log := kd_log k'\<rparr>"
proof -
  have "free_pmem_nodes e k = k\<lparr>kd_pmem := [], kd_log := kd_log k @ map (\<lambda>n. Km_free_pages
       (ke_phys_to_virt e (pn_paddr n)) (ke_get_order e (pn_size n))) (kd_pmem k)\<rparr> \<and>
     (pmem_ok e k \<longrightarrow> pmem_ok e (free_pmem_nodes e k))" for k :: "('a, 'b) kdma_scheme"
  proof (induction "kd_pmem k" arbitrary: k)
    case Nil
    then show ?case by (subst (1 2) free_pmem_nodes.simps) (auto split: list.split)
  next
    case (Cons p ps)
    let ?k = "pmem_free e (pn_paddr p) (pn_size p) k"
    have ps: "kd_pmem ?k = ps" using Cons.hyps(2) by (simp add: pmem_free_steps flip: Cons.hyps(2))
    have step: "free_pmem_nodes e k = free_pmem_nodes e ?k"
      by (subst free_pmem_nodes.simps) (simp flip: Cons.hyps(2))
    have k: "?k = k\<lparr>kd_pmem := ps, kd_log := kd_log k @
        [Km_free_pages (ke_phys_to_virt e (pn_paddr p)) (ke_get_order e (pn_size p))]\<rparr>"
      by (simp add: pmem_free_def Let_def flip: Cons.hyps(2))
    have ok: "pmem_ok e ?k" if "pmem_ok e k"
      by (rule pmem_free_node [OF that]) (simp_all flip: Cons.hyps(2))
    note IH = Cons.hyps(1) [OF ps [symmetric]]
    have "free_pmem_nodes e k = k\<lparr>kd_pmem := [], kd_log := kd_log k @ map (\<lambda>n. Km_free_pages
       (ke_phys_to_virt e (pn_paddr n)) (ke_get_order e (pn_size n))) (kd_pmem k)\<rparr>"
      unfolding step using conjunct1 [OF IH] by (simp add: k flip: Cons.hyps(2))
    moreover have "pmem_ok e (free_pmem_nodes e k)" if "pmem_ok e k"
      unfolding step using conjunct2 [OF IH] ok [OF that] by blast
    ultimately show ?case by blast
  qed
  from this [of k] assms have f: "free_pmem_nodes e k = k\<lparr>kd_pmem := [], kd_log := kd_log k @ map (\<lambda>n. Km_free_pages
       (ke_phys_to_virt e (pn_paddr n)) (ke_get_order e (pn_size n))) (kd_pmem k)\<rparr>"
    and ok: "pmem_ok e (free_pmem_nodes e k)" by blast+
  have "pages (kd_log (free_pmem_nodes e k)) = ({#}, True)"
    using ok unfolding pmem_ok_def by (simp add: f)
  then show ?thesis
    by (intro exI [of _ "free_pmem_nodes e k"]) (simp add: kdma_file_close_def Let_def f)
qed

text \<open>A list of two blocks, and a process that passes one argument structure, for the witnesses.\<close>

definition wit_pmem :: "byte list \<Rightarrow> nat kdma" where
  "wit_pmem b = (wit_kdma b)\<lparr>kd_pmem := [\<lparr>pn_paddr = 0x4000, pn_size = 4096\<rparr>, \<lparr>pn_paddr = 0x8000, pn_size = 8192\<rparr>],
     kd_log := [Km_alloc_pages (-1) 0x9000 2, Km_alloc_pages (-1) 0x5000 1]\<rparr>"

lemma wit_pmem_ok: "pmem_ok wit_kenv (wit_pmem b)"
  by (simp add: pmem_ok_def wit_pmem_def pages_def node_pages_def wit_kenv_def)

lemma wit_pmem_arg:
  "copy_from_user (kd_user (wit_pmem (encode_pmem a))) 0x2000 24 = Some (encode_pmem a) \<and>
     decode_pmem (encode_pmem a) = a"
proof -
  have "length (encode_pmem a) = 24" by (simp add: encode_pmem_def)
  moreover have "decode_pmem (encode_pmem a) = a"
    by (simp add: decode_pmem_def encode_pmem_def of_le_le_bytes)
  ultimately show ?thesis using wit_copy_from [of "encode_pmem a"] by (simp add: wit_pmem_def wit_kdma_def)
qed

lemma pmem_alloc_balanced_example:
  "pmem_ok wit_kenv (snd (ioctl_pmem_alloc wit_kenv 0x2000 (wit_pmem [])))"
  by (rule pmem_alloc_balanced [OF wit_pmem_ok]) (simp add: wit_kenv_def)

theorem pmem_free_trusts_process_witness:
  "\<not> pmem_ok wit_kenv (snd (ioctl_pmem_free wit_kenv 0x2000 (wit_pmem (encode_pmem
     \<lparr>pm_vaddr = 0, pm_paddr = 0x6000, pm_word32_count = 1024, pm_nid = 0\<rparr>))))"
proof -
  let ?a = "\<lparr>pm_vaddr = 0, pm_paddr = 0x6000, pm_word32_count = 1024, pm_nid = 0\<rparr>"
  have d: "distinct (map pn_paddr (kd_pmem (wit_pmem b)))" for b by (simp add: wit_pmem_def)
  have i: "inj (ke_phys_to_virt wit_kenv)" by (simp add: wit_kenv_def inj_def)
  show ?thesis
    unfolding pmem_free_trusts_process [OF wit_pmem_ok d i conjunct1 [OF wit_pmem_arg [of ?a]]]
    by (simp add: conjunct2 [OF wit_pmem_arg]) (simp add: wit_pmem_def)
qed

theorem close_frees_all_witness:
  "\<exists>k'. kdma_file_close wit_kenv (wit_pmem []) = (0, None, k') \<and>
     drop 2 (kd_log k') = [Km_free_pages 0x5000 1, Km_free_pages 0x9000 2]"
  using close_frees_all [OF wit_pmem_ok, of "[]"] by (auto simp: wit_pmem_def wit_kenv_def)

section \<open>The devices of the driver\<close>

interpretation kdma_alloc: dev_allocator "kdma_dev_alloc (\<lambda>_ b. b)" dev_free
  "used_devs KDMA_DEV_COUNT" KDMA_DEV_COUNT
  unfolding kdma_dev_alloc_def by (rule dev_allocator_impl) (simp add: KDMA_DEV_COUNT_def)

text \<open>
  However often the driver probes in a row, it hands out each of its two devices at most
  once, and only ones that were not in use.
\<close>

lemma kdma_devices_distinct:
  assumes "kdma_alloc.alloc_many n drv = (rs, drv')"
  shows "distinct (List.map_filter id rs) \<and> set (List.map_filter id rs) \<subseteq> {0, 1} \<and>
     set (List.map_filter id rs) \<inter> used_devs 2 drv = {} \<and>
     used_devs 2 drv' = used_devs 2 drv \<union> set (List.map_filter id rs)"
proof -
  have "{..<KDMA_DEV_COUNT} = {0, 1}" by (auto simp: KDMA_DEV_COUNT_def)
  then show ?thesis using kdma_alloc.alloc_many_distinct [OF assms] by (simp add: KDMA_DEV_COUNT_def)
qed

lemma kdma_devices_distinct_witness:
  "\<exists>rs drv'. kdma_alloc.alloc_many 3 \<lparr>d_devs = [wit_dev, wit_dev], d_bits = 0, d_major = 0\<rparr> = (rs, drv') \<and>
     distinct (List.map_filter id rs) \<and> set (List.map_filter id rs) \<subseteq> {0, 1}"
  using kdma_devices_distinct [of 3 "\<lparr>d_devs = [wit_dev, wit_dev], d_bits = 0, d_major = 0\<rparr>"]
  by (cases "kdma_alloc.alloc_many 3 \<lparr>d_devs = [wit_dev, wit_dev], d_bits = 0, d_major = 0\<rparr>") auto

end
