(* ===== verification/Dma_User.thy ===== *)
theory Dma_User
  imports Kdma
begin

text \<open>
  The user program of the DMA engine, \<open>src/src/dma/sw/u/main.c\<close>: the thin layer over the driver's
  ioctls, buffers of contiguous memory, starting a transfer and waiting for its end, the check of
  the result and the main loop.

  The program reaches the rest of the system through system calls and through its own memory; both
  are the record \<open>sys\<close>, an argument of the definitions, on a state of the caller's choice. Local
  variables whose address is passed to the kernel have an address, an argument too: what they hold
  before they are assigned is what the memory holds there. How it
  measures time is in \<open>User_Clock\<close>, the report it prints in \<open>User_Rates\<close>.
\<close>

section \<open>System calls and memory\<close>

record 's sys =
  sy_open :: "'s \<Rightarrow> int \<times> 's"
  sy_close :: "int \<Rightarrow> 's \<Rightarrow> 's"
  sy_ioctl :: "int \<Rightarrow> u32 \<Rightarrow> u64 \<Rightarrow> 's \<Rightarrow> int \<times> 's"
  sy_mmap :: "u64 \<Rightarrow> int \<Rightarrow> u64 \<Rightarrow> 's \<Rightarrow> u64 \<times> 's"
  sy_munmap :: "u64 \<Rightarrow> u64 \<Rightarrow> 's \<Rightarrow> 's"
  sy_select :: "int \<Rightarrow> 's \<Rightarrow> int \<times> 's"
  sy_errno :: "'s \<Rightarrow> int"
  sy_rand :: "'s \<Rightarrow> int \<times> 's"
  sy_store :: "u64 \<Rightarrow> byte list \<Rightarrow> 's \<Rightarrow> 's"
  sy_load :: "u64 \<Rightarrow> nat \<Rightarrow> 's \<Rightarrow> byte list"

section \<open>The thin layer\<close>

text \<open>\<open>sp\<close> is the address of the local structure. Its padding keeps what was there.\<close>

definition pci_dev_readwrite ::
  "'s sys \<Rightarrow> u64 \<Rightarrow> int \<Rightarrow> u32 \<Rightarrow> u64 \<Rightarrow> u64 \<Rightarrow> u32 \<Rightarrow> u32 \<Rightarrow> 's \<Rightarrow> int \<times> 's" where
  "pci_dev_readwrite sys sp fd bar off addr wcount op s =
     (let s = sy_store sys (sp + 8) (le_bytes 4 bar) s;
          s = sy_store sys (sp + 16) (le_bytes 8 off) s;
          s = sy_store sys sp (le_bytes 8 addr) s;
          s = sy_store sys (sp + 24) (le_bytes 4 wcount) s;
          (r, s) = sy_ioctl sys fd op sp s
      in if r \<noteq> 0 then (-1, s) else (0, s))"

definition pci_dev_write :: "'s sys \<Rightarrow> u64 \<Rightarrow> int \<Rightarrow> u32 \<Rightarrow> u64 \<Rightarrow> u64 \<Rightarrow> u32 \<Rightarrow> 's \<Rightarrow> int \<times> 's" where
  "pci_dev_write sys sp fd bar off addr wcount s =
     pci_dev_readwrite sys sp fd bar off addr wcount KDMA_IOCTL_WRITE_BAR s"

definition pci_dev_read :: "'s sys \<Rightarrow> u64 \<Rightarrow> int \<Rightarrow> u32 \<Rightarrow> u64 \<Rightarrow> u64 \<Rightarrow> u32 \<Rightarrow> 's \<Rightarrow> int \<times> 's" where
  "pci_dev_read sys sp fd bar off addr wcount s =
     pci_dev_readwrite sys sp fd bar off addr wcount KDMA_IOCTL_READ_BAR s"

text \<open>The status goes to the caller: \<open>None\<close> when it is left as it was.\<close>

definition pci_dev_poll_int :: "'s sys \<Rightarrow> u64 \<Rightarrow> int \<Rightarrow> 's \<Rightarrow> int \<times> u32 option \<times> 's" where
  "pci_dev_poll_int sys sp fd s =
     (let (e, s) = sy_ioctl sys fd KDMA_IOCTL_GET_IRQCONTEXT sp s in
      if e \<noteq> 0 then (-1, None, s) else (0, Some (of_le (sy_load sys sp 4 s)), s))"

text \<open>\<open>dp\<close> is the address of the parameter \<open>data\<close>.\<close>

definition pci_dev_write_word32 ::
  "'s sys \<Rightarrow> u64 \<Rightarrow> u64 \<Rightarrow> int \<Rightarrow> u32 \<Rightarrow> u64 \<Rightarrow> u32 \<Rightarrow> 's \<Rightarrow> int \<times> 's" where
  "pci_dev_write_word32 sys sp dp fd bar off data s =
     (let s = sy_store sys dp (le_bytes 4 data) s in pci_dev_write sys sp fd bar off dp 1 s)"

definition pci_dev_read_word32 ::
  "'s sys \<Rightarrow> u64 \<Rightarrow> int \<Rightarrow> u32 \<Rightarrow> u64 \<Rightarrow> u64 \<Rightarrow> 's \<Rightarrow> int \<times> 's" where
  "pci_dev_read_word32 sys sp fd bar off data s = pci_dev_read sys sp fd bar off data 1 s"

section \<open>Handles and buffers\<close>

definition CONFIG_PAGE_SIZE :: u64 where [const_defs]: "CONFIG_PAGE_SIZE = 4096"
definition MAP_FAILED :: u64 where [const_defs]: "MAP_FAILED = -1"

record dma_handle =
  h_fd :: int
  h_nid :: int

record dma_buf =
  db_size :: u64
  db_vaddr :: u64
  db_paddr :: u64

text \<open>
  \<open>dma_io_t\<close> without the ticks. The buffer it points to does not change while it does, so the
  pointer is the buffer.
\<close>

record dma_io =
  io_buf :: "dma_buf option"
  io_baz :: u32
  io_sta :: u32

definition dword_to_byte :: "u32 \<Rightarrow> u32" where "dword_to_byte n = n * 4"
definition byte_to_dword :: "u32 \<Rightarrow> u32" where "byte_to_dword n = n div 4"

definition dma_open :: "'s sys \<Rightarrow> dma_handle \<Rightarrow> 's \<Rightarrow> int \<times> dma_handle \<times> 's" where
  "dma_open sys h s =
     (let (fd, s) = sy_open sys s; h = h\<lparr>h_fd := fd\<rparr> in
      if h_fd h = -1 then (-1, h, s) else (0, h\<lparr>h_nid := -1\<rparr>, s))"

definition dma_close :: "'s sys \<Rightarrow> dma_handle \<Rightarrow> 's \<Rightarrow> dma_handle \<times> 's" where
  "dma_close sys h s = (let s = sy_close sys (h_fd h) s in (h\<lparr>h_fd := -1\<rparr>, s))"

definition dma_alloc_buf ::
  "'s sys \<Rightarrow> u64 \<Rightarrow> dma_handle \<Rightarrow> dma_buf \<Rightarrow> u64 \<Rightarrow> 's \<Rightarrow> int \<times> dma_buf \<times> 's" where
  "dma_alloc_buf sys sp h buf sz s =
     (let rem = sz mod CONFIG_PAGE_SIZE;
          sz = (if rem \<noteq> 0 then sz + (CONFIG_PAGE_SIZE - rem) else sz);
          buf = buf\<lparr>db_size := sz\<rparr>;
          s = sy_store sys (sp + 20) (le_bytes 4 (of_int (h_nid h) :: u32)) s;
          s = sy_store sys (sp + 16) (le_bytes 4 (byte_to_dword (ucast sz))) s;
          (err, s) = sy_ioctl sys (h_fd h) KDMA_IOCTL_PMEM_ALLOC sp s
      in if err \<noteq> 0 then (err, buf, s)
      else let (v, s) = sy_mmap sys sz (h_fd h) (of_le (sy_load sys (sp + 8) 8 s)) s;
               s = sy_store sys sp (le_bytes 8 v) s
      in if v = MAP_FAILED then
           let (_, s) = sy_ioctl sys (h_fd h) KDMA_IOCTL_PMEM_FREE sp s in (sy_errno sys s, buf, s)
         else (0, buf\<lparr>db_vaddr := v, db_paddr := of_le (sy_load sys (sp + 8) 8 s)\<rparr>, s))"

text \<open>The count of the structure is not assigned: it is what the stack held.\<close>

definition dma_free_buf :: "'s sys \<Rightarrow> u64 \<Rightarrow> dma_handle \<Rightarrow> dma_buf \<Rightarrow> 's \<Rightarrow> 's" where
  "dma_free_buf sys sp h buf s =
     (let s = sy_munmap sys (db_vaddr buf) (db_size buf) s;
          s = sy_store sys (sp + 8) (le_bytes 8 (db_paddr buf)) s
      in snd (sy_ioctl sys (h_fd h) KDMA_IOCTL_PMEM_FREE sp s))"

definition poll_int_blocking :: "'s sys \<Rightarrow> u64 \<Rightarrow> dma_handle \<Rightarrow> 's \<Rightarrow> int \<times> u32 option \<times> 's" where
  "poll_int_blocking sys sp h s =
     (let (r, s) = sy_select sys (h_fd h) s in
      if r \<le> 0 then (-1, None, s) else pci_dev_poll_int sys sp (h_fd h) s)"

definition dma_sync_pmem :: "'s sys \<Rightarrow> u64 \<Rightarrow> dma_handle \<Rightarrow> dma_buf \<Rightarrow> 's \<Rightarrow> int \<times> 's" where
  "dma_sync_pmem sys sp h buf s =
     (let s = sy_store sys (sp + 16) (le_bytes 4 (byte_to_dword (ucast (db_size buf)))) s;
          s = sy_store sys (sp + 8) (le_bytes 8 (db_paddr buf)) s
      in sy_ioctl sys (h_fd h) KDMA_IOCTL_PMEM_SYNC sp s)"

section \<open>Transfers\<close>

definition U_REG_BAR :: u32 where [const_defs]: "U_REG_BAR = 1"
definition U_REG_CTL :: u64 where [const_defs]: "U_REG_CTL = 0x00"
definition U_REG_STA :: u64 where [const_defs]: "U_REG_STA = 0x04"
definition U_REG_ADL :: u64 where [const_defs]: "U_REG_ADL = 0x08"
definition U_REG_ADH :: u64 where [const_defs]: "U_REG_ADH = 0x0c"
definition U_REG_BAZ :: u64 where [const_defs]: "U_REG_BAZ = 0x10"

text \<open>The value written to CTL: in C the two shifted bits are sign-extended to 64 bits.\<close>

definition ctl_value :: "u64 \<Rightarrow> u32" where
  "ctl_value sz = ucast ((scast (push_bit 31 1 :: u32) :: u64) OR push_bit 30 1 OR sz)"

definition dma_start_read ::
  "'s sys \<Rightarrow> u64 \<Rightarrow> u64 \<Rightarrow> dma_handle \<Rightarrow> dma_io \<Rightarrow> dma_buf \<Rightarrow> 's \<Rightarrow> int \<times> dma_io \<times> 's" where
  "dma_start_read sys sp dp h io buf s =
     (let (rnd, s) = sy_rand sys s;
          io = io\<lparr>io_baz := of_int (rnd mod 0x100)\<rparr>;
          io = io\<lparr>io_buf := Some buf\<rparr>;
          (_, _, s) = pci_dev_poll_int sys sp (h_fd h) s;
          (_, s) = dma_sync_pmem sys sp h buf s;
          (_, s) = pci_dev_write_word32 sys sp dp (h_fd h) U_REG_BAR U_REG_BAZ (io_baz io) s;
          x = ucast (drop_bit 32 (db_paddr buf)) :: u32;
          (_, s) = pci_dev_write_word32 sys sp dp (h_fd h) U_REG_BAR U_REG_ADH x s;
          x = ucast (db_paddr buf AND 0xffffffff) :: u32;
          (_, s) = pci_dev_write_word32 sys sp dp (h_fd h) U_REG_BAR U_REG_ADL x s;
          x = ctl_value (db_size buf);
          (_, s) = pci_dev_write_word32 sys sp dp (h_fd h) U_REG_BAR U_REG_CTL x s
      in (0, io, s))"

text \<open>The loop of \<open>dma_wait_io\<close>: \<open>None\<close> if it never ends.\<close>

partial_function (option) dma_wait_loop ::
  "'s sys \<Rightarrow> u64 \<Rightarrow> dma_handle \<Rightarrow> dma_io \<Rightarrow> 's \<Rightarrow> (int \<times> dma_io \<times> 's) option" where
  "dma_wait_loop sys sp h io s = (case poll_int_blocking sys sp h s of (r, sta, s) \<Rightarrow>
      let io = (case sta of Some x \<Rightarrow> io\<lparr>io_sta := x\<rparr> | None \<Rightarrow> io) in
      if r < 0 then Some (-1, io, s)
      else if io_sta io AND push_bit 31 1 \<noteq> 0 then Some (0, io, s)
      else dma_wait_loop sys sp h io s)"

definition dma_wait_io :: "'s sys \<Rightarrow> u64 \<Rightarrow> dma_handle \<Rightarrow> dma_io \<Rightarrow> 's \<Rightarrow> (int \<times> dma_io \<times> 's) option" where
  "dma_wait_io sys sp h io s = do {
     (r, io, s) \<leftarrow> dma_wait_loop sys sp h io s;
     if r < 0 then Some (-1, io, s)
     else do {
       buf \<leftarrow> io_buf io;
       let (_, s) = dma_sync_pmem sys sp h buf s;
       Some (0, io, s) }
   }"

section \<open>The test\<close>

definition fill_mem :: int where "fill_mem = 0"

definition reset_buffer :: "'s sys \<Rightarrow> dma_buf \<Rightarrow> 's \<Rightarrow> 's" where
  "reset_buffer sys buf s = sy_store sys (db_vaddr buf) (replicate (unat (db_size buf)) 0x2a) s"

definition check_buf :: "'s sys \<Rightarrow> dma_buf \<Rightarrow> u32 \<Rightarrow> 's \<Rightarrow> int" where
  "check_buf sys buf baz s =
     (if \<exists>b\<in>set (sy_load sys (db_vaddr buf) (unat (db_size buf)) s). b \<noteq> ucast baz then -1 else 0)"

text \<open>The check for the engine in C, which the file leaves out for the one of another device.\<close>

definition check_buf_c :: "'s sys \<Rightarrow> dma_buf \<Rightarrow> u32 \<Rightarrow> 's \<Rightarrow> int" where
  "check_buf_c sys buf baz s = (let d = sy_load sys (db_vaddr buf) (unat (db_size buf)) s in
     if \<exists>i\<in>set [0..<unat (db_size buf)]. ucast (of_nat i + baz :: u32) \<noteq> d ! i then -1 else 0)"

definition check_io :: "'s sys \<Rightarrow> dma_io \<Rightarrow> 's \<Rightarrow> int option" where
  "check_io sys io s = do {
     buf \<leftarrow> io_buf io;
     if (ucast (io_sta io AND 0xffff) :: u64) \<noteq> db_size buf then Some (-1)
     else Some (check_buf sys buf (io_baz io) s)
   }"

definition sub_ticks :: "u64 \<Rightarrow> u64 \<Rightarrow> u64" where
  "sub_ticks a b = (if a > b then -1 - a + b else b - a)"

text \<open>The end of \<open>get_cpu_hz\<close>, with the ticks of the ten measurements; and \<open>ticks_to_us\<close>.\<close>

definition cpu_hz_of :: "u64 list \<Rightarrow> u64" where
  "cpu_hz_of all_ticks = fold (\<lambda>t hz. hz + t) all_ticks 0 * 10"

definition ticks_to_us :: "u64 \<Rightarrow> u64 \<Rightarrow> u64" where
  "ticks_to_us hz ticks = (ticks * 1000000) div hz"

section \<open>main\<close>

definition CONFIG_MEM_SIZE :: u64 where [const_defs]: "CONFIG_MEM_SIZE = 32 * 1024"

text \<open>One iteration of the loop, for the one device: the result of the check.\<close>

definition user_iter ::
  "'s sys \<Rightarrow> u64 \<Rightarrow> u64 \<Rightarrow> dma_handle \<Rightarrow> dma_buf \<Rightarrow> dma_io \<Rightarrow> 's \<Rightarrow> (int \<times> dma_io \<times> 's) option" where
  "user_iter sys sp dp h buf io s = do {
     let s = reset_buffer sys buf s;
     let (_, io, s) = dma_start_read sys sp dp h io buf s;
     (_, io, s) \<leftarrow> dma_wait_io sys sp h io s;
     c \<leftarrow> (if io_buf io \<noteq> None then check_io sys io s else Some 0);
     Some (c, io, s)
   }"

text \<open>At most \<open>n\<close> iterations: the result is \<open>None\<close> inside while the loop is still running.\<close>

primrec user_loop ::
  "'s sys \<Rightarrow> u64 \<Rightarrow> u64 \<Rightarrow> dma_handle \<Rightarrow> dma_buf \<Rightarrow> nat \<Rightarrow> dma_io \<Rightarrow> 's \<Rightarrow> (int option \<times> 's) option" where
  "user_loop sys sp dp h buf 0 io s = Some (None, s)"
| "user_loop sys sp dp h buf (Suc n) io s = do {
     (c, io, s) \<leftarrow> user_iter sys sp dp h buf io s;
     if c \<noteq> 0 then Some (Some (-1), s) else user_loop sys sp dp h buf n io s
   }"

definition user_main ::
  "'s sys \<Rightarrow> u64 \<Rightarrow> u64 \<Rightarrow> dma_handle \<Rightarrow> dma_buf \<Rightarrow> dma_io \<Rightarrow> nat \<Rightarrow> 's \<Rightarrow> (int option \<times> 's) option" where
  "user_main sys sp dp h buf io n s =
     (let (r, h, s) = dma_open sys h s in
      if r \<noteq> 0 then Some (Some (-1), s)
      else let (r, buf, s) = dma_alloc_buf sys sp h buf CONFIG_MEM_SIZE s in
      if r \<noteq> 0 then let (h, s) = dma_close sys h s in Some (Some (-1), s)
      else let s = reset_buffer sys buf s in user_loop sys sp dp h buf n io s)"

section \<open>The control word\<close>

lemma ctl_value_bits:
  "ctl_value sz AND push_bit 31 1 \<noteq> 0" "ctl_value sz AND push_bit 30 1 \<noteq> 0"
  "ctl_value sz AND 0xffff = ucast sz AND 0xffff"
proof -
  have b: "bit (ctl_value sz) n \<longleftrightarrow> n < 32 \<and> (30 \<le> n \<or> bit sz n)" for n
    by (auto simp: ctl_value_def bit_simps) (auto simp: less_Suc_eq numeral_eq_Suc)
  have "bit (ctl_value sz AND push_bit 31 1) 31" "bit (ctl_value sz AND push_bit 30 1) 30"
    by (simp_all add: b bit_simps)
  then show "ctl_value sz AND push_bit 31 1 \<noteq> 0" "ctl_value sz AND push_bit 30 1 \<noteq> 0"
    by (metis bit_0_eq bot_apply bot_bool_def)+
  have m: "(0xffff :: u32) = mask 16" by (simp add: mask_eq_exp_minus_1)
  show "ctl_value sz AND 0xffff = ucast sz AND 0xffff"
    unfolding m by (rule bit_word_eqI) (auto simp: b bit_simps)
qed

section \<open>The contract of the driver\<close>

text \<open>
  What the program relies on. \<open>'a\<close> is an abstract view of the engine; \<open>fresh\<close>, \<open>idle\<close> and \<open>going\<close>
  tell that no transfer is under way, that moreover no interrupt is pending, and that one is under
  way whose outcome is the argument. \<open>put\<close> is the effect of a store of the process, which may go to
  memory it shares with the engine, \<open>wr\<close> that of a register write, \<open>run\<close> that of a whole
  transfer, \<open>sta\<close> the status register.
\<close>

locale dma_driver =
  fixes sys :: "'s sys" and sp dp :: u64 and fd :: int
    and fresh idle going :: "'a \<Rightarrow> 's \<Rightarrow> bool"
    and put :: "u64 \<Rightarrow> byte list \<Rightarrow> 'a \<Rightarrow> 'a"
    and wr :: "u64 \<Rightarrow> u32 \<Rightarrow> 'a \<Rightarrow> 'a" and run :: "u32 \<Rightarrow> 'a \<Rightarrow> 'a" and sta :: "'a \<Rightarrow> u32"
  assumes rand_fresh: "fresh a s \<Longrightarrow> fresh a (snd (sy_rand sys s))"
    and store_fresh: "fresh a s \<Longrightarrow> fresh (put p bs a) (sy_store sys p bs s)"
    and clear: "fresh a s \<Longrightarrow> idle a (snd (snd (pci_dev_poll_int sys sp fd s)))"
    and sync_fresh: "fresh a s \<Longrightarrow> h_fd h = fd \<Longrightarrow> fresh a (snd (dma_sync_pmem sys sp h buf s))"
    and sync_idle: "idle a s \<Longrightarrow> h_fd h = fd \<Longrightarrow> idle a (snd (dma_sync_pmem sys sp h buf s))"
    and write_reg: "idle a s \<Longrightarrow> off \<in> {U_REG_ADL, U_REG_ADH, U_REG_BAZ} \<Longrightarrow>
      idle (wr off x a) (snd (pci_dev_write_word32 sys sp dp fd U_REG_BAR off x s))"
    and start: "idle a s \<Longrightarrow> x AND push_bit 31 1 \<noteq> 0 \<Longrightarrow> x AND push_bit 30 1 \<noteq> 0 \<Longrightarrow>
      going (run x a) (snd (pci_dev_write_word32 sys sp dp fd U_REG_BAR U_REG_CTL x s))"
    and wait: "going a s \<Longrightarrow> h_fd h = fd \<Longrightarrow>
      \<exists>s'. poll_int_blocking sys sp h s = (0, Some (sta a), s') \<and> fresh a s'"
    and completed: "going a s \<Longrightarrow> sta a AND push_bit 31 1 \<noteq> 0"
begin

text \<open>The engine after a transfer with seed \<open>x\<close> into a buffer.\<close>

definition outcome :: "u32 \<Rightarrow> dma_buf \<Rightarrow> 'a \<Rightarrow> 'a" where
  "outcome x buf a = run (ctl_value (db_size buf))
     (wr U_REG_ADL (ucast (db_paddr buf AND 0xffffffff)) (wr U_REG_ADH (ucast (drop_bit 32 (db_paddr buf)))
       (wr U_REG_BAZ x a)))"

lemma start_read:
  assumes "fresh a s" and "h_fd h = fd"
  shows "\<exists>s'. dma_start_read sys sp dp h io buf s =
      (0, io\<lparr>io_baz := of_int (fst (sy_rand sys s) mod 0x100), io_buf := Some buf\<rparr>, s') \<and>
    going (outcome (of_int (fst (sy_rand sys s) mod 0x100)) buf a) s'"
proof -
  let ?x = "of_int (fst (sy_rand sys s) mod 0x100) :: u32"
  let ?s1 = "snd (snd (pci_dev_poll_int sys sp fd (snd (sy_rand sys s))))"
  let ?s2 = "snd (dma_sync_pmem sys sp h buf ?s1)"
  let ?w = "\<lambda>off x s. snd (pci_dev_write_word32 sys sp dp fd U_REG_BAR off x s)"
  let ?s5 = "?w U_REG_ADL (ucast (db_paddr buf AND 0xffffffff)) (?w U_REG_ADH (ucast (drop_bit 32 (db_paddr buf)))
      (?w U_REG_BAZ ?x ?s2))"
  have "idle a ?s2" using sync_idle [OF clear [OF rand_fresh [OF assms(1)]] assms(2)] .
  then have "idle (wr U_REG_ADL (ucast (db_paddr buf AND 0xffffffff)) (wr U_REG_ADH (ucast (drop_bit 32 (db_paddr buf)))
       (wr U_REG_BAZ ?x a))) ?s5"
    by (intro write_reg) simp_all
  from start [OF this ctl_value_bits(1,2)]
  have "going (outcome ?x buf a) (?w U_REG_CTL (ctl_value (db_size buf)) ?s5)" by (simp add: outcome_def)
  moreover have "dma_start_read sys sp dp h io buf s =
      (0, io\<lparr>io_baz := ?x, io_buf := Some buf\<rparr>, ?w U_REG_CTL (ctl_value (db_size buf)) ?s5)"
    using assms(2) by (simp add: dma_start_read_def Let_def split: prod.split)
  ultimately show ?thesis by blast
qed

lemma wait_io:
  assumes "going a s" and "h_fd h = fd" and "io_buf io = Some buf"
  shows "\<exists>s'. dma_wait_io sys sp h io s = Some (0, io\<lparr>io_sta := sta a\<rparr>, s') \<and> fresh a s'"
proof -
  obtain s1 where s1: "poll_int_blocking sys sp h s = (0, Some (sta a), s1)" "fresh a s1"
    using wait [OF assms(1,2)] by blast
  have "dma_wait_loop sys sp h io s = Some (0, io\<lparr>io_sta := sta a\<rparr>, s1)"
    using s1(1) completed [OF assms(1)] by (subst dma_wait_loop.simps) (simp add: Let_def)
  then show ?thesis
    using sync_fresh [OF s1(2) assms(2), of buf] assms(3)
    by (cases "dma_sync_pmem sys sp h buf s1") (simp add: dma_wait_io_def Let_def)
qed

text \<open>The view after one turn of the program with seed \<open>x\<close>.\<close>

definition turn :: "u32 \<Rightarrow> dma_buf \<Rightarrow> 'a \<Rightarrow> 'a" where
  "turn x buf a = outcome x buf (put (db_vaddr buf) (replicate (unat (db_size buf)) 0x2a) a)"

text \<open>One turn of the program: it ends, with the engine as a transfer leaves it.\<close>

lemma iteration:
  assumes "fresh a s" and "h_fd h = fd"
  shows "\<exists>x c s'. user_iter sys sp dp h buf io s =
      Some (c, io\<lparr>io_baz := x, io_buf := Some buf, io_sta := sta (turn x buf a)\<rparr>, s') \<and>
    fresh (turn x buf a) s' \<and> unat x < 256 \<and>
    c = (if (ucast (sta (turn x buf a) AND 0xffff) :: u64) = db_size buf then check_buf sys buf x s' else -1)"
proof -
  let ?s0 = "reset_buffer sys buf s" and ?a = "put (db_vaddr buf) (replicate (unat (db_size buf)) 0x2a) a"
  have f0: "fresh ?a ?s0" using store_fresh [OF assms(1)] by (simp add: reset_buffer_def)
  let ?x = "of_int (fst (sy_rand sys ?s0) mod 0x100) :: u32"
  let ?io = "io\<lparr>io_baz := ?x, io_buf := Some buf\<rparr>"
  obtain s1 where s1: "dma_start_read sys sp dp h io buf ?s0 = (0, ?io, s1)" "going (turn ?x buf a) s1"
    using start_read [OF f0 assms(2)] unfolding turn_def by blast
  obtain s2 where s2: "dma_wait_io sys sp h ?io s1 = Some (0, ?io\<lparr>io_sta := sta (turn ?x buf a)\<rparr>, s2)"
    "fresh (turn ?x buf a) s2"
    using wait_io [OF s1(2) assms(2), of ?io buf] by auto
  have "unat ?x < 256"
  proof -
    have z: "0 \<le> fst (sy_rand sys ?s0) mod 0x100" "fst (sy_rand sys ?s0) mod 0x100 < 256" by simp_all
    then have "take_bit 32 (fst (sy_rand sys ?s0) mod 0x100) = fst (sy_rand sys ?s0) mod 0x100"
      by (intro take_bit_int_eq_self) simp_all
    then show ?thesis using z by (simp add: unsigned_of_int nat_less_iff)
  qed
  then show ?thesis
    using s1(1) s2 by (intro exI [of _ ?x]) (simp add: user_iter_def Let_def check_io_def)
qed

end

end
