(* ===== verification/Pcie_Net.thy ===== *)
theory Pcie_Net
  imports Vp_Prelude
begin

text \<open>
  The network layer, \<open>src/src/pcie/pcie_net.h\<close> and \<open>pcie_net.c\<close>: the packed messages of
  the forwarding protocol, the connection (\<open>pcie_net_t\<close>), blocking send and receive of one
  message, and the \<open>select\<close> loop with its one task slot and its event descriptor.

  The file is compiled with \<open>CONFIG_USE_UDP = 0\<close>, so the TCP branches are the program.
  The kernel's side of the connected socket is the ghost field \<open>sock\<close> of the connection: the
  bytes the peer has sent and will send before it closes (\<open>sk_rx\<close>), the bytes the kernel has
  accepted for sending (\<open>sk_tx\<close>), and the results the next system calls return. The order of
  \<open>select\<close> results is a list given by the environment.
\<close>

section \<open>Messages and replies (pcie_net.h)\<close>

definition PCIE_NET_OP_READ_CONFIG :: byte where [const_defs]: "PCIE_NET_OP_READ_CONFIG = 0"
definition PCIE_NET_OP_WRITE_CONFIG :: byte where [const_defs]: "PCIE_NET_OP_WRITE_CONFIG = 1"
definition PCIE_NET_OP_READ_MEM :: byte where [const_defs]: "PCIE_NET_OP_READ_MEM = 2"
definition PCIE_NET_OP_WRITE_MEM :: byte where [const_defs]: "PCIE_NET_OP_WRITE_MEM = 3"
definition PCIE_NET_OP_READ_IO :: byte where [const_defs]: "PCIE_NET_OP_READ_IO = 4"
definition PCIE_NET_OP_WRITE_IO :: byte where [const_defs]: "PCIE_NET_OP_WRITE_IO = 5"
definition PCIE_NET_OP_INT :: byte where [const_defs]: "PCIE_NET_OP_INT = 6"
definition PCIE_NET_OP_MSI :: byte where [const_defs]: "PCIE_NET_OP_MSI = 7"
definition PCIE_NET_OP_MSIX :: byte where [const_defs]: "PCIE_NET_OP_MSIX = 8"

text \<open>\<open>pcie_net_msg_t\<close>; \<open>m_data\<close> is the storage behind \<open>data[1]\<close>.\<close>

record net_msg =
  m_hsize :: u16
  m_op :: byte
  m_bar :: byte
  m_width :: byte
  m_addr :: u64
  m_size :: u16
  m_data :: "byte list"

text \<open>\<open>offsetof(pcie_net_msg_t, data)\<close> and \<open>PCIE_NET_MSG_MAX_SIZE\<close>.\<close>

definition msg_data_off :: nat where [const_defs]: "msg_data_off = 15"
definition PCIE_NET_MSG_MAX_SIZE :: nat where
  [const_defs]: "PCIE_NET_MSG_MAX_SIZE = msg_data_off + 4096"

text \<open>The bytes of the packed structure, and the fields read from a receive buffer.\<close>

definition encode_msg :: "net_msg \<Rightarrow> byte list" where
  "encode_msg m = le_bytes 2 (m_hsize m) @ [m_op m, m_bar m, m_width m]
     @ le_bytes 8 (m_addr m) @ le_bytes 2 (m_size m) @ m_data m"

definition decode_msg :: "byte list \<Rightarrow> net_msg" where
  "decode_msg b = \<lparr> m_hsize = of_le (take 2 b), m_op = b ! 2, m_bar = b ! 3, m_width = b ! 4,
     m_addr = of_le (take 8 (drop 5 b)), m_size = of_le (take 2 (drop 13 b)),
     m_data = drop 15 b \<rparr>"

lemma length_encode_msg [simp]: "length (encode_msg m) = msg_data_off + length (m_data m)"
  by (simp add: encode_msg_def msg_data_off_def)

lemma decode_encode_msg: "decode_msg (encode_msg m) = m"
proof -
  have 1: "drop 5 (encode_msg m) = le_bytes 8 (m_addr m) @ le_bytes 2 (m_size m) @ m_data m"
    by (simp add: encode_msg_def numeral_eq_Suc)
  have 2: "drop 13 (encode_msg m) = le_bytes 2 (m_size m) @ m_data m"
    by (simp add: encode_msg_def numeral_eq_Suc)
  have 3: "drop 15 (encode_msg m) = m_data m"
    by (simp add: encode_msg_def numeral_eq_Suc)
  have 4: "encode_msg m ! 2 = m_op m" "encode_msg m ! 3 = m_bar m" "encode_msg m ! 4 = m_width m"
    by (simp_all add: encode_msg_def nth_append)
  show ?thesis
    by (simp add: decode_msg_def 1 2 3 4) (simp add: encode_msg_def of_le_le_bytes)
qed

text \<open>\<open>pcie_net_reply_t\<close>: two bytes of size, one of status, eight of data.\<close>

record net_reply =
  r_hsize :: u16
  r_status :: byte
  r_data :: "byte list"

definition sizeof_reply :: nat where [const_defs]: "sizeof_reply = 11"

definition encode_reply :: "net_reply \<Rightarrow> byte list" where
  "encode_reply r = le_bytes 2 (r_hsize r) @ [r_status r] @ r_data r"

definition decode_reply :: "byte list \<Rightarrow> net_reply" where
  "decode_reply b = \<lparr> r_hsize = of_le (take 2 b), r_status = b ! 2, r_data = drop 3 b \<rparr>"

lemma decode_encode_reply: "decode_reply (encode_reply r) = r"
  by (simp add: decode_reply_def encode_reply_def nth_append of_le_le_bytes numeral_eq_Suc)

section \<open>The connection\<close>

text \<open>
  \<open>sk_snd\<close> scripts the results of the next \<open>send\<close> calls: a negative entry is a failed call,
  a smaller count than asked a partial write; with no entry left a send accepts every byte.
  \<open>sk_fail\<close> scripts failing \<open>recv\<close> calls.
\<close>

record sock =
  sk_rx :: "byte list"
  sk_tx :: "byte list"
  sk_snd :: "int list"
  sk_fail :: "bool list"

record timeval =
  tv_sec :: u64
  tv_usec :: u64

text \<open>
  \<open>pcie_net_t\<close>. Function pointers are names of type \<open>'f\<close>, \<open>None\<close> is \<open>NULL\<close>; the structures
  that embed a \<open>pcie_net_t\<close> as their first member are record extensions of this one, so that
  a pointer to the one is a pointer to the other as in C.
\<close>

record 'f pcie_net =
  server_fd :: int
  net_fd :: int
  ev_fd :: int
  ev_fn :: "'f option"
  ev_data :: ptr
  task_tm :: timeval
  task_fn :: "'f option"
  task_data :: ptr
  sock :: sock

subsection \<open>System calls on the connected socket\<close>

definition sys_send :: "byte list \<Rightarrow> sock \<Rightarrow> int \<times> sock" where
  "sys_send d k = (case sk_snd k of
      [] \<Rightarrow> (int (length d), k\<lparr>sk_tx := sk_tx k @ d\<rparr>)
    | r # rs \<Rightarrow>
        if r < 0 then (-1, k\<lparr>sk_snd := rs\<rparr>)
        else let n = min (nat r) (length d)
             in (int n, k\<lparr>sk_tx := sk_tx k @ take n d, sk_snd := rs\<rparr>))"

text \<open>\<open>recv\<close> with \<open>MSG_WAITALL\<close>: fewer bytes than asked only when the peer has closed.\<close>

definition sys_recv :: "nat \<Rightarrow> sock \<Rightarrow> int \<times> byte list \<times> sock" where
  "sys_recv n k =
     (if sk_fail k \<noteq> [] \<and> hd (sk_fail k) then (-1, [], k\<lparr>sk_fail := tl (sk_fail k)\<rparr>)
      else (int (length (take n (sk_rx k))), take n (sk_rx k),
            k\<lparr>sk_rx := drop n (sk_rx k), sk_fail := tl (sk_fail k)\<rparr>))"

section \<open>Opening and closing (open_tcp_socket, pcie_net_init, pcie_net_fini)\<close>

datatype os_call = Os_getaddrinfo | Os_freeaddrinfo | Os_socket | Os_setsockopt int
  | Os_bind int | Os_listen int | Os_accept int | Os_connect int | Os_shutdown int | Os_close int

text \<open>What the system calls of one attempt return, and the socket of the accepted peer.\<close>

record tcp_env =
  te_gai :: int
  te_socket :: int
  te_bind :: int
  te_listen :: int
  te_accept :: int
  te_conn :: sock

text \<open>The block at the label \<open>on_error\<close>: the result and the clean-up calls.\<close>

definition tcp_on_error :: "bool \<Rightarrow> int \<Rightarrow> int \<Rightarrow> int \<Rightarrow> int \<times> os_call list" where
  "tcp_on_error lai err srv cli =
     (let fa = (if lai then [Os_freeaddrinfo] else []) in
      if err = 0 then (0, fa)
      else (-1, fa @ (if srv \<noteq> -1 then [Os_shutdown srv, Os_close srv] else [])
                   @ (if cli \<noteq> -1 then [Os_shutdown cli, Os_close cli] else [])))"

definition open_tcp_socket :: "tcp_env \<Rightarrow> int \<times> int \<times> int \<times> os_call list" where
  "open_tcp_socket e =
     (if te_gai e \<noteq> 0 then
        let (r, c) = tcp_on_error False (-1) (-1) (-1) in (r, -1, -1, Os_getaddrinfo # c)
      else let srv = te_socket e; p1 = [Os_getaddrinfo, Os_socket] in
      if srv = -1 then
        let (r, c) = tcp_on_error True (-1) srv (-1) in (r, srv, -1, p1 @ c)
      else let p2 = p1 @ [Os_setsockopt srv, Os_bind srv] in
      if te_bind e < 0 then
        let (r, c) = tcp_on_error True (-1) srv (-1) in (r, srv, -1, p2 @ c)
      else let p3 = p2 @ [Os_listen srv] in
      if te_listen e \<noteq> 0 then
        let (r, c) = tcp_on_error True (-1) srv (-1) in (r, srv, -1, p3 @ c)
      else let cli = te_accept e; p4 = p3 @ [Os_accept srv] in
      if cli < 0 then
        let (r, c) = tcp_on_error True (-1) srv cli in (r, srv, cli, p4 @ c)
      else let (r, c) = tcp_on_error True 0 srv cli in (r, srv, cli, p4 @ c))"

definition pcie_net_init ::
  "tcp_env \<Rightarrow> ('f, 'z) pcie_net_scheme \<Rightarrow> int \<times> os_call list \<times> ('f, 'z) pcie_net_scheme" where
  "pcie_net_init e net =
     (let net = net\<lparr>task_fn := None\<rparr>; net = net\<lparr>ev_fd := -1\<rparr>;
          (r, srv, cli, calls) = open_tcp_socket e;
          net = net\<lparr>server_fd := srv, net_fd := cli\<rparr>
      in if r \<noteq> 0 then (-1, calls, net) else (0, calls, net\<lparr>sock := te_conn e\<rparr>))"

definition pcie_net_fini :: "('f, 'z) pcie_net_scheme \<Rightarrow> int \<times> os_call list" where
  "pcie_net_fini net = (0, [Os_shutdown (server_fd net), Os_close (server_fd net),
     Os_shutdown (net_fd net), Os_close (net_fd net)])"

section \<open>Sending and receiving one message\<close>

definition pcie_net_send_buf ::
  "('f, 'z) pcie_net_scheme \<Rightarrow> byte list \<Rightarrow> int \<times> ('f, 'z) pcie_net_scheme" where
  "pcie_net_send_buf net d =
     (let (n, k) = sys_send d (sock net) in
      (if n \<noteq> int (length d) then -1 else 0, net\<lparr>sock := k\<rparr>))"

text \<open>
  \<open>pcie_net_send_msg\<close> computes the total size in a \<open>size_t\<close>, stores it in the 16-bit header
  field and sends that many bytes starting at the message: reading past the storage of the
  message is \<open>None\<close>.
\<close>

definition pcie_net_send_msg ::
  "('f, 'z) pcie_net_scheme \<Rightarrow> net_msg \<Rightarrow> (int \<times> net_msg \<times> ('f, 'z) pcie_net_scheme) option" where
  "pcie_net_send_msg net m =
     (let size = msg_data_off + unat (m_size m);
          m' = m\<lparr>m_hsize := of_nat size\<rparr>
      in do {
        d \<leftarrow> mem_read (encode_msg m') 0 size;
        let (r, net') = pcie_net_send_buf net d;
        Some (r, m', net')
      })"

definition pcie_net_send_reply ::
  "('f, 'z) pcie_net_scheme \<Rightarrow> net_reply \<Rightarrow> int \<times> net_reply \<times> ('f, 'z) pcie_net_scheme" where
  "pcie_net_send_reply net r =
     (let r' = r\<lparr>r_hsize := of_nat sizeof_reply\<rparr>;
          (e, net') = pcie_net_send_buf net (encode_reply r')
      in (e, r', net'))"

text \<open>
  \<open>pcie_net_recv_buf\<close>: the header into a local, then \<open>h.size - sizeof(h)\<close> bytes, a \<open>size_t\<close>
  subtraction that wraps for a header smaller than itself, stored from offset 2 of the buffer.
\<close>

definition pcie_net_recv_buf ::
  "('f, 'z) pcie_net_scheme \<Rightarrow> byte list \<Rightarrow> u64 \<Rightarrow>
     (int \<times> byte list \<times> ('f, 'z) pcie_net_scheme) option" where
  "pcie_net_recv_buf net buf max_size =
     (if max_size < 2 then Some (-1, buf, net)
      else let (n, hb, k) = sys_recv 2 (sock net); net = net\<lparr>sock := k\<rparr> in
      if n \<noteq> 2 then Some (-1, buf, net)
      else let hsize = (of_le hb :: u16) in
      if max_size < ucast hsize then Some (-1, buf, net)
      else let rem_size = (ucast hsize - 2 :: u64);
               (n, d, k) = sys_recv (unat rem_size) (sock net);
               net = net\<lparr>sock := k\<rparr>
      in do {
        buf \<leftarrow> mem_write buf 2 d;
        if n \<noteq> sint rem_size then Some (-1, buf, net)
        else Some (uint hsize, buf, net)
      })"

definition pcie_net_recv_msg ::
  "('f, 'z) pcie_net_scheme \<Rightarrow> byte list \<Rightarrow>
     (int \<times> byte list \<times> ('f, 'z) pcie_net_scheme) option" where
  "pcie_net_recv_msg net buf = do {
     (n, buf, net) \<leftarrow> pcie_net_recv_buf net buf (of_nat PCIE_NET_MSG_MAX_SIZE);
     Some (if n < 0 then -1 else if n = 0 then 1 else 0, buf, net)
   }"

definition pcie_net_recv_reply ::
  "('f, 'z) pcie_net_scheme \<Rightarrow> byte list \<Rightarrow>
     (int \<times> byte list \<times> ('f, 'z) pcie_net_scheme) option" where
  "pcie_net_recv_reply net buf = do {
     (n, buf, net) \<leftarrow> pcie_net_recv_buf net buf (of_nat sizeof_reply);
     Some (if n < 0 then -1 else if n = 0 then 1 else 0, buf, net)
   }"

section \<open>The event loop (pcie_net_loop)\<close>

text \<open>
  One result of \<open>select\<close>: an error, an elapsed timeout, or the descriptors found ready
  together with what \<open>read\<close> on the event descriptor would return (\<open>None\<close> for an error).
\<close>

datatype sel_result = Sel_Error | Sel_Timeout | Sel_Ready "int list" "byte list option"

datatype loop_ctl = Running | Returned int

text \<open>The locals that survive an iteration: the message buffer and the reply.\<close>

record loop_locals =
  l_msg :: "byte list"
  l_reply :: net_reply

text \<open>
  The callbacks by the name stored in the function pointer: \<open>pcie_net_recvfn_t\<close>,
  \<open>pcie_net_evfn_t\<close>, \<open>pcie_net_taskfn_t\<close>.
\<close>

type_synonym 's recvfn = "net_msg \<Rightarrow> net_reply \<Rightarrow> 's \<Rightarrow> (nat \<times> net_reply \<times> 's) option"
type_synonym ('f, 's) evfn = "'f \<Rightarrow> u32 \<Rightarrow> ptr \<Rightarrow> 's \<Rightarrow> (int \<times> 's) option"
type_synonym ('f, 's) taskfn = "'f \<Rightarrow> ptr \<Rightarrow> 's \<Rightarrow> 's option"

definition net_on_socket ::
  "('f, 'z) pcie_net_scheme recvfn \<Rightarrow> loop_locals \<Rightarrow> ('f, 'z) pcie_net_scheme \<Rightarrow>
     (bool \<times> loop_locals \<times> ('f, 'z) pcie_net_scheme) option" where
  "net_on_socket recvfn l net = do {
     (err, buf, net) \<leftarrow> pcie_net_recv_msg net (l_msg l);
     let l = l\<lparr>l_msg := buf\<rparr>;
     if err = -1 then Some (True, l, net)
     else if err \<noteq> 1 then do {
       (must_reply, rep, net) \<leftarrow> recvfn (decode_msg buf) (l_reply l) net;
       let l = l\<lparr>l_reply := rep\<rparr>;
       if must_reply \<noteq> 0 then
         let (e, rep, net) = pcie_net_send_reply net rep
         in Some (e = -1, l\<lparr>l_reply := rep\<rparr>, net)
       else Some (False, l, net)
     }
     else Some (False, l, net)
   }"

fun net_ev_keys ::
  "('f, ('f, 'z) pcie_net_scheme) evfn \<Rightarrow> u32 list \<Rightarrow> bool \<Rightarrow> ('f, 'z) pcie_net_scheme \<Rightarrow>
     (bool \<times> ('f, 'z) pcie_net_scheme) option" where
  "net_ev_keys evfn [] must_stop net = Some (must_stop, net)"
| "net_ev_keys evfn (k # ks) must_stop net = do {
     f \<leftarrow> ev_fn net;
     (r, net) \<leftarrow> evfn f k (ev_data net) net;
     net_ev_keys evfn ks (must_stop \<or> r \<noteq> 0) net
   }"

definition net_on_event ::
  "('f, ('f, 'z) pcie_net_scheme) evfn \<Rightarrow> byte list option \<Rightarrow> bool \<Rightarrow> ('f, 'z) pcie_net_scheme \<Rightarrow>
     (bool \<times> ('f, 'z) pcie_net_scheme) option" where
  "net_on_event evfn rd must_stop net = (case rd of
      None \<Rightarrow> Some (must_stop, net)
    | Some d \<Rightarrow> net_ev_keys evfn (bytes_to_words (take 128 d)) must_stop net)"

fun pcie_net_loop_iter ::
  "('f, 'z) pcie_net_scheme recvfn \<Rightarrow> ('f, ('f, 'z) pcie_net_scheme) evfn \<Rightarrow>
   ('f, ('f, 'z) pcie_net_scheme) taskfn \<Rightarrow> sel_result \<Rightarrow> loop_locals \<Rightarrow>
   ('f, 'z) pcie_net_scheme \<Rightarrow> (loop_ctl \<times> loop_locals \<times> ('f, 'z) pcie_net_scheme) option" where
  "pcie_net_loop_iter recvfn evfn taskfn Sel_Error l net = Some (Returned 0, l, net)"
| "pcie_net_loop_iter recvfn evfn taskfn Sel_Timeout l net = do {
     fn \<leftarrow> task_fn net;
     let net = net\<lparr>task_fn := None\<rparr>;
     net \<leftarrow> taskfn fn (task_data net) net;
     Some (Running, l, net)
   }"
| "pcie_net_loop_iter recvfn evfn taskfn (Sel_Ready fds rd) l net = do {
     (must_stop, l, net) \<leftarrow>
        (if net_fd net \<in> set fds then net_on_socket recvfn l net else Some (False, l, net));
     (must_stop, net) \<leftarrow>
        (if ev_fd net \<in> set fds then net_on_event evfn rd must_stop net
         else Some (must_stop, net));
     Some (if must_stop then Returned 0 else Running, l, net)
   }"

text \<open>The loop over the results \<open>select\<close> gives; \<open>Running\<close> when they are used up.\<close>

fun net_loop_run ::
  "('f, 'z) pcie_net_scheme recvfn \<Rightarrow> ('f, ('f, 'z) pcie_net_scheme) evfn \<Rightarrow>
   ('f, ('f, 'z) pcie_net_scheme) taskfn \<Rightarrow> sel_result list \<Rightarrow> loop_locals \<Rightarrow>
   ('f, 'z) pcie_net_scheme \<Rightarrow> (loop_ctl \<times> loop_locals \<times> ('f, 'z) pcie_net_scheme) option" where
  "net_loop_run recvfn evfn taskfn [] l net = Some (Running, l, net)"
| "net_loop_run recvfn evfn taskfn (r # rs) l net = do {
     (c, l, net) \<leftarrow> pcie_net_loop_iter recvfn evfn taskfn r l net;
     case c of Returned e \<Rightarrow> Some (Returned e, l, net)
             | Running \<Rightarrow> net_loop_run recvfn evfn taskfn rs l net
   }"

text \<open>
  \<open>pcie_net_loop\<close>: \<open>malloc\<close> may fail; otherwise it hands out \<open>PCIE_NET_MSG_MAX_SIZE\<close> bytes of
  unknown content, and the reply on the stack is uninitialised.
\<close>

definition pcie_net_loop ::
  "('f, 'z) pcie_net_scheme recvfn \<Rightarrow> ('f, ('f, 'z) pcie_net_scheme) evfn \<Rightarrow>
   ('f, ('f, 'z) pcie_net_scheme) taskfn \<Rightarrow> byte list option \<Rightarrow> net_reply \<Rightarrow> sel_result list \<Rightarrow>
   ('f, 'z) pcie_net_scheme \<Rightarrow> (loop_ctl \<times> ('f, 'z) pcie_net_scheme) option" where
  "pcie_net_loop recvfn evfn taskfn malloc_ret rep sels net = (case malloc_ret of
      None \<Rightarrow> Some (Returned (-1), net)
    | Some buf \<Rightarrow> do {
        (c, l, net) \<leftarrow> net_loop_run recvfn evfn taskfn sels \<lparr>l_msg = buf, l_reply = rep\<rparr> net;
        Some (c, net)
      })"

definition pcie_net_add_task ::
  "('f, 'z) pcie_net_scheme \<Rightarrow> timeval \<Rightarrow> 'f \<Rightarrow> ptr \<Rightarrow> int \<times> ('f, 'z) pcie_net_scheme" where
  "pcie_net_add_task net tm fn p = (0, net\<lparr>task_tm := tm, task_fn := Some fn, task_data := p\<rparr>)"

definition pcie_net_add_ev ::
  "('f, 'z) pcie_net_scheme \<Rightarrow> int \<Rightarrow> 'f \<Rightarrow> ptr \<Rightarrow> int \<times> ('f, 'z) pcie_net_scheme" where
  "pcie_net_add_ev net fd fn p = (0, net\<lparr>ev_fn := Some fn, ev_fd := fd, ev_data := p\<rparr>)"

section \<open>Opening the connection releases what it acquired\<close>

definition closes :: "os_call list \<Rightarrow> int list" where
  "closes cs = concat (map (\<lambda>c. case c of Os_close fd \<Rightarrow> [fd] | _ \<Rightarrow> []) cs)"

lemma closes_simps [simp]:
  "closes [] = []" "closes (Os_close fd # cs) = fd # closes cs"
  "closes (Os_getaddrinfo # cs) = closes cs" "closes (Os_freeaddrinfo # cs) = closes cs"
  "closes (Os_socket # cs) = closes cs" "closes (Os_setsockopt fd # cs) = closes cs"
  "closes (Os_bind fd # cs) = closes cs" "closes (Os_listen fd # cs) = closes cs"
  "closes (Os_accept fd # cs) = closes cs" "closes (Os_shutdown fd # cs) = closes cs"
  "closes (Os_connect fd # cs) = closes cs"
  by (simp_all add: closes_def)

text \<open>
  Opening the TCP connection leaks no descriptor and no address list: on success nothing is
  closed and both descriptors are those the system returned; on failure exactly the descriptors
  obtained so far are closed, each once; and the address list is freed exactly when
  \<open>getaddrinfo\<close> delivered one.
\<close>

lemma open_tcp_releases:
  "open_tcp_socket e = (r, srv, cli, calls) \<Longrightarrow>
     (r = 0 \<and> closes calls = [] \<and> srv = te_socket e \<and> srv \<noteq> -1 \<and> cli = te_accept e \<and> 0 \<le> cli
      \<or> r = -1 \<and> closes calls = filter (\<lambda>fd. fd \<noteq> -1) [srv, cli])
     \<and> count_list calls Os_freeaddrinfo = (if te_gai e = 0 then 1 else 0)"
  by (auto simp: open_tcp_socket_def tcp_on_error_def Let_def split: if_splits)

lemma open_tcp_releases_witness:
  "open_tcp_socket \<lparr>te_gai = 0, te_socket = 3, te_bind = 0, te_listen = 0, te_accept = -1,
      te_conn = \<lparr>sk_rx = [], sk_tx = [], sk_snd = [], sk_fail = []\<rparr>\<rparr>
     = (-1, 3, -1, [Os_getaddrinfo, Os_socket, Os_setsockopt 3, Os_bind 3, Os_listen 3,
          Os_accept 3, Os_freeaddrinfo, Os_shutdown 3, Os_close 3]) \<and>
   closes [Os_getaddrinfo, Os_socket, Os_setsockopt 3, Os_bind 3, Os_listen 3,
          Os_accept 3, Os_freeaddrinfo, Os_shutdown 3, Os_close 3] = [3]"
proof -
  let ?e = "\<lparr>te_gai = 0, te_socket = 3, te_bind = 0, te_listen = 0, te_accept = -1,
      te_conn = \<lparr>sk_rx = [], sk_tx = [], sk_snd = [], sk_fail = []\<rparr>\<rparr>"
  let ?c = "[Os_getaddrinfo, Os_socket, Os_setsockopt 3, Os_bind 3, Os_listen 3,
          Os_accept 3, Os_freeaddrinfo, Os_shutdown 3, Os_close 3]"
  have h: "open_tcp_socket ?e = (-1, 3, -1, ?c)"
    by (simp add: open_tcp_socket_def tcp_on_error_def Let_def)
  then show ?thesis using open_tcp_releases [OF h] by simp
qed

section \<open>Frames\<close>

text \<open>The size a message must have for the peer's buffer, and the bytes it is sent as.\<close>

definition msg_fits :: "net_msg \<Rightarrow> bool" where
  "msg_fits m \<longleftrightarrow> unat (m_size m) \<le> length (m_data m) \<and> unat (m_size m) \<le> 4096"

definition msg_frame :: "net_msg \<Rightarrow> byte list" where
  "msg_frame m = (let size = msg_data_off + unat (m_size m)
     in take size (encode_msg (m\<lparr>m_hsize := of_nat size\<rparr>)))"

text \<open>What a receiver can know of a message: every field but the header, and the data sent.\<close>

definition msg_norm :: "net_msg \<Rightarrow> net_msg" where
  "msg_norm m = m\<lparr>m_hsize := 0, m_data := take (unat (m_size m)) (m_data m)\<rparr>"

lemma msg_norm_fields [simp]:
  "m_op (msg_norm m) = m_op m" "m_bar (msg_norm m) = m_bar m" "m_width (msg_norm m) = m_width m"
  "m_addr (msg_norm m) = m_addr m" "m_size (msg_norm m) = m_size m"
  "m_data (msg_norm m) = take (unat (m_size m)) (m_data m)" "m_hsize (msg_norm m) = 0"
  by (simp_all add: msg_norm_def)

lemma unat_frame_size:
  assumes "msg_fits m"
  shows "unat (of_nat (msg_data_off + unat (m_size m)) :: u16) = msg_data_off + unat (m_size m)"
  using assms by (simp add: unat_word_ariths msg_fits_def msg_data_off_def)

lemma sint_of_small:
  assumes "unat (w :: u64) < 2 ^ 63"
  shows "sint w = int (unat w)"
proof -
  have "int (unat w) < int (2 ^ 63)" using assms by (rule of_nat_less_iff [THEN iffD2])
  then have "uint w < 2 ^ 63" by simp
  moreover have "- (2 ^ 63) \<le> uint w"
    by (rule order_trans [of _ 0]) simp_all
  ultimately have "signed_take_bit 63 (uint w) = uint w"
    by (rule signed_take_bit_int_eq_self [rotated])
  then show ?thesis by (simp add: sint_uint)
qed

text \<open>
  One frame received: the header is consumed and dropped, the rest is stored from offset 2 and
  the bytes behind the frame are left as they were.
\<close>

lemma recv_buf_frame:
  assumes k: "sk_fail (sock net) = []"
    and rx: "sk_rx (sock net) = le_bytes 2 (h :: u16) @ body @ rest"
    and h: "unat h = 2 + length body"
    and mx: "unat h \<le> unat lim" and buf: "unat h \<le> length buf"
  shows "pcie_net_recv_buf net buf lim =
     Some (int (unat h), take 2 buf @ body @ drop (unat h) buf,
           net\<lparr>sock := (sock net)\<lparr>sk_rx := rest\<rparr>\<rparr>)"
proof -
  have h_of: "of_le (le_bytes 2 h) = h" by (rule of_le_le_bytes) simp
  have cast: "unat (ucast h :: u64) = unat h" by (rule unat_ucast_up) simp
  have "(2 :: u64) \<le> ucast h" using h by (simp add: word_le_nat cast)
  then have rem: "unat (ucast h - 2 :: u64) = length body"
    by (simp add: unat_sub cast h)
  have small: "length body < 2 ^ 63"
    using h unsigned_less [of h, where ?'a = nat] by simp
  have srem: "sint (ucast h - 2 :: u64) = int (length body)"
    using sint_of_small [of "ucast h - 2"] rem small by simp
  have le: "\<not> lim < (ucast h :: u64)" "\<not> lim < 2"
    using mx h cast by (auto simp: word_less_nat_alt)
  have r1: "sys_recv 2 (sock net) = (2, le_bytes 2 h, (sock net)\<lparr>sk_rx := body @ rest\<rparr>)"
    using k rx by (simp add: sys_recv_def)
  have r2: "sys_recv (length body) ((sock net)\<lparr>sk_rx := body @ rest\<rparr>) =
      (int (length body), body, (sock net)\<lparr>sk_rx := rest\<rparr>)"
    using k by (simp add: sys_recv_def)
  have w: "mem_write buf 2 body = Some (take 2 buf @ body @ drop (unat h) buf)"
    using buf h by (simp add: mem_write_def)
  show ?thesis
    unfolding pcie_net_recv_buf_def Let_def r1
    using le by (simp add: h_of rem srem r2 w uint_nat h)
qed

lemma recv_msg_frame:
  assumes k: "sk_fail (sock net) = []" and rx: "sk_rx (sock net) = msg_frame m @ rest"
    and m: "msg_fits m" and buf: "length buf = PCIE_NET_MSG_MAX_SIZE"
  shows "\<exists>buf'. pcie_net_recv_msg net buf = Some (0, buf', net\<lparr>sock := (sock net)\<lparr>sk_rx := rest\<rparr>\<rparr>) \<and>
     length buf' = PCIE_NET_MSG_MAX_SIZE \<and> msg_norm (decode_msg buf') = msg_norm m"
proof -
  let ?n = "unat (m_size m)"
  let ?h = "of_nat (msg_data_off + ?n) :: u16"
  let ?d = "take ?n (m_data m)"
  let ?body = "[m_op m, m_bar m, m_width m] @ le_bytes 8 (m_addr m) @ le_bytes 2 (m_size m) @ ?d"
  have h: "unat ?h = 15 + ?n" using unat_frame_size [OF m] by (simp add: msg_data_off_def)
  have frame: "msg_frame m = le_bytes 2 ?h @ ?body"
    using take_append [of "15 + ?n" "le_bytes 2 ?h @ [m_op m, m_bar m, m_width m]
        @ le_bytes 8 (m_addr m) @ le_bytes 2 (m_size m)" "m_data m"]
    by (simp add: msg_frame_def encode_msg_def msg_data_off_def Let_def del: take_append take_Cons_numeral)
  have len: "length ?body = 13 + ?n" using m by (simp add: msg_fits_def min_def)
  have mx: "unat (of_nat PCIE_NET_MSG_MAX_SIZE :: u64) = 4111"
    by (simp add: PCIE_NET_MSG_MAX_SIZE_def msg_data_off_def)
  have n: "?n \<le> 4096" using m by (simp add: msg_fits_def)
  let ?buf = "take 2 buf @ ?body @ drop (15 + ?n) buf"
  have "pcie_net_recv_buf net buf (of_nat PCIE_NET_MSG_MAX_SIZE) =
     Some (int (unat ?h), take 2 buf @ ?body @ drop (unat ?h) buf,
           net\<lparr>sock := (sock net)\<lparr>sk_rx := rest\<rparr>\<rparr>)"
    by (rule recv_buf_frame)
      (use k rx frame h len mx n buf in \<open>auto simp: PCIE_NET_MSG_MAX_SIZE_def msg_data_off_def\<close>)
  then have 1: "pcie_net_recv_msg net buf = Some (0, ?buf, net\<lparr>sock := (sock net)\<lparr>sk_rx := rest\<rparr>\<rparr>)"
    using h unfolding pcie_net_recv_msg_def by (simp del: of_nat_unat)
  have 2: "length ?buf = PCIE_NET_MSG_MAX_SIZE"
    using buf n len by (simp add: PCIE_NET_MSG_MAX_SIZE_def msg_data_off_def)
  have t2: "length (take 2 buf) = 2" using buf by (simp add: PCIE_NET_MSG_MAX_SIZE_def msg_data_off_def)
  then obtain a b where ab: "take 2 buf = [a, b]" by (rule length_2E)
  have "decode_msg ?buf = decode_msg (encode_msg (m\<lparr>m_hsize := of_le [a, b],
           m_data := ?d @ drop (15 + ?n) buf\<rparr>))"
  proof -
    have "le_bytes 2 (of_le [a, b] :: u16) = [a, b]"
      using le_bytes_of_le [of "[a, b]", where 'a = 16] by (simp add: numeral_2_eq_2)
    then show ?thesis by (simp add: encode_msg_def ab)
  qed
  then have "decode_msg ?buf = m\<lparr>m_hsize := of_le [a, b], m_data := ?d @ drop (15 + ?n) buf\<rparr>"
    by (simp only: decode_encode_msg)
  then have 3: "msg_norm (decode_msg ?buf) = msg_norm m"
    using m by (simp add: msg_norm_def msg_fits_def)
  show ?thesis using 1 2 3 by blast
qed

lemma send_msg_frame:
  assumes "msg_fits m" and "sk_snd (sock net) = []"
  shows "pcie_net_send_msg net m =
     Some (0, m\<lparr>m_hsize := of_nat (msg_data_off + unat (m_size m))\<rparr>,
           net\<lparr>sock := (sock net)\<lparr>sk_tx := sk_tx (sock net) @ msg_frame m\<rparr>\<rparr>)"
  using assms
  by (simp add: pcie_net_send_msg_def pcie_net_send_buf_def sys_send_def Let_def mem_read_def
      msg_fits_def msg_frame_def)

text \<open>
  C12. Memory safety of receiving a message, exactly: on a connection whose peer sends a size
  field \<open>h\<close> and then \<open>tail\<close>, the receive stays inside the message buffer unless the size field
  is smaller than the header it counts (the subtraction \<open>h.size - sizeof(h)\<close> wraps, so nothing
  limits the copy) and the peer sends more than the buffer can hold.
\<close>

theorem recv_msg_unsafe_iff:
  assumes k: "sk_fail (sock net) = []" and rx: "sk_rx (sock net) = le_bytes 2 (h :: u16) @ tail"
    and buf: "length buf = PCIE_NET_MSG_MAX_SIZE"
  shows "pcie_net_recv_msg net buf = None \<longleftrightarrow> unat h < 2 \<and> 4109 < length tail"
proof -
  have h_of: "of_le (le_bytes 2 h) = h" by (rule of_le_le_bytes) simp
  have cast: "unat (ucast h :: u64) = unat h" by (rule unat_ucast_up) simp
  have mx: "unat (of_nat PCIE_NET_MSG_MAX_SIZE :: u64) = 4111"
    by (simp add: PCIE_NET_MSG_MAX_SIZE_def msg_data_off_def)
  have lim: "of_nat PCIE_NET_MSG_MAX_SIZE < (ucast h :: u64) \<longleftrightarrow> 4111 < unat h"
    "\<not> (of_nat PCIE_NET_MSG_MAX_SIZE :: u64) < 2"
    using mx cast by (auto simp: word_less_nat_alt)
  have r1: "sys_recv 2 (sock net) = (2, le_bytes 2 h, (sock net)\<lparr>sk_rx := tail\<rparr>)"
    using k rx by (simp add: sys_recv_def)
  have r2: "sys_recv n ((sock net)\<lparr>sk_rx := tail\<rparr>) =
      (int (length (take n tail)), take n tail, (sock net)\<lparr>sk_rx := drop n tail\<rparr>)" for n
    using k by (simp add: sys_recv_def)
  have buf': "length buf = 4111" using buf by (simp add: PCIE_NET_MSG_MAX_SIZE_def msg_data_off_def)
  let ?rem = "unat (ucast h - 2 :: u64)"
  have msg_None: "pcie_net_recv_msg net buf = None \<longleftrightarrow>
      pcie_net_recv_buf net buf (of_nat PCIE_NET_MSG_MAX_SIZE) = None"
    by (auto simp: pcie_net_recv_msg_def split: Option.bind_splits)
  have w: "mem_write buf 2 (take ?rem tail) = None \<longleftrightarrow> 4109 < min (length tail) ?rem"
    using buf' by (auto simp: mem_simps)
  have main: "pcie_net_recv_msg net buf = None \<longleftrightarrow> unat h \<le> 4111 \<and> 4109 < min (length tail) ?rem"
    unfolding msg_None pcie_net_recv_buf_def Let_def r1
    by (cases "mem_write buf 2 (take ?rem tail)")
      (use lim w in \<open>auto simp: h_of r2 not_less split: if_splits\<close>)
  show ?thesis
  proof (cases "unat h < 2")
    case True
    then have "h = 0 \<or> h = 1" by unat_arith
    then have "4109 < ?rem" by (auto simp: unat_sub_if_size word_size)
    with True main show ?thesis by simp
  next
    case False
    then have "(2 :: u64) \<le> ucast h" by (simp add: word_le_nat cast)
    then have "?rem = unat h - 2" by (simp add: unat_sub cast)
    with False main show ?thesis by auto
  qed
qed

text \<open>
  The header a message is sent with is the number of bytes sent exactly when the payload
  size is at most 65520: above, the 16-bit field wraps and the peer sees a header below 15.
\<close>

lemma send_msg_header_exact_iff:
  assumes "unat (m_size m) \<le> length (m_data m)" and "sk_snd (sock net) = []"
  shows "\<exists>m' net' d. pcie_net_send_msg net m = Some (0, m', net') \<and>
     sk_tx (sock net') = sk_tx (sock net) @ d \<and>
     (unat (m_hsize m') = length d \<longleftrightarrow> unat (m_size m) \<le> 65520) \<and>
     (65520 < unat (m_size m) \<longrightarrow> unat (m_hsize m') < 15)"
proof -
  let ?n = "15 + unat (m_size m)"
  have lt: "unat (m_size m) < 65536" using unsigned_less [of "m_size m", where ?'a = nat] by simp
  then have h: "unat (of_nat ?n :: u16) = (if ?n < 65536 then ?n else ?n - 65536)"
    by (simp add: unat_word_ariths le_mod_geq)
  show ?thesis
    using assms h lt
    by (auto simp: pcie_net_send_msg_def pcie_net_send_buf_def sys_send_def Let_def mem_read_def
        msg_data_off_def)
qed

theorem recv_msg_unsafe_iff_witness:
  "pcie_net_recv_msg (\<lparr>server_fd = 3, net_fd = 4, ev_fd = -1, ev_fn = None, ev_data = 0,
      task_tm = \<lparr>tv_sec = 0, tv_usec = 0\<rparr>, task_fn = None, task_data = 0,
      sock = \<lparr>sk_rx = le_bytes 2 (1 :: u16) @ replicate 5000 7, sk_tx = [], sk_snd = [],
        sk_fail = []\<rparr>\<rparr> :: unit pcie_net) (replicate 4111 0) = None"
  by (subst recv_msg_unsafe_iff [where h = 1 and tail = "replicate 5000 7"])
    (simp_all add: PCIE_NET_MSG_MAX_SIZE_def msg_data_off_def)

lemma send_msg_header_exact_iff_witness:
  "\<exists>m' net' d. pcie_net_send_msg (\<lparr>server_fd = 3, net_fd = 4, ev_fd = -1, ev_fn = None,
      ev_data = 0, task_tm = \<lparr>tv_sec = 0, tv_usec = 0\<rparr>, task_fn = None, task_data = 0,
      sock = \<lparr>sk_rx = [], sk_tx = [], sk_snd = [], sk_fail = []\<rparr>\<rparr> :: unit pcie_net)
     \<lparr>m_hsize = 0, m_op = 3, m_bar = 0, m_width = 0, m_addr = 0, m_size = 65521,
      m_data = replicate 65521 0\<rparr> = Some (0, m', net') \<and> sk_tx (sock net') = d \<and>
     unat (m_hsize m') < 15"
  using send_msg_header_exact_iff [of "\<lparr>m_hsize = 0, m_op = 3, m_bar = 0, m_width = 0, m_addr = 0,
      m_size = 65521, m_data = replicate 65521 0\<rparr>" "\<lparr>server_fd = 3, net_fd = 4, ev_fd = -1,
      ev_fn = None, ev_data = 0, task_tm = \<lparr>tv_sec = 0, tv_usec = 0\<rparr>, task_fn = None,
      task_data = 0, sock = \<lparr>sk_rx = [], sk_tx = [], sk_snd = [], sk_fail = []\<rparr>\<rparr> :: unit pcie_net"]
  by auto

section \<open>The interface of a message link\<close>

text \<open>
  What the layers above rely on: a message accepted for sending appears at the end of the
  output, and a receiver reading that output gets the message back and stops right behind it.
\<close>

fun send_all :: "('m \<Rightarrow> 'c \<Rightarrow> 'c option) \<Rightarrow> 'm list \<Rightarrow> 'c \<Rightarrow> 'c option" where
  "send_all put [] c = Some c"
| "send_all put (m # ms) c = do { c \<leftarrow> put m c; send_all put ms c }"

fun recv_count :: "(byte list \<Rightarrow> ('m \<times> byte list) option) \<Rightarrow> nat \<Rightarrow> byte list \<Rightarrow>
    ('m list \<times> byte list) option" where
  "recv_count rcv 0 bs = Some ([], bs)"
| "recv_count rcv (Suc n) bs = do {
     (m, bs) \<leftarrow> rcv bs;
     (ms, bs) \<leftarrow> recv_count rcv n bs;
     Some (m # ms, bs)
   }"

locale msg_link =
  fixes put :: "'m \<Rightarrow> 'c \<Rightarrow> 'c option"
    and out :: "'c \<Rightarrow> byte list"
    and rcv :: "byte list \<Rightarrow> ('m \<times> byte list) option"
    and good :: "'m \<Rightarrow> bool"
    and ready :: "'c \<Rightarrow> bool"
  assumes link: "good m \<Longrightarrow> ready c \<Longrightarrow> \<exists>c' f. put m c = Some c' \<and> ready c' \<and> out c' = out c @ f \<and>
      (\<forall>rest. rcv (f @ rest) = Some (m, rest))"
begin

lemma stream:
  "(\<forall>m\<in>set ms. good m) \<Longrightarrow> ready c \<Longrightarrow>
     \<exists>c' f. send_all put ms c = Some c' \<and> ready c' \<and> out c' = out c @ f \<and>
       (\<forall>rest. recv_count rcv (length ms) (f @ rest) = Some (ms, rest))"
proof (induction ms arbitrary: c)
  case Nil
  then show ?case by simp
next
  case (Cons m ms)
  from Cons.prems link [of m c] obtain c1 f1 where 1: "put m c = Some c1" "ready c1"
    "out c1 = out c @ f1" "\<forall>rest. rcv (f1 @ rest) = Some (m, rest)" by auto
  from Cons.prems Cons.IH [OF _ 1(2)] obtain c2 f2 where 2: "send_all put ms c1 = Some c2" "ready c2"
    "out c2 = out c1 @ f2" "\<forall>rest. recv_count rcv (length ms) (f2 @ rest) = Some (ms, rest)" by auto
  show ?case
    by (rule exI [of _ c2], rule exI [of _ "f1 @ f2"]) (use 1 2 in simp)
qed

end

text \<open>The link as the code makes it: one send, and one receive into a buffer with old content.\<close>

definition net_snd :: "net_msg \<Rightarrow> ('f, 'z) pcie_net_scheme \<Rightarrow> ('f, 'z) pcie_net_scheme option" where
  "net_snd m net = do {
     (r, m', net') \<leftarrow> pcie_net_send_msg net m;
     if r = 0 then Some net' else None
   }"

definition conn_of :: "byte list \<Rightarrow> unit pcie_net" where
  "conn_of bs = \<lparr>server_fd = 3, net_fd = 4, ev_fd = -1, ev_fn = None, ev_data = 0,
     task_tm = \<lparr>tv_sec = 0, tv_usec = 0\<rparr>, task_fn = None, task_data = 0,
     sock = \<lparr>sk_rx = bs, sk_tx = [], sk_snd = [], sk_fail = []\<rparr>\<rparr>"

definition net_rcv :: "byte list \<Rightarrow> byte list \<Rightarrow> (net_msg \<times> byte list) option" where
  "net_rcv old bs = do {
     (r, buf, net) \<leftarrow> pcie_net_recv_msg (conn_of bs)
        (take PCIE_NET_MSG_MAX_SIZE (old @ replicate PCIE_NET_MSG_MAX_SIZE 0));
     if r = 0 then Some (msg_norm (decode_msg buf), sk_rx (sock net)) else None
   }"

lemma net_rcv_frame:
  assumes "msg_fits m"
  shows "net_rcv old (msg_frame m @ rest) = Some (msg_norm m, rest)"
proof -
  let ?buf = "take PCIE_NET_MSG_MAX_SIZE (old @ replicate PCIE_NET_MSG_MAX_SIZE 0)"
  have "length ?buf = PCIE_NET_MSG_MAX_SIZE" by simp
  then obtain buf' where
    "pcie_net_recv_msg (conn_of (msg_frame m @ rest)) ?buf =
       Some (0, buf', (conn_of (msg_frame m @ rest))\<lparr>sock :=
         (sock (conn_of (msg_frame m @ rest)))\<lparr>sk_rx := rest\<rparr>\<rparr>)"
    "msg_norm (decode_msg buf') = msg_norm m"
    using recv_msg_frame [of "conn_of (msg_frame m @ rest)" m rest ?buf] assms
    by (auto simp: conn_of_def)
  then show ?thesis by (simp add: net_rcv_def)
qed

interpretation net: msg_link net_snd "\<lambda>net. sk_tx (sock net)" "net_rcv old"
  "\<lambda>m. msg_fits m \<and> msg_norm m = m" "\<lambda>net. sk_snd (sock net) = []" for old
proof unfold_locales
  fix m :: net_msg and c :: "('f, 'z) pcie_net_scheme"
  assume m: "msg_fits m \<and> msg_norm m = m" and c: "sk_snd (sock c) = []"
  then show "\<exists>c' f. net_snd m c = Some c' \<and> sk_snd (sock c') = [] \<and>
      sk_tx (sock c') = sk_tx (sock c) @ f \<and> (\<forall>rest. net_rcv old (f @ rest) = Some (m, rest))"
    by (simp add: net_snd_def send_msg_frame) (metis net_rcv_frame)
qed

text \<open>
  C11. Messages sent one after the other with \<open>pcie_net_send_msg\<close> are received by
  \<open>pcie_net_recv_msg\<close> in the same order, each with its operation, bar, width, address, size and
  data, whatever the receive buffer held before, and nothing of what follows is consumed.
\<close>

theorem msg_stream_roundtrip:
  assumes "\<forall>m\<in>set ms. msg_fits m \<and> msg_norm m = m" and "sk_snd (sock net) = []"
  shows "\<exists>net' f. send_all net_snd ms net = Some net' \<and> sk_tx (sock net') = sk_tx (sock net) @ f \<and>
     (\<forall>rest. recv_count (net_rcv old) (length ms) (f @ rest) = Some (ms, rest))"
  using net.stream [OF assms, of old] by blast


theorem msg_stream_roundtrip_witness:
  "\<exists>net' f. send_all net_snd [
      \<lparr>m_hsize = 0, m_op = 3, m_bar = 1, m_width = 4, m_addr = 8, m_size = 4, m_data = [1, 2, 3, 4]\<rparr>,
      \<lparr>m_hsize = 0, m_op = 7, m_bar = 0, m_width = 0, m_addr = 0, m_size = 0, m_data = []\<rparr>]
      (conn_of []) = Some net' \<and> sk_tx (sock net') = f \<and>
     recv_count (net_rcv [9, 9]) 2 (f @ [5]) = Some ([
      \<lparr>m_hsize = 0, m_op = 3, m_bar = 1, m_width = 4, m_addr = 8, m_size = 4, m_data = [1, 2, 3, 4]\<rparr>,
      \<lparr>m_hsize = 0, m_op = 7, m_bar = 0, m_width = 0, m_addr = 0, m_size = 0, m_data = []\<rparr>], [5])"
proof -
  let ?ms = "[
      \<lparr>m_hsize = 0, m_op = 3, m_bar = 1, m_width = 4, m_addr = 8, m_size = 4, m_data = [1, 2, 3, 4]\<rparr>,
      \<lparr>m_hsize = 0, m_op = 7, m_bar = 0, m_width = 0, m_addr = 0, m_size = 0, m_data = []\<rparr>]"
  have ms: "\<forall>m\<in>set ?ms. msg_fits m \<and> msg_norm m = m" by (simp add: msg_fits_def msg_norm_def)
  have c: "sk_snd (sock (conn_of [])) = []" "sk_tx (sock (conn_of [])) = []"
    by (simp_all add: conn_of_def)
  have len: "length ?ms = 2" by simp
  from msg_stream_roundtrip [OF ms c(1), of "[9, 9]"] obtain net' f where
    "send_all net_snd ?ms (conn_of []) = Some net'" "sk_tx (sock net') = f"
    "recv_count (net_rcv [9, 9]) 2 (f @ [5]) = Some (?ms, [5])"
    unfolding len c(2) append_Nil by blast
  then show ?thesis by blast
qed

section \<open>The event loop with well-behaved callbacks\<close>

text \<open>The descriptors and the timeout \<open>select\<close> is called with, and what it may then return.\<close>

definition net_select_fds :: "('f, 'z) pcie_net_scheme \<Rightarrow> int list" where
  "net_select_fds net = net_fd net # (if ev_fd net \<noteq> -1 then [ev_fd net] else [])"

definition net_select_nfds :: "('f, 'z) pcie_net_scheme \<Rightarrow> int" where
  "net_select_nfds net = (let max_fd = net_fd net;
     max_fd = (if ev_fd net \<noteq> -1 \<and> net_fd net < ev_fd net then ev_fd net else max_fd)
   in max_fd + 1)"

definition net_select_tm :: "('f, 'z) pcie_net_scheme \<Rightarrow> timeval option" where
  "net_select_tm net = (if task_fn net \<noteq> None then Some (task_tm net) else None)"

lemma net_select_nfds_bound: "fd \<in> set (net_select_fds net) \<Longrightarrow> fd < net_select_nfds net"
  by (auto simp: net_select_fds_def net_select_nfds_def Let_def split: if_splits)

fun sel_ok :: "('f, 'z) pcie_net_scheme \<Rightarrow> sel_result \<Rightarrow> bool" where
  "sel_ok net Sel_Error = True"
| "sel_ok net Sel_Timeout = (net_select_tm net \<noteq> None)"
| "sel_ok net (Sel_Ready fds rd) = (set fds \<subseteq> set (net_select_fds net))"

text \<open>Every result of a run of the loop is one \<open>select\<close> could give where it was called.\<close>

fun sels_ok ::
  "('f, 'z) pcie_net_scheme recvfn \<Rightarrow> ('f, ('f, 'z) pcie_net_scheme) evfn \<Rightarrow>
   ('f, ('f, 'z) pcie_net_scheme) taskfn \<Rightarrow> sel_result list \<Rightarrow> loop_locals \<Rightarrow>
   ('f, 'z) pcie_net_scheme \<Rightarrow> bool" where
  "sels_ok recvfn evfn taskfn [] l net = True"
| "sels_ok recvfn evfn taskfn (r # rs) l net = (sel_ok net r \<and>
     (case pcie_net_loop_iter recvfn evfn taskfn r l net of
        Some (Running, l', net') \<Rightarrow> sels_ok recvfn evfn taskfn rs l' net'
      | _ \<Rightarrow> True))"

fun sock_ready :: "int \<Rightarrow> sel_result \<Rightarrow> bool" where
  "sock_ready fd (Sel_Ready fds rd) = (fd \<in> set fds)"
| "sock_ready fd _ = False"

text \<open>
  The contract of the callbacks of a device: on a good message, and on its own task and event,
  each of them returns, keeps the invariant of the device, and takes nothing from the input.
\<close>

definition same_input :: "('f, 'z) pcie_net_scheme \<Rightarrow> ('f, 'z) pcie_net_scheme \<Rightarrow> bool" where
  "same_input net net' \<longleftrightarrow> net_fd net' = net_fd net \<and> ev_fd net' = ev_fd net \<and> sk_rx (sock net') = sk_rx (sock net) \<and>
     sk_fail (sock net') = sk_fail (sock net)"

locale net_callbacks =
  fixes recvfn :: "('f, 'z) pcie_net_scheme recvfn"
    and evfn :: "('f, ('f, 'z) pcie_net_scheme) evfn"
    and taskfn :: "('f, ('f, 'z) pcie_net_scheme) taskfn"
    and inv :: "('f, 'z) pcie_net_scheme \<Rightarrow> bool"
    and good :: "net_msg \<Rightarrow> bool"
  assumes inv_sock: "inv net \<Longrightarrow> inv (net\<lparr>sock := k\<rparr>)"
    and recv_ok: "inv net \<Longrightarrow> good (msg_norm m) \<Longrightarrow> length (m_data m) = 4096 \<Longrightarrow>
      length (r_data r) = 8 \<Longrightarrow> \<exists>n r' net'. recvfn m r net = Some (n, r', net') \<and>
        inv net' \<and> length (r_data r') = 8 \<and> same_input net net'"
    and task_ok: "inv net \<Longrightarrow> task_fn net = Some f \<Longrightarrow>
      \<exists>net'. taskfn f (task_data net) (net\<lparr>task_fn := None\<rparr>) = Some net' \<and> inv net' \<and>
        same_input net net'"
    and ev_ok: "inv net \<Longrightarrow> ev_fd net \<noteq> -1 \<Longrightarrow> \<exists>f n net'. ev_fn net = Some f \<and>
        evfn f key (ev_data net) net = Some (n, net') \<and> inv net' \<and> same_input net net'"
begin

definition conn_ok :: "net_msg list \<Rightarrow> loop_locals \<Rightarrow> ('f, 'z) pcie_net_scheme \<Rightarrow> bool" where
  "conn_ok ms l net \<longleftrightarrow> inv net \<and> net_fd net \<noteq> -1 \<and> sk_fail (sock net) = [] \<and>
     sk_rx (sock net) = concat (map msg_frame ms) \<and> (\<forall>m\<in>set ms. msg_fits m \<and> good (msg_norm m)) \<and>
     length (l_msg l) = PCIE_NET_MSG_MAX_SIZE \<and> length (r_data (l_reply l)) = 8"

lemma same_input_conn:
  "same_input net net' \<Longrightarrow> inv net' \<Longrightarrow> conn_ok ms l net \<Longrightarrow> conn_ok ms l net'"
  by (simp add: conn_ok_def same_input_def)

lemma keys_ok:
  "conn_ok ms l net \<Longrightarrow> ev_fd net \<noteq> -1 \<Longrightarrow>
     \<exists>b net'. net_ev_keys evfn ks stop net = Some (b, net') \<and> conn_ok ms l net' \<and>
       (stop \<longrightarrow> b) \<and> net_fd net' = net_fd net"
proof (induction ks arbitrary: stop net)
  case Nil
  then show ?case by simp
next
  case (Cons k ks)
  from Cons.prems have "inv net" by (simp add: conn_ok_def)
  from ev_ok [OF this Cons.prems(2), of k] obtain f n net' where
    s: "ev_fn net = Some f" "evfn f k (ev_data net) net = Some (n, net')" "inv net'"
       "same_input net net'" by blast
  have "conn_ok ms l net'" using s(4,3) Cons.prems(1) by (rule same_input_conn)
  moreover have "ev_fd net' \<noteq> -1" "net_fd net' = net_fd net"
    using s(4) Cons.prems(2) by (simp_all add: same_input_def)
  ultimately show ?case using Cons.IH [of net' "stop \<or> n \<noteq> 0"] s(1,2) by auto
qed

lemma event_ok:
  "conn_ok ms l net \<Longrightarrow> ev_fd net \<noteq> -1 \<Longrightarrow>
     \<exists>b net'. net_on_event evfn rd stop net = Some (b, net') \<and> conn_ok ms l net' \<and>
       (stop \<longrightarrow> b) \<and> net_fd net' = net_fd net"
  by (cases rd) (use keys_ok in \<open>auto simp: net_on_event_def\<close>)

lemma socket_empty:
  assumes "conn_ok [] l net"
  shows "\<exists>l' net'. net_on_socket recvfn l net = Some (True, l', net') \<and> conn_ok [] l' net' \<and>
     net_fd net' = net_fd net \<and> ev_fd net' = ev_fd net"
proof -
  have "sk_rx (sock net) = []" "sk_fail (sock net) = []" using assms by (auto simp: conn_ok_def)
  then have "pcie_net_recv_msg net (l_msg l) = Some (-1, l_msg l, net\<lparr>sock := sock net\<rparr>)"
    by (simp add: pcie_net_recv_msg_def pcie_net_recv_buf_def sys_recv_def Let_def
        PCIE_NET_MSG_MAX_SIZE_def msg_data_off_def)
  then show ?thesis using assms by (simp add: net_on_socket_def)
qed

lemma send_reply_ok:
  assumes "conn_ok ms l net" and "length (r_data r) = 8"
  shows "\<exists>e r' net'. pcie_net_send_reply net r = (e, r', net') \<and> length (r_data r') = 8 \<and>
     conn_ok ms l net' \<and> net_fd net' = net_fd net \<and> ev_fd net' = ev_fd net"
proof -
  have "pcie_net_send_buf net d = (if fst (sys_send d (sock net)) \<noteq> int (length d) then -1 else 0,
      net\<lparr>sock := snd (sys_send d (sock net))\<rparr>)" for d
    by (simp add: pcie_net_send_buf_def split: prod.split)
  moreover have "sk_rx (snd (sys_send d k)) = sk_rx k" "sk_fail (snd (sys_send d k)) = sk_fail k"
    for d k
    by (auto simp: sys_send_def Let_def split: list.split)
  ultimately show ?thesis
    using assms inv_sock by (simp add: pcie_net_send_reply_def Let_def conn_ok_def)
qed

lemma socket_frame:
  assumes c: "conn_ok (m # ms) l net"
  shows "\<exists>b l' net'. net_on_socket recvfn l net = Some (b, l', net') \<and> conn_ok ms l' net' \<and>
     net_fd net' = net_fd net \<and> ev_fd net' = ev_fd net"
proof -
  let ?net = "net\<lparr>sock := (sock net)\<lparr>sk_rx := concat (map msg_frame ms)\<rparr>\<rparr>"
  obtain buf where r: "pcie_net_recv_msg net (l_msg l) = Some (0, buf, ?net)"
    "length buf = PCIE_NET_MSG_MAX_SIZE" "msg_norm (decode_msg buf) = msg_norm m"
    using recv_msg_frame [of net m "concat (map msg_frame ms)" "l_msg l"] c
    by (auto simp: conn_ok_def)
  have data: "length (m_data (decode_msg buf)) = 4096"
    using r(2) by (simp add: decode_msg_def PCIE_NET_MSG_MAX_SIZE_def msg_data_off_def)
  have "good (msg_norm (decode_msg buf))" using r(3) c by (simp add: conn_ok_def)
  moreover have "inv ?net" using c inv_sock by (simp add: conn_ok_def)
  ultimately obtain n rep net1 where f: "recvfn (decode_msg buf) (l_reply l) ?net = Some (n, rep, net1)"
    "inv net1" "length (r_data rep) = 8" "same_input ?net net1"
    using recv_ok [of ?net "decode_msg buf" "l_reply l"] data c by (auto simp: conn_ok_def)
  have c1: "conn_ok ms (l\<lparr>l_msg := buf, l_reply := rep\<rparr>) net1"
    using c r f by (simp add: conn_ok_def same_input_def)
  obtain e rep' net2 where s: "pcie_net_send_reply net1 rep = (e, rep', net2)"
    "length (r_data rep') = 8" "conn_ok ms (l\<lparr>l_msg := buf, l_reply := rep\<rparr>) net2"
    "net_fd net2 = net_fd net1" "ev_fd net2 = ev_fd net1"
    using send_reply_ok [OF c1 f(3)] by blast
  have "conn_ok ms (l\<lparr>l_msg := buf, l_reply := rep'\<rparr>) net2" using s by (simp add: conn_ok_def)
  moreover have "net_fd net1 = net_fd net" "ev_fd net1 = ev_fd net"
    using f(4) by (simp_all add: same_input_def)
  ultimately show ?thesis
    using r(1) f(1) c1 s by (cases "n = 0") (auto simp: net_on_socket_def)
qed

lemma socket_ready_ok:
  assumes c: "conn_ok ms l net"
  shows "\<exists>b l1 net1 ms1. (if net_fd net \<in> set fds then net_on_socket recvfn l net
        else Some (False, l, net)) = Some (b, l1, net1) \<and> conn_ok ms1 l1 net1 \<and>
    net_fd net1 = net_fd net \<and> ev_fd net1 = ev_fd net \<and>
    (if net_fd net \<in> set fds then ms = [] \<and> b \<or> length ms = Suc (length ms1) else ms1 = ms)"
proof (cases "net_fd net \<in> set fds")
  case False
  then show ?thesis using c by auto
next
  case True
  show ?thesis
  proof (cases ms)
    case Nil
    with True socket_empty [of l net] c show ?thesis by auto
  next
    case (Cons m ms')
    with True socket_frame [of m ms' l net] c show ?thesis by auto
  qed
qed

lemma iter_ok:
  assumes c: "conn_ok ms l net" and s: "sel_ok net r"
  shows "\<exists>ctl l' net' ms'. pcie_net_loop_iter recvfn evfn taskfn r l net = Some (ctl, l', net') \<and>
     conn_ok ms' l' net' \<and> net_fd net' = net_fd net \<and>
     (ctl \<noteq> Running \<longrightarrow> ctl = Returned 0) \<and>
     (if sock_ready (net_fd net) r then ms = [] \<and> ctl \<noteq> Running \<or> length ms = Suc (length ms')
      else ms' = ms)"
proof (cases r)
  case Sel_Error
  then show ?thesis using c by auto
next
  case Sel_Timeout
  then obtain f where f: "task_fn net = Some f" using s by (auto simp: net_select_tm_def split: if_splits)
  have "inv net" using c by (simp add: conn_ok_def)
  from task_ok [OF this f] obtain net' where
    n: "taskfn f (task_data net) (net\<lparr>task_fn := None\<rparr>) = Some net'" "inv net'" "same_input net net'"
    by blast
  have "conn_ok ms l net'" using n(3,2) c by (rule same_input_conn)
  then show ?thesis using Sel_Timeout f n by (auto simp: same_input_def)
next
  case (Sel_Ready fds rd)
  obtain b l1 net1 ms1 where 1: "(if net_fd net \<in> set fds then net_on_socket recvfn l net
        else Some (False, l, net)) = Some (b, l1, net1)" "conn_ok ms1 l1 net1"
    "net_fd net1 = net_fd net" "ev_fd net1 = ev_fd net"
    "if net_fd net \<in> set fds then ms = [] \<and> b \<or> length ms = Suc (length ms1) else ms1 = ms"
    using socket_ready_ok [OF c, of fds] by blast
  have evd: "ev_fd net1 \<noteq> -1" if "ev_fd net1 \<in> set fds"
    using that s 1(4) c Sel_Ready by (auto simp: net_select_fds_def conn_ok_def split: if_splits)
  obtain b2 net2 where 2: "(if ev_fd net1 \<in> set fds then net_on_event evfn rd b net1
        else Some (b, net1)) = Some (b2, net2)" "conn_ok ms1 l1 net2" "b \<longrightarrow> b2"
    "net_fd net2 = net_fd net1"
  proof (cases "ev_fd net1 \<in> set fds")
    case True
    then show ?thesis using event_ok [OF 1(2) evd, of rd b] that by auto
  next
    case False
    then show ?thesis using 1(2) that [of b net1] by simp
  qed
  have "pcie_net_loop_iter recvfn evfn taskfn r l net =
      Some (if b2 then Returned 0 else Running, l1, net2)"
    unfolding Sel_Ready pcie_net_loop_iter.simps 1(1) using 2(1) by simp
  moreover have "sock_ready (net_fd net) r = (net_fd net \<in> set fds)"
    by (simp add: Sel_Ready)
  ultimately show ?thesis using 1(3,5) 2(2-4) by (cases "net_fd net \<in> set fds") auto
qed

lemma run_ok:
  "conn_ok ms l net \<Longrightarrow> sels_ok recvfn evfn taskfn rs l net \<Longrightarrow>
     \<exists>ctl l' net' ms'. net_loop_run recvfn evfn taskfn rs l net = Some (ctl, l', net') \<and>
       conn_ok ms' l' net' \<and> (ctl \<noteq> Running \<longrightarrow> ctl = Returned 0) \<and>
       (length ms < length (filter (sock_ready (net_fd net)) rs) \<longrightarrow> ctl = Returned 0)"
proof (induction rs arbitrary: ms l net)
  case Nil
  then show ?case by auto
next
  case (Cons r rs)
  from iter_ok [OF Cons.prems(1), of r] Cons.prems(2) obtain ctl l1 net1 ms1 where
    1: "pcie_net_loop_iter recvfn evfn taskfn r l net = Some (ctl, l1, net1)"
    "conn_ok ms1 l1 net1" "net_fd net1 = net_fd net" "ctl \<noteq> Running \<longrightarrow> ctl = Returned 0"
    "if sock_ready (net_fd net) r then ms = [] \<and> ctl \<noteq> Running \<or> length ms = Suc (length ms1)
     else ms1 = ms" by auto
  show ?case
  proof (cases ctl)
    case (Returned e)
    then show ?thesis using 1 by auto
  next
    case Running
    then have "sels_ok recvfn evfn taskfn rs l1 net1" using Cons.prems(2) 1(1) by simp
    from Cons.IH [OF 1(2) this] obtain ctl2 l2 net2 ms2 where
      2: "net_loop_run recvfn evfn taskfn rs l1 net1 = Some (ctl2, l2, net2)" "conn_ok ms2 l2 net2"
      "ctl2 \<noteq> Running \<longrightarrow> ctl2 = Returned 0"
      "length ms1 < length (filter (sock_ready (net_fd net1)) rs) \<longrightarrow> ctl2 = Returned 0" by auto
    have "length ms < length (filter (sock_ready (net_fd net)) (r # rs)) \<longrightarrow> ctl2 = Returned 0"
      using 1(3,5) 2(4) Running by (cases "sock_ready (net_fd net) r") auto
    moreover have "net_loop_run recvfn evfn taskfn (r # rs) l net = Some (ctl2, l2, net2)"
      using 1(1) 2(1) Running by simp
    ultimately show ?thesis using 2(2,3) by blast
  qed
qed


end

end
