(* ===== verification/Pcie_Dev.thy ===== *)
theory Pcie_Dev
  imports Pcie_Net
begin

text \<open>
  The device layer, \<open>src/src/pcie/pcie.h\<close> and \<open>pcie.c\<close>: the endpoint structure
  (\<open>pcie_dev_t\<close>), its 4 KiB configuration space and the accessors with their check, the BAR
  table, and the handler of one forwarded request (\<open>on_msg_recv\<close>).

  The configuration registers are those of the PCI local bus specification (the header
  \<open>pci/header.h\<close> of pciutils, which the file includes); their offsets are given here as
  constants.
\<close>

section \<open>PCI header constants used by the program\<close>

definition PCI_VENDOR_ID :: u64 where [const_defs]: "PCI_VENDOR_ID = 0x00"
definition PCI_DEVICE_ID :: u64 where [const_defs]: "PCI_DEVICE_ID = 0x02"
definition PCI_STATUS :: u64 where [const_defs]: "PCI_STATUS = 0x06"
definition PCI_CLASS_REVISION :: u64 where [const_defs]: "PCI_CLASS_REVISION = 0x08"
definition PCI_HEADER_TYPE :: u64 where [const_defs]: "PCI_HEADER_TYPE = 0x0e"
definition PCI_BASE_ADDRESS_0 :: u64 where [const_defs]: "PCI_BASE_ADDRESS_0 = 0x10"
definition PCI_BASE_ADDRESS_5 :: u64 where [const_defs]: "PCI_BASE_ADDRESS_5 = 0x24"
definition PCI_ROM_ADDRESS :: u64 where [const_defs]: "PCI_ROM_ADDRESS = 0x30"
definition PCI_CAPABILITY_LIST :: u64 where [const_defs]: "PCI_CAPABILITY_LIST = 0x34"
definition PCI_STATUS_CAP_LIST :: u16 where [const_defs]: "PCI_STATUS_CAP_LIST = 0x10"
definition PCI_CLASS_SIGNAL_OTHER :: u32 where [const_defs]: "PCI_CLASS_SIGNAL_OTHER = 0x1180"
definition MSI_CAP_OFF :: u64 where [const_defs]: "MSI_CAP_OFF = 64"

section \<open>The endpoint\<close>

text \<open>\<open>pcie_dev_t\<close>: its first member is the connection, so it extends that record.\<close>

definition PCIE_BAR_COUNT :: nat where [const_defs]: "PCIE_BAR_COUNT = 6"

record 'f pcie_dev = "'f pcie_net" +
  bar_size :: "u64 list"
  bar_readfn :: "'f option list"
  bar_writefn :: "'f option list"
  bar_data :: "ptr list"
  config :: "byte list"

definition dev_wf :: "('f, 'z) pcie_dev_scheme \<Rightarrow> bool" where
  "dev_wf dev \<longleftrightarrow> length (bar_size dev) = PCIE_BAR_COUNT \<and> length (bar_readfn dev) = PCIE_BAR_COUNT \<and>
     length (bar_writefn dev) = PCIE_BAR_COUNT \<and> length (bar_data dev) = PCIE_BAR_COUNT \<and>
     length (config dev) = 4096"

section \<open>Configuration space accessors (pcie.h)\<close>

definition pcie_check_config :: "u64 \<Rightarrow> u64 \<Rightarrow> int" where
  "pcie_check_config addr sz =
     (if addr AND (sz - 1) \<noteq> 0 then -1
      else if addr + sz > 4096 then -1
      else 0)"

definition pcie_write_config_safe ::
  "('f, 'z) pcie_dev_scheme \<Rightarrow> u64 \<Rightarrow> byte list \<Rightarrow> (int \<times> ('f, 'z) pcie_dev_scheme) option" where
  "pcie_write_config_safe dev addr d = do {
     c \<leftarrow> mem_write (config dev) (unat addr) d;
     Some (0, dev\<lparr>config := c\<rparr>)
   }"

definition pcie_read_config_safe ::
  "('f, 'z) pcie_dev_scheme \<Rightarrow> u64 \<Rightarrow> nat \<Rightarrow> byte list option" where
  "pcie_read_config_safe dev addr n = mem_read (config dev) (unat addr) n"

definition pcie_write_config ::
  "('f, 'z) pcie_dev_scheme \<Rightarrow> u64 \<Rightarrow> byte list \<Rightarrow> (int \<times> ('f, 'z) pcie_dev_scheme) option" where
  "pcie_write_config dev addr d =
     (if pcie_check_config addr (of_nat (length d)) \<noteq> 0 then Some (-1, dev)
      else pcie_write_config_safe dev addr d)"

text \<open>\<open>Some None\<close> is the result -1, with the destination untouched.\<close>

definition pcie_read_config ::
  "('f, 'z) pcie_dev_scheme \<Rightarrow> u64 \<Rightarrow> nat \<Rightarrow> byte list option option" where
  "pcie_read_config dev addr n =
     (if pcie_check_config addr (of_nat n) \<noteq> 0 then Some None
      else map_option Some (pcie_read_config_safe dev addr n))"

definition pcie_write_config_byte ::
  "('f, 'z) pcie_dev_scheme \<Rightarrow> u64 \<Rightarrow> byte \<Rightarrow> (int \<times> ('f, 'z) pcie_dev_scheme) option" where
  "pcie_write_config_byte dev addr x = pcie_write_config dev addr (le_bytes 1 x)"

definition pcie_write_config_word ::
  "('f, 'z) pcie_dev_scheme \<Rightarrow> u64 \<Rightarrow> u16 \<Rightarrow> (int \<times> ('f, 'z) pcie_dev_scheme) option" where
  "pcie_write_config_word dev addr x = pcie_write_config dev addr (le_bytes 2 x)"

definition pcie_write_config_long ::
  "('f, 'z) pcie_dev_scheme \<Rightarrow> u64 \<Rightarrow> u32 \<Rightarrow> (int \<times> ('f, 'z) pcie_dev_scheme) option" where
  "pcie_write_config_long dev addr x = pcie_write_config dev addr (le_bytes 4 x)"

definition pcie_read_config_byte :: "('f, 'z) pcie_dev_scheme \<Rightarrow> u64 \<Rightarrow> byte option" where
  "pcie_read_config_byte dev addr =
     map_option (case_option (-1) of_le) (pcie_read_config dev addr 1)"

definition pcie_read_config_word :: "('f, 'z) pcie_dev_scheme \<Rightarrow> u64 \<Rightarrow> u16 option" where
  "pcie_read_config_word dev addr =
     map_option (case_option (-1) of_le) (pcie_read_config dev addr 2)"

definition pcie_read_config_long :: "('f, 'z) pcie_dev_scheme \<Rightarrow> u64 \<Rightarrow> u32 option" where
  "pcie_read_config_long dev addr =
     map_option (case_option (-1) of_le) (pcie_read_config dev addr 4)"

definition pcie_set_vendorid ::
  "('f, 'z) pcie_dev_scheme \<Rightarrow> u16 \<Rightarrow> (int \<times> ('f, 'z) pcie_dev_scheme) option" where
  "pcie_set_vendorid dev x = pcie_write_config_safe dev PCI_VENDOR_ID (le_bytes 2 x)"

definition pcie_set_deviceid ::
  "('f, 'z) pcie_dev_scheme \<Rightarrow> u16 \<Rightarrow> (int \<times> ('f, 'z) pcie_dev_scheme) option" where
  "pcie_set_deviceid dev x = pcie_write_config_safe dev PCI_DEVICE_ID (le_bytes 2 x)"

section \<open>Initialisation and the BAR table (pcie.c)\<close>

definition init_common ::
  "('f, 'z) pcie_dev_scheme \<Rightarrow> ('f, 'z) pcie_dev_scheme option" where
  "init_common dev = do {
     let dev = dev\<lparr>bar_size := replicate PCIE_BAR_COUNT 0,
                   bar_writefn := replicate PCIE_BAR_COUNT None,
                   bar_readfn := replicate PCIE_BAR_COUNT None\<rparr>;
     let dev = dev\<lparr>config := replicate 4096 0\<rparr>;
     (_, dev) \<leftarrow> pcie_write_config_byte dev PCI_HEADER_TYPE 0;
     (_, dev) \<leftarrow> pcie_write_config_long dev PCI_CLASS_REVISION (push_bit 16 PCI_CLASS_SIGNAL_OTHER);
     (_, dev) \<leftarrow> pcie_write_config_word dev PCI_STATUS PCI_STATUS_CAP_LIST;
     (_, dev) \<leftarrow> pcie_write_config_byte dev PCI_CAPABILITY_LIST (ucast MSI_CAP_OFF);
     (_, dev) \<leftarrow> pcie_write_config_byte dev (MSI_CAP_OFF + 0x00) 0x05;
     (_, dev) \<leftarrow> pcie_write_config_byte dev (MSI_CAP_OFF + 0x01) 0x00;
     (_, dev) \<leftarrow> pcie_write_config_word dev (MSI_CAP_OFF + 0x02) 0x01;
     Some dev
   }"

definition pcie_init_net ::
  "tcp_env \<Rightarrow> ('f, 'z) pcie_dev_scheme \<Rightarrow> (int \<times> os_call list \<times> ('f, 'z) pcie_dev_scheme) option" where
  "pcie_init_net e dev = do {
     dev \<leftarrow> init_common dev;
     let (r, calls, dev) = pcie_net_init e dev;
     Some (if r = -1 then -1 else 0, calls, dev)
   }"

definition pcie_fini :: "('f, 'z) pcie_dev_scheme \<Rightarrow> int \<times> os_call list" where
  "pcie_fini dev = (0, snd (pcie_net_fini dev))"

text \<open>The index is not checked: beyond the arrays the stores are out of bounds.\<close>

definition pcie_set_bar ::
  "('f, 'z) pcie_dev_scheme \<Rightarrow> u64 \<Rightarrow> u64 \<Rightarrow> 'f option \<Rightarrow> 'f option \<Rightarrow> ptr \<Rightarrow>
     (int \<times> ('f, 'z) pcie_dev_scheme) option" where
  "pcie_set_bar dev ibar sz on_read on_write p =
     (let i = unat ibar in
      if i < PCIE_BAR_COUNT then
        Some (0, dev\<lparr>bar_size := (bar_size dev)[i := sz],
                     bar_readfn := (bar_readfn dev)[i := on_read],
                     bar_writefn := (bar_writefn dev)[i := on_write],
                     bar_data := (bar_data dev)[i := p]\<rparr>)
      else None)"

definition pcie_add_task ::
  "('f, 'z) pcie_dev_scheme \<Rightarrow> u64 \<Rightarrow> 'f \<Rightarrow> ptr \<Rightarrow> int \<times> ('f, 'z) pcie_dev_scheme" where
  "pcie_add_task dev usecs f p =
     pcie_net_add_task dev \<lparr>tv_sec = usecs div 1000000, tv_usec = usecs mod 1000000\<rparr> f p"

definition pcie_add_event ::
  "('f, 'z) pcie_dev_scheme \<Rightarrow> int \<Rightarrow> 'f \<Rightarrow> ptr \<Rightarrow> int \<times> ('f, 'z) pcie_dev_scheme" where
  "pcie_add_event dev fd fn p = pcie_net_add_ev dev fd fn p"

section \<open>The handler of one request (pcie.c)\<close>

text \<open>The default write case, by the width of the access.\<close>

definition write_config_default ::
  "('f, 'z) pcie_dev_scheme \<Rightarrow> net_msg \<Rightarrow> ('f, 'z) pcie_dev_scheme option" where
  "write_config_default dev msg =
     (if m_width msg = 1 then do {
        d \<leftarrow> mem_read (m_data msg) 0 1;
        map_option snd (pcie_write_config_byte dev (m_addr msg) (of_le d)) }
      else if m_width msg = 2 then do {
        d \<leftarrow> mem_read (m_data msg) 0 2;
        map_option snd (pcie_write_config_word dev (m_addr msg) (of_le d)) }
      else if m_width msg = 4 then do {
        d \<leftarrow> mem_read (m_data msg) 0 4;
        map_option snd (pcie_write_config_long dev (m_addr msg) (of_le d)) }
      else Some dev)"

definition on_write_config ::
  "('f, 'z) pcie_dev_scheme \<Rightarrow> net_msg \<Rightarrow> ('f, 'z) pcie_dev_scheme option" where
  "on_write_config dev msg =
     (if PCI_BASE_ADDRESS_0 \<le> m_addr msg \<and> m_addr msg \<le> PCI_BASE_ADDRESS_5 then do {
        let ibar = unat ((m_addr msg - PCI_BASE_ADDRESS_0) div 4);
        d \<leftarrow> mem_read (m_data msg) 0 4;
        let data = (of_le d :: u32);
        let size = (ucast (bar_size dev ! ibar) :: u32);
        if data = -1 then
          (if bar_size dev ! ibar \<noteq> 0
           then map_option snd (pcie_write_config_long dev (m_addr msg) (data AND NOT (size - 1)))
           else Some dev)
        else write_config_default dev msg }
      else if m_addr msg = PCI_ROM_ADDRESS then Some dev
      else write_config_default dev msg)"

definition on_read_config ::
  "('f, 'z) pcie_dev_scheme \<Rightarrow> net_msg \<Rightarrow> net_reply \<Rightarrow> net_reply option" where
  "on_read_config dev msg reply = do {
     let reply = reply\<lparr>r_status := 0\<rparr>;
     data \<leftarrow> (if m_width msg = 1 then map_option ucast (pcie_read_config_byte dev (m_addr msg))
              else if m_width msg = 2 then map_option ucast (pcie_read_config_word dev (m_addr msg))
              else if m_width msg = 4 then map_option ucast (pcie_read_config_long dev (m_addr msg))
              else Some (-1));
     Some (reply\<lparr>r_data := le_bytes 8 (data :: u64)\<rparr>)
   }"

text \<open>
  The callbacks of a BAR by the name in the table: the address, the buffer (the eight data
  bytes of the reply, or the data of the message), the width, and the registered pointer.
\<close>

type_synonym ('f, 's) call_read =
  "'f \<Rightarrow> u64 \<Rightarrow> byte list \<Rightarrow> nat \<Rightarrow> ptr \<Rightarrow> 's \<Rightarrow> (byte list \<times> 's) option"
type_synonym ('f, 's) call_write =
  "'f \<Rightarrow> u64 \<Rightarrow> byte list \<Rightarrow> nat \<Rightarrow> ptr \<Rightarrow> 's \<Rightarrow> 's option"

definition on_msg_recv ::
  "('f, ('f, 'z) pcie_dev_scheme) call_read \<Rightarrow> ('f, ('f, 'z) pcie_dev_scheme) call_write \<Rightarrow>
   net_msg \<Rightarrow> net_reply \<Rightarrow> ('f, 'z) pcie_dev_scheme \<Rightarrow>
     (nat \<times> net_reply \<times> ('f, 'z) pcie_dev_scheme) option" where
  "on_msg_recv call_read call_write msg reply dev =
     (let bar = unat (m_bar msg); width = unat (m_width msg) in
      if m_op msg = PCIE_NET_OP_READ_CONFIG then do {
        reply \<leftarrow> on_read_config dev msg reply;
        Some (1, reply, dev) }
      else if m_op msg = PCIE_NET_OP_WRITE_CONFIG then do {
        dev \<leftarrow> on_write_config dev msg;
        Some (0, reply, dev) }
      else if m_op msg = PCIE_NET_OP_READ_MEM then
        (let reply = reply\<lparr>r_status := 0, r_data := le_bytes 8 (-1 :: u64)\<rparr> in
         if bar \<ge> PCIE_BAR_COUNT then Some (1, reply, dev)
         else case bar_readfn dev ! bar of
             None \<Rightarrow> Some (1, reply, dev)
           | Some f \<Rightarrow> do {
               let reply = reply\<lparr>r_data := le_bytes 8 (0 :: u64)\<rparr>;
               (d, dev) \<leftarrow> call_read f (m_addr msg) (r_data reply) width (bar_data dev ! bar) dev;
               Some (1, reply\<lparr>r_data := d\<rparr>, dev) })
      else if m_op msg = PCIE_NET_OP_WRITE_MEM then
        (if bar \<ge> PCIE_BAR_COUNT then Some (0, reply, dev)
         else case bar_writefn dev ! bar of
             None \<Rightarrow> Some (0, reply, dev)
           | Some f \<Rightarrow> do {
               dev \<leftarrow> call_write f (m_addr msg) (m_data msg) width (bar_data dev ! bar) dev;
               Some (0, reply, dev) })
      else if m_op msg = PCIE_NET_OP_READ_IO then
        Some (1, reply\<lparr>r_status := 0, r_data := le_bytes 8 (-1 :: u64)\<rparr>, dev)
      else Some (0, reply, dev))"

definition pcie_loop where
  "pcie_loop call_read call_write evfn taskfn malloc_ret rep sels dev =
     pcie_net_loop (on_msg_recv call_read call_write) evfn taskfn malloc_ret rep sels
       (dev :: ('f, 'z) pcie_dev_scheme)"

text \<open>
  \<open>pcie_send_msi\<close>: the message is an uninitialised buffer on the stack (\<open>stk\<close>, with room for
  eight bytes of data), of which the operation, the size and the data are set.
\<close>

definition pcie_send_msi ::
  "net_msg \<Rightarrow> ('f, 'z) pcie_dev_scheme \<Rightarrow> (int \<times> ('f, 'z) pcie_dev_scheme) option" where
  "pcie_send_msi stk dev = do {
     let msg = stk\<lparr>m_op := PCIE_NET_OP_MSI, m_size := 8, m_data := le_bytes 8 (0 :: u64)\<rparr>;
     (r, _, dev) \<leftarrow> pcie_net_send_msg dev msg;
     Some (r, dev)
   }"

lemma unat_minus_one_u64: "unat (-1 :: u64) = 18446744073709551615"
  by (simp add: unsigned_minus_1_eq_mask mask_eq_exp_minus_1)

section \<open>The bounds check of the configuration space\<close>

interpretation cfg: byte_store pcie_read_config_safe
  "\<lambda>dev a d. map_option snd (pcie_write_config_safe dev a d)" "\<lambda>dev. length (config dev)" unat
proof unfold_locales
  fix m :: "('f, 'z) pcie_dev_scheme" and a a' :: u64 and n d d' m'
  show "pcie_read_config_safe m a n = None \<longleftrightarrow> length (config m) < unat a + n"
    by (simp add: pcie_read_config_safe_def mem_simps)
  show "map_option snd (pcie_write_config_safe m a d) = None \<longleftrightarrow>
      length (config m) < unat a + length d"
    using mem_write_None [of "config m" "unat a" d]
    by (cases "mem_write (config m) (unat a) d") (auto simp: pcie_write_config_safe_def)
  show "pcie_read_config_safe m a n = Some d \<Longrightarrow> length d = n"
    by (simp add: pcie_read_config_safe_def mem_read_length)
  assume "map_option snd (pcie_write_config_safe m a d) = Some m'"
  then obtain c where c: "mem_write (config m) (unat a) d = Some c" and m': "m' = m\<lparr>config := c\<rparr>"
    by (auto simp: pcie_write_config_safe_def split: Option.bind_splits)
  show "length (config m') = length (config m)" using c m' by (simp add: mem_write_length)
  show "pcie_read_config_safe m' a (length d) = Some d"
    using c m' by (simp add: pcie_read_config_safe_def mem_read_write_same)
  show "unat a' + n \<le> unat a \<or> unat a + length d \<le> unat a' \<Longrightarrow>
      pcie_read_config_safe m' a' n = pcie_read_config_safe m a' n"
    using c m' by (simp add: pcie_read_config_safe_def mem_read_write_other)
qed

lemma check_config_iff:
  assumes n: "n = 1 \<or> n = 2 \<or> n = (4::nat)"
  shows "pcie_check_config addr (of_nat n) = 0 \<longleftrightarrow>
     unat addr mod n = 0 \<and> (unat addr + n \<le> 4096 \<or> unat addr + n = 2 ^ 64)"
proof -
  have lt: "unat addr < 18446744073709551616"
    using unsigned_less [of addr, where ?'a = nat] by simp
  have mask: "addr AND (of_nat n - 1) = 0 \<longleftrightarrow> unat addr mod n = 0"
  proof -
    have bits: "addr AND mask k = 0 \<longleftrightarrow> unat addr mod 2 ^ k = 0" for k
      by (metis take_bit_eq_mask take_bit_eq_mod unat_eq_0 unsigned_take_bit_eq
          take_bit_nat_def)
    show ?thesis using n bits [of 0] bits [of 1] bits [of 2] by (auto simp: mask_eq_exp_minus_1)
  qed
  have add: "unat (addr + of_nat n) = (unat addr + n) mod 18446744073709551616"
    using n by (auto simp: unat_word_ariths)
  have lim: "addr + of_nat n > 4096 \<longleftrightarrow> 4096 < (unat addr + n) mod 18446744073709551616"
    using add by (simp add: word_less_nat_alt)
  have "4096 < (unat addr + n) mod 18446744073709551616 \<longleftrightarrow>
      \<not> (unat addr + n \<le> 4096 \<or> unat addr + n = 18446744073709551616)" if "unat addr mod n = 0"
  proof -
    have "unat addr + n \<le> 18446744073709551616" using n lt that by auto
    then show ?thesis by auto
  qed
  then show ?thesis by (auto simp: pcie_check_config_def mask lim)
qed

definition config_width :: "nat \<Rightarrow> bool" where
  "config_width n \<longleftrightarrow> n = 1 \<or> n = 2 \<or> n = 4"

definition config_aligned :: "u64 \<Rightarrow> nat \<Rightarrow> bool" where
  "config_aligned a n \<longleftrightarrow> config_width n \<and> unat a mod n = 0 \<and> unat a + n \<le> 4096"

lemma write_config_ok:
  assumes "config_aligned a (length d)" and "length (config dev) = 4096"
  shows "pcie_write_config dev a d = Some (0, dev\<lparr>config := mem_patch (config dev) (unat a) d\<rparr>)"
  using assms check_config_iff [of "length d" a]
  by (auto simp: pcie_write_config_def pcie_write_config_safe_def config_aligned_def
      config_width_def mem_write_patch)

lemma read_config_ok:
  assumes "config_aligned a n" and "length (config dev) = 4096"
  shows "pcie_read_config dev a n = Some (Some (take n (drop (unat a) (config dev))))"
  using assms check_config_iff [of n a]
  by (auto simp: pcie_read_config_def pcie_read_config_safe_def config_aligned_def config_width_def
      mem_read_def)

lemma config_fault_iff:
  assumes "config_width n" and "length (config dev) = 4096" and "length d = n"
  shows "pcie_write_config dev a d = None \<longleftrightarrow> unat a = 2 ^ 64 - n"
    and "pcie_read_config dev a n = None \<longleftrightarrow> unat a = 2 ^ 64 - n"
proof -
  have n: "n = 1 \<or> n = 2 \<or> n = 4" using assms(1) by (simp add: config_width_def)
  have div: "(2 ^ 64 - n) mod n = 0" using n by auto
  show "pcie_write_config dev a d = None \<longleftrightarrow> unat a = 2 ^ 64 - n"
    using check_config_iff [OF n, of a] n assms(2,3) div
      mem_write_None [of "config dev" "unat a" d]
    by (cases "mem_write (config dev) (unat a) d")
      (auto simp: pcie_write_config_def pcie_write_config_safe_def)
  show "pcie_read_config dev a n = None \<longleftrightarrow> unat a = 2 ^ 64 - n"
    using check_config_iff [OF n, of a] n assms(2) div
      mem_read_None [of "config dev" "unat a" n]
    by (cases "mem_read (config dev) (unat a) n")
      (auto simp: pcie_read_config_def pcie_read_config_safe_def)
qed

text \<open>
  C18. The check in front of every configuration access, exactly: for a read or a write of one, two or
  four bytes of the 4 KiB space the only address it lets through that is outside the space is
  the last aligned one of the 64-bit range, where \<open>addr + size\<close> wraps to zero; every other
  aligned address inside the space is served, a read with the bytes there and a write with no other
  effect than to replace them; and all the rest is refused, without effect.
\<close>

theorem config_access_exact:
  assumes "length (config dev) = 4096" and "length d \<in> {1, 2, 4}"
  shows "pcie_write_config dev a d =
     (if unat a = 2 ^ 64 - length d then None
      else if unat a mod length d = 0 \<and> unat a + length d \<le> 4096
      then Some (0, dev\<lparr>config := mem_patch (config dev) (unat a) d\<rparr>)
      else Some (-1, dev)) \<and>
    pcie_read_config dev a (length d) =
     (if unat a = 2 ^ 64 - length d then None
      else if unat a mod length d = 0 \<and> unat a + length d \<le> 4096
      then Some (Some (take (length d) (drop (unat a) (config dev))))
      else Some None)"
proof -
  have w: "config_width (length d)" using assms(2) by (auto simp: config_width_def)
  show ?thesis
  proof (cases "unat a = 2 ^ 64 - length d")
    case True
    then show ?thesis using config_fault_iff [OF w assms(1) refl, of a] by simp
  next
    case False
    show ?thesis
    proof (cases "unat a mod length d = 0 \<and> unat a + length d \<le> 4096")
      case True
      then show ?thesis
        using write_config_ok [of a d dev] read_config_ok [of a "length d" dev] w assms(1) False
        by (simp add: config_aligned_def)
    next
      case out: False
      have "pcie_check_config a (of_nat (length d)) \<noteq> 0"
        using check_config_iff [of "length d" a] w out False by (auto simp: config_width_def)
      then show ?thesis using False out by (auto simp: pcie_write_config_def pcie_read_config_def)
    qed
  qed
qed

text \<open>The endpoint in zeroed storage, connected to a peer that sends nothing.\<close>

definition zero_dev :: "'f pcie_dev" where
  "zero_dev = \<lparr>server_fd = 3, net_fd = 4, ev_fd = -1, ev_fn = None, ev_data = 0,
     task_tm = \<lparr>tv_sec = 0, tv_usec = 0\<rparr>, task_fn = None, task_data = 0,
     sock = \<lparr>sk_rx = [], sk_tx = [], sk_snd = [], sk_fail = []\<rparr>,
     bar_size = replicate 6 0, bar_readfn = replicate 6 None, bar_writefn = replicate 6 None,
     bar_data = replicate 6 0, config = replicate 4096 0\<rparr>"

lemma dev_wf_zero: "dev_wf zero_dev"
  by (simp add: dev_wf_def zero_dev_def PCIE_BAR_COUNT_def)

lemma config_zero_dev [simp]: "config zero_dev = replicate 4096 0"
  by (simp add: zero_dev_def)

theorem config_access_exact_witness:
  "pcie_write_config (zero_dev :: unit pcie_dev) (-1) [7] = None \<and> pcie_read_config (zero_dev :: unit pcie_dev) (-1) 1 = None \<and>
   pcie_read_config (zero_dev :: unit pcie_dev) 0x1000 4 = Some None"
  using config_access_exact [of "zero_dev :: unit pcie_dev" "[7]" "-1"]
    config_access_exact [of "zero_dev :: unit pcie_dev" "le_bytes 4 (0 :: u32)" "0x1000"]
  by (simp add: unat_minus_one_u64)

section \<open>What was written is what is read\<close>

lemma write_config_safe_of:
  assumes "pcie_write_config dev a d = Some (0, dev')"
  shows "map_option snd (pcie_write_config_safe dev a d) = Some dev'"
  using assms by (auto simp: pcie_write_config_def split: if_splits)

lemma config_long_roundtrip_aux:
  assumes "pcie_write_config_long dev a x = Some (0, dev')"
  shows "pcie_read_config_long dev' a = Some x \<and>
    (\<forall>b n. unat b + n \<le> unat a \<or> unat a + 4 \<le> unat b \<longrightarrow>
      pcie_read_config dev' b n = pcie_read_config dev b n)"
proof (intro conjI allI impI)
  have c: "pcie_check_config a 4 = 0"
    using assms by (auto simp: pcie_write_config_long_def pcie_write_config_def split: if_splits)
  have w: "map_option snd (pcie_write_config_safe dev a (le_bytes 4 x)) = Some dev'"
    using assms by (intro write_config_safe_of) (simp add: pcie_write_config_long_def)
  have "map_option of_le (pcie_read_config_safe dev' a 4) = Some x"
    by (rule cfg.load_store [OF w]) simp
  then show "pcie_read_config_long dev' a = Some x"
    using c by (auto simp: pcie_read_config_long_def pcie_read_config_def)
  fix b :: u64 and n assume "unat b + n \<le> unat a \<or> unat a + 4 \<le> unat b"
  then show "pcie_read_config dev' b n = pcie_read_config dev b n"
    using cfg.load_store_other [OF w, of b n] by (simp add: pcie_read_config_def)
qed

text \<open>
  A 32-bit register of the configuration space reads back the value written to it, and
  every register that does not overlap it keeps its value, at any width.
\<close>

lemma config_long_roundtrip:
  assumes "pcie_write_config_long dev a x = Some (0, dev')"
  shows "pcie_read_config_long dev' a = Some x \<and>
    (\<forall>b n. unat b + n \<le> unat a \<or> unat a + 4 \<le> unat b \<longrightarrow>
      pcie_read_config dev' b n = pcie_read_config dev b n)"
  by (rule config_long_roundtrip_aux [OF assms])

lemma config_long_roundtrip_witness:
  "\<exists>dev'. pcie_write_config_long (zero_dev :: unit pcie_dev) 0x10 0x12345678 = Some (0, dev') \<and>
     pcie_read_config_long dev' 0x10 = Some 0x12345678"
proof -
  obtain dev' where h: "pcie_write_config_long (zero_dev :: unit pcie_dev) 0x10 0x12345678 = Some (0, dev')"
    by (simp add: pcie_write_config_long_def write_config_ok config_aligned_def config_width_def)
  from config_long_roundtrip [OF h] h show ?thesis by blast
qed

section \<open>Initialisation\<close>

text \<open>
  \<open>init_common\<close> never fails and leaves exactly this configuration space: class 0x118000,
  the capability bit of the status, the capability pointer 0x40 and there one MSI capability
  (id 5, end of list, enabled), and zero everywhere else, with six empty BARs.
\<close>

lemma init_common_config:
  assumes "length (bar_data dev) = PCIE_BAR_COUNT"
  shows "\<exists>dev'. init_common dev = Some dev' \<and> dev_wf dev' \<and>
     (\<forall>i<4096. config dev' ! i =
        (if i = 0x06 then 0x10 else if i = 0x0a then 0x80 else if i = 0x0b then 0x11
         else if i = 0x34 then 0x40 else if i = 0x40 then 5 else if i = 0x42 then 1 else 0)) \<and>
     bar_size dev' = replicate 6 0 \<and> bar_readfn dev' = replicate 6 None \<and>
     bar_writefn dev' = replicate 6 None"
proof -
  have le: "le_bytes (Suc 0) (x :: byte) = [x]" "le_bytes 2 (y :: u16) = [ucast y, ucast (drop_bit 8 y)]"
    for x y by (simp_all add: le_bytes_def upt_rec)
  note ok = write_config_ok [unfolded config_aligned_def config_width_def]
  show ?thesis
    using assms
    by (simp add: init_common_def pcie_write_config_byte_def pcie_write_config_word_def
        pcie_write_config_long_def ok const_defs length_mem_patch dev_wf_def)
      (auto simp: nth_mem_patch length_mem_patch le le_bytes_4 nth_Cons')
qed

lemma init_common_config_witness:
  "\<exists>dev'. init_common (zero_dev :: unit pcie_dev) = Some dev' \<and> config dev' ! 0x34 = 0x40 \<and>
     config dev' ! 0x40 = 5 \<and> config dev' ! 0x41 = 0"
proof -
  have "length (bar_data (zero_dev :: unit pcie_dev)) = PCIE_BAR_COUNT"
    by (simp add: zero_dev_def PCIE_BAR_COUNT_def)
  from init_common_config [OF this] show ?thesis by (elim exE conjE) (rule exI, auto)
qed

lemma init_common_shape:
  "\<exists>c. init_common dev = Some (dev\<lparr>bar_size := replicate 6 0, bar_writefn := replicate 6 None,
     bar_readfn := replicate 6 None, config := c\<rparr>) \<and> length c = 4096"
proof -
  note ok = write_config_ok [unfolded config_aligned_def config_width_def]
  show ?thesis
    by (simp add: init_common_def pcie_write_config_byte_def pcie_write_config_word_def
        pcie_write_config_long_def ok const_defs length_mem_patch)
      (intro exI conjI, rule refl, simp add: length_mem_patch)
qed

section \<open>The BAR size probe\<close>

definition bar_addr :: "nat \<Rightarrow> u64" where
  "bar_addr i = PCI_BASE_ADDRESS_0 + of_nat (4 * i)"

lemma bar_addr_props:
  assumes "i < 6"
  shows "PCI_BASE_ADDRESS_0 \<le> bar_addr i" "bar_addr i \<le> PCI_BASE_ADDRESS_5"
    "unat ((bar_addr i - PCI_BASE_ADDRESS_0) div 4) = i" "unat (bar_addr i) = 16 + 4 * i"
    "config_aligned (bar_addr i) 4"
proof -
  have "i = 0 \<or> i = 1 \<or> i = 2 \<or> i = 3 \<or> i = 4 \<or> i = 5" using assms by arith
  then show "PCI_BASE_ADDRESS_0 \<le> bar_addr i" "bar_addr i \<le> PCI_BASE_ADDRESS_5"
    "unat ((bar_addr i - PCI_BASE_ADDRESS_0) div 4) = i" and u: "unat (bar_addr i) = 16 + 4 * i"
    by (auto simp: bar_addr_def const_defs)
  show "config_aligned (bar_addr i) 4"
    using assms u by (auto simp: config_aligned_def config_width_def mod_mult_self2)
qed

text \<open>
  Writing all ones to a BAR of non-zero size stores the complement of the size minus one,
  which is what the register then reads as, at whatever width the write was made; nothing else
  of the device changes.
\<close>

lemma bar_probe_reads_size:
  assumes "dev_wf dev" and "i < 6" and "bar_size dev ! i \<noteq> 0" and "m_addr msg = bar_addr i"
    and "take 4 (m_data msg) = [255, 255, 255, 255]"
  shows "\<exists>dev'. on_write_config dev msg = Some dev' \<and>
     pcie_read_config_long dev' (bar_addr i) = Some (NOT (ucast (bar_size dev ! i) - 1)) \<and>
     (\<forall>a n. unat a + n \<le> unat (bar_addr i) \<or> unat (bar_addr i) + 4 \<le> unat a \<longrightarrow>
        pcie_read_config dev' a n = pcie_read_config dev a n) \<and>
     dev' = dev\<lparr>config := config dev'\<rparr>"
proof -
  note b = bar_addr_props [OF assms(2)]
  have len: "4 \<le> length (m_data msg)"
    using arg_cong [OF assms(5), of length] by simp
  have "(4294967295 :: u32) = -1" by simp
  then have all1: "4294967295 AND y = y" for y :: u32 by (simp only: and.left_neutral)
  let ?x = "NOT (ucast (bar_size dev ! i) - 1) :: u32"
  have c: "length (config dev) = 4096" using assms(1) by (simp add: dev_wf_def)
  define dev' where "dev' = dev\<lparr>config := mem_patch (config dev) (unat (bar_addr i)) (le_bytes 4 ?x)\<rparr>"
  have w: "pcie_write_config_long dev (bar_addr i) ?x = Some (0, dev')"
    using write_config_ok [of "bar_addr i" "le_bytes 4 ?x" dev] b(5) c
    by (simp add: pcie_write_config_long_def dev'_def)
  have "on_write_config dev msg = Some dev'"
    using b assms(3-5) w len
    by (simp add: on_write_config_def mem_read_def all1)
  moreover have "dev' = dev\<lparr>config := config dev'\<rparr>" by (simp add: dev'_def)
  ultimately show ?thesis using config_long_roundtrip_aux [OF w] by blast
qed

lemma bar_probe_reads_size_witness:
  "\<exists>dev'. on_write_config ((zero_dev :: unit pcie_dev)\<lparr>bar_size := [0, 256, 0, 0, 0, 0]\<rparr>)
        \<lparr>m_hsize = 0, m_op = 1, m_bar = 0, m_width = 4, m_addr = bar_addr 1, m_size = 4,
         m_data = [255, 255, 255, 255]\<rparr> = Some dev' \<and>
     pcie_read_config_long dev' (bar_addr 1) = Some 0xffffff00"
proof -
  let ?dev = "(zero_dev :: unit pcie_dev)\<lparr>bar_size := [0, 256, 0, 0, 0, 0]\<rparr>"
  let ?m = "\<lparr>m_hsize = 0, m_op = 1, m_bar = 0, m_width = 4, m_addr = bar_addr 1, m_size = 4,
         m_data = [255, 255, 255, 255]\<rparr> :: net_msg"
  have wf: "dev_wf ?dev" by (simp add: dev_wf_def zero_dev_def PCIE_BAR_COUNT_def)
  have sz: "bar_size ?dev ! 1 = 256" by simp
  from bar_probe_reads_size [OF wf, of 1 ?m] sz show ?thesis by auto
qed

section \<open>Handling one request\<close>

text \<open>
  A reply is requested exactly for the three read operations, and then its status is zero
  and its data is eight bytes long provided the BAR callback keeps the length of its buffer.
\<close>

lemma on_msg_recv_replies_iff_read:
  assumes "on_msg_recv call_read call_write m r dev = Some (n, r', dev')"
    and "\<And>f a d w p s d' s'. call_read f a d w p s = Some (d', s') \<Longrightarrow> length d' = length d"
  shows "n = (if m_op m \<in> {PCIE_NET_OP_READ_CONFIG, PCIE_NET_OP_READ_MEM, PCIE_NET_OP_READ_IO}
             then 1 else 0) \<and>
     (n = 1 \<longrightarrow> r_status r' = 0 \<and> length (r_data r') = 8) \<and> (n = 0 \<longrightarrow> r' = r)"
  using assms(1)
  by (auto simp: on_msg_recv_def on_read_config_def Let_def const_defs dest!: assms(2)
      split: if_splits option.splits Option.bind_splits)

lemma on_msg_recv_replies_iff_read_witness:
  "on_msg_recv (\<lambda>f a d w p s. Some (d, s)) (\<lambda>f a d w p s. Some s)
     \<lparr>m_hsize = 0, m_op = 2, m_bar = 9, m_width = 4, m_addr = 0, m_size = 0, m_data = []\<rparr>
     \<lparr>r_hsize = 0, r_status = 1, r_data = replicate 8 0\<rparr> (zero_dev :: unit pcie_dev)
     = Some (1, \<lparr>r_hsize = 0, r_status = 0, r_data = le_bytes 8 (-1 :: u64)\<rparr>, zero_dev) \<and>
   length (le_bytes 8 (-1 :: u64)) = 8"
proof -
  have h: "on_msg_recv (\<lambda>f a d w p s. Some (d, s)) (\<lambda>f a d w p s. Some s)
     \<lparr>m_hsize = 0, m_op = 2, m_bar = 9, m_width = 4, m_addr = 0, m_size = 0, m_data = []\<rparr>
     \<lparr>r_hsize = 0, r_status = 1, r_data = replicate 8 0\<rparr> (zero_dev :: unit pcie_dev)
     = Some (1, \<lparr>r_hsize = 0, r_status = 0, r_data = le_bytes 8 (-1 :: u64)\<rparr>, zero_dev)"
    by (simp add: on_msg_recv_def const_defs)
  from on_msg_recv_replies_iff_read [OF h] h show ?thesis by simp
qed

lemma le_bytes_ones: "le_bytes 8 (-1 :: u64) = replicate 8 255"
proof (rule nth_equalityI)
  fix i assume "i < length (le_bytes 8 (-1 :: u64))"
  then have i: "i < 8" by simp
  have "ucast (drop_bit (8 * i) (-1 :: u64)) = (-1 :: byte)"
    by (rule bit_word_eqI) (use i in \<open>simp add: bit_ucast_iff bit_drop_bit_eq bit_mask_iff\<close>)
  then show "le_bytes 8 (-1 :: u64) ! i = replicate 8 255 ! i"
    using i by (simp add: nth_le_bytes)
qed simp

text \<open>
  A memory read the device does not implement, and every port read, is answered with all
  ones and leaves the device as it was.
\<close>

lemma unclaimed_reads_all_ones:
  assumes "m_op m = PCIE_NET_OP_READ_MEM \<and>
      (6 \<le> unat (m_bar m) \<or> bar_readfn dev ! unat (m_bar m) = None) \<or>
      m_op m = PCIE_NET_OP_READ_IO"
  shows "on_msg_recv call_read call_write m r dev =
     Some (1, r\<lparr>r_status := 0, r_data := replicate 8 255\<rparr>, dev)"
proof -
  show ?thesis using assms le_bytes_ones by (auto simp: on_msg_recv_def Let_def const_defs)
qed

lemma unclaimed_reads_all_ones_witness:
  "on_msg_recv (\<lambda>f a d w p s. None) (\<lambda>f a d w p s. None)
     \<lparr>m_hsize = 0, m_op = 4, m_bar = 0, m_width = 4, m_addr = 0x60, m_size = 0, m_data = []\<rparr>
     \<lparr>r_hsize = 0, r_status = 1, r_data = replicate 8 0\<rparr> (zero_dev :: unit pcie_dev)
     = Some (1, \<lparr>r_hsize = 0, r_status = 0, r_data = replicate 8 255\<rparr>, zero_dev)"
  by (subst unclaimed_reads_all_ones) (simp_all add: const_defs)

section \<open>Tasks and interrupts\<close>

text \<open>
  \<open>pcie_add_task\<close> splits the delay into seconds and microseconds without loss, with the
  microseconds in range, and puts the task in the one slot, replacing what was there.
\<close>

lemma add_task_delay:
  "\<exists>tm. pcie_add_task dev usecs f p = (0, dev\<lparr>task_tm := tm, task_fn := Some f, task_data := p\<rparr>) \<and>
     unat (tv_sec tm) * 1000000 + unat (tv_usec tm) = unat usecs \<and> unat (tv_usec tm) < 1000000"
  by (rule exI [of _ "\<lparr>tv_sec = usecs div 1000000, tv_usec = usecs mod 1000000\<rparr>"])
    (simp add: pcie_add_task_def pcie_net_add_task_def unat_div_distrib unat_mod_distrib)

text \<open>
  \<open>pcie_send_msi\<close> sends one message that a receiver decodes as an MSI with eight zero bytes
  of data, whatever the stack held, and changes nothing else of the device.
\<close>

lemma send_msi_message:
  assumes "sk_snd (sock dev) = []"
  shows "\<exists>f m. pcie_send_msi stk dev = Some (0, dev\<lparr>sock := (sock dev)\<lparr>sk_tx := sk_tx (sock dev) @ f\<rparr>\<rparr>) \<and>
     (\<forall>rest. net_rcv old (f @ rest) = Some (m, rest)) \<and>
     m_op m = PCIE_NET_OP_MSI \<and> m_data m = replicate 8 0"
proof -
  let ?m = "stk\<lparr>m_op := PCIE_NET_OP_MSI, m_size := 8, m_data := le_bytes 8 (0 :: u64)\<rparr>"
  have fits: "msg_fits ?m" by (simp add: msg_fits_def)
  have z: "le_bytes 8 (0 :: u64) = replicate 8 0"
    by (simp add: le_bytes_def upt_rec numeral_eq_Suc)
  have "pcie_send_msi stk dev =
      Some (0, dev\<lparr>sock := (sock dev)\<lparr>sk_tx := sk_tx (sock dev) @ msg_frame ?m\<rparr>\<rparr>)"
    using send_msg_frame [OF fits assms] by (simp add: pcie_send_msi_def)
  moreover have "\<forall>rest. net_rcv old (msg_frame ?m @ rest) = Some (msg_norm ?m, rest)"
    using net_rcv_frame [OF fits] by blast
  ultimately show ?thesis
    by (intro exI [of _ "msg_frame ?m"] exI [of _ "msg_norm ?m"]) (simp add: z)
qed

lemma send_msi_message_witness:
  "\<exists>f m. pcie_send_msi \<lparr>m_hsize = 77, m_op = 77, m_bar = 77, m_width = 77, m_addr = 77,
        m_size = 77, m_data = [77]\<rparr> (zero_dev :: unit pcie_dev) =
       Some (0, zero_dev\<lparr>sock := (sock (zero_dev :: unit pcie_dev))\<lparr>sk_tx := f\<rparr>\<rparr>) \<and>
     net_rcv [] (f @ [1]) = Some (m, [1]) \<and> m_op m = PCIE_NET_OP_MSI"
proof -
  let ?stk = "\<lparr>m_hsize = 77, m_op = 77, m_bar = 77, m_width = 77, m_addr = 77,
        m_size = 77, m_data = [77]\<rparr> :: net_msg"
  have z: "sk_snd (sock (zero_dev :: unit pcie_dev)) = []" "sk_tx (sock (zero_dev :: unit pcie_dev)) = []"
    by (simp_all add: zero_dev_def)
  obtain f m where
    "pcie_send_msi ?stk (zero_dev :: unit pcie_dev) =
       Some (0, zero_dev\<lparr>sock := (sock (zero_dev :: unit pcie_dev))\<lparr>sk_tx := sk_tx (sock (zero_dev :: unit pcie_dev)) @ f\<rparr>\<rparr>)"
    "\<forall>rest. net_rcv [] (f @ rest) = Some (m, rest)" "m_op m = PCIE_NET_OP_MSI"
    using send_msi_message [OF z(1), of ?stk "[]"] by blast
  then show ?thesis using z(2) by auto
qed

section \<open>The interface between the request handler and a device\<close>

text \<open>
  The condition under which a request is harmless for the core layer: it is not a configuration
  access at the wrapping address of C5, and a memory access satisfies what the device demands.
\<close>

definition config_req_ok :: "net_msg \<Rightarrow> bool" where
  "config_req_ok m \<longleftrightarrow> (m_op m \<in> {PCIE_NET_OP_READ_CONFIG, PCIE_NET_OP_WRITE_CONFIG} \<longrightarrow>
     unat (m_addr m) + unat (m_width m) < 2 ^ 64)"

definition msg_ok ::
  "(nat \<Rightarrow> u64 \<Rightarrow> nat \<Rightarrow> bool) \<Rightarrow> (nat \<Rightarrow> u64 \<Rightarrow> nat \<Rightarrow> bool) \<Rightarrow> net_msg \<Rightarrow> bool" where
  "msg_ok okrd okwr m \<longleftrightarrow> config_req_ok m \<and>
     (m_op m = PCIE_NET_OP_READ_MEM \<longrightarrow> unat (m_bar m) < 6 \<longrightarrow>
        okrd (unat (m_bar m)) (m_addr m) (unat (m_width m))) \<and>
     (m_op m = PCIE_NET_OP_WRITE_MEM \<longrightarrow> unat (m_bar m) < 6 \<longrightarrow>
        okwr (unat (m_bar m)) (m_addr m) (unat (m_width m)))"

lemma msg_ok_norm [simp]: "msg_ok okrd okwr (msg_norm m) = msg_ok okrd okwr m"
  by (simp add: msg_ok_def config_req_ok_def)

lemma write_config_total:
  assumes "length (config dev) = 4096" and "config_width (length d)"
    and "unat a + length d < 2 ^ 64"
  shows "\<exists>r c. pcie_write_config dev a d = Some (r, dev\<lparr>config := c\<rparr>) \<and> length c = 4096"
proof (cases "pcie_check_config a (of_nat (length d)) = 0")
  case True
  then have "config_aligned a (length d)"
    using check_config_iff [of "length d" a] assms by (auto simp: config_aligned_def config_width_def)
  then show ?thesis
    using write_config_ok [of a d dev] assms(1)
    by (auto simp: length_mem_patch config_aligned_def)
next
  case False
  then have "pcie_write_config dev a d = Some (-1, dev\<lparr>config := config dev\<rparr>)"
    by (simp add: pcie_write_config_def)
  then show ?thesis using assms(1) by blast
qed

lemma write_default_total:
  assumes "length (config dev) = 4096" and "length (m_data m) = 4096"
    and "unat (m_addr m) + unat (m_width m) < 2 ^ 64"
  shows "\<exists>c. write_config_default dev m = Some (dev\<lparr>config := c\<rparr>) \<and> length c = 4096"
proof -
  note defs = write_config_default_def pcie_write_config_byte_def pcie_write_config_word_def
      pcie_write_config_long_def mem_read_def
  have w: "\<exists>r c. pcie_write_config dev (m_addr m) d = Some (r, dev\<lparr>config := c\<rparr>) \<and> length c = 4096"
    if "length d = unat (m_width m)" "config_width (length d)" for d
    using write_config_total [OF assms(1) that(2), of "m_addr m"] that(1) assms(3) by simp
  consider "m_width m = 1" | "m_width m = 2" | "m_width m = 4" | "m_width m \<notin> {1, 2, 4}" by blast
  then show ?thesis
  proof cases
    case 1
    with w [of "le_bytes 1 (of_le (take 1 (m_data m)) :: byte)"] assms(2) show ?thesis
      by (auto simp: defs config_width_def)
  next
    case 2
    with w [of "le_bytes 2 (of_le (take 2 (m_data m)) :: u16)"] assms(2) show ?thesis
      by (auto simp: defs config_width_def)
  next
    case 3
    with w [of "le_bytes 4 (of_le (take 4 (m_data m)) :: u32)"] assms(2) show ?thesis
      by (auto simp: defs config_width_def)
  next
    case 4
    then have "write_config_default dev m = Some (dev\<lparr>config := config dev\<rparr>)"
      by (simp add: write_config_default_def)
    then show ?thesis using assms(1) by blast
  qed
qed

lemma on_write_config_total:
  assumes "length (config dev) = 4096" and "length (m_data m) = 4096"
    and "unat (m_addr m) + unat (m_width m) < 2 ^ 64"
  shows "\<exists>c. on_write_config dev m = Some (dev\<lparr>config := c\<rparr>) \<and> length c = 4096"
proof -
  have probe: "\<exists>c. map_option snd (pcie_write_config_long dev (m_addr m) x) =
      Some (dev\<lparr>config := c\<rparr>) \<and> length c = 4096" if "m_addr m \<le> PCI_BASE_ADDRESS_5" for x
  proof -
    have "unat (m_addr m) \<le> 36" using that by (simp add: PCI_BASE_ADDRESS_5_def word_le_nat)
    then show ?thesis
      using write_config_total [OF assms(1), of "le_bytes 4 x" "m_addr m"]
      by (force simp: pcie_write_config_long_def config_width_def)
  qed
  consider (bar) "PCI_BASE_ADDRESS_0 \<le> m_addr m" "m_addr m \<le> PCI_BASE_ADDRESS_5"
    | (rom) "\<not> (PCI_BASE_ADDRESS_0 \<le> m_addr m \<and> m_addr m \<le> PCI_BASE_ADDRESS_5)"
        "m_addr m = PCI_ROM_ADDRESS"
    | (other) "\<not> (PCI_BASE_ADDRESS_0 \<le> m_addr m \<and> m_addr m \<le> PCI_BASE_ADDRESS_5)"
        "m_addr m \<noteq> PCI_ROM_ADDRESS" by blast
  then show ?thesis
  proof cases
    case bar
    let ?i = "unat ((m_addr m - PCI_BASE_ADDRESS_0) div 4)"
    let ?data = "of_le (take 4 (m_data m)) :: u32"
    have d: "mem_read (m_data m) 0 4 = Some (take 4 (m_data m))"
      using assms(2) by (simp add: mem_read_def)
    have "on_write_config dev m =
       (if ?data = -1 then (if bar_size dev ! ?i \<noteq> 0
           then map_option snd (pcie_write_config_long dev (m_addr m)
                  (?data AND NOT (ucast (bar_size dev ! ?i) - 1)))
           else Some dev)
        else write_config_default dev m)"
      unfolding on_write_config_def Let_def d using bar by (simp only: bind.bind_lunit if_True simp_thms)
    moreover have "\<exists>c. Some dev = Some (dev\<lparr>config := c\<rparr>) \<and> length c = 4096"
      using assms(1) by (intro exI [of _ "config dev"]) simp
    ultimately show ?thesis
      using write_default_total [OF assms] probe [OF bar(2)] by presburger
  next
    case rom
    then have "on_write_config dev m = Some (dev\<lparr>config := config dev\<rparr>)"
      by (simp add: on_write_config_def const_defs)
    then show ?thesis using assms(1) by blast
  next
    case other
    then have "on_write_config dev m = write_config_default dev m"
      by (simp only: on_write_config_def if_False)
    then show ?thesis using write_default_total [OF assms] by simp
  qed
qed

lemma on_read_config_total:
  assumes "length (config dev) = 4096" and "unat (m_addr m) + unat (m_width m) < 2 ^ 64"
  shows "\<exists>r'. on_read_config dev m r = Some r' \<and> length (r_data r') = 8"
proof -
  have "pcie_read_config dev (m_addr m) n \<noteq> None"
    if "config_width n" "unat (m_addr m) + n < 2 ^ 64" for n
    using config_fault_iff(2) [OF that(1) assms(1), of "replicate n 0" "m_addr m"] that by auto
  from this [of 1] this [of 2] this [of 4] show ?thesis
    using assms(2)
    by (auto simp: on_read_config_def pcie_read_config_byte_def pcie_read_config_word_def
        pcie_read_config_long_def config_width_def)
qed

locale pcie_device =
  fixes call_read :: "('f, ('f, 'z) pcie_dev_scheme) call_read"
    and call_write :: "('f, ('f, 'z) pcie_dev_scheme) call_write"
    and evfn :: "('f, ('f, 'z) pcie_dev_scheme) evfn"
    and taskfn :: "('f, ('f, 'z) pcie_dev_scheme) taskfn"
    and inv :: "('f, 'z) pcie_dev_scheme \<Rightarrow> bool"
    and okrd okwr :: "nat \<Rightarrow> u64 \<Rightarrow> nat \<Rightarrow> bool"
  assumes inv_wf: "inv dev \<Longrightarrow> dev_wf dev"
    and dev_inv_sock: "inv dev \<Longrightarrow> inv (dev\<lparr>sock := k\<rparr>)"
    and inv_config: "inv dev \<Longrightarrow> length c = 4096 \<Longrightarrow> inv (dev\<lparr>config := c\<rparr>)"
    and read_ok: "inv dev \<Longrightarrow> b < 6 \<Longrightarrow> bar_readfn dev ! b = Some f \<Longrightarrow> okrd b a w \<Longrightarrow>
      length d = 8 \<Longrightarrow> \<exists>d' dev'. call_read f a d w (bar_data dev ! b) dev = Some (d', dev') \<and>
        length d' = 8 \<and> inv dev' \<and> same_input dev dev'"
    and write_ok: "inv dev \<Longrightarrow> b < 6 \<Longrightarrow> bar_writefn dev ! b = Some f \<Longrightarrow> okwr b a w \<Longrightarrow>
      length x = 4096 \<Longrightarrow> \<exists>dev'. call_write f a x w (bar_data dev ! b) dev = Some dev' \<and>
        inv dev' \<and> same_input dev dev'"
    and dev_task_ok: "inv dev \<Longrightarrow> task_fn dev = Some f \<Longrightarrow>
      \<exists>dev'. taskfn f (task_data dev) (dev\<lparr>task_fn := None\<rparr>) = Some dev' \<and> inv dev' \<and>
        same_input dev dev'"
    and dev_ev_ok: "inv dev \<Longrightarrow> ev_fd dev \<noteq> -1 \<Longrightarrow> \<exists>f n dev'. ev_fn dev = Some f \<and>
        evfn f key (ev_data dev) dev = Some (n, dev') \<and> inv dev' \<and> same_input dev dev'"
begin

text \<open>The accesses to a BAR.\<close>

lemma read_mem_ok:
  assumes i: "inv dev" and g: "msg_ok okrd okwr m" and op: "m_op m = PCIE_NET_OP_READ_MEM"
  shows "\<exists>n r' dev'. on_msg_recv call_read call_write m r dev = Some (n, r', dev') \<and> inv dev' \<and>
     length (r_data r') = 8 \<and> same_input dev dev'"
proof (cases "6 \<le> unat (m_bar m) \<or> bar_readfn dev ! unat (m_bar m) = None")
  case True
  with op i show ?thesis by (auto simp: on_msg_recv_def const_defs Let_def same_input_def)
next
  case False
  then obtain f where b: "unat (m_bar m) < 6" "bar_readfn dev ! unat (m_bar m) = Some f" by auto
  have "okrd (unat (m_bar m)) (m_addr m) (unat (m_width m))"
    using g op b(1) by (simp add: msg_ok_def)
  from read_ok [OF i b this, of "le_bytes 8 (0 :: u64)"] b op show ?thesis
    by (auto simp: on_msg_recv_def const_defs Let_def)
qed

lemma write_mem_ok:
  assumes i: "inv dev" and g: "msg_ok okrd okwr m" and x: "length (m_data m) = 4096"
    and r: "length (r_data r) = 8" and op: "m_op m = PCIE_NET_OP_WRITE_MEM"
  shows "\<exists>n r' dev'. on_msg_recv call_read call_write m r dev = Some (n, r', dev') \<and> inv dev' \<and>
     length (r_data r') = 8 \<and> same_input dev dev'"
proof (cases "6 \<le> unat (m_bar m) \<or> bar_writefn dev ! unat (m_bar m) = None")
  case True
  with op i r show ?thesis by (auto simp: on_msg_recv_def const_defs Let_def same_input_def)
next
  case False
  then obtain f where b: "unat (m_bar m) < 6" "bar_writefn dev ! unat (m_bar m) = Some f" by auto
  have "okwr (unat (m_bar m)) (m_addr m) (unat (m_width m))"
    using g op b(1) by (simp add: msg_ok_def)
  from write_ok [OF i b this x] b op r show ?thesis
    by (auto simp: on_msg_recv_def const_defs Let_def)
qed

text \<open>Every request that is in order for the device is handled, and the invariant kept.\<close>

lemma msg_recv_ok:
  assumes i: "inv dev" and g: "msg_ok okrd okwr m" and x: "length (m_data m) = 4096"
    and r: "length (r_data r) = 8"
  shows "\<exists>n r' dev'. on_msg_recv call_read call_write m r dev = Some (n, r', dev') \<and> inv dev' \<and>
     length (r_data r') = 8 \<and> same_input dev dev'"
proof -
  have c: "length (config dev) = 4096" using inv_wf [OF i] by (simp add: dev_wf_def)
  have si: "same_input dev dev" "same_input dev (dev\<lparr>config := y\<rparr>)" for y
    by (simp_all add: same_input_def)
  consider "m_op m = PCIE_NET_OP_READ_CONFIG" | "m_op m = PCIE_NET_OP_WRITE_CONFIG"
    | "m_op m = PCIE_NET_OP_READ_MEM" | "m_op m = PCIE_NET_OP_WRITE_MEM"
    | "m_op m \<notin> {PCIE_NET_OP_READ_CONFIG, PCIE_NET_OP_WRITE_CONFIG, PCIE_NET_OP_READ_MEM,
         PCIE_NET_OP_WRITE_MEM}" by blast
  then show ?thesis
  proof cases
    case 1
    then have "unat (m_addr m) + unat (m_width m) < 2 ^ 64"
      using g by (simp add: msg_ok_def config_req_ok_def)
    with on_read_config_total [OF c, of m r] 1 i si(1) show ?thesis
      by (auto simp: on_msg_recv_def)
  next
    case 2
    then have "unat (m_addr m) + unat (m_width m) < 2 ^ 64"
      using g by (simp add: msg_ok_def config_req_ok_def)
    from on_write_config_total [OF c x this] 2 inv_config [OF i] r si(2) show ?thesis
      by (auto simp: on_msg_recv_def const_defs)
  next
    case 3
    then show ?thesis by (rule read_mem_ok [OF i g])
  next
    case 4
    then show ?thesis by (rule write_mem_ok [OF i g x r])
  next
    case 5
    then show ?thesis using i r si(1) by (auto simp: on_msg_recv_def Let_def)
  qed
qed

end

sublocale pcie_device \<subseteq> net_callbacks "on_msg_recv call_read call_write" evfn taskfn inv
  "msg_ok okrd okwr"
proof unfold_locales
  fix net k assume "inv net" then show "inv (net\<lparr>sock := k\<rparr>)" by (rule dev_inv_sock)
next
  fix net m and r :: net_reply
  assume "inv net" "msg_ok okrd okwr (msg_norm m)" "length (m_data m) = 4096" "length (r_data r) = 8"
  then show "\<exists>n r' net'. on_msg_recv call_read call_write m r net = Some (n, r', net') \<and>
      inv net' \<and> length (r_data r') = 8 \<and> same_input net net'"
    using msg_recv_ok [of net m r] by auto
next
  fix net f assume "inv net" "task_fn net = Some f"
  then show "\<exists>net'. taskfn f (task_data net) (net\<lparr>task_fn := None\<rparr>) = Some net' \<and> inv net' \<and>
      same_input net net'" by (rule dev_task_ok)
next
  fix net key assume "inv net" "ev_fd net \<noteq> -1"
  then show "\<exists>f n net'. ev_fn net = Some f \<and> evfn f key (ev_data net) net = Some (n, net') \<and>
      inv net' \<and> same_input net net'" by (rule dev_ev_ok)
qed

end
