(* ===== verification/Dma_Device.thy ===== *)
theory Dma_Device
  imports Pcie_Dev
begin

text \<open>
  The DMA engine written in C, \<open>src/src/dma/hw/d_in_c/main_dma.c\<close>: five 32-bit registers in
  BAR 1, a 32 KiB memory with an increasing pattern, and the transfer of that memory to the
  host, started by a register write and done by the delayed task \<open>finalize_transfer\<close>.
\<close>

section \<open>The engine\<close>

text \<open>The functions the structure points to.\<close>

datatype dma_fn = Dma_on_read | Dma_on_write | Dma_finalize_transfer

definition DMA_REG_CTL :: nat where [const_defs]: "DMA_REG_CTL = 0"
definition DMA_REG_STA :: nat where [const_defs]: "DMA_REG_STA = 1"
definition DMA_REG_ADL :: nat where [const_defs]: "DMA_REG_ADL = 2"
definition DMA_REG_ADH :: nat where [const_defs]: "DMA_REG_ADH = 3"
definition DMA_REG_BAZ :: nat where [const_defs]: "DMA_REG_BAZ = 4"
definition DMA_REG_COUNT :: nat where [const_defs]: "DMA_REG_COUNT = 5"
definition sizeof_bram :: nat where [const_defs]: "sizeof_bram = 8 * 4096"

definition DMA_REG_ADDR :: "nat \<Rightarrow> u64" where "DMA_REG_ADDR r = of_nat (r * 4)"

record dma = "dma_fn pcie_dev" +
  regs :: "u32 list"
  bram :: "byte list"
  saved_ctl :: u32
  saved_adh :: u32
  saved_adl :: u32
  saved_baz :: u32

section \<open>Register access\<close>

text \<open>\<open>on_read\<close>: the new content of the destination, of which \<open>sz\<close> bytes are written.\<close>

definition dma_on_read :: "u64 \<Rightarrow> byte list \<Rightarrow> nat \<Rightarrow> dma \<Rightarrow> byte list option" where
  "dma_on_read addr data sz dma =
     (if addr \<in> set (map DMA_REG_ADDR
          [DMA_REG_CTL, DMA_REG_STA, DMA_REG_ADL, DMA_REG_ADH, DMA_REG_BAZ]) then do {
        d \<leftarrow> mem_read (words_to_bytes (regs dma)) (unat addr) sz;
        mem_write data 0 d }
      else mem_write data 0 (replicate sz 0xff))"

definition dma_on_write :: "u64 \<Rightarrow> byte list \<Rightarrow> nat \<Rightarrow> ptr \<Rightarrow> dma \<Rightarrow> dma option" where
  "dma_on_write addr data sz opak dma = do {
     d \<leftarrow> mem_read data 0 sz;
     rb \<leftarrow> mem_write (words_to_bytes (regs dma)) (unat addr) d;
     let dma = dma\<lparr>regs := bytes_to_words rb\<rparr>;
     if addr = DMA_REG_ADDR DMA_REG_CTL then
       let r = regs dma ! DMA_REG_CTL in
       if r AND push_bit 31 1 \<noteq> 0 then
         let dma = dma\<lparr>saved_ctl := r,
                       saved_adl := regs dma ! DMA_REG_ADL,
                       saved_adh := regs dma ! DMA_REG_ADH,
                       saved_baz := regs dma ! DMA_REG_BAZ\<rparr>;
             dma = dma\<lparr>regs := (regs dma)[DMA_REG_STA := 0]\<rparr>
         in Some (snd (pcie_add_task dma 1000 Dma_finalize_transfer opak))
       else Some dma
     else Some dma
   }"

section \<open>The transfer\<close>

text \<open>The inner loop that adds the seed to the first \<open>k\<close> bytes of the message.\<close>

definition add_baz :: "nat \<Rightarrow> byte \<Rightarrow> byte list \<Rightarrow> byte list" where
  "add_baz k baz d = map (\<lambda>x. x + baz) (take k d) @ drop k d"

text \<open>The loop over the pages: \<open>p\<close> is the offset of the pointer into the memory.\<close>

primrec dma_send_pages :: "nat \<Rightarrow> nat \<Rightarrow> net_msg \<Rightarrow> dma \<Rightarrow> (nat \<times> net_msg \<times> dma) option" where
  "dma_send_pages 0 p m dma = Some (p, m, dma)"
| "dma_send_pages (Suc n) p m dma = do {
     d \<leftarrow> mem_read (bram dma) p 4096;
     md \<leftarrow> mem_write (m_data m) 0 d;
     let m = m\<lparr>m_data := add_baz 4096 (ucast (saved_baz dma)) md\<rparr>;
     (_, m, dma) \<leftarrow> pcie_net_send_msg dma m;
     dma_send_pages n (p + 4096) (m\<lparr>m_addr := m_addr m + 4096\<rparr>) dma
   }"

text \<open>
  \<open>finalize_transfer\<close>: \<open>malloc_ret\<close> is the message \<open>malloc\<close> hands out, with unknown fields and
  room for a page of data, \<open>stk\<close> the stack buffer of \<open>pcie_send_msi\<close>.
\<close>

definition finalize_transfer :: "net_msg option \<Rightarrow> net_msg \<Rightarrow> dma \<Rightarrow> dma option" where
  "finalize_transfer malloc_ret stk dma = (case malloc_ret of
      None \<Rightarrow> Some dma
    | Some m \<Rightarrow> do {
        let m = m\<lparr>m_op := PCIE_NET_OP_WRITE_MEM,
                  m_addr := push_bit 32 (ucast (saved_adh dma)) OR ucast (saved_adl dma)\<rparr>;
        let n = sizeof_bram div 4096;
        let m = m\<lparr>m_size := 4096\<rparr>;
        (p, m, dma) \<leftarrow> dma_send_pages n 0 m dma;
        let m = m\<lparr>m_size := of_nat (sizeof_bram mod 4096)\<rparr>;
        dma \<leftarrow> (if m_size m \<noteq> 0 then do {
                  d \<leftarrow> mem_read (bram dma) p (unat (m_size m));
                  md \<leftarrow> mem_write (m_data m) 0 d;
                  let m = m\<lparr>m_data := add_baz (unat (m_size m)) (ucast (saved_baz dma)) md\<rparr>;
                  (_, _, dma) \<leftarrow> pcie_net_send_msg dma m;
                  Some dma }
                else Some dma);
        let dma = dma\<lparr>regs := (regs dma)[DMA_REG_STA :=
                    push_bit 31 1 OR (saved_ctl dma AND 0xffff)]\<rparr>;
        if saved_ctl dma AND push_bit 30 1 \<noteq> 0
        then map_option snd (pcie_send_msi stk dma)
        else Some dma
      })"

section \<open>Dispatch and main\<close>

text \<open>A call through a pointer of the wrong type is undefined.\<close>

definition dma_call_read :: "(dma_fn, dma) call_read" where
  "dma_call_read f addr data sz p dma = (case f of
      Dma_on_read \<Rightarrow> map_option (\<lambda>d. (d, dma)) (dma_on_read addr data sz dma)
    | _ \<Rightarrow> None)"

definition dma_call_write :: "(dma_fn, dma) call_write" where
  "dma_call_write f addr data sz p dma = (case f of
      Dma_on_write \<Rightarrow> dma_on_write addr data sz p dma
    | _ \<Rightarrow> None)"

definition dma_call_task :: "net_msg option \<Rightarrow> net_msg \<Rightarrow> (dma_fn, dma) taskfn" where
  "dma_call_task malloc_ret stk f p dma = (case f of
      Dma_finalize_transfer \<Rightarrow> finalize_transfer malloc_ret stk dma
    | _ \<Rightarrow> None)"

definition dma_call_ev :: "(dma_fn, dma) evfn" where
  "dma_call_ev f key p dma = None"

text \<open>
  \<open>main\<close> up to the loop: \<open>dma\<close> is the uninitialised structure on the stack and \<open>self\<close> its
  address.
\<close>

definition dma_main_init ::
  "tcp_env \<Rightarrow> ptr \<Rightarrow> dma \<Rightarrow> (int \<times> os_call list \<times> dma) option" where
  "dma_main_init e self dma = do {
     let dma = dma\<lparr>bram := map of_nat [0..<sizeof_bram]\<rparr>;
     (r, calls, dma) \<leftarrow> pcie_init_net e dma;
     if r = -1 then Some (-1, calls, dma)
     else do {
       (_, dma) \<leftarrow> pcie_set_vendorid dma 0x2a2a;
       (_, dma) \<leftarrow> pcie_set_deviceid dma 0x2b2b;
       (_, dma) \<leftarrow> pcie_set_bar dma 1 0x100 (Some Dma_on_read) (Some Dma_on_write) self;
       Some (0, calls, dma)
     }
   }"

text \<open>
  \<open>main\<close>: the result is \<open>None\<close> in the inner option while the loop is still running after the
  given results of \<open>select\<close>.
\<close>

definition dma_main ::
  "tcp_env \<Rightarrow> ptr \<Rightarrow> dma \<Rightarrow> byte list option \<Rightarrow> net_reply \<Rightarrow> net_msg option \<Rightarrow> net_msg \<Rightarrow>
     sel_result list \<Rightarrow> (int option \<times> os_call list \<times> dma) option" where
  "dma_main e self dma loop_buf rep malloc_ret stk sels = do {
     (r, calls, dma) \<leftarrow> dma_main_init e self dma;
     if r = -1 then Some (Some (-1), calls, dma)
     else do {
       (c, dma) \<leftarrow> pcie_loop dma_call_read dma_call_write dma_call_ev
                     (dma_call_task malloc_ret stk) loop_buf rep sels dma;
       case c of Running \<Rightarrow> Some (None, calls, dma)
               | Returned _ \<Rightarrow> Some (Some 0, calls @ snd (pcie_fini dma), dma)
     }
   }"

section \<open>The registers\<close>

text \<open>
  The structure as \<open>main\<close> builds it: sizes, the callbacks of BAR 1 and nothing else, no event
  descriptor, and no task but the completion of a transfer.
\<close>

definition dma_inv :: "dma \<Rightarrow> bool" where
  "dma_inv dma \<longleftrightarrow> dev_wf dma \<and> length (regs dma) = DMA_REG_COUNT \<and> length (bram dma) = sizeof_bram \<and>
     bar_readfn dma = [None, Some Dma_on_read, None, None, None, None] \<and>
     bar_writefn dma = [None, Some Dma_on_write, None, None, None, None] \<and>
     task_fn dma \<in> {None, Some Dma_finalize_transfer} \<and> ev_fd dma = -1"

text \<open>What an access to BAR 1 must satisfy to stay inside the register file and the reply.\<close>

definition dma_rd_ok :: "nat \<Rightarrow> u64 \<Rightarrow> nat \<Rightarrow> bool" where
  "dma_rd_ok b a w \<longleftrightarrow> (b = 1 \<longrightarrow> w \<le> 8 \<and> (unat a = 16 \<longrightarrow> w \<le> 4))"

definition dma_wr_ok :: "nat \<Rightarrow> u64 \<Rightarrow> nat \<Rightarrow> bool" where
  "dma_wr_ok b a w \<longleftrightarrow> (b = 1 \<longrightarrow> unat a + w \<le> 20 \<and> w \<le> 4096)"

definition dma_reg_addrs :: "u64 set" where
  "dma_reg_addrs = {0, 4, 8, 12, 16}"

lemma reg_addr_set: "addr \<in> set (map DMA_REG_ADDR
    [DMA_REG_CTL, DMA_REG_STA, DMA_REG_ADL, DMA_REG_ADH, DMA_REG_BAZ]) \<longleftrightarrow> addr \<in> dma_reg_addrs"
  by (simp add: DMA_REG_ADDR_def dma_reg_addrs_def const_defs)

lemma dma_on_read_total_iff:
  "length (regs dma) = 5 \<Longrightarrow> length data = 8 \<Longrightarrow> dma_on_read addr data sz dma \<noteq> None \<longleftrightarrow>
     sz \<le> 8 \<and> (addr \<in> dma_reg_addrs \<longrightarrow> unat addr + sz \<le> 20)"
  unfolding dma_on_read_def reg_addr_set
  by (auto simp: mem_read_def mem_write_def)

lemma dma_on_write_total_iff:
  "length (regs dma) = 5 \<Longrightarrow> sz \<le> length data \<Longrightarrow>
     dma_on_write addr data sz p dma \<noteq> None \<longleftrightarrow> unat addr + sz \<le> 20"
  by (auto simp: dma_on_write_def mem_read_def mem_write_def Let_def split: Option.bind_splits)

text \<open>
  A read through BAR 1 is safe exactly when it fits the eight bytes of the reply and, at
  a register, the register file: the width comes from the message and is not checked.
\<close>

lemma dma_on_read_safe_iff:
  assumes "length (regs dma) = 5" and "length data = 8"
  shows "dma_on_read addr data sz dma \<noteq> None \<longleftrightarrow>
     sz \<le> 8 \<and> (addr \<in> dma_reg_addrs \<longrightarrow> unat addr + sz \<le> 20)"
  using dma_on_read_total_iff [OF assms] .

text \<open>
  A write through BAR 1 is safe exactly when it ends inside the twenty bytes of the five
  registers. The handler does not look at the address, so the addresses 0x14 to 0xff of the BAR
  the device itself announces are outside.
\<close>

lemma dma_on_write_safe_iff:
  assumes "length (regs dma) = 5" and "sz \<le> length data"
  shows "dma_on_write addr data sz p dma \<noteq> None \<longleftrightarrow> unat addr + sz \<le> 20"
  using dma_on_write_total_iff [OF assms] .

lemma unat_reg_addr: "r < 5 \<Longrightarrow> unat (DMA_REG_ADDR r) = 4 * r"
  by (simp add: DMA_REG_ADDR_def unat_word_ariths unat_of_nat)

lemma reg_addr_props:
  assumes "0 < r" and "r < 5"
  shows "DMA_REG_ADDR r \<noteq> DMA_REG_ADDR DMA_REG_CTL" "DMA_REG_ADDR r \<in> dma_reg_addrs"
proof -
  have "r = 1 \<or> r = 2 \<or> r = 3 \<or> r = 4" using assms by arith
  then show "DMA_REG_ADDR r \<noteq> DMA_REG_ADDR DMA_REG_CTL" "DMA_REG_ADDR r \<in> dma_reg_addrs"
    by (auto simp: DMA_REG_ADDR_def dma_reg_addrs_def DMA_REG_CTL_def)
qed

lemma dma_write_reg:
  assumes "length (regs dma) = 5" and "0 < r" and "r < 5"
  shows "dma_on_write (DMA_REG_ADDR r) (le_bytes 4 x @ rest) 4 p dma =
     Some (dma\<lparr>regs := (regs dma)[r := x]\<rparr>)"
  using mem_write_word [of r "regs dma" x] assms reg_addr_props(1) [OF assms(2,3)]
  by (simp add: dma_on_write_def mem_read_def unat_reg_addr)

text \<open>
  A 32-bit register other than CTL written with four bytes holds that value, which a
  four-byte read returns little-endian in the low half of the reply; no other register, and
  nothing else of the engine, changes.
\<close>

lemma dma_register_roundtrip:
  assumes "length (regs dma) = 5" and "0 < r" and "r < 5" and "length data = 8"
  shows "\<exists>dma'. dma_on_write (DMA_REG_ADDR r) (le_bytes 4 x @ rest) 4 p dma = Some dma' \<and>
     dma' = dma\<lparr>regs := (regs dma)[r := x]\<rparr> \<and>
     dma_on_read (DMA_REG_ADDR r) data 4 dma' = Some (le_bytes 4 x @ drop 4 data)"
proof -
  have "dma_on_read (DMA_REG_ADDR r) data 4 (dma\<lparr>regs := (regs dma)[r := x]\<rparr>) =
      Some (le_bytes 4 x @ drop 4 data)"
    using mem_read_word [of r "(regs dma)[r := x]"] assms reg_addr_props(2) [OF assms(2,3)]
    unfolding dma_on_read_def reg_addr_set by (simp add: unat_reg_addr mem_write_def)
  then show ?thesis using dma_write_reg [OF assms(1-3)] by blast
qed

section \<open>Starting a transfer\<close>

lemma dma_write_ctl_reg:
  assumes "length (regs dma) = 5"
  shows "dma_on_write (DMA_REG_ADDR DMA_REG_CTL) (le_bytes 4 x @ rest) 4 p dma = Some
    (if x AND push_bit 31 1 \<noteq> 0 then
       dma\<lparr>regs := (regs dma)[DMA_REG_CTL := x, DMA_REG_STA := 0],
           saved_ctl := x, saved_adl := regs dma ! DMA_REG_ADL, saved_adh := regs dma ! DMA_REG_ADH,
           saved_baz := regs dma ! DMA_REG_BAZ,
           task_tm := \<lparr>tv_sec = 0, tv_usec = 1000\<rparr>, task_fn := Some Dma_finalize_transfer,
           task_data := p\<rparr>
     else dma\<lparr>regs := (regs dma)[DMA_REG_CTL := x]\<rparr>)"
proof -
  have a: "unat (DMA_REG_ADDR 0) = 0" by (simp add: DMA_REG_ADDR_def)
  have "mem_write (words_to_bytes (regs dma)) 0 (le_bytes 4 x) =
      Some (words_to_bytes ((regs dma)[0 := x]))"
    using mem_write_word [of 0 "regs dma" x] assms by simp
  moreover have "mem_read (le_bytes 4 x @ rest) 0 4 = Some (le_bytes 4 x)"
    by (simp add: mem_read_def)
  ultimately show ?thesis using assms
    by (simp add: dma_on_write_def a pcie_add_task_def pcie_net_add_task_def
        DMA_REG_CTL_def DMA_REG_STA_def DMA_REG_ADL_def DMA_REG_ADH_def DMA_REG_BAZ_def)
qed
text \<open>
  Writing CTL with bit 31 set captures the control word, the address and the seed, clears
  STA and schedules the completion, replacing any completion that was pending; without bit 31
  only the register changes.
\<close>

lemma dma_write_ctl:
  assumes "length (regs dma) = 5"
  shows "dma_on_write (DMA_REG_ADDR DMA_REG_CTL) (le_bytes 4 x @ rest) 4 p dma = Some
    (if x AND push_bit 31 1 \<noteq> 0 then
       dma\<lparr>regs := (regs dma)[DMA_REG_CTL := x, DMA_REG_STA := 0],
           saved_ctl := x, saved_adl := regs dma ! DMA_REG_ADL, saved_adh := regs dma ! DMA_REG_ADH,
           saved_baz := regs dma ! DMA_REG_BAZ,
           task_tm := \<lparr>tv_sec = 0, tv_usec = 1000\<rparr>, task_fn := Some Dma_finalize_transfer,
           task_data := p\<rparr>
     else dma\<lparr>regs := (regs dma)[DMA_REG_CTL := x]\<rparr>)"
  using dma_write_ctl_reg [OF assms] .

text \<open>A concrete engine for the witnesses: no connection and the registers all zero.\<close>

definition zero_dma :: dma where
  "zero_dma = \<lparr>server_fd = 3, net_fd = 4, ev_fd = -1, ev_fn = None, ev_data = 0,
     task_tm = \<lparr>tv_sec = 0, tv_usec = 0\<rparr>, task_fn = None, task_data = 0,
     sock = \<lparr>sk_rx = [], sk_tx = [], sk_snd = [], sk_fail = []\<rparr>,
     bar_size = [0, 0x100, 0, 0, 0, 0],
     bar_readfn = [None, Some Dma_on_read, None, None, None, None],
     bar_writefn = [None, Some Dma_on_write, None, None, None, None],
     bar_data = replicate 6 0, config = replicate 4096 0,
     regs = replicate 5 0, bram = replicate sizeof_bram 7,
     saved_ctl = 0, saved_adh = 0, saved_adl = 0, saved_baz = 0\<rparr>"

lemma regs_zero_dma: "length (regs zero_dma) = 5"
  by (simp add: zero_dma_def)

lemma dma_on_read_safe_iff_witness:
  "dma_on_read 16 (replicate 8 0) 8 zero_dma = None \<and>
   dma_on_read 20 (replicate 8 0) 8 zero_dma \<noteq> None"
proof -
  have "length (replicate 8 (0 :: byte)) = 8" by simp
  note iff = dma_on_read_safe_iff [OF regs_zero_dma this]
  show ?thesis using iff [of 16 8] iff [of 20 8] by (auto simp: dma_reg_addrs_def)
qed

lemma dma_on_write_safe_iff_witness:
  "dma_on_write 0x20 (replicate 4 0) 4 0 zero_dma = None \<and>
   dma_on_write 0x10 (replicate 4 0) 4 0 zero_dma \<noteq> None"
proof -
  have "4 \<le> length (replicate 4 (0 :: byte))" by simp
  note iff = dma_on_write_safe_iff [OF regs_zero_dma this]
  show ?thesis using iff [of "0x20" 0] iff [of "0x10" 0] by simp
qed

lemma dma_register_roundtrip_witness:
  "\<exists>dma'. dma_on_write (DMA_REG_ADDR DMA_REG_BAZ) (le_bytes 4 (0x2a :: u32)) 4 0 zero_dma = Some dma' \<and>
     dma_on_read (DMA_REG_ADDR DMA_REG_BAZ) (replicate 8 0) 4 dma' = Some [0x2a, 0, 0, 0, 0, 0, 0, 0]"
proof -
  have b: "DMA_REG_BAZ = 4" by (rule DMA_REG_BAZ_def)
  have "le_bytes 4 (0x2a :: u32) = [0x2a, 0, 0, 0]" by (subst le_bytes_4) simp
  moreover have "drop 4 (replicate 8 (0 :: byte)) = [0, 0, 0, 0]" by (simp add: numeral_eq_Suc)
  ultimately have e: "le_bytes 4 (0x2a :: u32) @ drop 4 (replicate 8 0) = [0x2a, 0, 0, 0, 0, 0, 0, 0]"
    by simp
  show ?thesis
    using dma_register_roundtrip [OF regs_zero_dma, of 4 "replicate 8 0" "0x2a" "[]" 0]
    unfolding b e by auto
qed

lemma dma_write_ctl_witness:
  "\<exists>dma'. dma_on_write (DMA_REG_ADDR DMA_REG_CTL) (le_bytes 4 (0xc0008000 :: u32)) 4 9 zero_dma
       = Some dma' \<and>
     saved_ctl dma' = 0xc0008000 \<and> task_fn dma' = Some Dma_finalize_transfer \<and> task_data dma' = 9"
  using dma_write_ctl [OF regs_zero_dma, of "0xc0008000" "[]" 9] by simp

end
