(* ===== verification/Vm_Bridge.thy ===== *)
theory Vm_Bridge
  imports Pcie_Dev
begin

text \<open>
  The other end of the connection: the device the patch
  \<open>src/qemu/58617a795c8067b2f9800cffce60f38707d3aa31/pciefw.patch\<close> adds to QEMU (\<open>hw/pciefw.c\<close>),
  which turns accesses of the guest into messages, waits for the replies, and carries out what the
  device behind the connection sends. Modelled here are the messages in both directions, the access to
  memory and configuration space and the probe of the BARs; start and end of the device are in
  \<open>Bridge_Life\<close>. QEMU itself is an argument (\<open>qemu\<close>); writes to the guest's memory, notified interrupts
  and the calls that acquire or release something are kept in the state.

  The second half puts bridge and device together: the bytes each of them sends arrive at the other
  (\<open>wire\<close>), and the device runs its loop whenever there is something to read or its timeout elapses.
\<close>

section \<open>The bridge\<close>

text \<open>
  The calls that acquire or release something: the connection (whether it was opened), the handler of
  its descriptor (set or cleared), the memory regions of the BARs, the MSI capability, and the three
  allocations of the start.
\<close>

datatype bridge_block = Blk_msg | Blk_optlist | Blk_opts

datatype qemu_call = Q_connect bool | Q_closesocket | Q_set_handler | Q_clear_handler
  | Q_region_init nat u64 | Q_region_destroy nat | Q_register_bar nat | Q_del_subregion nat
  | Q_msi_init | Q_msi_uninit | Q_alloc bridge_block | Q_free bridge_block

text \<open>
  \<open>pciefw_state_t\<close>: the socket (\<open>br_up\<close> when it is not -1), the one message buffer, the memory of
  the guest, the number of interrupts it was notified of, its copy of the configuration space,
  the sizes of the BARs and \<open>has_probed\<close>; and the calls made.
\<close>

record bridge =
  br_up :: bool
  br_sock :: sock
  br_msg :: net_msg
  br_mem :: "u64 \<Rightarrow> byte"
  br_msis :: nat
  br_conf :: "byte list"
  br_bar_size :: "u64 list"
  br_probed :: bool
  br_calls :: "qemu_call list"

definition qemu_do :: "qemu_call \<Rightarrow> 'z bridge_scheme \<Rightarrow> 'z bridge_scheme" where
  "qemu_do c s = s\<lparr>br_calls := br_calls s @ [c]\<rparr>"

definition sizeof_header :: nat where [const_defs]: "sizeof_header = 2"

definition pciefw_send_buf :: "byte list \<Rightarrow> 'z bridge_scheme \<Rightarrow> int \<times> 'z bridge_scheme" where
  "pciefw_send_buf d s = (let (n, k) = sys_send d (br_sock s); s = s\<lparr>br_sock := k\<rparr>
     in if n \<noteq> int (length d) then (-1, s) else (0, s))"

definition pciefw_send_msg :: "'z bridge_scheme \<Rightarrow> (int \<times> 'z bridge_scheme) option" where
  "pciefw_send_msg s = do {
     let size = msg_data_off + unat (m_size (br_msg s));
     let s = s\<lparr>br_msg := (br_msg s)\<lparr>m_hsize := of_nat size\<rparr>\<rparr>;
     d \<leftarrow> mem_read (encode_msg (br_msg s)) 0 size;
     Some (pciefw_send_buf d s)
   }"

text \<open>The header is read into the buffer itself.\<close>

definition pciefw_recv_buf :: "'z bridge_scheme \<Rightarrow> (int \<times> 'z bridge_scheme) option" where
  "pciefw_recv_buf s = do {
     let max_size = PCIE_NET_MSG_MAX_SIZE;
     let (n, hb, k) = sys_recv sizeof_header (br_sock s);
     buf \<leftarrow> mem_write (encode_msg (br_msg s)) 0 hb;
     let s = s\<lparr>br_sock := k, br_msg := decode_msg buf\<rparr>;
     if n \<noteq> int sizeof_header then Some (-1, s)
     else if max_size < unat (m_hsize (br_msg s)) then Some (-1, s)
     else do {
       let rem_size = (ucast (m_hsize (br_msg s)) - of_nat sizeof_header :: u64);
       let (n, d, k) = sys_recv (unat rem_size) (br_sock s);
       buf \<leftarrow> mem_write (encode_msg (br_msg s)) sizeof_header d;
       let s = s\<lparr>br_sock := k, br_msg := decode_msg buf\<rparr>;
       if n \<noteq> sint rem_size then Some (-1, s) else Some (uint (m_hsize (br_msg s)), s) }
   }"

definition pciefw_recv_msg :: "'z bridge_scheme \<Rightarrow> (int \<times> 'z bridge_scheme) option" where
  "pciefw_recv_msg s = do {
     (n, s) \<leftarrow> pciefw_recv_buf s;
     Some (if n > 0 then 0 else if n = 0 then 1 else -1, s)
   }"

text \<open>
  \<open>process_msg\<close>: \<open>pci_dma_write\<close> copies as many bytes as the size field says out of the buffer;
  beyond its end is undefined.
\<close>

definition host_write :: "net_msg \<Rightarrow> (u64 \<Rightarrow> byte) \<Rightarrow> u64 \<Rightarrow> byte" where
  "host_write m mem a =
     (if unat (a - m_addr m) < unat (m_size m) then m_data m ! unat (a - m_addr m) else mem a)"

definition process_msg :: "'z bridge_scheme \<Rightarrow> 'z bridge_scheme option" where
  "process_msg s = (let m = br_msg s in
     if m_op m = PCIE_NET_OP_WRITE_MEM then
       (if unat (m_size m) \<le> length (m_data m) then Some (s\<lparr>br_mem := host_write m (br_mem s)\<rparr>) else None)
     else if m_op m = PCIE_NET_OP_MSI then Some (s\<lparr>br_msis := br_msis s + 1\<rparr>)
     else Some s)"

text \<open>
  \<open>pciefw_recv_reply\<close>. The result of \<open>sel\<close> is that of \<open>select\<close>, and whether \<open>errno\<close> is \<open>EINTR\<close>.
  \<open>None\<close> when it never returns.
\<close>

type_synonym 's bsel = "'s \<Rightarrow> (int \<times> bool \<times> 's) option"

partial_function (option) pciefw_recv_reply ::
  "'z bridge_scheme bsel \<Rightarrow> 'z bridge_scheme \<Rightarrow> (int \<times> net_reply option \<times> 'z bridge_scheme) option" where
  "pciefw_recv_reply sel s = do {
     (n, eintr, s) \<leftarrow> sel s;
     if n \<le> 0 then (if eintr then pciefw_recv_reply sel s else Some (-1, None, s))
     else do {
       (err, s) \<leftarrow> pciefw_recv_msg s;
       if err = -1 then Some (-1, None, s)
       else if err = 0 then
         (if unat (m_hsize (br_msg s)) \<le> sizeof_reply
          then Some (0, Some (decode_reply (take sizeof_reply (encode_msg (br_msg s)))), s)
          else do { s \<leftarrow> process_msg s; pciefw_recv_reply sel s })
       else pciefw_recv_reply sel s } }"

section \<open>Accesses\<close>

definition pciefw_send_write_mem ::
  "nat \<Rightarrow> u64 \<Rightarrow> nat \<Rightarrow> u64 \<Rightarrow> 'z bridge_scheme \<Rightarrow> (int \<times> 'z bridge_scheme) option" where
  "pciefw_send_write_mem bar addr width data s = do {
     d \<leftarrow> mem_write (m_data (br_msg s)) 0 (le_bytes 8 data);
     let s = s\<lparr>br_msg := (br_msg s)\<lparr>m_op := PCIE_NET_OP_WRITE_MEM, m_bar := of_nat bar,
           m_width := of_nat width, m_addr := addr, m_size := of_nat width, m_data := d\<rparr>\<rparr>;
     (r, s) \<leftarrow> pciefw_send_msg s;
     Some (if r \<noteq> 0 then -1 else 0, s)
   }"

definition pciefw_send_write_config ::
  "u64 \<Rightarrow> nat \<Rightarrow> u64 \<Rightarrow> 'z bridge_scheme \<Rightarrow> (int \<times> 'z bridge_scheme) option" where
  "pciefw_send_write_config addr width data s = do {
     d \<leftarrow> mem_write (m_data (br_msg s)) 0 (le_bytes 8 data);
     let s = s\<lparr>br_msg := (br_msg s)\<lparr>m_op := PCIE_NET_OP_WRITE_CONFIG, m_width := of_nat width,
           m_addr := addr, m_size := of_nat width, m_data := d\<rparr>\<rparr>;
     (r, s) \<leftarrow> pciefw_send_msg s;
     Some (if r \<noteq> 0 then -1 else 0, s)
   }"

text \<open>The bytes stored through the pointer \<open>data\<close>: none for another width.\<close>

definition pciefw_send_read_common ::
  "'z bridge_scheme bsel \<Rightarrow> u64 \<Rightarrow> nat \<Rightarrow> 'z bridge_scheme \<Rightarrow> (int \<times> byte list \<times> 'z bridge_scheme) option" where
  "pciefw_send_read_common sel addr width s = do {
     let s = s\<lparr>br_msg := (br_msg s)\<lparr>m_addr := addr, m_width := of_nat width, m_size := 0\<rparr>\<rparr>;
     (r, s) \<leftarrow> pciefw_send_msg s;
     if r \<noteq> 0 then Some (-1, [], s)
     else do {
       (r, reply, s) \<leftarrow> pciefw_recv_reply sel s;
       case reply of None \<Rightarrow> Some (-1, [], s)
       | Some reply \<Rightarrow>
           Some (0, if width \<in> {1, 2, 4, 8} then take width (r_data reply) else [], s) }
   }"

definition pciefw_send_read_config ::
  "'z bridge_scheme bsel \<Rightarrow> u64 \<Rightarrow> nat \<Rightarrow> 'z bridge_scheme \<Rightarrow> (int \<times> byte list \<times> 'z bridge_scheme) option" where
  "pciefw_send_read_config sel addr width s =
     pciefw_send_read_common sel addr width (s\<lparr>br_msg := (br_msg s)\<lparr>m_op := PCIE_NET_OP_READ_CONFIG\<rparr>\<rparr>)"

definition pciefw_send_read_mem ::
  "'z bridge_scheme bsel \<Rightarrow> nat \<Rightarrow> u64 \<Rightarrow> nat \<Rightarrow> 'z bridge_scheme \<Rightarrow>
     (int \<times> byte list \<times> 'z bridge_scheme) option" where
  "pciefw_send_read_mem sel bar addr width s =
     pciefw_send_read_common sel addr width
       (s\<lparr>br_msg := (br_msg s)\<lparr>m_op := PCIE_NET_OP_READ_MEM, m_bar := of_nat bar\<rparr>\<rparr>)"

section \<open>The probe of the BARs\<close>

definition PCI_ADDR_FLAG_MASK :: u32 where [const_defs]: "PCI_ADDR_FLAG_MASK = 0xf"

text \<open>
  One turn of the loop of \<open>pciefw_probe_device\<close>. A local \<open>bar_size\<close> the read did not fill is not
  used: the loop goes on with the next BAR.
\<close>

definition probe_bar ::
  "'z bridge_scheme bsel \<Rightarrow> (nat \<Rightarrow> u32 \<Rightarrow> 'z bridge_scheme \<Rightarrow> 'z bridge_scheme) \<Rightarrow> nat \<Rightarrow>
     'z bridge_scheme \<Rightarrow> 'z bridge_scheme option" where
  "probe_bar sel reg i s = do {
     let config_addr = PCI_BASE_ADDRESS_0 + of_nat (i * 4);
     let s = s\<lparr>br_bar_size := (br_bar_size s)[i := 0]\<rparr>;
     (r, s) \<leftarrow> pciefw_send_write_config config_addr 4 (-1) s;
     if r \<noteq> 0 then Some s
     else do {
       (r, d, s) \<leftarrow> pciefw_send_read_config sel config_addr 4 s;
       if r \<noteq> 0 then Some s
       else do {
         let bar_size = (of_le d :: u32);
         a \<leftarrow> mem_read (br_conf s) (unat config_addr) 4;
         (_, s) \<leftarrow> pciefw_send_write_config config_addr 4 (ucast (of_le a :: u32)) s;
         let bar_size = bar_size AND NOT PCI_ADDR_FLAG_MASK;
         let bar_size = NOT bar_size + 1;
         if bar_size = 0 then Some s
         else do {
           let s = s\<lparr>br_bar_size := (br_bar_size s)[i := ucast bar_size]\<rparr>;
           let s = qemu_do (Q_register_bar i) (qemu_do (Q_region_init i (ucast bar_size)) s);
           let s = reg i bar_size s;
           a \<leftarrow> mem_read (br_conf s) (unat config_addr) 4;
           (_, s) \<leftarrow> pciefw_send_write_config config_addr 4 (ucast (of_le a :: u32)) s;
           Some s } } }
   }"

primrec probe_bars ::
  "'z bridge_scheme bsel \<Rightarrow> (nat \<Rightarrow> u32 \<Rightarrow> 'z bridge_scheme \<Rightarrow> 'z bridge_scheme) \<Rightarrow> nat \<Rightarrow>
     'z bridge_scheme \<Rightarrow> 'z bridge_scheme option" where
  "probe_bars sel reg 0 s = Some s"
| "probe_bars sel reg (Suc n) s = do { s \<leftarrow> probe_bars sel reg n s; probe_bar sel reg n s }"

text \<open>
  What the bridge needs of QEMU: the blocking \<open>select\<close>, opening the connection (whether it
  succeeded), the effect of registering a BAR and of adding the MSI capability, whether a BAR is
  registered and has an address, and \<open>PCI_NUM_REGIONS\<close>.
\<close>

record 's qemu =
  q_select :: "'s bsel"
  q_dial :: "'s \<Rightarrow> bool \<times> 's"
  q_register :: "nat \<Rightarrow> u32 \<Rightarrow> 's \<Rightarrow> 's"
  q_msi :: "'s \<Rightarrow> 's"
  q_mapped :: "nat \<Rightarrow> 's \<Rightarrow> bool"
  q_regions :: nat

definition unprobe_region :: "'z bridge_scheme qemu \<Rightarrow> nat \<Rightarrow> 'z bridge_scheme \<Rightarrow> 'z bridge_scheme" where
  "unprobe_region q i s =
     (let s = (if q_mapped q i s then qemu_do (Q_del_subregion i) s else s)
      in if br_bar_size s ! i \<noteq> 0 then qemu_do (Q_region_destroy i) s else s)"

definition pciefw_unprobe_device :: "'z bridge_scheme qemu \<Rightarrow> 'z bridge_scheme \<Rightarrow> 'z bridge_scheme" where
  "pciefw_unprobe_device q s = (if br_probed s
     then (fold (unprobe_region q) [0..<q_regions q] (qemu_do Q_msi_uninit s))\<lparr>br_probed := False\<rparr>
     else s)"

text \<open>
  Offset 4 is the low byte of the command register: both decoders are enabled. The result of \<open>msi_init\<close> is
  only printed.
\<close>

definition pciefw_probe_device :: "'z bridge_scheme qemu \<Rightarrow> 'z bridge_scheme \<Rightarrow> 'z bridge_scheme option" where
  "pciefw_probe_device q s = do {
     let s = pciefw_unprobe_device q s;
     c \<leftarrow> mem_write (br_conf s) 4 [3];
     s \<leftarrow> probe_bars (q_select q) (q_register q) (q_regions q) (s\<lparr>br_conf := c\<rparr>);
     let s = q_msi q (qemu_do Q_msi_init s);
     Some (s\<lparr>br_probed := True\<rparr>)
   }"

definition pciefw_connect_probe_device ::
  "'z bridge_scheme qemu \<Rightarrow> 'z bridge_scheme \<Rightarrow> (int \<times> 'z bridge_scheme) option" where
  "pciefw_connect_probe_device q s =
     (let (ok, s) = q_dial q s; s = (qemu_do (Q_connect ok) s)\<lparr>br_up := ok\<rparr> in
     if \<not> ok then Some (-1, s)
     else do { s \<leftarrow> pciefw_probe_device q s; Some (0, qemu_do Q_set_handler s) })"

definition pciefw_connect_if_unconnected ::
  "'z bridge_scheme qemu \<Rightarrow> 'z bridge_scheme \<Rightarrow> (int \<times> 'z bridge_scheme) option" where
  "pciefw_connect_if_unconnected q s = (if br_up s then Some (0, s) else pciefw_connect_probe_device q s)"

section \<open>What QEMU calls\<close>

definition pciefw_mmio_read ::
  "'z bridge_scheme qemu \<Rightarrow> nat \<Rightarrow> u64 \<Rightarrow> nat \<Rightarrow> 'z bridge_scheme \<Rightarrow> (u64 \<times> 'z bridge_scheme) option" where
  "pciefw_mmio_read q bar addr width s = do {
     (c, s) \<leftarrow> pciefw_connect_if_unconnected q s;
     if c = -1 then Some (-1, s)
     else do {
       (err, d, s) \<leftarrow> pciefw_send_read_mem (q_select q) bar addr width s;
       Some (if err \<noteq> 0 then -1 else of_le d, s) }
   }"

definition pciefw_mmio_write ::
  "'z bridge_scheme qemu \<Rightarrow> nat \<Rightarrow> u64 \<Rightarrow> u64 \<Rightarrow> nat \<Rightarrow> 'z bridge_scheme \<Rightarrow> 'z bridge_scheme option" where
  "pciefw_mmio_write q bar addr data width s = do {
     (c, s) \<leftarrow> pciefw_connect_if_unconnected q s;
     if c = -1 then Some s
     else map_option snd (pciefw_send_write_mem bar addr width data s)
   }"

definition pciefw_read_config ::
  "'z bridge_scheme qemu \<Rightarrow> u32 \<Rightarrow> nat \<Rightarrow> 'z bridge_scheme \<Rightarrow> (u32 \<times> 'z bridge_scheme) option" where
  "pciefw_read_config q addr width s = do {
     (c, s) \<leftarrow> pciefw_connect_if_unconnected q s;
     if c = -1 then Some (-1, s)
     else do {
       (err, d, s) \<leftarrow> pciefw_send_read_config (q_select q) (ucast addr) width s;
       Some (if err \<noteq> 0 then -1 else ucast (of_le d :: u64), s) }
   }"

text \<open>\<open>dflt\<close> is \<open>pci_default_write_config\<close>.\<close>

definition pciefw_write_config ::
  "'z bridge_scheme qemu \<Rightarrow> (u32 \<Rightarrow> u32 \<Rightarrow> nat \<Rightarrow> 'z bridge_scheme \<Rightarrow> 'z bridge_scheme) \<Rightarrow> u32 \<Rightarrow> u32 \<Rightarrow>
     nat \<Rightarrow> 'z bridge_scheme \<Rightarrow> 'z bridge_scheme option" where
  "pciefw_write_config q dflt addr data width s = do {
     (c, s) \<leftarrow> pciefw_connect_if_unconnected q s;
     s \<leftarrow> (if c \<noteq> -1 then map_option snd (pciefw_send_write_config (ucast addr) width (ucast data) s)
          else Some s);
     Some (dflt addr data width s)
   }"

text \<open>\<open>pciefw_on_read\<close>; nothing to read is \<open>select\<close> returning 0.\<close>

definition pciefw_on_read :: "'z bridge_scheme \<Rightarrow> 'z bridge_scheme option" where
  "pciefw_on_read s =
     (if sk_rx (br_sock s) = [] then Some s
      else do {
        (err, s) \<leftarrow> pciefw_recv_msg s;
        if err \<noteq> 0 then Some (if br_up s
          then (qemu_do Q_closesocket (qemu_do Q_clear_handler s))\<lparr>br_up := False\<rparr> else s)
        else process_msg s })"

section \<open>Bridge and device together\<close>

text \<open>
  The state: the bridge, the device with its loop's locals, and the schedule, which says for each
  access of the guest whose turns come before (a read) or after it (a write). The callbacks of the
  device are an argument.
\<close>

datatype vm_turn = Turn_dev | Turn_bridge

record 'd vm = bridge +
  vm_dev :: 'd
  vm_loc :: loop_locals
  vm_sched :: "vm_turn list list"

record ('f, 's) callbacks =
  cb_recv :: "'s recvfn"
  cb_ev :: "('f, 's) evfn"
  cb_task :: "('f, 's) taskfn"

text \<open>What either side has sent arrives at the other.\<close>

definition wire :: "('f, 'z) pcie_net_scheme vm \<Rightarrow> ('f, 'z) pcie_net_scheme vm" where
  "wire s = (let k = br_sock s; d = vm_dev s; kd = sock d in
     s\<lparr>br_sock := k\<lparr>sk_rx := sk_rx k @ sk_tx kd, sk_tx := []\<rparr>,
       vm_dev := d\<lparr>sock := kd\<lparr>sk_rx := sk_rx kd @ sk_tx k, sk_tx := []\<rparr>\<rparr>\<rparr>)"

text \<open>
  One iteration of the device's loop: it reads if there is something to read, otherwise its timeout
  elapses if it has set one, otherwise it is blocked. A device that leaves its loop ends the model.
\<close>

definition dev_blocked :: "('f, 'z) pcie_net_scheme vm \<Rightarrow> bool" where
  "dev_blocked s \<longleftrightarrow> sk_rx (sock (vm_dev s)) = [] \<and> net_select_tm (vm_dev s) = None"

definition dev_turn ::
  "('f, ('f, 'z) pcie_net_scheme) callbacks \<Rightarrow> ('f, 'z) pcie_net_scheme vm \<Rightarrow> ('f, 'z) pcie_net_scheme vm option" where
  "dev_turn cb s = do {
     let ready = sk_rx (sock (vm_dev s)) \<noteq> [];
     (c, l, d) \<leftarrow> pcie_net_loop_iter (cb_recv cb) (cb_ev cb) (cb_task cb)
        (if ready then Sel_Ready [net_fd (vm_dev s)] None else Sel_Timeout) (vm_loc s) (vm_dev s);
     if c = Running then Some (wire (s\<lparr>vm_loc := l, vm_dev := d\<rparr>)) else None
   }"

text \<open>The bridge blocks in \<open>select\<close> while the device runs.\<close>

partial_function (option) vm_select ::
  "('f, ('f, 'z) pcie_net_scheme) callbacks \<Rightarrow> ('f, 'z) pcie_net_scheme vm \<Rightarrow>
     (int \<times> bool \<times> ('f, 'z) pcie_net_scheme vm) option" where
  "vm_select cb s = (let s = wire s in
     if sk_rx (br_sock s) \<noteq> [] then Some (1, False, s)
     else if dev_blocked s then None
     else do { s \<leftarrow> dev_turn cb s; vm_select cb s })"

text \<open>The turns of a schedule.\<close>

fun vm_step where
  "vm_step cb Turn_dev s = (let s = wire s in if dev_blocked s then Some s else dev_turn cb s)"
| "vm_step cb Turn_bridge s = pciefw_on_read (wire s)"

primrec vm_steps ::
  "('f, ('f, 'z) pcie_net_scheme) callbacks \<Rightarrow> vm_turn list \<Rightarrow> ('f, 'z) pcie_net_scheme vm \<Rightarrow>
     ('f, 'z) pcie_net_scheme vm option" where
  "vm_steps cb [] s = Some s"
| "vm_steps cb (t # ts) s = do { s \<leftarrow> vm_step cb t s; vm_steps cb ts s }"

definition vm_scheduled ::
  "('f, ('f, 'z) pcie_net_scheme) callbacks \<Rightarrow> ('f, 'z) pcie_net_scheme vm \<Rightarrow> ('f, 'z) pcie_net_scheme vm option" where
  "vm_scheduled cb s = (case vm_sched s of [] \<Rightarrow> Some s
     | ts # r \<Rightarrow> vm_steps cb ts (s\<lparr>vm_sched := r\<rparr>))"

text \<open>A 32-bit access of the guest to a BAR.\<close>

definition vm_read32 ::
  "('f, ('f, 'z) pcie_net_scheme) callbacks \<Rightarrow> ('f, 'z) pcie_net_scheme vm qemu \<Rightarrow> nat \<Rightarrow> u64 \<Rightarrow>
     ('f, 'z) pcie_net_scheme vm \<Rightarrow> (u32 \<times> ('f, 'z) pcie_net_scheme vm) option" where
  "vm_read32 cb q bar a s = do {
     s \<leftarrow> vm_scheduled cb s;
     (x, s) \<leftarrow> pciefw_mmio_read (q\<lparr>q_select := vm_select cb\<rparr>) bar a 4 s;
     Some (ucast x, s)
   }"

definition vm_write32 ::
  "('f, ('f, 'z) pcie_net_scheme) callbacks \<Rightarrow> ('f, 'z) pcie_net_scheme vm qemu \<Rightarrow> nat \<Rightarrow> u64 \<Rightarrow> u32 \<Rightarrow>
     ('f, 'z) pcie_net_scheme vm \<Rightarrow> ('f, 'z) pcie_net_scheme vm option" where
  "vm_write32 cb q bar a x s = do {
     s \<leftarrow> pciefw_mmio_write (q\<lparr>q_select := vm_select cb\<rparr>) bar a (ucast x) 4 s;
     vm_scheduled cb s
   }"

section \<open>Frames at the bridge\<close>

definition msg_room :: "net_msg \<Rightarrow> bool" where "msg_room m \<longleftrightarrow> length (m_data m) = 4096"

lemma recv_buf_steps:
  assumes "sys_recv 2 (br_sock s) = (2, hb, k1)" and "mem_write (encode_msg (br_msg s)) 0 hb = Some b1"
    and "m_hsize (decode_msg b1) = h" and "unat h \<le> 4111" and "r = (ucast h - 2 :: u64)"
    and "sys_recv (unat r) k1 = (n, d, k2)" and "mem_write (encode_msg (decode_msg b1)) 2 d = Some b2" and "sint r = n"
  shows "pciefw_recv_buf s = Some (uint (m_hsize (decode_msg b2)), s\<lparr>br_sock := k2, br_msg := decode_msg b2\<rparr>)"
proof -
  have "ucast h - (2 :: u64) = r" using assms(5) by simp
  then show ?thesis
    unfolding pciefw_recv_buf_def sizeof_header_def Let_def
    using assms(1-4,6-8) by (simp add: PCIE_NET_MSG_MAX_SIZE_def msg_data_off_def)
qed

lemma encode_decode_msg:
  assumes "length b = 4111"
  shows "encode_msg (decode_msg b) = b"
proof -
  have 1: "le_bytes 2 (of_le (take 2 b) :: u16) = take 2 b" "le_bytes 8 (of_le (take 8 (drop 5 b)) :: u64) = take 8 (drop 5 b)"
    "le_bytes 2 (of_le (take 2 (drop 13 b)) :: u16) = take 2 (drop 13 b)"
    using assms le_bytes_of_le [of "take 2 b", where 'a = 16] le_bytes_of_le [of "take 8 (drop 5 b)", where 'a = 64]
      le_bytes_of_le [of "take 2 (drop 13 b)", where 'a = 16] by simp_all
  have 2: "take 2 b @ b ! 2 # b ! 3 # b ! 4 # drop 5 b = b"
    using assms by (simp add: Cons_nth_drop_Suc eval_nat_numeral)
  have 3: "take 8 (drop 5 b) @ take 2 (drop 13 b) @ drop 15 b = drop 5 b"
    by (rule nth_equalityI) (use assms in \<open>auto simp: nth_append\<close>)
  show ?thesis using 2 3 by (simp add: encode_msg_def decode_msg_def 1)
qed

text \<open>What is left of the message after its header, as the code computes it.\<close>

lemma rest_of_msg:
  assumes "unat (h :: u16) = 2 + n" and "n < 2 ^ 63"
  shows "unat (ucast h - 2 :: u64) = n" and "sint (ucast h - 2 :: u64) = int n"
proof -
  have cast: "unat (ucast h :: u64) = unat h" by (rule unat_ucast_up) simp
  have "(2 :: u64) \<le> ucast h" using assms(1) by (simp add: word_le_nat cast)
  then show "unat (ucast h - 2 :: u64) = n" by (simp add: unat_sub cast assms(1))
  then show "sint (ucast h - 2 :: u64) = int n"
    using sint_of_small [of "ucast h - 2"] assms(2) by simp
qed

lemma bridge_recv_buf:
  assumes k: "sk_fail (br_sock s) = []" and rx: "sk_rx (br_sock s) = le_bytes 2 (h :: u16) @ body @ rest"
    and h: "unat h = 2 + length body" "unat h \<le> PCIE_NET_MSG_MAX_SIZE" and m: "msg_room (br_msg s)"
  shows "\<exists>m. pciefw_recv_buf s = Some (int (unat h),
       s\<lparr>br_sock := (br_sock s)\<lparr>sk_rx := rest\<rparr>, br_msg := m\<rparr>) \<and> msg_room m \<and> m_hsize m = h \<and>
     take (unat h) (encode_msg m) = le_bytes 2 h @ body"
proof -
  let ?e = "encode_msg (br_msg s)"
  have e: "length ?e = 4111" using m by (simp add: msg_room_def msg_data_off_def)
  have lim: "unat h \<le> 4111" using h(2) by (simp add: const_defs)
  let ?b1 = "le_bytes 2 h @ drop 2 ?e" and ?b2 = "le_bytes 2 h @ body @ drop (unat h) ?e"
  have rem: "unat (ucast h - 2 :: u64) = length body" and srem: "sint (ucast h - 2 :: u64) = int (length body)"
    using rest_of_msg [OF h(1)] lim h(1) by simp_all
  have r1: "sys_recv 2 (br_sock s) = (2, le_bytes 2 h, (br_sock s)\<lparr>sk_rx := body @ rest\<rparr>)"
    using k rx by (simp add: sys_recv_def)
  have r2: "sys_recv (length body) ((br_sock s)\<lparr>sk_rx := body @ rest\<rparr>) =
      (int (length body), body, (br_sock s)\<lparr>sk_rx := rest\<rparr>)"
    using k by (simp add: sys_recv_def)
  have w1: "mem_write ?e 0 (le_bytes 2 h) = Some ?b1" using e by (simp add: mem_write_def numeral_2_eq_2)
  have w2: "mem_write ?b1 2 body = Some ?b2" using e lim h(1) by (simp add: mem_write_def)
  have hs: "m_hsize (decode_msg (le_bytes 2 h @ y)) = h" for y
    by (simp add: decode_msg_def of_le_le_bytes)
  have len: "length ?b1 = 4111" "length ?b2 = 4111" using e h(1) lim by simp_all
  obtain m1 m2 where m12: "m1 = decode_msg ?b1" "m2 = decode_msg ?b2" by simp
  have m1: "m_hsize m1 = h" "encode_msg m1 = ?b1" using hs encode_decode_msg [OF len(1)] m12 by simp_all
  have m2: "m_hsize m2 = h" "encode_msg m2 = ?b2" using hs encode_decode_msg [OF len(2)] m12 by simp_all
  have "pciefw_recv_buf s = Some (int (unat h), s\<lparr>br_sock := (br_sock s)\<lparr>sk_rx := rest\<rparr>, br_msg := m2\<rparr>)"
  proof -
    have u: "uint (m_hsize m2) = int (unat h)" using m2(1) by simp
    have "pciefw_recv_buf s = Some (uint (m_hsize (decode_msg ?b2)),
        s\<lparr>br_sock := (br_sock s)\<lparr>sk_rx := rest\<rparr>, br_msg := decode_msg ?b2\<rparr>)"
    proof (rule recv_buf_steps [OF r1 w1 _ lim refl])
      show "m_hsize (decode_msg ?b1) = h" using m1(1) m12(1) by (simp only:)
      show "sys_recv (unat (ucast h - 2 :: u64)) ((br_sock s)\<lparr>sk_rx := body @ rest\<rparr>) =
          (int (length body), body, (br_sock s)\<lparr>sk_rx := rest\<rparr>)" unfolding rem by (rule r2)
      show "mem_write (encode_msg (decode_msg ?b1)) 2 body = Some ?b2" using w2 m1(2) m12(1) by (simp only:)
    qed (rule srem)
    then show ?thesis unfolding m12(2) [symmetric] u .
  qed
  moreover have "msg_room m2" using len(2) m12 by (simp add: msg_room_def decode_msg_def)
  moreover have "take (unat h) (encode_msg m2) = le_bytes 2 h @ body"
    using m2(2) h(1) by simp
  moreover have "m_hsize m2 = h" by (rule m2(1))
  ultimately show ?thesis by blast
qed

lemma decode_take:
  "15 \<le> length b \<Longrightarrow> decode_msg (take (15 + n) b) = (decode_msg b)\<lparr>m_data := take n (m_data (decode_msg b))\<rparr>"
  by (simp add: decode_msg_def min_def drop_take)

lemma bridge_recv_frame:
  assumes k: "sk_fail (br_sock s) = []" and rx: "sk_rx (br_sock s) = msg_frame m @ rest"
    and f: "msg_fits m" and m: "msg_room (br_msg s)"
  shows "\<exists>m'. pciefw_recv_msg s = Some (0, s\<lparr>br_sock := (br_sock s)\<lparr>sk_rx := rest\<rparr>, br_msg := m'\<rparr>) \<and>
     msg_room m' \<and> msg_norm m' = msg_norm m \<and> sizeof_reply < unat (m_hsize m')"
proof -
  let ?n = "unat (m_size m)"
  let ?h = "of_nat (msg_data_off + ?n) :: u16"
  let ?m = "m\<lparr>m_hsize := ?h\<rparr>"
  have h: "unat ?h = 15 + ?n" using unat_frame_size [OF f] by (simp add: msg_data_off_def)
  have fr: "msg_frame m = take (15 + ?n) (encode_msg ?m)" by (simp add: msg_frame_def msg_data_off_def Let_def)
  have t2: "take 2 (msg_frame m) = le_bytes 2 ?h" unfolding fr by (simp add: encode_msg_def)
  have split: "msg_frame m = le_bytes 2 ?h @ drop 2 (msg_frame m)"
    using append_take_drop_id [of 2 "msg_frame m"] unfolding t2 by simp
  have "length (msg_frame m) = 15 + ?n" using f unfolding fr by (simp add: msg_fits_def msg_data_off_def)
  then have "unat ?h = 2 + length (drop 2 (msg_frame m))" using h by simp
  moreover have "unat ?h \<le> PCIE_NET_MSG_MAX_SIZE" using h f by (simp add: const_defs msg_fits_def)
  moreover have "sk_rx (br_sock s) = le_bytes 2 ?h @ drop 2 (msg_frame m) @ rest"
    using rx split by (metis append_assoc)
  ultimately obtain m' where m': "pciefw_recv_buf s = Some (int (unat ?h),
       s\<lparr>br_sock := (br_sock s)\<lparr>sk_rx := rest\<rparr>, br_msg := m'\<rparr>)" "msg_room m'" "m_hsize m' = ?h"
    "take (unat ?h) (encode_msg m') = msg_frame m"
    using bridge_recv_buf [OF k _ _ _ m] split by metis
  have "take (15 + ?n) (encode_msg m') = take (15 + ?n) (encode_msg ?m)" using m'(4) h fr by simp
  then have "decode_msg (take (15 + ?n) (encode_msg m')) = decode_msg (take (15 + ?n) (encode_msg ?m))" by simp
  moreover have "15 \<le> length (encode_msg m')" "15 \<le> length (encode_msg ?m)" by (simp_all add: msg_data_off_def)
  ultimately have eq: "m'\<lparr>m_data := take ?n (m_data m')\<rparr> = ?m\<lparr>m_data := take ?n (m_data ?m)\<rparr>"
    using decode_take decode_encode_msg by simp
  have "m_size m' = m_size m" using arg_cong [OF eq, of m_size] by simp
  then have "msg_norm m' = msg_norm m" using eq by (cases m; cases m') (simp add: msg_norm_def)
  moreover have "pciefw_recv_msg s = Some (0, s\<lparr>br_sock := (br_sock s)\<lparr>sk_rx := rest\<rparr>, br_msg := m'\<rparr>)"
    using m'(1) h unfolding pciefw_recv_msg_def by (simp del: of_nat_unat)
  moreover have "sizeof_reply < unat (m_hsize m')" using m'(3) h by (simp add: sizeof_reply_def)
  ultimately show ?thesis using m'(2) by blast
qed

lemma bridge_recv_reply_frame:
  assumes k: "sk_fail (br_sock s) = []" and rx: "sk_rx (br_sock s) = encode_reply r @ rest"
    and r: "r_hsize r = of_nat sizeof_reply" "length (r_data r) = 8" and m: "msg_room (br_msg s)"
  shows "\<exists>m'. pciefw_recv_msg s = Some (0, s\<lparr>br_sock := (br_sock s)\<lparr>sk_rx := rest\<rparr>, br_msg := m'\<rparr>) \<and>
     msg_room m' \<and> m_hsize m' = of_nat sizeof_reply \<and> take sizeof_reply (encode_msg m') = encode_reply r"
proof -
  let ?h = "of_nat sizeof_reply :: u16"
  have h: "unat ?h = 11" by (simp add: sizeof_reply_def)
  have "unat ?h = 2 + length (r_status r # r_data r)" "unat ?h \<le> PCIE_NET_MSG_MAX_SIZE"
    "sk_rx (br_sock s) = le_bytes 2 ?h @ (r_status r # r_data r) @ rest"
    using h r rx by (simp_all add: const_defs encode_reply_def)
  then obtain m' where m': "pciefw_recv_buf s = Some (int (unat ?h),
       s\<lparr>br_sock := (br_sock s)\<lparr>sk_rx := rest\<rparr>, br_msg := m'\<rparr>)" "msg_room m'" "m_hsize m' = ?h"
    "take (unat ?h) (encode_msg m') = encode_reply r"
    using bridge_recv_buf [OF k _ _ _ m, of ?h "r_status r # r_data r" rest] r(1) by (auto simp: encode_reply_def)
  have "pciefw_recv_msg s = Some (0, s\<lparr>br_sock := (br_sock s)\<lparr>sk_rx := rest\<rparr>, br_msg := m'\<rparr>)"
    using m'(1) h unfolding pciefw_recv_msg_def by (simp del: of_nat_unat)
  then show ?thesis using m'(2-4) h by (auto simp: sizeof_reply_def)
qed

section \<open>Sending at the bridge\<close>

definition write_req :: "byte \<Rightarrow> nat \<Rightarrow> u64 \<Rightarrow> nat \<Rightarrow> u64 \<Rightarrow> net_msg" where
  "write_req rq bar a w x = \<lparr>m_hsize = 0, m_op = rq, m_bar = of_nat bar, m_width = of_nat w, m_addr = a,
     m_size = of_nat w, m_data = le_bytes 8 x\<rparr>"

text \<open>A request the bridge is able to send: it is in its buffer and the socket takes it.\<close>

definition bridge_ok :: "'z bridge_scheme \<Rightarrow> bool" where
  "bridge_ok s \<longleftrightarrow> br_up s \<and> msg_room (br_msg s) \<and> sk_snd (br_sock s) = [] \<and> sk_fail (br_sock s) = []"

lemma bridge_send_msg:
  assumes "bridge_ok s" and "msg_fits (br_msg s)"
  shows "\<exists>m. pciefw_send_msg s = Some (0, s\<lparr>br_msg := m,
       br_sock := (br_sock s)\<lparr>sk_tx := sk_tx (br_sock s) @ msg_frame (br_msg s)\<rparr>\<rparr>) \<and> msg_room m"
proof -
  let ?h = "of_nat (msg_data_off + unat (m_size (br_msg s))) :: u16"
  have "mem_read (encode_msg ((br_msg s)\<lparr>m_hsize := ?h\<rparr>)) 0 (msg_data_off + unat (m_size (br_msg s))) =
      Some (msg_frame (br_msg s))"
    using assms(2) by (simp add: mem_read_def msg_frame_def msg_fits_def Let_def)
  then show ?thesis
    using assms(1) unfolding pciefw_send_msg_def Let_def
    by (simp add: pciefw_send_buf_def sys_send_def bridge_ok_def msg_room_def Let_def)
      (rule exI, rule conjI, rule refl, simp)
qed

lemma msg_frame_split:
  "msg_frame m = le_bytes 2 (of_nat (msg_data_off + unat (m_size m)) :: u16) @ [m_op m, m_bar m, m_width m] @
     le_bytes 8 (m_addr m) @ le_bytes 2 (m_size m) @ take (unat (m_size m)) (m_data m)"
  using take_append [of "15 + unat (m_size m)" "le_bytes 2 (of_nat (msg_data_off + unat (m_size m)) :: u16) @
      [m_op m, m_bar m, m_width m] @ le_bytes 8 (m_addr m) @ le_bytes 2 (m_size m)" "m_data m"]
  by (simp add: msg_frame_def encode_msg_def msg_data_off_def Let_def del: take_append take_Cons_numeral)

lemma msg_frame_norm: "msg_norm m = msg_norm m' \<Longrightarrow> msg_fits m \<Longrightarrow> msg_fits m' \<Longrightarrow> msg_frame m = msg_frame m'"
proof -
  assume eq: "msg_norm m = msg_norm m'" and f: "msg_fits m" "msg_fits m'"
  have "m_op m = m_op m'" "m_bar m = m_bar m'" "m_width m = m_width m'" "m_addr m = m_addr m'"
    "m_size m = m_size m'" "take (unat (m_size m)) (m_data m) = take (unat (m_size m)) (m_data m')"
    using arg_cong [OF eq, of m_op] arg_cong [OF eq, of m_bar] arg_cong [OF eq, of m_width]
      arg_cong [OF eq, of m_addr] arg_cong [OF eq, of m_size] arg_cong [OF eq, of m_data] by simp_all
  then show ?thesis by (simp add: msg_frame_split)
qed

lemma bridge_write_mem:
  assumes "bridge_ok s" and "w \<le> 8"
  shows "\<exists>m. pciefw_send_write_mem bar a w x s = Some (0, s\<lparr>br_msg := m, br_sock := (br_sock s)\<lparr>sk_tx :=
       sk_tx (br_sock s) @ msg_frame (write_req PCIE_NET_OP_WRITE_MEM bar a w x)\<rparr>\<rparr>) \<and> msg_room m"
proof -
  let ?d = "le_bytes 8 x @ drop 8 (m_data (br_msg s))"
  have d: "mem_write (m_data (br_msg s)) 0 (le_bytes 8 x) = Some ?d"
    using assms(1) by (simp add: mem_write_def bridge_ok_def msg_room_def)
  let ?m = "(br_msg s)\<lparr>m_op := PCIE_NET_OP_WRITE_MEM, m_bar := of_nat bar,
           m_width := of_nat w, m_addr := a, m_size := of_nat w, m_data := ?d\<rparr>"
  have sz: "unat (of_nat w :: u16) = w" using assms(2) by (simp add: unat_of_nat)
  have fits: "msg_fits ?m" "msg_fits (write_req PCIE_NET_OP_WRITE_MEM bar a w x)"
    using assms sz by (auto simp: msg_fits_def bridge_ok_def msg_room_def write_req_def)
  have fr: "msg_frame ?m = msg_frame (write_req PCIE_NET_OP_WRITE_MEM bar a w x)"
    by (rule msg_frame_norm [OF _ fits]) (use sz assms(2) in \<open>simp add: msg_norm_def write_req_def\<close>)
  have ok: "bridge_ok (s\<lparr>br_msg := ?m\<rparr>)" using assms(1) by (simp add: bridge_ok_def msg_room_def)
  obtain m where "pciefw_send_msg (s\<lparr>br_msg := ?m\<rparr>) = Some (0, s\<lparr>br_msg := m,
       br_sock := (br_sock s)\<lparr>sk_tx := sk_tx (br_sock s) @ msg_frame ?m\<rparr>\<rparr>)" "msg_room m"
    using bridge_send_msg [OF ok] fits(1) by auto
  then show ?thesis using d fr by (simp add: pciefw_send_write_mem_def) (rule exI, rule conjI, rule refl)
qed

definition read_req :: "byte \<Rightarrow> byte \<Rightarrow> u64 \<Rightarrow> nat \<Rightarrow> net_msg" where
  "read_req rq bar a w = \<lparr>m_hsize = 0, m_op = rq, m_bar = bar, m_width = of_nat w, m_addr = a,
     m_size = 0, m_data = []\<rparr>"

text \<open>A read sends its request and waits for the reply; the bytes go out with whatever was in the buffer.\<close>

lemma bridge_read_common:
  assumes "bridge_ok s"
  shows "\<exists>m. pciefw_send_read_common sel a w s = do {
       (r, reply, s) \<leftarrow> pciefw_recv_reply sel (s\<lparr>br_msg := m, br_sock := (br_sock s)\<lparr>sk_tx := sk_tx (br_sock s) @
          msg_frame (read_req (m_op (br_msg s)) (m_bar (br_msg s)) a w)\<rparr>\<rparr>);
       case reply of None \<Rightarrow> Some (-1, [], s)
       | Some reply \<Rightarrow> Some (0, if w \<in> {1, 2, 4, 8} then take w (r_data reply) else [], s) } \<and> msg_room m"
proof -
  let ?m = "(br_msg s)\<lparr>m_addr := a, m_width := of_nat w, m_size := 0\<rparr>"
  have ok: "bridge_ok (s\<lparr>br_msg := ?m\<rparr>)" using assms by (simp add: bridge_ok_def msg_room_def)
  have fr: "msg_frame ?m = msg_frame (read_req (m_op (br_msg s)) (m_bar (br_msg s)) a w)"
    by (simp add: msg_frame_split read_req_def)
  obtain m where "pciefw_send_msg (s\<lparr>br_msg := ?m\<rparr>) = Some (0, s\<lparr>br_msg := m,
       br_sock := (br_sock s)\<lparr>sk_tx := sk_tx (br_sock s) @ msg_frame ?m\<rparr>\<rparr>)" "msg_room m"
    using bridge_send_msg [OF ok] by (auto simp: msg_fits_def)
  then show ?thesis using fr unfolding pciefw_send_read_common_def Let_def
    by (intro exI [of _ m]) simp
qed

lemma bridge_read_mem:
  assumes "bridge_ok s"
  shows "\<exists>m. pciefw_send_read_mem sel bar a w s = do {
       (r, reply, s) \<leftarrow> pciefw_recv_reply sel (s\<lparr>br_msg := m, br_sock := (br_sock s)\<lparr>sk_tx := sk_tx (br_sock s) @
          msg_frame (read_req PCIE_NET_OP_READ_MEM (of_nat bar) a w)\<rparr>\<rparr>);
       case reply of None \<Rightarrow> Some (-1, [], s)
       | Some reply \<Rightarrow> Some (0, if w \<in> {1, 2, 4, 8} then take w (r_data reply) else [], s) } \<and> msg_room m"
proof -
  let ?s = "s\<lparr>br_msg := (br_msg s)\<lparr>m_op := PCIE_NET_OP_READ_MEM, m_bar := of_nat bar\<rparr>\<rparr>"
  have ok: "bridge_ok ?s" using assms by (simp add: bridge_ok_def msg_room_def)
  from bridge_read_common [OF ok, of sel a w] show ?thesis by (simp add: pciefw_send_read_mem_def)
qed

section \<open>Turns of the device\<close>

text \<open>
  One message at the front of what the device reads: its handler gets it, with unknown bytes of the
  buffer behind the data, and a reply goes out if the handler asks for one.
\<close>

definition loc_ok :: "loop_locals \<Rightarrow> bool" where
  "loc_ok l \<longleftrightarrow> length (l_msg l) = PCIE_NET_MSG_MAX_SIZE \<and> length (r_data (l_reply l)) = 8"

lemma dev_turn_frame:
  assumes d: "sk_rx (sock (vm_dev s)) = msg_frame m @ rest" "sk_fail (sock (vm_dev s)) = []" "ev_fd (vm_dev s) = -1"
      "0 \<le> net_fd (vm_dev s)"
    and f: "msg_fits m" and l: "loc_ok (vm_loc s)"
    and h: "\<And>m'. msg_norm m' = msg_norm m \<Longrightarrow> length (m_data m') = 4096 \<Longrightarrow>
      cb_recv cb m' (l_reply (vm_loc s)) ((vm_dev s)\<lparr>sock := (sock (vm_dev s))\<lparr>sk_rx := rest\<rparr>\<rparr>) = Some (n, rep, d')"
    and r: "length (r_data rep) = 8" and d': "sk_snd (sock d') = []" "ev_fd d' = -1"
  shows "\<exists>l. dev_turn cb s = Some (wire (s\<lparr>vm_loc := l, vm_dev := (if n = 0 then d' else d'\<lparr>sock :=
       (sock d')\<lparr>sk_tx := sk_tx (sock d') @ encode_reply (rep\<lparr>r_hsize := of_nat sizeof_reply\<rparr>)\<rparr>\<rparr>)\<rparr>)) \<and> loc_ok l"
proof -
  have len: "length (l_msg (vm_loc s)) = PCIE_NET_MSG_MAX_SIZE" using l by (simp add: loc_ok_def)
  obtain buf where b: "pcie_net_recv_msg (vm_dev s) (l_msg (vm_loc s)) =
       Some (0, buf, (vm_dev s)\<lparr>sock := (sock (vm_dev s))\<lparr>sk_rx := rest\<rparr>\<rparr>)"
    "length buf = PCIE_NET_MSG_MAX_SIZE" "msg_norm (decode_msg buf) = msg_norm m"
    using recv_msg_frame [OF d(2,1) f len] by blast
  have "length (m_data (decode_msg buf)) = 4096" using b(2) by (simp add: decode_msg_def const_defs)
  note h = h [OF b(3) this]
  have ne: "msg_frame m @ rest \<noteq> []" by (simp add: msg_frame_split)
  have ev: "ev_fd d' \<notin> set [net_fd (vm_dev s)]" if "ev_fd d' = -1" using that d(4) by simp
  let ?rep = "rep\<lparr>r_hsize := of_nat sizeof_reply\<rparr>"
  let ?d2 = "d'\<lparr>sock := (sock d')\<lparr>sk_tx := sk_tx (sock d') @ encode_reply ?rep\<rparr>\<rparr>"
  have snd: "pcie_net_send_reply d' rep = (0, ?rep, ?d2)"
    using d'(1) by (simp add: pcie_net_send_reply_def pcie_net_send_buf_def sys_send_def Let_def)
  have "\<exists>l. pcie_net_loop_iter (cb_recv cb) (cb_ev cb) (cb_task cb) (Sel_Ready [net_fd (vm_dev s)] None)
      (vm_loc s) (vm_dev s) = Some (Running, l, if n = 0 then d' else ?d2) \<and> loc_ok l"
  proof (cases "n = 0")
    case True
    then show ?thesis
      using b(1,2) h r d'(2) d(4) by (auto simp: net_on_socket_def loc_ok_def)
  next
    case False
    then show ?thesis
      using b(1,2) h r d'(2) d(4) snd by (auto simp: net_on_socket_def loc_ok_def)
  qed
  then show ?thesis
    unfolding dev_turn_def using d(1) ne by (auto simp: Let_def simp del: pcie_net_loop_iter.simps)
qed

end
