(* ===== verification/Pcie_Ops.thy ===== *)
theory Pcie_Ops
  imports Pcie_Dev
begin

text \<open>
  Sequences of the operations of \<open>src/src/pcie/pcie.c\<close> on one endpoint, in any order: the arrays keep their
  types, and requests of the peer reach the handlers that were registered for their BAR.
\<close>

section \<open>Every operation keeps the types\<close>

text \<open>
  The operations on an initialised endpoint, and a sequence of them; the reply is the local of the
  loop, which lives as long as the endpoint does.
\<close>

datatype 'f dev_op =
    Do_set_bar u64 u64 "'f option" "'f option" ptr
  | Do_vendorid u16 | Do_deviceid u16
  | Do_add_task u64 'f ptr | Do_add_event int 'f ptr
  | Do_send_msi net_msg | Do_request net_msg

fun dev_do ::
  "('f, ('f, 'z) pcie_dev_scheme) call_read \<Rightarrow> ('f, ('f, 'z) pcie_dev_scheme) call_write \<Rightarrow> 'f dev_op \<Rightarrow>
     net_reply \<times> ('f, 'z) pcie_dev_scheme \<Rightarrow> (net_reply \<times> ('f, 'z) pcie_dev_scheme) option" where
  "dev_do crd cwr (Do_set_bar i sz f g p) (r, dev) =
     map_option (\<lambda>(_, dev). (r, dev)) (pcie_set_bar dev i sz f g p)"
| "dev_do crd cwr (Do_vendorid x) (r, dev) = map_option (\<lambda>(_, dev). (r, dev)) (pcie_set_vendorid dev x)"
| "dev_do crd cwr (Do_deviceid x) (r, dev) = map_option (\<lambda>(_, dev). (r, dev)) (pcie_set_deviceid dev x)"
| "dev_do crd cwr (Do_add_task us f p) (r, dev) = Some (r, snd (pcie_add_task dev us f p))"
| "dev_do crd cwr (Do_add_event fd f p) (r, dev) = Some (r, snd (pcie_add_event dev fd f p))"
| "dev_do crd cwr (Do_send_msi stk) (r, dev) = map_option (\<lambda>(_, dev). (r, dev)) (pcie_send_msi stk dev)"
| "dev_do crd cwr (Do_request m) (r, dev) =
     map_option (\<lambda>(_, r, dev). (r, dev)) (on_msg_recv crd cwr m r dev)"

primrec dev_run ::
  "('f, ('f, 'z) pcie_dev_scheme) call_read \<Rightarrow> ('f, ('f, 'z) pcie_dev_scheme) call_write \<Rightarrow> 'f dev_op list \<Rightarrow>
     net_reply \<times> ('f, 'z) pcie_dev_scheme \<Rightarrow> (net_reply \<times> ('f, 'z) pcie_dev_scheme) option" where
  "dev_run crd cwr [] x = Some x"
| "dev_run crd cwr (op # ops) x = do { x \<leftarrow> dev_do crd cwr op x; dev_run crd cwr ops x }"

definition typed :: "net_reply \<times> ('f, 'z) pcie_dev_scheme \<Rightarrow> bool" where
  "typed = (\<lambda>(r, dev). length (r_data r) = 8 \<and> dev_wf dev)"

text \<open>What the handlers of a device must keep.\<close>

definition keeps_types ::
  "('f, ('f, 'z) pcie_dev_scheme) call_read \<Rightarrow> ('f, ('f, 'z) pcie_dev_scheme) call_write \<Rightarrow> bool" where
  "keeps_types crd cwr \<longleftrightarrow>
     (\<forall>f a d w p s d' s'. crd f a d w p s = Some (d', s') \<longrightarrow> dev_wf s \<longrightarrow> length d' = length d \<and> dev_wf s') \<and>
     (\<forall>f a d w p s s'. cwr f a d w p s = Some s' \<longrightarrow> dev_wf s \<longrightarrow> dev_wf s')"

lemma keeps_typesD:
  "keeps_types crd cwr \<Longrightarrow> crd f a d w p s = Some (d', s') \<Longrightarrow> dev_wf s \<Longrightarrow> length d' = length d \<and> dev_wf s'"
  "keeps_types crd cwr \<Longrightarrow> cwr f a d w p s = Some s' \<Longrightarrow> dev_wf s \<Longrightarrow> dev_wf s'"
  unfolding keeps_types_def by blast+

lemma dev_wf_update [simp]:
  "dev_wf (dev\<lparr>sock := k\<rparr>) = dev_wf dev" "dev_wf (dev\<lparr>task_tm := tm, task_fn := f, task_data := p\<rparr>) = dev_wf dev"
  "dev_wf (dev\<lparr>ev_fn := f, ev_fd := fd, ev_data := p\<rparr>) = dev_wf dev"
  by (simp_all add: dev_wf_def)

text \<open>The calls that write the configuration space keep its length, whatever their result.\<close>

lemma write_config_typed:
  "dev_wf dev \<Longrightarrow> pcie_write_config_safe dev a d = Some (x, dev') \<Longrightarrow> dev_wf dev'"
  "dev_wf dev \<Longrightarrow> pcie_write_config dev a d = Some (x, dev') \<Longrightarrow> dev_wf dev'"
  by (auto simp: pcie_write_config_def pcie_write_config_safe_def dev_wf_def mem_write_length
      split: if_splits Option.bind_splits)

lemma write_default_typed:
  "dev_wf dev \<Longrightarrow> write_config_default dev m = Some dev' \<Longrightarrow> dev_wf dev'"
  by (auto simp: write_config_default_def pcie_write_config_byte_def pcie_write_config_word_def
      pcie_write_config_long_def dest: write_config_typed(2) split: if_splits Option.bind_splits)

lemma on_write_config_typed:
  assumes "dev_wf dev" and "on_write_config dev m = Some dev'"
  shows "dev_wf dev'"
  using assms unfolding on_write_config_def Let_def
  by (auto simp: pcie_write_config_long_def bind_eq_Some_conv dest: write_default_typed write_config_typed(2)
      split: if_splits)

lemma on_read_config_typed:
  "on_read_config dev m r = Some r' \<Longrightarrow> length (r_data r') = 8"
  by (auto simp: on_read_config_def split: if_splits Option.bind_splits)

lemma send_typed: "dev_wf dev \<Longrightarrow> pcie_send_msi stk dev = Some (x, dev') \<Longrightarrow> dev_wf dev'"
  by (auto simp: pcie_send_msi_def pcie_net_send_msg_def pcie_net_send_buf_def Let_def
      split: Option.bind_splits prod.splits)

lemma request_typed:
  assumes k: "keeps_types crd cwr"
    and t: "typed (r, dev)" and m: "on_msg_recv crd cwr m r dev = Some (n, r', dev')"
  shows "typed (r', dev')"
  using t m unfolding typed_def on_msg_recv_def Let_def
  by (auto dest!: keeps_typesD [OF k] dest: on_write_config_typed on_read_config_typed
      split: if_splits option.splits Option.bind_splits)

lemma dev_do_typed:
  assumes k: "keeps_types crd cwr"
    and t: "typed x" and s: "dev_do crd cwr op x = Some x'"
  shows "typed x'"
proof -
  obtain r dev where x: "x = (r, dev)" by (cases x)
  have wf: "dev_wf dev" "length (r_data r) = 8" using t x by (simp_all add: typed_def)
  show ?thesis
  proof (cases op)
    case (Do_set_bar i sz f g p)
    then show ?thesis using s x wf
      by (auto simp: pcie_set_bar_def typed_def dev_wf_def Let_def split: if_splits)
  next
    case (Do_request m)
    then show ?thesis using s x t by (auto intro: request_typed [OF k])
  qed (use s x wf in \<open>auto simp: typed_def pcie_set_vendorid_def pcie_set_deviceid_def pcie_add_task_def
      pcie_net_add_task_def pcie_add_event_def pcie_net_add_ev_def dest: write_config_typed(1) send_typed\<close>)
qed

lemma dev_run_typed:
  assumes k: "keeps_types crd cwr"
  shows "typed x \<Longrightarrow> dev_run crd cwr ops x = Some x' \<Longrightarrow> typed x'"
proof (induction ops arbitrary: x)
  case (Cons op ops)
  from Cons.prems(2) obtain x1 where x1: "dev_do crd cwr op x = Some x1" "dev_run crd cwr ops x1 = Some x'"
    by (auto simp: bind_eq_Some_conv simp del: split_paired_Ex)
  show ?case by (rule Cons.IH [OF dev_do_typed [OF k Cons.prems(1) x1(1)] x1(2)])
qed simp

lemma init_net_typed:
  assumes "length (bar_data dev) = PCIE_BAR_COUNT" and "pcie_init_net e dev = Some (x, calls, dev')"
  shows "dev_wf dev'"
proof -
  obtain c where c: "init_common dev = Some (dev\<lparr>bar_size := replicate 6 0, bar_writefn := replicate 6 None,
     bar_readfn := replicate 6 None, config := c\<rparr>)" "length c = 4096"
    using init_common_shape by blast
  then show ?thesis
    using assms by (auto simp: pcie_init_net_def pcie_net_init_def Let_def dev_wf_def PCIE_BAR_COUNT_def
        split: prod.splits if_splits)
qed

text \<open>
  Type soundness of the device layer: an endpoint that was initialised, from memory with any
  content, keeps its five arrays and the 4 KiB of its configuration space, and its reply the eight
  bytes of data, through every sequence of operations and requests of the peer that stays inside
  memory, provided the handlers of the device do.
\<close>

lemma endpoint_well_typed:
  assumes "keeps_types crd cwr"
    and "length (bar_data dev) = PCIE_BAR_COUNT" and "length (r_data r) = 8"
    and "pcie_init_net e dev = Some (x, calls, dev1)"
    and "dev_run crd cwr ops (r, dev1) = Some (r', dev')"
  shows "dev_wf dev' \<and> length (r_data r') = 8"
proof -
  have "typed (r, dev1)" using init_net_typed [OF assms(2,4)] assms(3) by (simp add: typed_def)
  from dev_run_typed [OF assms(1) this assms(5)] show ?thesis by (simp add: typed_def)
qed

text \<open>A device with one BAR, a configuration write that wraps to the end of the space and an MSI.\<close>

lemma endpoint_well_typed_example:
  "\<exists>x calls dev1 r' dev'. pcie_init_net \<lparr>te_gai = -1, te_socket = 3, te_bind = 0, te_listen = 0, te_accept = 4,
       te_conn = \<lparr>sk_rx = [], sk_tx = [], sk_snd = [], sk_fail = []\<rparr>\<rparr> (zero_dev :: unit pcie_dev) = Some (x, calls, dev1) \<and>
     dev_run (\<lambda>f a d w p s. Some (d, s)) (\<lambda>f a d w p s. Some s)
       [Do_set_bar 1 256 (Some ()) None 7, Do_add_task 1000 () 7,
        Do_request \<lparr>m_hsize = 0, m_op = 2, m_bar = 1, m_width = 4, m_addr = 0, m_size = 0, m_data = []\<rparr>]
       (\<lparr>r_hsize = 0, r_status = 1, r_data = replicate 8 0\<rparr>, dev1) = Some (r', dev') \<and>
     bar_size dev' ! 1 = 256 \<and> dev_wf dev' \<and> length (r_data r') = 8"
proof -
  let ?e = "\<lparr>te_gai = -1, te_socket = 3, te_bind = 0, te_listen = 0, te_accept = 4,
       te_conn = \<lparr>sk_rx = [], sk_tx = [], sk_snd = [], sk_fail = []\<rparr>\<rparr>"
  let ?m = "\<lparr>m_hsize = 0, m_op = 2, m_bar = 1, m_width = 4, m_addr = 0, m_size = 0, m_data = []\<rparr> :: net_msg"
  let ?r = "\<lparr>r_hsize = 0, r_status = 1, r_data = replicate 8 0\<rparr>"
  let ?ops = "[Do_set_bar 1 256 (Some ()) None 7, Do_add_task 1000 () 7, Do_request ?m]"
  let ?crd = "\<lambda>f a d w p s. Some (d, s)" and ?cwr = "\<lambda>f a d w p s. Some s"
  obtain x calls dev1 where i: "pcie_init_net ?e (zero_dev :: unit pcie_dev) = Some (x, calls, dev1)"
    "length (bar_size dev1) = 6" "length (bar_readfn dev1) = 6"
    using init_common_shape [of "zero_dev :: unit pcie_dev"]
    by (auto simp: pcie_init_net_def pcie_net_init_def open_tcp_socket_def tcp_on_error_def Let_def)
  obtain r' dev' where d: "dev_run ?crd ?cwr ?ops (?r, dev1) = Some (r', dev')" "bar_size dev' ! 1 = 256"
    using i(2,3) by (simp add: pcie_set_bar_def on_msg_recv_def const_defs pcie_add_task_def pcie_net_add_task_def)
  have b: "length (bar_data (zero_dev :: unit pcie_dev)) = PCIE_BAR_COUNT" "length (r_data ?r) = 8"
    by (simp_all add: zero_dev_def PCIE_BAR_COUNT_def)
  have "dev_wf dev' \<and> length (r_data r') = 8"
    by (rule endpoint_well_typed [OF _ b i(1) d(1)]) (auto simp: keeps_types_def)
  with i(1) d show ?thesis by blast
qed

section \<open>Requests reach what was registered\<close>

text \<open>What is registered for a BAR: size, handlers and pointer; the last registration of a sequence.\<close>

type_synonym 'f bar_entry = "u64 \<times> 'f option \<times> 'f option \<times> ptr"

definition bar_entry :: "('f, 'z) pcie_dev_scheme \<Rightarrow> nat \<Rightarrow> 'f bar_entry" where
  "bar_entry dev i = (bar_size dev ! i, bar_readfn dev ! i, bar_writefn dev ! i, bar_data dev ! i)"

fun registers :: "nat \<Rightarrow> 'f dev_op \<Rightarrow> 'f bar_entry option" where
  "registers i (Do_set_bar j sz f g p) = (if unat j = i then Some (sz, f, g, p) else None)"
| "registers i _ = None"

definition registered :: "nat \<Rightarrow> 'f dev_op list \<Rightarrow> 'f bar_entry" where
  "registered i ops = last ((0, None, None, 0) # List.map_filter (registers i) ops)"

definition same_bars :: "('f, 'z) pcie_dev_scheme \<Rightarrow> ('f, 'z) pcie_dev_scheme \<Rightarrow> bool" where
  "same_bars dev dev' \<longleftrightarrow> bar_size dev' = bar_size dev \<and> bar_readfn dev' = bar_readfn dev \<and>
     bar_writefn dev' = bar_writefn dev \<and> bar_data dev' = bar_data dev"

definition keeps_bars ::
  "('f, ('f, 'z) pcie_dev_scheme) call_read \<Rightarrow> ('f, ('f, 'z) pcie_dev_scheme) call_write \<Rightarrow> bool" where
  "keeps_bars crd cwr \<longleftrightarrow>
     (\<forall>f a d w p s d' s'. crd f a d w p s = Some (d', s') \<longrightarrow> same_bars s s') \<and>
     (\<forall>f a d w p s s'. cwr f a d w p s = Some s' \<longrightarrow> same_bars s s')"

lemma keeps_barsD:
  "keeps_bars crd cwr \<Longrightarrow> crd f a d w p s = Some (d', s') \<Longrightarrow> same_bars s s'"
  "keeps_bars crd cwr \<Longrightarrow> cwr f a d w p s = Some s' \<Longrightarrow> same_bars s s'"
  unfolding keeps_bars_def by blast+

lemma same_bars_refl [simp]: "same_bars dev dev" "same_bars dev (dev\<lparr>config := c\<rparr>)" "same_bars dev (dev\<lparr>sock := k\<rparr>)"
  "same_bars dev (dev\<lparr>task_tm := tm, task_fn := f, task_data := p\<rparr>)"
  "same_bars dev (dev\<lparr>ev_fn := f, ev_fd := fd, ev_data := p\<rparr>)"
  by (simp_all add: same_bars_def)

lemma write_config_bars:
  "pcie_write_config_safe dev a d = Some (x, dev') \<Longrightarrow> same_bars dev dev'"
  "pcie_write_config dev a d = Some (x, dev') \<Longrightarrow> same_bars dev dev'"
  by (auto simp: pcie_write_config_def pcie_write_config_safe_def split: if_splits Option.bind_splits)

lemma on_write_config_bars:
  assumes "on_write_config dev m = Some dev'"
  shows "same_bars dev dev'"
  using assms unfolding on_write_config_def write_config_default_def Let_def
  by (auto simp: pcie_write_config_byte_def pcie_write_config_word_def pcie_write_config_long_def bind_eq_Some_conv
      dest: write_config_bars(2) split: if_splits)

lemma request_bars:
  assumes "keeps_bars crd cwr" and "on_msg_recv crd cwr m r dev = Some (n, r', dev')"
  shows "same_bars dev dev'"
  using assms(2) unfolding on_msg_recv_def Let_def
  by (auto dest: keeps_barsD [OF assms(1)] on_write_config_bars split: if_splits option.splits Option.bind_splits)

text \<open>The table after an operation: only a registration changes it, and only its entry.\<close>

lemma dev_do_bars:
  assumes k: "keeps_bars crd cwr" and s: "dev_do crd cwr op (r, dev) = Some (r', dev')"
    and o: "\<And>i sz f g p. op \<noteq> Do_set_bar i sz f g p"
  shows "same_bars dev dev'"
proof (cases op)
  case (Do_request m)
  then show ?thesis using s by (auto intro: request_bars [OF k])
next
  case (Do_send_msi stk)
  then show ?thesis using s
    by (auto simp: pcie_send_msi_def pcie_net_send_msg_def pcie_net_send_buf_def Let_def split: Option.bind_splits prod.splits)
qed (use s o in \<open>auto simp: pcie_set_vendorid_def pcie_set_deviceid_def pcie_add_task_def
      pcie_net_add_task_def pcie_add_event_def pcie_net_add_ev_def dest: write_config_bars(1)\<close>)

definition bars_wf :: "('f, 'z) pcie_dev_scheme \<Rightarrow> bool" where
  "bars_wf dev \<longleftrightarrow> length (bar_size dev) = 6 \<and> length (bar_readfn dev) = 6 \<and> length (bar_writefn dev) = 6 \<and>
     length (bar_data dev) = 6"

lemma dev_do_entry:
  assumes k: "keeps_bars crd cwr" and s: "dev_do crd cwr op (r, dev) = Some (r', dev')" and w: "bars_wf dev"
  shows "bars_wf dev' \<and> (i < 6 \<longrightarrow> bar_entry dev' i = (case registers i op of None \<Rightarrow> bar_entry dev i | Some b \<Rightarrow> b)) \<and>
     (6 \<le> i \<longrightarrow> registers i op = None)"
proof (cases "\<exists>j sz f g p. op = Do_set_bar j sz f g p")
  case True
  then obtain j sz f g p where "op = Do_set_bar j sz f g p" by blast
  then show ?thesis using s w
    by (auto simp: pcie_set_bar_def bar_entry_def bars_wf_def PCIE_BAR_COUNT_def nth_list_update Let_def split: if_splits)
next
  case False
  then have "same_bars dev dev'" using dev_do_bars [OF k s] by blast
  moreover have "registers i op = None" using False by (cases op) auto
  ultimately show ?thesis using w by (simp add: bar_entry_def same_bars_def bars_wf_def)
qed

lemma dev_run_entry:
  assumes "keeps_bars crd cwr" and "dev_run crd cwr ops (r, dev) = Some (r', dev')" and "bars_wf dev"
  shows "(i < 6 \<longrightarrow> bar_entry dev' i = last (bar_entry dev i # List.map_filter (registers i) ops)) \<and>
     (6 \<le> i \<longrightarrow> List.map_filter (registers i) ops = [])"
  using assms(2,3)
proof (induction ops arbitrary: r dev)
  case (Cons op ops)
  obtain r1 d1 where d1: "dev_do crd cwr op (r, dev) = Some (r1, d1)" "dev_run crd cwr ops (r1, d1) = Some (r', dev')"
    using Cons.prems(1) by (auto simp: bind_eq_Some_conv)
  note e = dev_do_entry [OF assms(1) d1(1) Cons.prems(2), of i]
  show ?case using Cons.IH [OF d1(2)] e by (cases "registers i op") (auto simp: List.map_filter_simps)
qed (simp add: List.map_filter_simps)

lemma entry_registered:
  assumes "keeps_bars crd cwr" and "length (bar_data dev) = PCIE_BAR_COUNT" and "pcie_init_net e dev = Some (x, calls, dev1)"
    and "dev_run crd cwr ops (r, dev1) = Some (r1, dev2)" and "registered i ops = (sz, f, g, p)"
  shows "if i < 6 then bar_size dev2 ! i = sz \<and> bar_readfn dev2 ! i = f \<and> bar_writefn dev2 ! i = g \<and>
      (bar_data dev2 ! i = p \<or> f = None \<and> g = None) else f = None \<and> g = None"
proof -
  obtain c where c: "init_common dev = Some (dev\<lparr>bar_size := replicate 6 0, bar_writefn := replicate 6 None,
     bar_readfn := replicate 6 None, config := c\<rparr>)" using init_common_shape by blast
  have d1: "bar_size dev1 = replicate 6 0 \<and> bar_readfn dev1 = replicate 6 None \<and> bar_writefn dev1 = replicate 6 None \<and>
      bar_data dev1 = bar_data dev"
    using assms(3) c by (auto simp: pcie_init_net_def pcie_net_init_def Let_def split: prod.splits if_splits)
  then have w: "bars_wf dev1" using assms(2) by (simp add: bars_wf_def PCIE_BAR_COUNT_def)
  note en = dev_run_entry [OF assms(1,4) w, of i]
  show ?thesis
  proof (cases "List.map_filter (registers i) ops = []")
    case True
    then show ?thesis using en d1 assms(5) by (auto simp: registered_def bar_entry_def)
  next
    case False
    then show ?thesis using en assms(5) by (auto simp: registered_def bar_entry_def)
  qed
qed

text \<open>
  C37. Requests of the peer reach what the device registered: after any sequence of operations on an
  endpoint that was initialised, from memory with any content, a memory access to a BAR calls the
  handler of the last registration of that BAR, with the address, the width and the pointer
  registered with it, and a reply zeroed before; an access to a BAR that was not registered, or beyond the
  table, is answered with all ones or dropped, and changes nothing. The handlers are arbitrary except that
  they do not register BARs themselves.
\<close>

theorem bar_requests_dispatched:
  assumes "keeps_bars crd cwr" and "length (bar_data dev) = PCIE_BAR_COUNT" and "pcie_init_net e dev = Some (x, calls, dev1)"
    and "dev_run crd cwr ops (r, dev1) = Some (r1, dev2)" and "registered (unat (m_bar m)) ops = (sz, f, g, p)"
  shows "(m_op m = PCIE_NET_OP_READ_MEM \<longrightarrow> on_msg_recv crd cwr m r2 dev2 = (case f of
      Some h \<Rightarrow> map_option (\<lambda>(d, dev3). (1, r2\<lparr>r_status := 0, r_data := d\<rparr>, dev3))
        (crd h (m_addr m) (replicate 8 0) (unat (m_width m)) p dev2)
    | None \<Rightarrow> Some (1, r2\<lparr>r_status := 0, r_data := replicate 8 255\<rparr>, dev2))) \<and>
   (m_op m = PCIE_NET_OP_WRITE_MEM \<longrightarrow> on_msg_recv crd cwr m r2 dev2 = (case g of
      Some h \<Rightarrow> map_option (\<lambda>dev3. (0, r2, dev3)) (cwr h (m_addr m) (m_data m) (unat (m_width m)) p dev2)
    | None \<Rightarrow> Some (0, r2, dev2)))"
proof -
  have z: "le_bytes 8 (0 :: u64) = replicate 8 0" by (simp add: le_bytes_def upt_rec numeral_eq_Suc)
  note e = entry_registered [OF assms]
  have b: "on_msg_recv crd cwr m r2 dev2 = do {
      (d, dev3) \<leftarrow> crd h (m_addr m) (replicate 8 0) (unat (m_width m)) p dev2; Some (1, r2\<lparr>r_status := 0, r_data := d\<rparr>, dev3) }"
    if "m_op m = PCIE_NET_OP_READ_MEM" "f = Some h" for h
    using e that z by (cases "unat (m_bar m) < 6") (simp_all add: on_msg_recv_def Let_def const_defs)
  have c: "on_msg_recv crd cwr m r2 dev2 = do {
      dev3 \<leftarrow> cwr h (m_addr m) (m_data m) (unat (m_width m)) p dev2; Some (0, r2, dev3) }"
    if "m_op m = PCIE_NET_OP_WRITE_MEM" "g = Some h" for h
    using e that by (cases "unat (m_bar m) < 6") (simp_all add: on_msg_recv_def Let_def const_defs)
  have n: "on_msg_recv crd cwr m r2 dev2 = Some (1, r2\<lparr>r_status := 0, r_data := replicate 8 255\<rparr>, dev2)"
    if "m_op m = PCIE_NET_OP_READ_MEM" "f = None"
    using e that by (intro unclaimed_reads_all_ones) (auto split: if_splits)
  have w: "on_msg_recv crd cwr m r2 dev2 = Some (0, r2, dev2)" if "m_op m = PCIE_NET_OP_WRITE_MEM" "g = None"
    using e that by (cases "unat (m_bar m) < 6") (simp_all add: on_msg_recv_def Let_def const_defs)
  have m: "do { (d, dev3) \<leftarrow> y; Some (1, r2\<lparr>r_status := 0, r_data := d\<rparr>, dev3) } =
      map_option (\<lambda>(d, dev3). (1, r2\<lparr>r_status := 0, r_data := d\<rparr>, dev3)) y" for y
    by (cases y) auto
  show ?thesis
    using b c n w m by (auto split: option.splits simp: bind_eq_Some_conv map_option_case)
qed

text \<open>A BAR registered twice, another one with no handler for writes, and accesses to both.\<close>

theorem bar_requests_dispatched_witness:
  "\<exists>x calls dev1 r1 dev2. pcie_init_net \<lparr>te_gai = -1, te_socket = 3, te_bind = 0, te_listen = 0, te_accept = 4,
       te_conn = \<lparr>sk_rx = [], sk_tx = [], sk_snd = [], sk_fail = []\<rparr>\<rparr> (zero_dev :: byte pcie_dev) = Some (x, calls, dev1) \<and>
     dev_run (\<lambda>f a d w p s. Some (replicate 8 (f + ucast p), s)) (\<lambda>f a d w p s. Some s)
       [Do_set_bar 1 256 (Some 1) None 7, Do_set_bar 2 64 (Some 2) None 8, Do_set_bar 1 512 (Some 3) None 9]
       (\<lparr>r_hsize = 0, r_status = 1, r_data = replicate 8 0\<rparr>, dev1) = Some (r1, dev2) \<and>
     on_msg_recv (\<lambda>f a d w p s. Some (replicate 8 (f + ucast p), s)) (\<lambda>f a d w p s. Some s)
       \<lparr>m_hsize = 0, m_op = 2, m_bar = 1, m_width = 4, m_addr = 0, m_size = 0, m_data = []\<rparr> r1 dev2 =
       Some (1, r1\<lparr>r_status := 0, r_data := replicate 8 12\<rparr>, dev2)"
proof -
  let ?e = "\<lparr>te_gai = -1, te_socket = 3, te_bind = 0, te_listen = 0, te_accept = 4,
       te_conn = \<lparr>sk_rx = [], sk_tx = [], sk_snd = [], sk_fail = []\<rparr>\<rparr>"
  let ?m = "\<lparr>m_hsize = 0, m_op = 2, m_bar = 1, m_width = 4, m_addr = 0, m_size = 0, m_data = []\<rparr> :: net_msg"
  let ?r = "\<lparr>r_hsize = 0, r_status = 1, r_data = replicate 8 0\<rparr>"
  let ?ops = "[Do_set_bar 1 256 (Some 1) None 7, Do_set_bar 2 64 (Some 2) None 8, Do_set_bar 1 512 (Some 3) None 9] :: byte dev_op list"
  let ?crd = "\<lambda>f a d w p s. Some (replicate 8 (f + ucast p), s)" and ?cwr = "\<lambda>f a d w p s. Some s"
  obtain x calls dev1 where i: "pcie_init_net ?e (zero_dev :: byte pcie_dev) = Some (x, calls, dev1)"
    using init_common_shape [of "zero_dev :: byte pcie_dev"]
    by (auto simp: pcie_init_net_def pcie_net_init_def open_tcp_socket_def tcp_on_error_def Let_def)
  obtain r1 dev2 where d: "dev_run ?crd ?cwr ?ops (?r, dev1) = Some (r1, dev2)"
    by (simp add: pcie_set_bar_def PCIE_BAR_COUNT_def)
  have k: "keeps_bars ?crd ?cwr" by (simp add: keeps_bars_def)
  have b: "length (bar_data (zero_dev :: byte pcie_dev)) = PCIE_BAR_COUNT" by (simp add: zero_dev_def PCIE_BAR_COUNT_def)
  have g: "registered (unat (m_bar ?m)) ?ops = (512, Some 3, None, 9)"
    by (simp add: registered_def List.map_filter_simps)
  from bar_requests_dispatched [OF k b i d g] show ?thesis using i d by (simp add: const_defs)
qed

end
