(* ===== verification/Dma_Transfer.thy ===== *)
theory Dma_Transfer
  imports Dma_Device Vm_Bridge Pcie_Ops
begin

text \<open>
  What the DMA engine of \<open>Dma_Device\<close> does when it runs: the transfer of \<open>finalize_transfer\<close> and
  its effect on the memory of the host, the interpretation of the device interface
  \<open>pcie_device\<close> on the engine, and the life of \<open>main\<close> and of a transfer a driver programs.
\<close>

section \<open>The transfer\<close>

lemma recv_count_frames:
  "(\<forall>m\<in>set ms. msg_fits m) \<Longrightarrow>
     recv_count (net_rcv old) (length ms) (concat (map msg_frame ms) @ rest) = Some (map msg_norm ms, rest)"
  by (induction ms) (simp_all add: net_rcv_frame)

lemma msg_frame_hsize [simp]: "msg_frame (m\<lparr>m_hsize := h\<rparr>) = msg_frame m"
  by (simp add: msg_frame_def Let_def)

lemma length_add_baz [simp]: "length (add_baz k b d) = length d"
  by (simp add: add_baz_def)

text \<open>The message of page \<open>k\<close>, counted from offset \<open>p\<close> of the memory.\<close>

definition page_msg :: "byte list \<Rightarrow> byte \<Rightarrow> nat \<Rightarrow> net_msg \<Rightarrow> nat \<Rightarrow> net_msg" where
  "page_msg mem baz p m k = m\<lparr>m_addr := m_addr m + of_nat (4096 * k),
     m_data := add_baz 4096 baz (take 4096 (drop (p + 4096 * k) mem))\<rparr>"

lemma send_pages:
  "p + 4096 * n \<le> length (bram dma) \<Longrightarrow> m_size m = 4096 \<Longrightarrow> length (m_data m) = 4096 \<Longrightarrow>
   sk_snd (sock dma) = [] \<Longrightarrow>
   \<exists>m'. dma_send_pages n p m dma = Some (p + 4096 * n, m', dma\<lparr>sock := (sock dma)\<lparr>sk_tx :=
       sk_tx (sock dma) @ concat (map (\<lambda>k. msg_frame (page_msg (bram dma) (ucast (saved_baz dma)) p m k)) [0..<n])\<rparr>\<rparr>)"
proof (induction n arbitrary: p m dma)
  case 0
  then show ?case by simp
next
  case (Suc n)
  let ?baz = "ucast (saved_baz dma) :: byte"
  let ?d = "add_baz 4096 ?baz (take 4096 (drop p (bram dma)))"
  let ?m = "m\<lparr>m_data := ?d\<rparr>"
  have d: "mem_read (bram dma) p 4096 = Some (take 4096 (drop p (bram dma)))"
    "mem_write (m_data m) 0 (take 4096 (drop p (bram dma))) = Some (take 4096 (drop p (bram dma)))"
    using Suc.prems by (simp_all add: mem_read_def mem_write_def)
  have fits: "msg_fits ?m" using Suc.prems by (simp add: msg_fits_def)
  let ?h = "of_nat (msg_data_off + unat (m_size ?m)) :: u16"
  let ?m2 = "?m\<lparr>m_hsize := ?h, m_addr := m_addr m + 4096\<rparr>"
  let ?dma = "dma\<lparr>sock := (sock dma)\<lparr>sk_tx := sk_tx (sock dma) @ msg_frame ?m\<rparr>\<rparr>"
  have step: "dma_send_pages (Suc n) p m dma = dma_send_pages n (p + 4096) ?m2 ?dma"
    using send_msg_frame [OF fits Suc.prems(4)] d by simp
  have page0: "page_msg (bram dma) ?baz p m 0 = ?m" by (simp add: page_msg_def)
  have pages: "page_msg (bram dma) ?baz p m (Suc k) =
      (page_msg (bram dma) ?baz (p + 4096) ?m2 k)\<lparr>m_hsize := m_hsize m\<rparr>" for k
    by (simp add: page_msg_def algebra_simps)
  have frames: "msg_frame (page_msg (bram dma) ?baz p m (Suc k)) =
      msg_frame (page_msg (bram dma) ?baz (p + 4096) ?m2 k)" for k
    unfolding pages by simp
  have "\<exists>m'. dma_send_pages n (p + 4096) ?m2 ?dma = Some (p + 4096 + 4096 * n, m', ?dma\<lparr>sock := (sock ?dma)\<lparr>sk_tx :=
       sk_tx (sock ?dma) @ concat (map (\<lambda>k. msg_frame (page_msg (bram ?dma) (ucast (saved_baz ?dma)) (p + 4096) ?m2 k)) [0..<n])\<rparr>\<rparr>)"
    by (rule Suc.IH) (use Suc.prems in simp_all)
  then show ?case
    unfolding step map_upt_Suc frames page0 by (simp add: algebra_simps)
qed

lemma host_write_page:
  assumes "m_size m = 4096" and "k < 8" and "length mem = 32768"
  shows "host_write (msg_norm (page_msg mem baz 0 m k)) h a =
     (if 4096 * k \<le> unat (a - m_addr m) \<and> unat (a - m_addr m) < 4096 * Suc k
      then mem ! unat (a - m_addr m) + baz else h a)"
proof -
  let ?x = "a - m_addr m"
  have e: "a - (m_addr m + of_nat (4096 * k)) = ?x - of_nat (4096 * k)" by simp
  have k: "unat (of_nat (4096 * k) :: u64) = 4096 * k"
    by (subst unat_of_nat) (use assms(2) in simp)
  have lt: "unat ?x < 2 ^ 64" using unsigned_less [of ?x, where ?'a = nat] by simp
  show ?thesis
  proof (cases "4096 * k \<le> unat ?x")
    case True
    then have "unat (?x - of_nat (4096 * k)) = unat ?x - 4096 * k"
      using k by (simp add: unat_sub word_le_nat)
    with True assms show ?thesis
      by (auto simp: host_write_def page_msg_def e add_baz_def simp del: of_nat_mult)
  next
    case False
    then have "unat (?x - of_nat (4096 * k)) = 2 ^ 64 + unat ?x - 4096 * k"
      using k assms(2) by (simp add: unat_sub_if_size word_size)
    with False assms show ?thesis
      by (auto simp: host_write_def page_msg_def e add_baz_def simp del: of_nat_mult)
  qed
qed

lemma host_write_pages:
  assumes "m_size m = 4096" and "length mem = 32768"
  shows "n \<le> 8 \<Longrightarrow> fold (\<lambda>k. host_write (msg_norm (page_msg mem baz 0 m k))) [0..<n] h a =
     (if unat (a - m_addr m) < 4096 * n then mem ! unat (a - m_addr m) + baz else h a)"
proof (induction n)
  case (Suc n)
  then show ?case using assms by (simp add: host_write_page [of m n])
qed simp
text \<open>The messages of one transfer: eight pages, and the MSI if it is enabled.\<close>

definition xfer_base :: "dma \<Rightarrow> u64" where
  "xfer_base dma = push_bit 32 (ucast (saved_adh dma)) OR ucast (saved_adl dma)"

definition xfer_msgs :: "dma \<Rightarrow> net_msg \<Rightarrow> net_msg \<Rightarrow> net_msg list" where
  "xfer_msgs dma m0 stk =
     map (page_msg (bram dma) (ucast (saved_baz dma)) 0
       (m0\<lparr>m_op := PCIE_NET_OP_WRITE_MEM, m_addr := xfer_base dma, m_size := 4096\<rparr>)) [0..<8] @
     (if saved_ctl dma AND push_bit 30 1 \<noteq> 0
      then [stk\<lparr>m_op := PCIE_NET_OP_MSI, m_size := 8, m_data := le_bytes 8 (0 :: u64)\<rparr>] else [])"

lemma finalize_frames:
  assumes b: "length (bram dma) = 32768" and s: "sk_snd (sock dma) = []"
    and m0: "length (m_data m0) = 4096"
  shows "finalize_transfer (Some m0) stk dma = Some (dma\<lparr>
        regs := (regs dma)[DMA_REG_STA := push_bit 31 1 OR (saved_ctl dma AND 0xffff)],
        sock := (sock dma)\<lparr>sk_tx := sk_tx (sock dma) @ concat (map msg_frame (xfer_msgs dma m0 stk))\<rparr>\<rparr>)"
proof -
  let ?m = "m0\<lparr>m_op := PCIE_NET_OP_WRITE_MEM, m_addr := xfer_base dma, m_size := 4096\<rparr>"
  let ?f1 = "concat (map msg_frame (map (page_msg (bram dma) (ucast (saved_baz dma)) 0 ?m) [0..<8]))"
  let ?dma1 = "dma\<lparr>sock := (sock dma)\<lparr>sk_tx := sk_tx (sock dma) @ ?f1\<rparr>\<rparr>"
  let ?dma2 = "?dma1\<lparr>regs := (regs dma)[DMA_REG_STA := push_bit 31 1 OR (saved_ctl dma AND 0xffff)]\<rparr>"
  let ?msi = "stk\<lparr>m_op := PCIE_NET_OP_MSI, m_size := 8, m_data := le_bytes 8 (0 :: u64)\<rparr>"
  obtain m' where pages: "dma_send_pages 8 0 ?m dma = Some (32768, m', ?dma1)"
    using send_pages [of 0 8 dma ?m] b s m0 by (auto simp: o_def)
  have 1: "sizeof_bram div 4096 = 8" "sizeof_bram mod 4096 = 0" by (simp_all add: sizeof_bram_def)
  have fin: "finalize_transfer (Some m0) stk dma =
      (if saved_ctl dma AND push_bit 30 1 \<noteq> 0 then map_option snd (pcie_send_msi stk ?dma2)
       else Some ?dma2)"
    unfolding finalize_transfer_def Let_def option.case xfer_base_def [symmetric] 1 pages by simp
  have msi: "map_option snd (pcie_send_msi stk ?dma2) =
      Some (?dma2\<lparr>sock := (sock dma)\<lparr>sk_tx := sk_tx (sock dma) @ ?f1 @ msg_frame ?msi\<rparr>\<rparr>)"
    using send_msg_frame [of ?msi ?dma2] s by (simp add: pcie_send_msi_def msg_fits_def)
  show ?thesis unfolding fin msi by (simp add: xfer_msgs_def)
qed

text \<open>The host gets them all, and what carrying them out does to its memory.\<close>

lemma xfer_received:
  assumes "length (bram dma) = 32768" and "length (m_data m0) = 4096"
  shows "recv_count (net_rcv old) (length (xfer_msgs dma m0 stk))
      (concat (map msg_frame (xfer_msgs dma m0 stk)) @ rest) =
    Some (map msg_norm (xfer_msgs dma m0 stk), rest)"
  by (rule recv_count_frames) (use assms in \<open>auto simp: xfer_msgs_def msg_fits_def page_msg_def\<close>)

lemma xfer_ops:
  "map m_op (map msg_norm (xfer_msgs dma m0 stk)) = replicate 8 PCIE_NET_OP_WRITE_MEM @
     (if saved_ctl dma AND push_bit 30 1 \<noteq> 0 then [PCIE_NET_OP_MSI] else [])"
proof -
  have "map m_op (map msg_norm (map (page_msg d b 0 (m0\<lparr>m_op := PCIE_NET_OP_WRITE_MEM,
      m_addr := a, m_size := 4096\<rparr>)) [0..<8])) = replicate 8 PCIE_NET_OP_WRITE_MEM" for d b a
    by (rule nth_equalityI) (simp_all add: page_msg_def)
  then show ?thesis by (simp add: xfer_msgs_def)
qed

lemma xfer_host:
  assumes "length (bram dma) = 32768"
  shows "fold host_write (take 8 (map msg_norm (xfer_msgs dma m0 stk))) h a =
      (let x = unat (a - xfer_base dma)
       in if x < 32768 then bram dma ! x + ucast (saved_baz dma) else h a)"
  using host_write_pages [of "m0\<lparr>m_op := PCIE_NET_OP_WRITE_MEM, m_addr := xfer_base dma,
      m_size := 4096\<rparr>" "bram dma" 8 "ucast (saved_baz dma)" h a] assms
  by (simp add: xfer_msgs_def fold_map o_def)

text \<open>
  The delayed task of a transfer: whatever the message buffer and the stack held, the
  engine sends eight writes of a page, followed by one MSI exactly when bit 30 of the captured
  control word is set. A host that carries these writes out has, at every address, the byte of
  the memory plus the seed in the 32 KiB from the captured address on and its old byte elsewhere.
  The status register reports completion and the low half of the control word, and nothing else
  of the engine changes: the size in the control word does not limit what is written.
\<close>

lemma finalize_transfer_result:
  assumes "length (bram dma) = 32768" and "sk_snd (sock dma) = []"
    and "length (m_data m0) = 4096"
  shows "\<exists>f ms.
     finalize_transfer (Some m0) stk dma = Some (dma\<lparr>
        regs := (regs dma)[DMA_REG_STA := push_bit 31 1 OR (saved_ctl dma AND 0xffff)],
        sock := (sock dma)\<lparr>sk_tx := sk_tx (sock dma) @ f\<rparr>\<rparr>) \<and>
     (\<forall>rest. recv_count (net_rcv old) (length ms) (f @ rest) = Some (ms, rest)) \<and>
     map m_op ms = replicate 8 PCIE_NET_OP_WRITE_MEM @
        (if saved_ctl dma AND push_bit 30 1 \<noteq> 0 then [PCIE_NET_OP_MSI] else []) \<and>
     (\<forall>h a. fold host_write (take 8 ms) h a =
        (let x = unat (a - (push_bit 32 (ucast (saved_adh dma)) OR ucast (saved_adl dma)))
         in if x < 32768 then bram dma ! x + ucast (saved_baz dma) else h a))"
  using finalize_frames [OF assms, of stk] xfer_received [OF assms(1,3), of old stk]
    xfer_ops [of dma m0 stk] xfer_host [OF assms(1), of m0 stk]
  unfolding xfer_base_def by (metis length_map)

lemma finalize_transfer_result_example:
  "\<exists>f ms. sk_tx (sock (the (finalize_transfer
        (Some \<lparr>m_hsize = 1, m_op = 1, m_bar = 1, m_width = 1, m_addr = 1, m_size = 1,
               m_data = replicate 4096 1\<rparr>)
        \<lparr>m_hsize = 1, m_op = 1, m_bar = 1, m_width = 1, m_addr = 1, m_size = 1, m_data = [1]\<rparr>
        (zero_dma\<lparr>saved_ctl := 0xc0000001, saved_adl := 0x1000, saved_baz := 2\<rparr>)))) = f \<and>
     recv_count (net_rcv []) 9 (f @ [5]) = Some (ms, [5]) \<and>
     fold host_write (take 8 ms) (\<lambda>_. 0) 0x1001 = 9 \<and>
     fold host_write (take 8 ms) (\<lambda>_. 0) 0x9000 = 0"
proof -
  let ?m = "\<lparr>m_hsize = 1, m_op = 1, m_bar = 1, m_width = 1, m_addr = 1, m_size = 1,
               m_data = replicate 4096 1\<rparr>"
  let ?stk = "\<lparr>m_hsize = 1, m_op = 1, m_bar = 1, m_width = 1, m_addr = 1, m_size = 1, m_data = [1]\<rparr>"
  let ?d = "zero_dma\<lparr>saved_ctl := 0xc0000001, saved_adl := 0x1000, saved_baz := 2\<rparr>"
  have h: "length (bram ?d) = 32768" "sk_snd (sock ?d) = []"
    "length (m_data ?m) = 4096"
    by (simp_all add: zero_dma_def sizeof_bram_def)
  from finalize_transfer_result [OF h, of ?stk "[]"] obtain f ms where
    1: "finalize_transfer (Some ?m) ?stk ?d = Some (?d\<lparr>
        regs := (regs ?d)[DMA_REG_STA := push_bit 31 1 OR (saved_ctl ?d AND 0xffff)],
        sock := (sock ?d)\<lparr>sk_tx := sk_tx (sock ?d) @ f\<rparr>\<rparr>)" and
    2: "\<forall>rest. recv_count (net_rcv []) (length ms) (f @ rest) = Some (ms, rest)" and
    3: "map m_op ms = replicate 8 PCIE_NET_OP_WRITE_MEM @
        (if saved_ctl ?d AND push_bit 30 1 \<noteq> 0 then [PCIE_NET_OP_MSI] else [])" and
    4: "\<forall>h a. fold host_write (take 8 ms) h a =
        (let x = unat (a - (push_bit 32 (ucast (saved_adh ?d)) OR ucast (saved_adl ?d)))
         in if x < 32768 then bram ?d ! x + ucast (saved_baz ?d) else h a)"
    by blast
  have "sk_tx (sock ?d) = []" by (simp add: zero_dma_def)
  then have "sk_tx (sock (the (finalize_transfer (Some ?m) ?stk ?d))) = f" unfolding 1 by simp
  moreover have "length ms = 9" using arg_cong [OF 3, of length] by simp
  with 2 have "recv_count (net_rcv []) 9 (f @ [5]) = Some (ms, [5])" by metis
  moreover have "fold host_write (take 8 ms) (\<lambda>_. 0) 0x1001 = 9"
    "fold host_write (take 8 ms) (\<lambda>_. 0) 0x9000 = 0"
    using 4 by (simp_all add: zero_dma_def sizeof_bram_def)
  ultimately show ?thesis by blast
qed

section \<open>Running the engine\<close>

text \<open>What \<open>malloc\<close> returns has room for one page of data.\<close>

definition malloc_page :: "net_msg \<Rightarrow> net_msg" where
  "malloc_page m = m\<lparr>m_data := take 4096 (m_data m @ replicate 4096 0)\<rparr>"

lemma send_msg_total:
  assumes "unat (m_size m) \<le> length (m_data m)"
  shows "\<exists>r h k. pcie_net_send_msg net m = Some (r, m\<lparr>m_hsize := h\<rparr>, net\<lparr>sock := k\<rparr>) \<and>
     sk_rx k = sk_rx (sock net) \<and> sk_fail k = sk_fail (sock net)"
  using assms
  by (auto simp: pcie_net_send_msg_def pcie_net_send_buf_def sys_send_def Let_def mem_read_def
      msg_data_off_def split: list.split)

lemma send_pages_total:
  "p + 4096 * n \<le> length (bram dma) \<Longrightarrow> m_size m = 4096 \<Longrightarrow> length (m_data m) = 4096 \<Longrightarrow>
   \<exists>m' k. dma_send_pages n p m dma = Some (p + 4096 * n, m', dma\<lparr>sock := k\<rparr>) \<and>
     sk_rx k = sk_rx (sock dma) \<and> sk_fail k = sk_fail (sock dma)"
proof (induction n arbitrary: p m dma)
  case 0
  then show ?case by (auto intro!: exI [of _ "sock dma"])
next
  case (Suc n)
  let ?d = "add_baz 4096 (ucast (saved_baz dma)) (take 4096 (drop p (bram dma)))"
  let ?m = "m\<lparr>m_data := ?d\<rparr>"
  have d: "mem_read (bram dma) p 4096 = Some (take 4096 (drop p (bram dma)))"
    "mem_write (m_data m) 0 (take 4096 (drop p (bram dma))) = Some (take 4096 (drop p (bram dma)))"
    using Suc.prems by (simp_all add: mem_read_def mem_write_def)
  have "unat (m_size ?m) \<le> length (m_data ?m)" using Suc.prems by simp
  from send_msg_total [OF this, of dma] obtain r h k where s:
    "pcie_net_send_msg dma ?m = Some (r, ?m\<lparr>m_hsize := h\<rparr>, dma\<lparr>sock := k\<rparr>)"
    "sk_rx k = sk_rx (sock dma)" "sk_fail k = sk_fail (sock dma)" by blast
  from Suc.IH [of "p + 4096" "dma\<lparr>sock := k\<rparr>" "?m\<lparr>m_hsize := h, m_addr := m_addr m + 4096\<rparr>"]
  show ?case using Suc.prems d s by (auto simp: add_ac)
qed

lemma dma_sock_regs: "(dma :: dma)\<lparr>sock := k, regs := r\<rparr> = dma\<lparr>regs := r, sock := k\<rparr>"
  by simp

lemma finalize_transfer_total:
  assumes "length (bram dma) = 32768"
  shows "\<exists>r k. finalize_transfer (map_option malloc_page mal) stk dma =
       Some (dma\<lparr>regs := r, sock := k\<rparr>) \<and> length r = length (regs dma) \<and>
     sk_rx k = sk_rx (sock dma) \<and> sk_fail k = sk_fail (sock dma)"
proof (cases mal)
  case None
  then show ?thesis
    by (intro exI [of _ "regs dma"] exI [of _ "sock dma"]) (simp add: finalize_transfer_def)
next
  case (Some m)
  let ?a = "push_bit 32 (ucast (saved_adh dma)) OR ucast (saved_adl dma) :: u64"
  let ?m = "(malloc_page m)\<lparr>m_op := PCIE_NET_OP_WRITE_MEM, m_addr := ?a, m_size := 4096\<rparr>"
  let ?msi = "stk\<lparr>m_op := PCIE_NET_OP_MSI, m_size := 8, m_data := le_bytes 8 (0 :: u64)\<rparr>"
  let ?r = "(regs dma)[DMA_REG_STA := push_bit 31 1 OR (saved_ctl dma AND 0xffff)]"
  obtain m' k where p: "dma_send_pages 8 0 ?m dma = Some (32768, m', dma\<lparr>sock := k\<rparr>)"
    "sk_rx k = sk_rx (sock dma)" "sk_fail k = sk_fail (sock dma)"
  proof -
    have "0 + 4096 * 8 \<le> length (bram dma)" "m_size ?m = 4096" "length (m_data ?m) = 4096"
      using assms by (simp_all add: malloc_page_def min_def)
    from send_pages_total [OF this] show ?thesis using that by auto
  qed
  have 1: "sizeof_bram div 4096 = 8" "sizeof_bram mod 4096 = 0" by (simp_all add: sizeof_bram_def)
  let ?dma = "dma\<lparr>regs := ?r, sock := k\<rparr>"
  have fin: "finalize_transfer (map_option malloc_page mal) stk dma =
      (if saved_ctl dma AND push_bit 30 1 \<noteq> 0 then map_option snd (pcie_send_msi stk ?dma)
       else Some ?dma)"
    unfolding finalize_transfer_def Let_def Some option.map option.case 1 p(1)
    by (simp add: dma_sock_regs)
  obtain x h k' where s: "pcie_net_send_msg ?dma ?msi = Some (x, ?msi\<lparr>m_hsize := h\<rparr>, ?dma\<lparr>sock := k'\<rparr>)"
    "sk_rx k' = sk_rx (sock ?dma)" "sk_fail k' = sk_fail (sock ?dma)"
    using send_msg_total [of ?msi ?dma] by auto
  have "map_option snd (pcie_send_msi stk ?dma) = Some (?dma\<lparr>sock := k'\<rparr>)"
    unfolding pcie_send_msi_def Let_def s(1) by simp
  then show ?thesis
    using fin p(2,3) s(2,3)
    by (cases "saved_ctl dma AND push_bit 30 1 = 0") (auto intro!: exI [of _ ?r])
qed
text \<open>The engine honours the contract the core layer puts on a device.\<close>

lemma dma_inv_fields:
  assumes "dma_inv dma"
  shows "length (regs dma) = 5" "length (bram dma) = 32768" "ev_fd dma = -1"
    "task_fn dma \<in> {None, Some Dma_finalize_transfer}"
  using assms by (simp_all add: dma_inv_def DMA_REG_COUNT_def sizeof_bram_def)

lemma bar_one: "b < 6 \<Longrightarrow> [None, Some x, None, None, None, None] ! b = Some f \<longleftrightarrow> b = 1 \<and> f = x"
  by (auto simp: less_Suc_eq numeral_eq_Suc)

lemma dma_read_total:
  assumes "dma_inv dma" and "w \<le> 8 \<and> (unat a = 16 \<longrightarrow> w \<le> 4)" and "length d = 8"
  shows "\<exists>d'. dma_on_read a d w dma = Some d' \<and> length d' = 8"
proof -
  have "a \<in> dma_reg_addrs \<longrightarrow> unat a + w \<le> 20" using assms(2) by (auto simp: dma_reg_addrs_def)
  then have "dma_on_read a d w dma \<noteq> None"
    using dma_on_read_total_iff [OF dma_inv_fields(1) [OF assms(1)] assms(3)] assms(2) by blast
  moreover have "dma_on_read a d w dma = Some d' \<Longrightarrow> length d' = 8" for d'
    unfolding dma_on_read_def reg_addr_set
    by (auto dest: mem_write_length simp: assms(3) split: if_splits Option.bind_splits)
  ultimately show ?thesis by blast
qed

lemma dma_write_total:
  assumes "dma_inv dma" and "unat a + w \<le> 20" and "w \<le> length x"
  shows "\<exists>dma'. dma_on_write a x w p dma = Some dma' \<and> dma_inv dma' \<and> same_input dma dma'"
proof -
  have "dma_on_write a x w p dma \<noteq> None"
    using dma_on_write_total_iff [OF dma_inv_fields(1) [OF assms(1)] assms(3)] assms(2) by blast
  then obtain dma' where w: "dma_on_write a x w p dma = Some dma'" by blast
  have "length (bytes_to_words rb) = 5" if "mem_write (words_to_bytes (regs dma)) n y = Some rb" for rb n y
    using mem_write_length [OF that] dma_inv_fields(1) [OF assms(1)] by (simp add: length_bytes_to_words)
  then have "dma_inv dma' \<and> same_input dma dma'"
    using w assms(1)
    by (auto simp: dma_on_write_def Let_def pcie_add_task_def pcie_net_add_task_def dma_inv_def
        dev_wf_def same_input_def DMA_REG_COUNT_def split: if_splits Option.bind_splits)
  with w show ?thesis by blast
qed

text \<open>The handlers of the engine leave the table of BARs alone (\<open>bar_requests_dispatched\<close>).\<close>

lemma dma_write_bars:
  assumes "dma_on_write addr data sz p dma = Some dma'"
  shows "same_bars dma dma'"
proof -
  obtain rb where "dma' = (let d = dma\<lparr>regs := bytes_to_words rb\<rparr>; r = regs d ! DMA_REG_CTL in
      if addr = DMA_REG_ADDR DMA_REG_CTL then
        if r AND push_bit 31 1 \<noteq> 0 then
          let d = d\<lparr>saved_ctl := r, saved_adl := regs d ! DMA_REG_ADL, saved_adh := regs d ! DMA_REG_ADH,
                saved_baz := regs d ! DMA_REG_BAZ\<rparr>;
              d = d\<lparr>regs := (regs d)[DMA_REG_STA := 0]\<rparr>
          in snd (pcie_add_task d 1000 Dma_finalize_transfer p)
        else d
      else d)"
    using assms unfolding dma_on_write_def Let_def by (fastforce split: Option.bind_splits if_splits)
  then show ?thesis
    by (simp add: Let_def same_bars_def pcie_add_task_def pcie_net_add_task_def)
qed

lemma dma_keeps_bars: "keeps_bars dma_call_read dma_call_write"
  by (auto simp: keeps_bars_def dma_call_read_def dma_call_write_def dest: dma_write_bars split: dma_fn.splits)

lemma dma_inv_task:
  assumes "dma_inv dma" and "length r = length (regs dma)" and "t \<in> {None, Some Dma_finalize_transfer}"
  shows "dma_inv (dma\<lparr>task_fn := t, regs := r, sock := k\<rparr>)"
  using assms by (simp add: dma_inv_def dev_wf_def PCIE_BAR_COUNT_def)

interpretation dma: pcie_device dma_call_read dma_call_write dma_call_ev
  "dma_call_task (map_option malloc_page mal) stk" dma_inv dma_rd_ok dma_wr_ok
  for mal :: "net_msg option" and stk :: net_msg
proof (unfold_locales, goal_cases)
  case (1 dev)
  then show ?case by (simp add: dma_inv_def)
next
  case (2 dev k)
  then show ?case by (simp add: dma_inv_def dev_wf_def PCIE_BAR_COUNT_def)
next
  case (3 dev c)
  then show ?case by (simp add: dma_inv_def dev_wf_def PCIE_BAR_COUNT_def)
next
  case (4 dev b f a w d)
  then have b: "b = 1" "f = Dma_on_read" using bar_one [of b Dma_on_read f] by (simp_all add: dma_inv_def)
  with 4 have "w \<le> 8 \<and> (unat a = 16 \<longrightarrow> w \<le> 4)" by (simp add: dma_rd_ok_def)
  from dma_read_total [OF 4(1) this 4(5)] 4(1) b show ?case
    by (auto simp: dma_call_read_def same_input_def)
next
  case (5 dev b f a w x)
  then have b: "b = 1" "f = Dma_on_write" using bar_one [of b Dma_on_write f] by (simp_all add: dma_inv_def)
  with 5 have "unat a + w \<le> 20" "w \<le> length x" by (simp_all add: dma_wr_ok_def)
  from dma_write_total [OF 5(1) this] b show ?case by (simp add: dma_call_write_def)
next
  case (6 dev f)
  then have f: "f = Dma_finalize_transfer" using dma_inv_fields(4) [OF 6(1)] by simp
  from finalize_transfer_total [of "dev\<lparr>task_fn := None\<rparr>" mal stk] dma_inv_fields(2) [OF 6(1)]
  obtain r k where fin: "finalize_transfer (map_option malloc_page mal) stk (dev\<lparr>task_fn := None\<rparr>) =
       Some (dev\<lparr>task_fn := None, regs := r, sock := k\<rparr>)" "length r = length (regs dev)"
     "sk_rx k = sk_rx (sock dev)" "sk_fail k = sk_fail (sock dev)" by auto
  have "dma_inv (dev\<lparr>task_fn := None, regs := r, sock := k\<rparr>)"
    using dma_inv_task [OF 6(1) fin(2)] by simp
  with fin f show ?case by (simp add: dma_call_task_def same_input_def)
next
  case (7 dev key)
  then show ?case by (simp add: dma_inv_def)
qed

section \<open>main\<close>

lemma open_tcp_result:
  "open_tcp_socket e = (r, srv, cli, calls) \<Longrightarrow>
     r = -1 \<or> r = 0 \<and> cli = te_accept e \<and> 0 \<le> cli"
  by (auto simp: open_tcp_socket_def tcp_on_error_def Let_def split: if_splits)

lemma main_init_ok:
  assumes "length (bar_data dma) = 6" and "length (regs dma) = 5"
  shows "\<exists>r calls dma'. dma_main_init e self dma = Some (r, calls, dma') \<and>
     r = fst (open_tcp_socket e) \<and> (r = -1 \<or> r = 0 \<and> dma_inv dma' \<and> net_fd dma' = te_accept e \<and> 0 \<le> te_accept e \<and>
        sock dma' = te_conn e)"
proof -
    obtain b where b: "map of_nat [0..<sizeof_bram] = (b :: byte list)" "length b = sizeof_bram" by simp
  obtain c where c: "init_common (dma\<lparr>bram := b\<rparr>) = Some (dma\<lparr>bram := b, bar_size := replicate 6 0,
      bar_writefn := replicate 6 None, bar_readfn := replicate 6 None, config := c\<rparr>)" "length c = 4096"
    using init_common_shape [of "dma\<lparr>bram := b\<rparr>"] by blast
  obtain r srv cli calls where o: "open_tcp_socket e = (r, srv, cli, calls)" by (cases "open_tcp_socket e")
  from open_tcp_result [OF o] show ?thesis
  proof (elim disjE conjE)
    assume "r = -1"
    then show ?thesis
      using c o unfolding dma_main_init_def b
      by (simp add: pcie_init_net_def pcie_net_init_def Let_def)
  next
    assume "r = 0" "cli = te_accept e" "0 \<le> cli"
    then show ?thesis
      using c o assms b(2) unfolding dma_main_init_def b(1)
      by (simp add: pcie_init_net_def pcie_net_init_def Let_def
          pcie_set_vendorid_def pcie_set_deviceid_def pcie_write_config_safe_def mem_write_patch
          length_mem_patch pcie_set_bar_def dma_inv_def dev_wf_def PCI_VENDOR_ID_def
          PCI_DEVICE_ID_def PCIE_BAR_COUNT_def DMA_REG_COUNT_def)
         (simp add: numeral_eq_Suc)
  qed
qed
text \<open>
  C6. \<open>main\<close> never goes wrong on a peer that sends well-formed frames whose accesses to BAR 1
  stay inside the registers: from any content of the stack, with any result the system calls of
  the initialisation give, it returns -1 when the connection cannot be made, and otherwise runs
  the loop without an undefined access for every sequence of results \<open>select\<close> may give. It
  returns 0 once the socket has been ready more often than the peer sent frames.
\<close>

theorem dma_main_safe:
  assumes "length (bar_data dma) = 6" and "length (regs dma) = 5"
    and init: "dma_main_init e self dma = Some (r, calls, dma1)"
    and "sk_fail (te_conn e) = []" and "sk_rx (te_conn e) = concat (map msg_frame ms)"
    and "\<forall>m\<in>set ms. msg_fits m \<and> msg_ok dma_rd_ok dma_wr_ok m"
    and "length buf = PCIE_NET_MSG_MAX_SIZE" and "length (r_data rep) = 8"
    and sels: "sels_ok (on_msg_recv dma_call_read dma_call_write) dma_call_ev
      (dma_call_task (map_option malloc_page mal) stk) sels \<lparr>l_msg = buf, l_reply = rep\<rparr> dma1"
  shows "\<exists>c calls' dma'. dma_main e self dma (Some buf) rep (map_option malloc_page mal) stk sels =
       Some (c, calls', dma') \<and>
     (if r = -1 then c = Some (-1)
      else dma_inv dma' \<and> (c = None \<or> c = Some 0) \<and>
        (length ms < length (filter (sock_ready (te_accept e)) sels) \<longrightarrow> c = Some 0))"
proof (cases "r = -1")
  case True
  then show ?thesis using init by (simp add: dma_main_def)
next
  case False
  let ?l = "\<lparr>l_msg = buf, l_reply = rep\<rparr>"
  have 1: "dma_inv dma1" "net_fd dma1 = te_accept e" "0 \<le> te_accept e" "sock dma1 = te_conn e"
    using main_init_ok [OF assms(1,2), of e self] init False by auto
  have c: "dma.conn_ok ms ?l dma1"
    using 1 assms(4-8) by (simp add: dma.conn_ok_def)
  obtain ctl l' dma' ms' where run: "net_loop_run (on_msg_recv dma_call_read dma_call_write) dma_call_ev
      (dma_call_task (map_option malloc_page mal) stk) sels ?l dma1 = Some (ctl, l', dma')"
    "dma.conn_ok ms' l' dma'" "ctl \<noteq> Running \<longrightarrow> ctl = Returned 0"
    "length ms < length (filter (sock_ready (net_fd dma1)) sels) \<longrightarrow> ctl = Returned 0"
    using dma.run_ok [OF c sels] by blast
  have "dma_inv dma'" using run(2) by (simp add: dma.conn_ok_def)
  moreover have "pcie_loop dma_call_read dma_call_write dma_call_ev
      (dma_call_task (map_option malloc_page mal) stk) (Some buf) rep sels dma1 = Some (ctl, dma')"
    using run(1) by (simp add: pcie_loop_def pcie_net_loop_def)
  ultimately show ?thesis
    using False init run(3,4) 1(2) by (cases ctl) (auto simp: dma_main_def)
qed

theorem dma_main_safe_witness:
  "\<exists>calls dma. dma_main \<lparr>te_gai = 0, te_socket = 3, te_bind = 0, te_listen = 0, te_accept = 4,
        te_conn = \<lparr>sk_rx = [], sk_tx = [], sk_snd = [], sk_fail = []\<rparr>\<rparr> 0 zero_dma
      (Some (replicate 4111 0)) \<lparr>r_hsize = 0, r_status = 0, r_data = replicate 8 0\<rparr> None
      \<lparr>m_hsize = 0, m_op = 0, m_bar = 0, m_width = 0, m_addr = 0, m_size = 0, m_data = []\<rparr>
      [Sel_Ready [4] None] = Some (Some 0, calls, dma)"
proof -
  let ?e = "\<lparr>te_gai = 0, te_socket = 3, te_bind = 0, te_listen = 0, te_accept = 4,
        te_conn = \<lparr>sk_rx = [], sk_tx = [], sk_snd = [], sk_fail = []\<rparr>\<rparr>"
  let ?stk = "\<lparr>m_hsize = 0, m_op = 0, m_bar = 0, m_width = 0, m_addr = 0, m_size = 0, m_data = []\<rparr>"
  let ?rep = "\<lparr>r_hsize = 0, r_status = 0, r_data = replicate 8 (0 :: byte)\<rparr>"
  have z: "length (bar_data zero_dma) = 6" "length (regs zero_dma) = 5" by (simp_all add: zero_dma_def)
  from main_init_ok [OF z, of ?e 0] obtain r calls dma1 where
    i: "dma_main_init ?e 0 zero_dma = Some (r, calls, dma1)" "r = 0" "net_fd dma1 = 4"
    by (auto simp: open_tcp_socket_def tcp_on_error_def Let_def)
    have "sels_ok (on_msg_recv dma_call_read dma_call_write) dma_call_ev
      (dma_call_task (map_option malloc_page None) ?stk) [Sel_Ready [4] None]
      \<lparr>l_msg = replicate 4111 0, l_reply = ?rep\<rparr> dma1"
      using i by (auto simp: net_select_fds_def split: option.split prod.split loop_ctl.split)
    from dma_main_safe [OF z i(1) _ _ _ _ _ this, of "[]"] i(2) show ?thesis
    by (auto simp: PCIE_NET_MSG_MAX_SIZE_def msg_data_off_def)
qed

section \<open>A transfer as the driver programs it\<close>

text \<open>The requests the core receives, one after the other.\<close>

fun dma_handle_all :: "net_reply \<Rightarrow> net_msg list \<Rightarrow> dma \<Rightarrow> dma option" where
  "dma_handle_all rep [] dma = Some dma"
| "dma_handle_all rep (m # ms) dma = do {
     (n, rep, dma) \<leftarrow> on_msg_recv dma_call_read dma_call_write m rep dma;
     dma_handle_all rep ms dma
   }"

text \<open>A write of register \<open>r\<close>; \<open>junk\<close> is what the receive buffer held behind the four bytes.\<close>

definition reg_write :: "byte list \<Rightarrow> nat \<Rightarrow> u32 \<Rightarrow> net_msg" where
  "reg_write junk r x = \<lparr>m_hsize = 0, m_op = PCIE_NET_OP_WRITE_MEM, m_bar = 1, m_width = 4,
     m_addr = DMA_REG_ADDR r, m_size = 4, m_data = le_bytes 4 x @ junk\<rparr>"

lemma recv_reg_write:
  assumes "dma_inv dma"
  shows "on_msg_recv dma_call_read dma_call_write (reg_write junk r x) rep dma =
     map_option (\<lambda>d. (0, rep, d)) (dma_on_write (DMA_REG_ADDR r) (le_bytes 4 x @ junk) 4 (bar_data dma ! 1) dma)"
proof -
  have "bar_writefn dma ! 1 = Some Dma_on_write" using assms by (simp add: dma_inv_def)
  then show ?thesis
    by (cases "dma_on_write (DMA_REG_ADDR r) (le_bytes 4 x @ junk) 4 (bar_data dma ! 1) dma")
      (simp_all add: on_msg_recv_def reg_write_def const_defs dma_call_write_def)
qed
text \<open>The engine after a driver has programmed a transfer.\<close>

definition programmed :: "u32 \<Rightarrow> u32 \<Rightarrow> u32 \<Rightarrow> u32 \<Rightarrow> dma \<Rightarrow> dma" where
  "programmed baz adh adl ctl dma = dma\<lparr>
     regs := (regs dma)[DMA_REG_BAZ := baz, DMA_REG_ADH := adh, DMA_REG_ADL := adl, DMA_REG_CTL := ctl, DMA_REG_STA := 0],
     saved_ctl := ctl, saved_adl := adl, saved_adh := adh, saved_baz := baz,
     task_tm := \<lparr>tv_sec = 0, tv_usec = 1000\<rparr>, task_fn := Some Dma_finalize_transfer,
     task_data := bar_data dma ! 1\<rparr>"

lemma programmed_writes:
  assumes i: "dma_inv dma" and c: "ctl AND push_bit 31 1 \<noteq> 0"
  shows "dma_handle_all rep [reg_write junk DMA_REG_BAZ baz, reg_write junk DMA_REG_ADH adh,
     reg_write junk DMA_REG_ADL adl, reg_write junk DMA_REG_CTL ctl] dma = Some (programmed baz adh adl ctl dma)"
proof -
  note ri = dma_inv_fields [OF i]
  have inv: "dma_inv (dma\<lparr>regs := x\<rparr>)" if "length x = 5" for x
    using i that by (simp add: dma_inv_def dev_wf_def DMA_REG_COUNT_def PCIE_BAR_COUNT_def)
  have "dma_on_write (DMA_REG_ADDR DMA_REG_CTL) (le_bytes 4 ctl @ junk) 4 (bar_data dma ! 1)
      (dma\<lparr>regs := (regs dma)[DMA_REG_BAZ := baz, DMA_REG_ADH := adh, DMA_REG_ADL := adl]\<rparr>) =
      Some (programmed baz adh adl ctl dma)"
    using dma_write_ctl_reg [of "dma\<lparr>regs := (regs dma)[DMA_REG_BAZ := baz, DMA_REG_ADH := adh,
        DMA_REG_ADL := adl]\<rparr>" ctl junk "bar_data dma ! 1"] c ri(1)
    by (simp add: const_defs programmed_def)
  then show ?thesis
    using ri(1) i inv
    by (simp add: recv_reg_write dma_write_reg DMA_REG_BAZ_def DMA_REG_ADH_def DMA_REG_ADL_def)
qed

text \<open>
  C5. A transfer as a driver programs it over the link, end to end: after writes of the seed,
  the two halves of the address and a control word with bit 31, the next timeout of the loop
  makes the engine send messages that put the memory plus the seed at that address of the host,
  followed by an MSI exactly when bit 30 is set; the status register then reads as completed and
  no task is left.
\<close>

theorem programmed_transfer:
  assumes i: "dma_inv dma" and s: "sk_snd (sock dma) = []" and c: "ctl AND push_bit 31 1 \<noteq> 0"
    and m0: "length (m_data m0) = 4096"
  shows "\<exists>dma1 dma2 f ms.
     dma_handle_all rep [reg_write junk DMA_REG_BAZ baz, reg_write junk DMA_REG_ADH adh,
       reg_write junk DMA_REG_ADL adl, reg_write junk DMA_REG_CTL ctl] dma = Some dma1 \<and>
     net_select_tm dma1 = Some \<lparr>tv_sec = 0, tv_usec = 1000\<rparr> \<and>
     pcie_net_loop_iter (on_msg_recv dma_call_read dma_call_write) dma_call_ev
       (dma_call_task (Some m0) stk) Sel_Timeout l dma1 = Some (Running, l, dma2) \<and>
     sk_tx (sock dma2) = sk_tx (sock dma) @ f \<and>
     (\<forall>rest. recv_count (net_rcv old) (length ms) (f @ rest) = Some (ms, rest)) \<and>
     map m_op ms = replicate 8 PCIE_NET_OP_WRITE_MEM @
        (if ctl AND push_bit 30 1 \<noteq> 0 then [PCIE_NET_OP_MSI] else []) \<and>
     (\<forall>h a. fold host_write (take 8 ms) h a =
        (let x = unat (a - (push_bit 32 (ucast adh) OR ucast adl))
         in if x < 32768 then bram dma ! x + ucast baz else h a)) \<and>
     regs dma2 ! DMA_REG_STA = push_bit 31 1 OR (ctl AND 0xffff) \<and> task_fn dma2 = None"
proof -
  note ri = dma_inv_fields [OF i]
  let ?d1 = "programmed baz adh adl ctl dma"
  let ?d = "?d1\<lparr>task_fn := None\<rparr>"
  have hyp: "length (bram ?d) = 32768" "sk_snd (sock ?d) = []" using ri s by (simp_all add: programmed_def)
  have fld: "bram ?d = bram dma" "saved_baz ?d = baz"
    "xfer_base ?d = push_bit 32 (ucast adh) OR ucast adl" by (simp_all add: xfer_base_def programmed_def)
  let ?x = "xfer_msgs ?d m0 stk"
  let ?d2 = "?d\<lparr>regs := (regs ?d)[DMA_REG_STA := push_bit 31 1 OR (ctl AND 0xffff)],
        sock := (sock dma)\<lparr>sk_tx := sk_tx (sock dma) @ concat (map msg_frame ?x)\<rparr>\<rparr>"
  have it: "pcie_net_loop_iter (on_msg_recv dma_call_read dma_call_write) dma_call_ev
       (dma_call_task (Some m0) stk) Sel_Timeout l ?d1 = Some (Running, l, ?d2)"
    using finalize_frames [OF hyp m0, of stk] by (simp add: dma_call_task_def programmed_def)
  show ?thesis
  proof (intro exI conjI)
    show "dma_handle_all rep [reg_write junk DMA_REG_BAZ baz, reg_write junk DMA_REG_ADH adh,
       reg_write junk DMA_REG_ADL adl, reg_write junk DMA_REG_CTL ctl] dma = Some ?d1" by (rule programmed_writes [OF i c])
    show "pcie_net_loop_iter (on_msg_recv dma_call_read dma_call_write) dma_call_ev
       (dma_call_task (Some m0) stk) Sel_Timeout l ?d1 = Some (Running, l, ?d2)" by (rule it)
    show "\<forall>rest. recv_count (net_rcv old) (length (map msg_norm ?x)) (concat (map msg_frame ?x) @ rest) =
        Some (map msg_norm ?x, rest)"
      using xfer_received [OF hyp(1) m0] by simp
    show "map m_op (map msg_norm ?x) = replicate 8 PCIE_NET_OP_WRITE_MEM @
        (if ctl AND push_bit 30 1 \<noteq> 0 then [PCIE_NET_OP_MSI] else [])"
      using xfer_ops [of ?d m0 stk] by (simp add: programmed_def)
    show "\<forall>h a. fold host_write (take 8 (map msg_norm ?x)) h a =
        (let x = unat (a - (push_bit 32 (ucast adh) OR ucast adl))
         in if x < 32768 then bram dma ! x + ucast baz else h a)"
      using xfer_host [OF hyp(1), of m0 stk] unfolding fld by blast
    show "regs ?d2 ! DMA_REG_STA = push_bit 31 1 OR (ctl AND 0xffff)"
      using ri(1) by (simp add: DMA_REG_STA_def programmed_def)
  qed (simp_all add: net_select_tm_def programmed_def)
qed
lemma zero_dma_inv: "dma_inv zero_dma"
  by (simp add: dma_inv_def dev_wf_def zero_dma_def PCIE_BAR_COUNT_def DMA_REG_COUNT_def)

theorem programmed_transfer_witness:
  "\<exists>dma1 dma2 f ms h. pcie_net_loop_iter (on_msg_recv dma_call_read dma_call_write) dma_call_ev
       (dma_call_task (Some \<lparr>m_hsize = 0, m_op = 0, m_bar = 0, m_width = 0, m_addr = 0, m_size = 0,
          m_data = replicate 4096 0\<rparr>)
        \<lparr>m_hsize = 0, m_op = 0, m_bar = 0, m_width = 0, m_addr = 0, m_size = 0, m_data = []\<rparr>)
       Sel_Timeout \<lparr>l_msg = [], l_reply = \<lparr>r_hsize = 0, r_status = 0, r_data = []\<rparr>\<rparr> dma1 =
       Some (Running, \<lparr>l_msg = [], l_reply = \<lparr>r_hsize = 0, r_status = 0, r_data = []\<rparr>\<rparr>, dma2) \<and>
     sk_tx (sock dma2) = f \<and> recv_count (net_rcv []) 9 f = Some (ms, []) \<and>
     fold host_write (take 8 ms) (\<lambda>_. 1) 0x100001000 = h \<and> h = 9 \<and>
     regs dma2 ! DMA_REG_STA = 0x80000010"
proof -
  let ?m0 = "\<lparr>m_hsize = 0, m_op = 0, m_bar = 0, m_width = 0, m_addr = 0, m_size = 0,
          m_data = replicate 4096 0\<rparr>"
  let ?stk = "\<lparr>m_hsize = 0, m_op = 0, m_bar = 0, m_width = 0, m_addr = 0, m_size = 0, m_data = []\<rparr>"
  let ?rep = "\<lparr>r_hsize = 0, r_status = 0, r_data = []\<rparr>"
  let ?l = "\<lparr>l_msg = [], l_reply = ?rep\<rparr>"
  let ?ctl = "0xc0000010 :: u32"
  have h: "sk_snd (sock zero_dma) = []" "?ctl AND push_bit 31 1 \<noteq> 0" "length (m_data ?m0) = 4096"
    by (simp_all add: zero_dma_def)
  from programmed_transfer [OF zero_dma_inv h, of ?rep "[]" 2 1 0 ?stk ?l "[]"]
  obtain dma1 dma2 f ms where
    1: "pcie_net_loop_iter (on_msg_recv dma_call_read dma_call_write) dma_call_ev
       (dma_call_task (Some ?m0) ?stk) Sel_Timeout ?l dma1 = Some (Running, ?l, dma2)" and
    2: "sk_tx (sock dma2) = sk_tx (sock zero_dma) @ f" and
    3: "\<forall>rest. recv_count (net_rcv []) (length ms) (f @ rest) = Some (ms, rest)" and
    4: "map m_op ms = replicate 8 PCIE_NET_OP_WRITE_MEM @
        (if ?ctl AND push_bit 30 1 \<noteq> 0 then [PCIE_NET_OP_MSI] else [])" and
    5: "\<forall>h a. fold host_write (take 8 ms) h a =
        (let x = unat (a - (push_bit 32 (ucast (1 :: u32)) OR ucast (0 :: u32)))
         in if x < 32768 then bram zero_dma ! x + ucast (2 :: u32) else h a)" and
    6: "regs dma2 ! DMA_REG_STA = push_bit 31 1 OR (?ctl AND 0xffff)"
    by blast
  have "length ms = 9" using arg_cong [OF 4, of length] by simp
  then have "recv_count (net_rcv []) 9 f = Some (ms, [])" using 3 [rule_format, of "[]"] by simp
  moreover have "sk_tx (sock dma2) = f" using 2 by (simp add: zero_dma_def)
  moreover have "fold host_write (take 8 ms) (\<lambda>_. 1) 0x100001000 = 9"
    using 5 by (simp add: zero_dma_def sizeof_bram_def)
  moreover have "regs dma2 ! DMA_REG_STA = 0x80000010" using 6 by simp
  ultimately show ?thesis using 1 by blast
qed

end
