(* ===== verification/Dma_Link.thy ===== *)
theory Dma_Link
  imports Dma_Transfer Vm_Bridge
begin

text \<open>
  The engine of \<open>Dma_Device\<close> behind the bridge of \<open>Vm_Bridge\<close>. The bytes in the sockets, the buffers
  of both sides and the loop of the engine implement a machine of messages (\<open>link\<close>): register writes
  on their way down, messages of the engine on their way up, the engine without its connection, and
  what the guest has seen. Whatever the order of turns, that machine ends in the same state.
\<close>

section \<open>The machine of messages\<close>

text \<open>A register write as the bridge sends it.\<close>

definition bus_write :: "nat \<times> u32 \<Rightarrow> net_msg" where
  "bus_write = (\<lambda>(r, x). write_req PCIE_NET_OP_WRITE_MEM 1 (DMA_REG_ADDR r) 4 (ucast x))"

text \<open>The effect of a register write on the engine.\<close>

definition reg_eff :: "nat \<times> u32 \<Rightarrow> dma \<Rightarrow> dma" where
  "reg_eff = (\<lambda>(r, x) d.
     if r = DMA_REG_CTL \<and> x AND push_bit 31 1 \<noteq> 0 then
       d\<lparr>regs := (regs d)[DMA_REG_CTL := x, DMA_REG_STA := 0],
         saved_ctl := x, saved_adl := regs d ! DMA_REG_ADL, saved_adh := regs d ! DMA_REG_ADH,
         saved_baz := regs d ! DMA_REG_BAZ,
         task_tm := \<lparr>tv_sec = 0, tv_usec = 1000\<rparr>, task_fn := Some Dma_finalize_transfer,
         task_data := bar_data d ! 1\<rparr>
     else d\<lparr>regs := (regs d)[r := x]\<rparr>)"

text \<open>The engine after the delayed task.\<close>

definition xfer_done :: "dma \<Rightarrow> dma" where
  "xfer_done d = d\<lparr>task_fn := None, regs := (regs d)[DMA_REG_STA := push_bit 31 1 OR (saved_ctl d AND 0xffff)]\<rparr>"

text \<open>What the guest sees of a message of the engine: its memory and the number of interrupts.\<close>

definition carry_out :: "net_msg \<Rightarrow> (u64 \<Rightarrow> byte) \<times> nat \<Rightarrow> (u64 \<Rightarrow> byte) \<times> nat" where
  "carry_out m = (\<lambda>(mem, n). if m_op m = PCIE_NET_OP_WRITE_MEM then (host_write m mem, n)
     else if m_op m = PCIE_NET_OP_MSI then (mem, n + 1) else (mem, n))"

record link =
  lk_down :: "(nat \<times> u32) list"
  lk_up :: "net_msg list"
  lk_eng :: dma
  lk_guest :: "(u64 \<Rightarrow> byte) \<times> nat"

text \<open>
  Turns of the engine and of the bridge. \<open>m0\<close> and \<open>stk\<close> are the contents of the memory \<open>malloc\<close>
  returns and of the stack, as in \<open>finalize_transfer\<close>.
\<close>

definition link_dev :: "net_msg \<Rightarrow> net_msg \<Rightarrow> link \<Rightarrow> link" where
  "link_dev m0 stk a = (case lk_down a of
      w # ws \<Rightarrow> a\<lparr>lk_down := ws, lk_eng := reg_eff w (lk_eng a)\<rparr>
    | [] \<Rightarrow> if task_fn (lk_eng a) = None then a
            else a\<lparr>lk_up := lk_up a @ map msg_norm (xfer_msgs (lk_eng a) m0 stk), lk_eng := xfer_done (lk_eng a)\<rparr>)"

definition link_bridge :: "link \<Rightarrow> link" where
  "link_bridge a = (case lk_up a of [] \<Rightarrow> a
    | m # ms \<Rightarrow> a\<lparr>lk_up := ms, lk_guest := carry_out m (lk_guest a)\<rparr>)"

fun link_turn :: "net_msg \<Rightarrow> net_msg \<Rightarrow> vm_turn \<Rightarrow> link \<Rightarrow> link" where
  "link_turn m0 stk Turn_dev a = link_dev m0 stk a"
| "link_turn m0 stk Turn_bridge a = link_bridge a"

text \<open>The engine once it has read all writes, and the state everything ends in.\<close>

definition link_eng :: "link \<Rightarrow> dma" where
  "link_eng a = fold reg_eff (lk_down a) (lk_eng a)"

definition settled :: "net_msg \<Rightarrow> net_msg \<Rightarrow> link \<Rightarrow> link" where
  "settled m0 stk a = (let d = link_eng a;
      ms = lk_up a @ (if task_fn d = None then [] else map msg_norm (xfer_msgs d m0 stk))
    in \<lparr>lk_down = [], lk_up = [], lk_eng = (if task_fn d = None then d else xfer_done d),
        lk_guest = fold carry_out ms (lk_guest a)\<rparr>)"

lemma settled_dev [simp]: "settled m0 stk (link_dev m0 stk a) = settled m0 stk a"
  by (cases "lk_down a") (auto simp: link_dev_def settled_def link_eng_def xfer_done_def Let_def)

lemma settled_bridge [simp]: "settled m0 stk (link_bridge a) = settled m0 stk a"
  by (cases "lk_up a") (simp_all add: link_bridge_def settled_def link_eng_def Let_def)

lemma settled_turn [simp]: "settled m0 stk (link_turn m0 stk t a) = settled m0 stk a"
  by (cases t) simp_all

lemma settled_turns: "settled m0 stk (fold (link_turn m0 stk) ts a) = settled m0 stk a"
  by (induction ts arbitrary: a) simp_all

lemma link_eng_turn: "task_fn (link_eng a) = None \<Longrightarrow> link_eng (link_turn m0 stk t a) = link_eng a"
  by (cases t; cases "lk_down a"; cases "lk_up a") (simp_all add: link_dev_def link_bridge_def link_eng_def)

lemma link_eng_turns: "task_fn (link_eng a) = None \<Longrightarrow> link_eng (fold (link_turn m0 stk) ts a) = link_eng a"
  by (induction ts arbitrary: a) (simp_all add: link_eng_turn)

text \<open>It is reached: every write takes the engine one turn, and the transfer one more.\<close>

lemma link_devs:
  "fold (link_turn m0 stk) (replicate (length (lk_down a)) Turn_dev) a = a\<lparr>lk_down := [], lk_eng := link_eng a\<rparr>"
proof (induction "lk_down a" arbitrary: a)
  case (Cons w ws)
  then have ws: "ws = lk_down (link_dev m0 stk a)" by (cases "lk_down a") (auto simp: link_dev_def)
  from Cons.hyps(1) [OF ws] Cons.hyps(2) [symmetric] show ?case
    by (simp add: link_dev_def link_eng_def)
qed (simp add: link_eng_def)

lemma link_bridges:
  "fold (link_turn m0 stk) (replicate (length (lk_up a)) Turn_bridge) a =
     a\<lparr>lk_up := [], lk_guest := fold carry_out (lk_up a) (lk_guest a)\<rparr>"
proof (induction "lk_up a" arbitrary: a)
  case (Cons m ms)
  then have ms: "ms = lk_up (link_bridge a)" by (cases "lk_up a") (auto simp: link_bridge_def)
  from Cons.hyps(1) [OF ms] Cons.hyps(2) [symmetric] show ?case by (simp add: link_bridge_def)
qed simp

section \<open>The implementation of the machine\<close>

definition dma_cb :: "net_msg \<Rightarrow> net_msg \<Rightarrow> (dma_fn, dma) callbacks" where
  "dma_cb m0 stk = \<lparr>cb_recv = on_msg_recv dma_call_read dma_call_write, cb_ev = dma_call_ev,
     cb_task = dma_call_task (Some m0) stk\<rparr>"

definition no_sock :: "dma \<Rightarrow> dma" where
  "no_sock d = d\<lparr>sock := \<lparr>sk_rx = [], sk_tx = [], sk_snd = [], sk_fail = []\<rparr>\<rparr>"

text \<open>\<open>rq\<close> is what follows the register writes: the request of a read, while one is waiting.\<close>

definition impls :: "byte list \<Rightarrow> link \<Rightarrow> dma vm \<Rightarrow> bool" where
  "impls rq a s \<longleftrightarrow> bridge_ok s \<and> loc_ok (vm_loc s) \<and> dma_inv (vm_dev s) \<and> 0 \<le> net_fd (vm_dev s) \<and>
     sk_snd (sock (vm_dev s)) = [] \<and> sk_fail (sock (vm_dev s)) = [] \<and>
     sk_rx (sock (vm_dev s)) @ sk_tx (br_sock s) = concat (map (\<lambda>w. msg_frame (bus_write w)) (lk_down a)) @ rq \<and>
     (\<forall>w\<in>set (lk_down a). fst w < 5) \<and>
     sk_rx (br_sock s) @ sk_tx (sock (vm_dev s)) = concat (map msg_frame (lk_up a)) \<and>
     (\<forall>m\<in>set (lk_up a). msg_fits m \<and> msg_norm m = m) \<and>
     lk_eng a = no_sock (vm_dev s) \<and> lk_guest a = (br_mem s, br_msis s)"

abbreviation impl :: "link \<Rightarrow> dma vm \<Rightarrow> bool" where "impl \<equiv> impls []"

lemma bus_write_fields [simp]:
  "m_op (bus_write w) = PCIE_NET_OP_WRITE_MEM" "m_bar (bus_write w) = 1" "m_width (bus_write w) = 4"
  "m_addr (bus_write w) = DMA_REG_ADDR (fst w)" "m_size (bus_write w) = 4"
  "m_data (bus_write w) = le_bytes 8 (ucast (snd w) :: u64)"
  by (cases w; simp add: bus_write_def write_req_def)+

lemma bus_write_fits: "msg_fits (bus_write w)"
  by (simp add: msg_fits_def)

lemma dma_inv_sock [simp]: "dma_inv (d\<lparr>sock := k\<rparr>) = dma_inv d"
  by (simp add: dma_inv_def dev_wf_def)

lemma dma_inv_reg_eff: "dma_inv d \<Longrightarrow> dma_inv (reg_eff w d)"
  by (cases w) (simp add: reg_eff_def dma_inv_def dev_wf_def PCIE_BAR_COUNT_def)

lemma reg_eff_sock [simp]:
  "sock (reg_eff w d) = sock d" "net_fd (reg_eff w d) = net_fd d" "ev_fd (reg_eff w d) = ev_fd d"
  "reg_eff w (no_sock d) = no_sock (reg_eff w d)" "reg_eff w (d\<lparr>sock := k\<rparr>) = (reg_eff w d)\<lparr>sock := k\<rparr>"
  by (cases w; simp add: reg_eff_def no_sock_def)+

text \<open>The engine handles a register write, whatever the buffer holds behind its four bytes.\<close>

lemma recv_bus_write:
  assumes i: "dma_inv d" and w: "fst w < 5" and m: "msg_norm m = msg_norm (bus_write w)"
  shows "on_msg_recv dma_call_read dma_call_write m rep d = Some (0, rep, reg_eff w d)"
proof -
  have f: "m_op m = PCIE_NET_OP_WRITE_MEM" "m_bar m = 1" "m_width m = 4" "m_addr m = DMA_REG_ADDR (fst w)"
    "m_size m = 4"
    using arg_cong [OF m, of m_op] arg_cong [OF m, of m_bar] arg_cong [OF m, of m_width]
      arg_cong [OF m, of m_addr] arg_cong [OF m, of m_size] by simp_all
  have "take 4 (m_data m) = le_bytes 4 (snd w)"
    using arg_cong [OF m, of m_data] f(5) by (simp add: take_4_bytes)
  then have d: "m_data m = le_bytes 4 (snd w) @ drop 4 (m_data m)" by (metis append_take_drop_id)
  have bw: "bar_writefn d ! 1 = Some Dma_on_write" using i by (simp add: dma_inv_def)
  note ri = dma_inv_fields(1) [OF i]
  have "dma_on_write (DMA_REG_ADDR (fst w)) (le_bytes 4 (snd w) @ drop 4 (m_data m)) 4 (bar_data d ! 1) d =
      Some (reg_eff w d)"
  proof (cases "fst w = DMA_REG_CTL")
    case True
    then show ?thesis using dma_write_ctl_reg [OF ri] by (cases w) (simp add: reg_eff_def)
  next
    case False
    then show ?thesis using dma_write_reg [OF ri, of "fst w"] w by (cases w) (simp add: reg_eff_def DMA_REG_CTL_def)
  qed
  then have "dma_on_write (DMA_REG_ADDR (fst w)) (m_data m) 4 (bar_data d ! 1) d = Some (reg_eff w d)"
    using d by simp
  then show ?thesis using f bw by (simp add: on_msg_recv_def const_defs dma_call_write_def)
qed

lemma impl_wire:
  assumes "impls rq a s"
  shows "impls rq a (wire s)" "sk_tx (br_sock (wire s)) = []" "sk_tx (sock (vm_dev (wire s))) = []"
    "sk_rx (sock (vm_dev (wire s))) = concat (map (\<lambda>w. msg_frame (bus_write w)) (lk_down a)) @ rq"
    "sk_rx (br_sock (wire s)) = concat (map msg_frame (lk_up a))" "vm_sched (wire s) = vm_sched s"
  using assms by (simp_all add: impls_def wire_def Let_def bridge_ok_def no_sock_def)

lemma impl_blocked:
  assumes "impl a s" and "lk_down a = []" and "task_fn (lk_eng a) = None"
  shows "dev_blocked (wire s)"
proof -
  have "sk_rx (sock (vm_dev (wire s))) = []" using impl_wire(4) [OF assms(1)] assms(2) by simp
  moreover have "task_fn (vm_dev (wire s)) = None"
    using impl_wire(1) [OF assms(1)] assms(3) by (simp add: impls_def no_sock_def)
  ultimately show ?thesis by (simp add: dev_blocked_def net_select_tm_def)
qed

lemma impl_dev_write:
  assumes i: "impls rq a s" and a: "lk_down a = w # ws"
  shows "\<exists>s'. dev_turn (dma_cb m0 stk) (wire s) = Some s' \<and> impls rq (link_dev m0 stk a) s' \<and> vm_sched s' = vm_sched s"
proof -
  let ?s = "wire s"
  note W = impl_wire [OF i]
  let ?rest = "concat (map (\<lambda>w. msg_frame (bus_write w)) ws) @ rq"
  let ?d = "(vm_dev ?s)\<lparr>sock := (sock (vm_dev ?s))\<lparr>sk_rx := ?rest\<rparr>\<rparr>"
  have I: "sk_fail (sock (vm_dev ?s)) = []" "sk_snd (sock (vm_dev ?s)) = []" "dma_inv (vm_dev ?s)"
    "0 \<le> net_fd (vm_dev ?s)" "loc_ok (vm_loc ?s)" "fst w < 5"
    using W(1) a by (simp_all add: impls_def)
  have ev: "ev_fd (vm_dev ?s) = -1" by (rule dma_inv_fields(3) [OF I(3)])
  have rx: "sk_rx (sock (vm_dev ?s)) = msg_frame (bus_write w) @ ?rest" using W(4) a by simp
  have h: "cb_recv (dma_cb m0 stk) m' (l_reply (vm_loc ?s)) ?d = Some (0, l_reply (vm_loc ?s), reg_eff w ?d)"
    if "msg_norm m' = msg_norm (bus_write w)" for m'
    using recv_bus_write [OF _ I(6) that, of ?d] I(3) by (simp add: dma_cb_def)
  have "\<exists>l. dev_turn (dma_cb m0 stk) ?s = Some (wire (?s\<lparr>vm_loc := l, vm_dev :=
       (if (0 :: nat) = 0 then reg_eff w ?d else (reg_eff w ?d)\<lparr>sock := (sock (reg_eff w ?d))\<lparr>sk_tx :=
         sk_tx (sock (reg_eff w ?d)) @ encode_reply ((l_reply (vm_loc ?s))\<lparr>r_hsize := of_nat sizeof_reply\<rparr>)\<rparr>\<rparr>)\<rparr>)) \<and> loc_ok l"
    by (rule dev_turn_frame [OF rx I(1) ev I(4) bus_write_fits I(5) h])
      (use I(2,5) ev in \<open>simp_all add: loc_ok_def\<close>)
  then obtain l where l: "dev_turn (dma_cb m0 stk) ?s = Some (wire (?s\<lparr>vm_loc := l, vm_dev := reg_eff w ?d\<rparr>))" "loc_ok l"
    by auto
  have "impls rq (link_dev m0 stk a) (?s\<lparr>vm_loc := l, vm_dev := reg_eff w ?d\<rparr>)"
    using W(1-3) l(2) a rx I by (simp add: impls_def link_dev_def dma_inv_reg_eff no_sock_def bridge_ok_def)
  from impl_wire(1,6) [OF this] l(1) W(6) show ?thesis by auto
qed

lemma no_sock_fields [simp]:
  "task_fn (no_sock d) = task_fn d" "regs (no_sock d) = regs d" "bram (no_sock d) = bram d"
  "no_sock (no_sock d) = no_sock d" "dma_inv (no_sock d) = dma_inv d"
  by (simp_all add: no_sock_def)

lemma msg_norm_norm [simp]: "msg_norm (msg_norm m) = msg_norm m"
  by (simp add: msg_norm_def)

lemma msg_frame_of_norm [simp]: "msg_frame (msg_norm m) = msg_frame m"
  by (simp add: msg_frame_split)

lemma xfer_fits:
  assumes "length (bram d) = 32768" and "length (m_data m0) = 4096" and "m \<in> set (xfer_msgs d m0 stk)"
  shows "msg_fits m"
  using assms by (auto simp: xfer_msgs_def msg_fits_def page_msg_def split: if_splits)

lemma fits_norm [simp]: "msg_fits m \<Longrightarrow> msg_fits (msg_norm m)"
  by (simp add: msg_fits_def)

lemma xfer_msgs_core [simp]:
  "xfer_msgs (no_sock d) m0 stk = xfer_msgs d m0 stk" "xfer_msgs (d\<lparr>task_fn := t\<rparr>) m0 stk = xfer_msgs d m0 stk"
  by (simp_all add: xfer_msgs_def xfer_base_def no_sock_def)

lemma impl_dev_timeout:
  assumes i: "impl a s" and a: "lk_down a = []" and t: "task_fn (lk_eng a) \<noteq> None" and m0: "length (m_data m0) = 4096"
  shows "\<exists>s'. dev_turn (dma_cb m0 stk) (wire s) = Some s' \<and> impl (link_dev m0 stk a) s' \<and> vm_sched s' = vm_sched s"
proof -
  let ?s = "wire s"
  let ?d = "vm_dev ?s"
  note W = impl_wire [OF i]
  have I: "sk_snd (sock ?d) = []" "dma_inv ?d" "lk_eng a = no_sock ?d" using W(1) by (simp_all add: impls_def)
  have rx: "sk_rx (sock ?d) = []" using W(4) a by simp
  have t: "task_fn ?d = Some Dma_finalize_transfer" using t dma_inv_fields(4) [OF I(2)] I(3) by (auto simp: no_sock_def)
  note b = dma_inv_fields(2) [OF I(2)]
  let ?d1 = "?d\<lparr>task_fn := None\<rparr>"
  let ?f = "concat (map msg_frame (xfer_msgs ?d m0 stk))"
  let ?d2 = "?d1\<lparr>regs := (regs ?d)[DMA_REG_STA := push_bit 31 1 OR (saved_ctl ?d AND 0xffff)],
      sock := (sock ?d)\<lparr>sk_tx := sk_tx (sock ?d) @ ?f\<rparr>\<rparr>"
  have "finalize_transfer (Some m0) stk ?d1 = Some ?d2"
    using finalize_frames [of ?d1 m0 stk] b I(1) m0 by simp
  then have turn: "dev_turn (dma_cb m0 stk) ?s = Some (wire (?s\<lparr>vm_loc := vm_loc ?s, vm_dev := ?d2\<rparr>))"
    using rx t by (simp add: dev_turn_def dma_cb_def dma_call_task_def)
  have fits: "\<forall>m\<in>set (xfer_msgs ?d m0 stk). msg_fits m" using xfer_fits b m0 by blast
  have inv: "dma_inv ?d2" using I(2) by (simp add: dma_inv_def dev_wf_def PCIE_BAR_COUNT_def)
  have core: "no_sock ?d2 = xfer_done (no_sock ?d)" by (simp add: no_sock_def xfer_done_def)
  have "impl (link_dev m0 stk a) (?s\<lparr>vm_loc := vm_loc ?s, vm_dev := ?d2\<rparr>)"
    using W(1-3) a t fits inv core I rx by (auto simp: impls_def link_dev_def bridge_ok_def o_def)
  from impl_wire(1,6) [OF this] turn W(6) show ?thesis by auto
qed

lemma impl_process:
  assumes i: "impls rq a s" and up: "lk_up a = m # ms"
  shows "\<exists>s1 s'. pciefw_recv_msg (wire s) = Some (0, s1) \<and> sizeof_reply < unat (m_hsize (br_msg s1)) \<and>
     process_msg s1 = Some s' \<and> impls rq (link_bridge a) s' \<and> vm_sched s' = vm_sched s"
proof -
  let ?s = "wire s"
  note W = impl_wire [OF i]
  let ?rest = "concat (map msg_frame ms)"
  have rx: "sk_rx (br_sock ?s) = msg_frame m @ ?rest" using W(5) up by simp
  have I: "sk_fail (br_sock ?s) = []" "msg_fits m" "msg_norm m = m" "msg_room (br_msg ?s)"
    "lk_guest a = (br_mem ?s, br_msis ?s)"
    using W(1) up by (simp_all add: impls_def bridge_ok_def)
  obtain m' where m': "pciefw_recv_msg ?s = Some (0, ?s\<lparr>br_sock := (br_sock ?s)\<lparr>sk_rx := ?rest\<rparr>, br_msg := m'\<rparr>)"
    "msg_room m'" "msg_norm m' = msg_norm m" "sizeof_reply < unat (m_hsize m')"
    using bridge_recv_frame [OF I(1) rx I(2,4)] by blast
  have f: "m_op m' = m_op m" "m_addr m' = m_addr m" "m_size m' = m_size m"
    "take (unat (m_size m)) (m_data m') = take (unat (m_size m)) (m_data m)"
    using arg_cong [OF m'(3), of m_op] arg_cong [OF m'(3), of m_addr] arg_cong [OF m'(3), of m_size]
      arg_cong [OF m'(3), of m_data] by simp_all
  have hw: "host_write m' mem = host_write m mem" for mem
    using f by (auto simp: host_write_def fun_eq_iff) (metis nth_take)
  have sz: "unat (m_size m') \<le> length (m_data m')" using I(2) m'(2) f(3) by (simp add: msg_fits_def msg_room_def)
  let ?s1 = "?s\<lparr>br_sock := (br_sock ?s)\<lparr>sk_rx := ?rest\<rparr>, br_msg := m'\<rparr>"
  obtain s' where s': "process_msg ?s1 = Some s'" "s' = ?s1\<lparr>br_mem := fst (carry_out m (lk_guest a)),
      br_msis := snd (carry_out m (lk_guest a))\<rparr>"
    using sz hw f(1) I(5) by (auto simp: process_msg_def carry_out_def Let_def)
  have "impls rq (link_bridge a) s'"
    using W(1-5) up I rx m'(2) s'(2) by (auto simp: impls_def link_bridge_def bridge_ok_def)
  then show ?thesis using m'(1,4) s' W(6) by auto
qed

lemma impl_bridge:
  assumes i: "impls rq a s"
  shows "\<exists>s'. pciefw_on_read (wire s) = Some s' \<and> impls rq (link_bridge a) s' \<and> vm_sched s' = vm_sched s"
proof (cases "lk_up a")
  case Nil
  then have "pciefw_on_read (wire s) = Some (wire s)" using impl_wire(5) [OF i] by (simp add: pciefw_on_read_def)
  then show ?thesis using impl_wire(1,6) [OF i] Nil by (simp add: link_bridge_def)
next
  case (Cons m ms)
  have "sk_rx (br_sock (wire s)) \<noteq> []" using impl_wire(5) [OF i] Cons by (simp add: msg_frame_split)
  then show ?thesis using impl_process [OF i Cons] by (auto simp: pciefw_on_read_def)
qed

text \<open>Every turn of the implementation is a turn of the machine.\<close>

lemma impl_turn:
  assumes "impl a s" and "length (m_data m0) = 4096"
  shows "\<exists>s'. vm_step (dma_cb m0 stk) t s = Some s' \<and> impl (link_turn m0 stk t a) s' \<and> vm_sched s' = vm_sched s"
proof (cases t)
  case Turn_bridge
  then show ?thesis using impl_bridge [OF assms(1)] by simp
next
  case Turn_dev
  consider (idle) "lk_down a = []" "task_fn (lk_eng a) = None"
    | (task) "lk_down a = []" "task_fn (lk_eng a) \<noteq> None" | (posted) w ws where "lk_down a = w # ws"
    by (cases "lk_down a") auto
  then show ?thesis
  proof cases
    case idle
    then have "link_dev m0 stk a = a" by (simp add: link_dev_def)
    then show ?thesis using impl_blocked [OF assms(1) idle] impl_wire(1,6) [OF assms(1)] Turn_dev by simp
  next
    case task
    have "\<not> dev_blocked (wire s)"
      using task impl_wire(1) [OF assms(1)] by (auto simp: dev_blocked_def net_select_tm_def impls_def no_sock_def)
    then show ?thesis using impl_dev_timeout [OF assms(1) task assms(2)] Turn_dev by simp
  next
    case (posted w ws)
    have "\<not> dev_blocked (wire s)"
      using posted impl_wire(4) [OF assms(1)] by (simp add: dev_blocked_def msg_frame_split)
    then show ?thesis using impl_dev_write [OF assms(1) posted] Turn_dev by simp
  qed
qed

lemma impl_turns:
  assumes "length (m_data m0) = 4096"
  shows "impl a s \<Longrightarrow> \<exists>s'. vm_steps (dma_cb m0 stk) ts s = Some s' \<and>
     impl (fold (link_turn m0 stk) ts a) s' \<and> vm_sched s' = vm_sched s"
proof (induction ts arbitrary: a s)
  case (Cons t ts)
  obtain s1 where s1: "vm_step (dma_cb m0 stk) t s = Some s1" "impl (link_turn m0 stk t a) s1" "vm_sched s1 = vm_sched s"
    using impl_turn [OF Cons.prems assms] by blast
  from Cons.IH [OF s1(2)] s1(1,3) show ?case by auto
qed auto

section \<open>Accesses of the guest\<close>

lemma impl_scheduled:
  assumes "length (m_data m0) = 4096" and "impl a s"
  shows "\<exists>ts s'. vm_scheduled (dma_cb m0 stk) s = Some s' \<and> impl (fold (link_turn m0 stk) ts a) s'"
proof (cases "vm_sched s")
  case Nil
  then show ?thesis using assms(2) by (intro exI [of _ "[]"]) (simp add: vm_scheduled_def)
next
  case (Cons ts r)
  have "impl a (s\<lparr>vm_sched := r\<rparr>)" using assms(2) by (simp add: impls_def bridge_ok_def)
  from impl_turns [OF assms(1) this, of stk ts] obtain s' where
    "vm_steps (dma_cb m0 stk) ts (s\<lparr>vm_sched := r\<rparr>) = Some s'" "impl (fold (link_turn m0 stk) ts a) s'" by blast
  then show ?thesis using Cons by (intro exI [of _ ts] exI [of _ s']) (simp add: vm_scheduled_def)
qed

lemma impl_write:
  assumes m0: "length (m_data m0) = 4096" and i: "impl a s" and r: "r < 5"
  shows "\<exists>ts s'. vm_write32 (dma_cb m0 stk) q 1 (DMA_REG_ADDR r) x s = Some s' \<and>
     impl (fold (link_turn m0 stk) ts (a\<lparr>lk_down := lk_down a @ [(r, x)]\<rparr>)) s'"
proof -
  have ok: "bridge_ok s" using i by (simp add: impls_def)
  obtain m where m: "pciefw_send_write_mem 1 (DMA_REG_ADDR r) 4 (ucast x) s = Some (0, s\<lparr>br_msg := m,
      br_sock := (br_sock s)\<lparr>sk_tx := sk_tx (br_sock s) @ msg_frame (bus_write (r, x))\<rparr>\<rparr>)" "msg_room m"
    using bridge_write_mem [OF ok, of 4 1 "DMA_REG_ADDR r" "ucast x"] by (auto simp: bus_write_def)
  let ?s = "s\<lparr>br_msg := m, br_sock := (br_sock s)\<lparr>sk_tx := sk_tx (br_sock s) @ msg_frame (bus_write (r, x))\<rparr>\<rparr>"
  have "impl (a\<lparr>lk_down := lk_down a @ [(r, x)]\<rparr>) ?s"
    using i r m(2) by (auto simp: impls_def bridge_ok_def)
  from impl_scheduled [OF m0 this] show ?thesis
    using m(1) ok by (auto simp: vm_write32_def pciefw_mmio_write_def pciefw_connect_if_unconnected_def bridge_ok_def)
qed

lemma recv_reply_cong:
  "sel s = sel s' \<Longrightarrow> pciefw_recv_reply sel s = pciefw_recv_reply sel s'"
  by (subst (1 2) pciefw_recv_reply.simps) simp

lemma recv_ups:
  "impls rq a s \<Longrightarrow> \<exists>s'. pciefw_recv_reply (vm_select cb) s = pciefw_recv_reply (vm_select cb) s' \<and>
     impls rq (fold (link_turn m0 stk) (replicate (length (lk_up a)) Turn_bridge) a) s'"
proof (induction "lk_up a" arbitrary: a s)
  case Nil
  then show ?case by auto
next
  case (Cons m ms)
  obtain s1 s' where p: "pciefw_recv_msg (wire s) = Some (0, s1)" "sizeof_reply < unat (m_hsize (br_msg s1))"
     "process_msg s1 = Some s'" "impls rq (link_bridge a) s'"
    using impl_process [OF Cons.prems Cons.hyps(2) [symmetric]] by blast
  have "sk_rx (br_sock (wire s)) \<noteq> []"
    using impl_wire(5) [OF Cons.prems] Cons.hyps(2) [symmetric] by (simp add: msg_frame_split)
  then have "vm_select cb s = Some (1, False, wire s)" by (subst vm_select.simps) (simp add: Let_def)
  then have 1: "pciefw_recv_reply (vm_select cb) s = pciefw_recv_reply (vm_select cb) s'"
    using p(1-3) by (subst pciefw_recv_reply.simps) simp
  have "ms = lk_up (link_bridge a)" using Cons.hyps(2) [symmetric] by (simp add: link_bridge_def)
  from Cons.hyps(1) [OF this p(4)] 1 Cons.hyps(2) [symmetric]
  show ?case by (simp add: link_bridge_def)
qed

lemma select_downs:
  "impls rq a s \<Longrightarrow> lk_up a = [] \<Longrightarrow> \<exists>s'. vm_select (dma_cb m0 stk) s = vm_select (dma_cb m0 stk) s' \<and>
     impls rq (fold (link_turn m0 stk) (replicate (length (lk_down a)) Turn_dev) a) s'"
proof (induction "lk_down a" arbitrary: a s)
  case Nil
  then show ?case by auto
next
  case (Cons w ws)
  note dn = Cons.hyps(2) [symmetric]
  obtain s' where t: "dev_turn (dma_cb m0 stk) (wire s) = Some s'" "impls rq (link_dev m0 stk a) s'"
    using impl_dev_write [OF Cons.prems(1) dn] by blast
  have "sk_rx (br_sock (wire s)) = []" using impl_wire(5) [OF Cons.prems(1)] Cons.prems(2) by simp
  moreover have "\<not> dev_blocked (wire s)"
    using dn impl_wire(4) [OF Cons.prems(1)] by (simp add: dev_blocked_def msg_frame_split)
  ultimately have 1: "vm_select (dma_cb m0 stk) s = vm_select (dma_cb m0 stk) s'"
    using t(1) by (subst vm_select.simps) (simp add: Let_def)
  have ws: "ws = lk_down (link_dev m0 stk a)" "lk_up (link_dev m0 stk a) = []"
    using dn Cons.prems(2) by (simp_all add: link_dev_def)
  from Cons.hyps(1) [OF ws(1) t(2) ws(2)] 1 dn show ?case by (simp add: link_dev_def)
qed

lemma dma_read_reg:
  assumes "length (regs d) = 5" and "r < 5"
  shows "dma_on_read (DMA_REG_ADDR r) (le_bytes 8 (0 :: u64)) 4 d =
    Some (le_bytes 4 (regs d ! r) @ drop 4 (le_bytes 8 (0 :: u64)))"
proof -
  have "DMA_REG_ADDR r \<in> dma_reg_addrs"
    using reg_addr_props(2) [of r] assms(2) by (cases "r = 0") (auto simp: DMA_REG_ADDR_def dma_reg_addrs_def)
  then show ?thesis
    using mem_read_word [of r "regs d"] assms unfolding dma_on_read_def reg_addr_set
    by (simp add: unat_reg_addr mem_write_def)
qed

lemma recv_read_req:
  assumes i: "dma_inv d" and r: "r < 5" and m: "msg_norm m = msg_norm (read_req PCIE_NET_OP_READ_MEM (of_nat 1) (DMA_REG_ADDR r) 4)"
  shows "on_msg_recv dma_call_read dma_call_write m rep d = Some (1, rep\<lparr>r_status := 0,
     r_data := le_bytes 4 (regs d ! r) @ drop 4 (le_bytes 8 (0 :: u64))\<rparr>, d)"
proof -
  have f: "m_op m = PCIE_NET_OP_READ_MEM" "m_bar m = 1" "m_width m = 4" "m_addr m = DMA_REG_ADDR r"
    using arg_cong [OF m, of m_op] arg_cong [OF m, of m_bar] arg_cong [OF m, of m_width]
      arg_cong [OF m, of m_addr] by (simp_all add: read_req_def)
  have "bar_readfn d ! 1 = Some Dma_on_read" using i by (simp add: dma_inv_def)
  then show ?thesis using f dma_read_reg [OF dma_inv_fields(1) [OF i] r]
    by (simp add: on_msg_recv_def const_defs dma_call_read_def Let_def)
qed

text \<open>The engine has answered: the reply is all the bridge can read.\<close>

lemma select_reply:
  assumes i: "impls (msg_frame (read_req PCIE_NET_OP_READ_MEM (of_nat 1) (DMA_REG_ADDR r) 4)) a s"
    and a: "lk_up a = []" "lk_down a = []" and r: "r < 5"
  shows "\<exists>s' rep. vm_select (dma_cb m0 stk) s = Some (1, False, s') \<and> sk_rx (br_sock s') = encode_reply rep \<and>
     r_hsize rep = of_nat sizeof_reply \<and> length (r_data rep) = 8 \<and> take 4 (r_data rep) = le_bytes 4 (regs (lk_eng a) ! r) \<and>
     bridge_ok s' \<and> (\<forall>m. msg_room m \<longrightarrow> impl a (s'\<lparr>br_sock := (br_sock s')\<lparr>sk_rx := []\<rparr>, br_msg := m\<rparr>))"
proof -
  let ?m = "read_req PCIE_NET_OP_READ_MEM (of_nat 1) (DMA_REG_ADDR r) 4"
  let ?s = "wire s"
  note W = impl_wire [OF i]
  have I: "sk_fail (sock (vm_dev ?s)) = []" "sk_snd (sock (vm_dev ?s)) = []" "dma_inv (vm_dev ?s)"
    "0 \<le> net_fd (vm_dev ?s)" "loc_ok (vm_loc ?s)" "lk_eng a = no_sock (vm_dev ?s)"
    using W(1) by (simp_all add: impls_def)
  have rx: "sk_rx (sock (vm_dev ?s)) = msg_frame ?m @ []" using W(4) a by simp
  have bx: "sk_rx (br_sock ?s) = []" using W(5) a by simp
  let ?d = "(vm_dev ?s)\<lparr>sock := (sock (vm_dev ?s))\<lparr>sk_rx := []\<rparr>\<rparr>"
  have ev: "ev_fd (vm_dev ?s) = -1" by (rule dma_inv_fields(3) [OF I(3)])
  let ?rep = "(l_reply (vm_loc ?s))\<lparr>r_status := 0, r_data := le_bytes 4 (regs ?d ! r) @ drop 4 (le_bytes 8 (0 :: u64))\<rparr>"
  have h: "cb_recv (dma_cb m0 stk) m' (l_reply (vm_loc ?s)) ?d = Some (1, ?rep, ?d)" if "msg_norm m' = msg_norm ?m" for m'
    using recv_read_req [OF _ r that, of ?d] I(3) by (simp add: dma_cb_def)
  let ?reph = "?rep\<lparr>r_hsize := of_nat sizeof_reply\<rparr>"
  let ?d2 = "?d\<lparr>sock := (sock ?d)\<lparr>sk_tx := sk_tx (sock ?d) @ encode_reply ?reph\<rparr>\<rparr>"
  have "msg_fits ?m" by (simp add: msg_fits_def read_req_def)
  then have "\<exists>l. dev_turn (dma_cb m0 stk) ?s = Some (wire (?s\<lparr>vm_loc := l, vm_dev := (if (1 :: nat) = 0 then ?d else ?d2)\<rparr>)) \<and> loc_ok l"
    by (rule dev_turn_frame [OF rx I(1) ev I(4) _ I(5) h]) (use I(2) ev in simp_all)
  then obtain l where l: "dev_turn (dma_cb m0 stk) ?s = Some (wire (?s\<lparr>vm_loc := l, vm_dev := ?d2\<rparr>))" "loc_ok l" by auto
  let ?s1 = "wire (?s\<lparr>vm_loc := l, vm_dev := ?d2\<rparr>)"
  have nb: "\<not> dev_blocked ?s" using rx by (simp add: dev_blocked_def msg_frame_split)
  have tx: "sk_rx (br_sock ?s1) = encode_reply ?reph" "sk_tx (sock (vm_dev ?s1)) = []" "wire ?s1 = ?s1"
    using W(2,3) bx by (simp_all add: wire_def Let_def)
  have "vm_select (dma_cb m0 stk) ?s1 = Some (1, False, ?s1)"
    by (subst vm_select.simps) (use tx in \<open>simp add: Let_def encode_reply_def\<close>)
  then have "vm_select (dma_cb m0 stk) s = Some (1, False, ?s1)"
    using bx nb l(1) by (subst vm_select.simps) (simp add: Let_def)
  moreover have "impl a (?s1\<lparr>br_sock := (br_sock ?s1)\<lparr>sk_rx := []\<rparr>, br_msg := m\<rparr>)" if "msg_room m" for m
    using W(1-3) a I l(2) that by (simp add: impls_def wire_def Let_def bridge_ok_def no_sock_def)
  moreover have "bridge_ok ?s1" using W(1-3) by (simp add: impls_def wire_def Let_def bridge_ok_def)
  moreover have "take 4 (r_data ?reph) = le_bytes 4 (regs (lk_eng a) ! r)" "length (r_data ?reph) = 8"
    "r_hsize ?reph = of_nat sizeof_reply"
    using I(6) by simp_all
  ultimately show ?thesis using tx(1) by blast
qed

text \<open>
  A read while no transfer is due returns the register as all earlier writes leave it, and brings
  everything the engine sent before to the guest.
\<close>

lemma low_of_le: "ucast (of_le (le_bytes 4 x) :: u64) = (x :: u32)"
proof -
  have "(of_le (le_bytes 4 x @ replicate 4 0) :: u64) = ucast x"
    unfolding le_bytes_ucast [symmetric] by (simp add: of_le_le_bytes)
  moreover have "ucast (ucast x :: u64) = x" by (rule bit_word_eqI) (auto simp: bit_simps dest: bit_imp_le_length)
  ultimately show ?thesis by (simp add: of_le_append_zeros)
qed

text \<open>After the turns of a read both directions are empty, and the link is settled.\<close>

lemma drained:
  fixes a :: link
  assumes idle: "task_fn (link_eng a) = None" and a1: "a1 = fold (link_turn m0 stk) ts a"
    and a3: "a3 = fold (link_turn m0 stk) (replicate (length (lk_up a1)) Turn_bridge) a1"
    and a4: "a4 = fold (link_turn m0 stk) (replicate (length (lk_down a3)) Turn_dev) a3"
  shows "lk_up a3 = []" and "lk_up a4 = []" and "lk_down a4 = []" and "lk_eng a4 = link_eng a"
    and "a4 = settled m0 stk a"
proof -
  show up3: "lk_up a3 = []" unfolding a3 by (simp add: link_bridges del: fold_replicate)
  have eng: "link_eng a3 = link_eng a"
    unfolding a3 a1 using link_eng_turns [OF idle] by (metis fold_append comp_apply)
  show e: "lk_up a4 = []" "lk_down a4 = []" "lk_eng a4 = link_eng a"
    unfolding a4 using up3 eng by (simp_all add: link_devs del: fold_replicate)
  have "settled m0 stk a4 = settled m0 stk a" unfolding a4 a3 a1 by (simp only: settled_turns)
  moreover have "settled m0 stk a4 = a4"
    using e idle by (simp add: settled_def link_eng_def Let_def)
  ultimately show "a4 = settled m0 stk a" by simp
qed

text \<open>With nothing else under way, the reply to the request is what comes next.\<close>

lemma read_replied:
  assumes i: "impls (msg_frame (read_req PCIE_NET_OP_READ_MEM (of_nat 1) (DMA_REG_ADDR r) 4)) a s4"
    and a: "lk_up a = []" "lk_down a = []" and r: "r < 5"
    and s: "vm_select (dma_cb m0 stk) s3 = vm_select (dma_cb m0 stk) s4"
  shows "\<exists>rep s6. pciefw_recv_reply (vm_select (dma_cb m0 stk)) s3 = Some (0, Some rep, s6) \<and>
    take 4 (r_data rep) = le_bytes 4 (regs (lk_eng a) ! r) \<and> impl a s6"
proof -
  let ?cb = "dma_cb m0 stk"
  obtain s5 rep where s5: "vm_select ?cb s4 = Some (1, False, s5)" "sk_rx (br_sock s5) = encode_reply rep"
    "r_hsize rep = of_nat sizeof_reply" "length (r_data rep) = 8" "take 4 (r_data rep) = le_bytes 4 (regs (lk_eng a) ! r)"
    "bridge_ok s5" "\<forall>m. msg_room m \<longrightarrow> impl a (s5\<lparr>br_sock := (br_sock s5)\<lparr>sk_rx := []\<rparr>, br_msg := m\<rparr>)"
    using select_reply [OF i a r] by blast
  obtain m' where m': "pciefw_recv_msg s5 = Some (0, s5\<lparr>br_sock := (br_sock s5)\<lparr>sk_rx := []\<rparr>, br_msg := m'\<rparr>)"
    "msg_room m'" "m_hsize m' = of_nat sizeof_reply" "take sizeof_reply (encode_msg m') = encode_reply rep"
    using bridge_recv_reply_frame [of s5 rep "[]"] s5(2-4,6) by (auto simp: bridge_ok_def)
  let ?s6 = "s5\<lparr>br_sock := (br_sock s5)\<lparr>sk_rx := []\<rparr>, br_msg := m'\<rparr>"
  have "pciefw_recv_reply (vm_select ?cb) s3 = Some (0, Some rep, ?s6)"
    by (subst pciefw_recv_reply.simps)
      (use s s5(1) m' in \<open>simp add: decode_encode_reply sizeof_reply_def\<close>)
  moreover have "impl a ?s6" using s5(7) m'(2) by simp
  ultimately show ?thesis using s5(5) by (intro exI conjI)
qed

lemma impl_read:
  assumes m0: "length (m_data m0) = 4096" and i: "impl a s" and r: "r < 5" and idle: "task_fn (link_eng a) = None"
  shows "\<exists>s'. vm_read32 (dma_cb m0 stk) q 1 (DMA_REG_ADDR r) s = Some (regs (link_eng a) ! r, s') \<and>
     impl (settled m0 stk a) s'"
proof -
  let ?cb = "dma_cb m0 stk"
  let ?rq = "msg_frame (read_req PCIE_NET_OP_READ_MEM (of_nat 1) (DMA_REG_ADDR r) 4)"
  obtain ts s1 where s1: "vm_scheduled ?cb s = Some s1" "impl (fold (link_turn m0 stk) ts a) s1"
    using impl_scheduled [OF m0 i] by blast
  obtain a1 where a1: "a1 = fold (link_turn m0 stk) ts a" by blast
  have ok: "bridge_ok s1" using s1(2) by (simp add: impls_def)
  obtain m where m: "pciefw_send_read_mem (vm_select ?cb) 1 (DMA_REG_ADDR r) 4 s1 = do {
       (r, reply, s) \<leftarrow> pciefw_recv_reply (vm_select ?cb) (s1\<lparr>br_msg := m, br_sock := (br_sock s1)\<lparr>sk_tx :=
          sk_tx (br_sock s1) @ ?rq\<rparr>\<rparr>);
       case reply of None \<Rightarrow> Some (-1, [], s)
       | Some reply \<Rightarrow> Some (0, if (4 :: nat) \<in> {1, 2, 4, 8} then take 4 (r_data reply) else [], s) }" "msg_room m"
    using bridge_read_mem [OF ok] by blast
  let ?s2 = "s1\<lparr>br_msg := m, br_sock := (br_sock s1)\<lparr>sk_tx := sk_tx (br_sock s1) @ ?rq\<rparr>\<rparr>"
  have i2: "impls ?rq a1 ?s2" using s1(2) m(2) by (simp add: a1 impls_def bridge_ok_def)
  obtain a3 where a3: "a3 = fold (link_turn m0 stk) (replicate (length (lk_up a1)) Turn_bridge) a1" by blast
  obtain s3 where s3: "pciefw_recv_reply (vm_select ?cb) ?s2 = pciefw_recv_reply (vm_select ?cb) s3" "impls ?rq a3 s3"
    using recv_ups [OF i2] unfolding a3 by blast
  obtain a4 where a4: "a4 = fold (link_turn m0 stk) (replicate (length (lk_down a3)) Turn_dev) a3" by blast
  note d = drained [OF idle a1 a3 a4]
  obtain s4 where s4: "vm_select ?cb s3 = vm_select ?cb s4" "impls ?rq a4 s4"
    using select_downs [OF s3(2) d(1)] unfolding a4 by blast
  obtain rep s6 where s6: "pciefw_recv_reply (vm_select ?cb) s3 = Some (0, Some rep, s6)"
    "take 4 (r_data rep) = le_bytes 4 (regs (lk_eng a4) ! r)" "impl a4 s6"
    using read_replied [OF s4(2) d(2,3) r s4(1)] by blast
  have "pciefw_send_read_mem (vm_select ?cb) 1 (DMA_REG_ADDR r) 4 s1 =
      Some (0, le_bytes 4 (regs (link_eng a) ! r), s6)"
    using m(1) s3(1) s6(1,2) d(4) by simp
  then show ?thesis
    using s1(1) ok s6(3) low_of_le d(5)
    by (simp add: vm_read32_def pciefw_mmio_read_def pciefw_connect_if_unconnected_def bridge_ok_def)
qed

section \<open>Waiting for the interrupt\<close>

text \<open>
  The guest runs until an interrupt is notified: engine and bridge take turns. \<open>None\<close> when none
  ever comes.
\<close>

partial_function (option) vm_wait ::
  "('f, ('f, 'z) pcie_net_scheme) callbacks \<Rightarrow> ('f, 'z) pcie_net_scheme vm \<Rightarrow> ('f, 'z) pcie_net_scheme vm option" where
  "vm_wait cb s = (if br_msis s \<noteq> 0 then Some s
     else do { s \<leftarrow> vm_step cb Turn_dev s; s \<leftarrow> vm_step cb Turn_bridge s; vm_wait cb s })"

text \<open>A transfer with its interrupt is under way, or is over.\<close>

definition in_transfer :: "link \<Rightarrow> bool" where
  "in_transfer a \<longleftrightarrow> snd (lk_guest a) = 0 \<and>
     (task_fn (link_eng a) \<noteq> None \<and> saved_ctl (link_eng a) AND push_bit 30 1 \<noteq> 0 \<and>
        PCIE_NET_OP_MSI \<notin> set (map m_op (lk_up a)) \<and> length (bram (lk_eng a)) = 32768 \<or>
      lk_down a = [] \<and> task_fn (lk_eng a) = None \<and>
        (\<exists>os. map m_op (lk_up a) = os @ [PCIE_NET_OP_MSI] \<and> PCIE_NET_OP_MSI \<notin> set os))"

definition transferred :: "link \<Rightarrow> bool" where
  "transferred a \<longleftrightarrow> snd (lk_guest a) = 1 \<and> lk_down a = [] \<and> lk_up a = [] \<and> task_fn (lk_eng a) = None"

lemma transferred_settled: "transferred a \<Longrightarrow> settled m0 stk a = a"
  by (simp add: transferred_def settled_def link_eng_def)

lemma carry_out_other: "m_op m \<noteq> PCIE_NET_OP_MSI \<Longrightarrow> snd (carry_out m g) = snd g"
  by (cases g) (simp add: carry_out_def)

lemma reg_eff_bram [simp]: "bram (reg_eff w d) = bram d"
  by (cases w) (simp add: reg_eff_def)

text \<open>A turn of the engine, and one of the bridge.\<close>

lemma transfer_turn_dev:
  assumes "in_transfer a" and m0: "length (m_data m0) = 4096"
  shows "in_transfer (link_dev m0 stk a)"
proof (cases "lk_down a")
  case (Cons w ws)
  then show ?thesis using assms(1) by (auto simp: in_transfer_def link_dev_def link_eng_def)
next
  case Nil
  show ?thesis
  proof (cases "task_fn (lk_eng a)")
    case None
    then show ?thesis using assms(1) Nil by (simp add: link_dev_def)
  next
    case (Some f)
    have "map m_op (map msg_norm (xfer_msgs (lk_eng a) m0 stk)) = replicate 8 PCIE_NET_OP_WRITE_MEM @ [PCIE_NET_OP_MSI]"
      using xfer_ops [of "lk_eng a" m0 stk] assms(1) Nil Some by (auto simp: in_transfer_def link_eng_def)
    then show ?thesis
      using assms(1) Nil Some
      by (auto simp: in_transfer_def link_dev_def link_eng_def xfer_done_def const_defs
          intro!: exI [of _ "map m_op (lk_up a) @ replicate 8 PCIE_NET_OP_WRITE_MEM"])
  qed
qed

lemma transfer_turn_bridge:
  assumes "in_transfer a"
  shows "in_transfer (link_bridge a) \<or> transferred (link_bridge a)"
proof (cases "lk_up a")
  case Nil
  then show ?thesis using assms by (simp add: link_bridge_def)
next
  case up: (Cons m ms)
  consider (go) "task_fn (link_eng a) \<noteq> None" "m_op m \<noteq> PCIE_NET_OP_MSI"
    | (last) "lk_down a = []" "task_fn (lk_eng a) = None" "m_op m = PCIE_NET_OP_MSI" "ms = []"
    | (more) os where "lk_down a = []" "task_fn (lk_eng a) = None" "m_op m \<noteq> PCIE_NET_OP_MSI"
       "map m_op ms = os @ [PCIE_NET_OP_MSI]" "PCIE_NET_OP_MSI \<notin> set os"
    using assms up by (auto simp: in_transfer_def Cons_eq_append_conv)
  then show ?thesis
  proof cases
    case go
    then show ?thesis
      using assms up by (auto simp: in_transfer_def link_bridge_def link_eng_def carry_out_other)
  next
    case last
    then show ?thesis using assms up
      by (cases "lk_guest a") (simp add: in_transfer_def transferred_def link_bridge_def carry_out_def const_defs)
  next
    case (more os)
    then show ?thesis using assms up by (simp add: in_transfer_def link_bridge_def carry_out_other)
  qed
qed

lemma transfer_turn:
  assumes "in_transfer a" and "length (m_data m0) = 4096"
  shows "in_transfer (link_turn m0 stk t a) \<or> transferred (link_turn m0 stk t a)"
  using transfer_turn_dev [OF assms, of stk] transfer_turn_bridge [OF assms(1)] by (cases t) simp_all

lemma transferred_turn: "transferred a \<Longrightarrow> link_turn m0 stk t a = a"
  by (cases t) (simp_all add: transferred_def link_dev_def link_bridge_def)

lemma transfer_turns:
  assumes "length (m_data m0) = 4096"
  shows "in_transfer a \<or> transferred a \<Longrightarrow>
    in_transfer (fold (link_turn m0 stk) ts a) \<or> transferred (fold (link_turn m0 stk) ts a)"
proof (induction ts arbitrary: a)
  case (Cons t ts)
  then show ?case
    using transfer_turn [OF _ assms, of a stk t] transferred_turn [of a m0 stk t] by (metis fold_simps(2))
qed simp

definition link_work :: "link \<Rightarrow> nat" where
  "link_work a = length (lk_down a) + length (lk_up a) + (if task_fn (link_eng a) = None then 0 else 10)"

lemma xfer_length: "length (xfer_msgs d m0 stk) \<le> 9"
  by (simp add: xfer_msgs_def)

lemma link_dev_work: "link_work (link_dev m0 stk a) \<le> link_work a"
  using xfer_length [of "lk_eng a" m0 stk]
  by (cases "lk_down a") (auto simp: link_work_def link_dev_def link_eng_def xfer_done_def)

lemma link_bridge_work: "link_work (link_bridge a) \<le> link_work a"
  by (cases "lk_up a") (simp_all add: link_work_def link_bridge_def link_eng_def)

lemma round_work:
  assumes "in_transfer a"
  shows "link_work (link_bridge (link_dev m0 stk a)) < link_work a"
proof (cases "lk_down a = [] \<and> task_fn (lk_eng a) = None")
  case True
  then have "link_dev m0 stk a = a" by (simp add: link_dev_def)
  moreover have "lk_up a \<noteq> []" using assms True by (auto simp: in_transfer_def link_eng_def)
  then have "link_work (link_bridge a) < link_work a"
    by (cases "lk_up a") (simp_all add: link_work_def link_bridge_def link_eng_def)
  ultimately show ?thesis by simp
next
  case False
  then have "link_work (link_dev m0 stk a) < link_work a"
    using xfer_length [of "lk_eng a" m0 stk]
    by (cases "lk_down a") (auto simp: link_work_def link_dev_def link_eng_def xfer_done_def)
  then show ?thesis using link_bridge_work [of "link_dev m0 stk a"] by simp
qed

lemma impl_wait:
  assumes m0: "length (m_data m0) = 4096"
  shows "impl a s \<Longrightarrow> in_transfer a \<or> transferred a \<Longrightarrow>
    \<exists>s'. vm_wait (dma_cb m0 stk) s = Some s' \<and> impl (settled m0 stk a) s' \<and> br_msis s' = 1 \<and> transferred (settled m0 stk a)"
proof (induction "link_work a" arbitrary: a s rule: less_induct)
  case less
  show ?case
  proof (cases "br_msis s = 0")
    case False
    have t: "transferred a" using less.prems False by (auto simp: in_transfer_def impls_def)
    then have "br_msis s = 1" using less.prems(1) by (simp add: transferred_def impls_def)
    moreover have "vm_wait (dma_cb m0 stk) s = Some s" using False by (subst vm_wait.simps) simp
    ultimately show ?thesis using t transferred_settled [OF t] less.prems(1) by simp
  next
    case True
    then have x: "in_transfer a" using less.prems by (auto simp: transferred_def impls_def)
    obtain s1 where s1: "vm_step (dma_cb m0 stk) Turn_dev s = Some s1" "impl (link_dev m0 stk a) s1"
      using impl_turn [OF less.prems(1) m0, of stk Turn_dev] by auto
    obtain s2 where s2: "vm_step (dma_cb m0 stk) Turn_bridge s1 = Some s2" "impl (link_bridge (link_dev m0 stk a)) s2"
      using impl_turn [OF s1(2) m0, of stk Turn_bridge] by auto
    have w: "vm_wait (dma_cb m0 stk) s = vm_wait (dma_cb m0 stk) s2"
      using True s1(1) s2(1) by (subst vm_wait.simps) simp
    have "in_transfer (link_bridge (link_dev m0 stk a)) \<or> transferred (link_bridge (link_dev m0 stk a))"
      using transfer_turns [OF m0, of a stk "[Turn_dev, Turn_bridge]"] x by simp
    from less.hyps [OF round_work [OF x] s2(2) this] show ?thesis unfolding w by simp
  qed
qed

section \<open>The registers as the guest sees them\<close>

text \<open>No transfer is due; \<open>D\<close> is the engine after all writes, \<open>g\<close> what the guest will have seen.\<close>

definition quiet :: "dma \<Rightarrow> (u64 \<Rightarrow> byte) \<times> nat \<Rightarrow> dma vm \<Rightarrow> bool" where
  "quiet D g s \<longleftrightarrow> task_fn D = None \<and>
     (\<exists>a. impl a s \<and> link_eng a = D \<and> fold carry_out (lk_up a) (lk_guest a) = g)"

definition starts :: "nat \<times> u32 \<Rightarrow> bool" where
  "starts w \<longleftrightarrow> fst w = DMA_REG_CTL \<and> snd w AND push_bit 31 1 \<noteq> 0"

lemma reg_eff_task: "\<not> starts w \<Longrightarrow> task_fn (reg_eff w d) = task_fn d"
  by (cases w) (auto simp: reg_eff_def starts_def)

lemma carry_out_count: "snd (fold carry_out ms g) = snd g + count_list (map m_op ms) PCIE_NET_OP_MSI"
  by (induction ms arbitrary: g) (auto simp: carry_out_def const_defs split: prod.split)

lemma quiet_turns:
  assumes "impl a s" and "length (m_data m0) = 4096" and "task_fn (link_eng a) = None"
  shows "link_eng (fold (link_turn m0 stk) ts a) = link_eng a \<and>
    fold carry_out (lk_up (fold (link_turn m0 stk) ts a)) (lk_guest (fold (link_turn m0 stk) ts a)) =
    fold carry_out (lk_up a) (lk_guest a)"
  using settled_turns [of m0 stk ts a] link_eng_turns [OF assms(3), of m0 stk ts] assms(3)
  by (auto simp: settled_def Let_def)

lemma quiet_write:
  assumes m0: "length (m_data m0) = 4096" and z: "quiet D g s" and w: "fst w < 5" "\<not> starts w"
  shows "\<exists>s'. vm_write32 (dma_cb m0 stk) q 1 (DMA_REG_ADDR (fst w)) (snd w) s = Some s' \<and> quiet (reg_eff w D) g s'"
proof -
  obtain a where a: "impl a s" "link_eng a = D" "fold carry_out (lk_up a) (lk_guest a) = g" "task_fn D = None"
    using z by (auto simp: quiet_def)
  let ?a = "a\<lparr>lk_down := lk_down a @ [(fst w, snd w)]\<rparr>"
  obtain ts s' where s': "vm_write32 (dma_cb m0 stk) q 1 (DMA_REG_ADDR (fst w)) (snd w) s = Some s'"
    "impl (fold (link_turn m0 stk) ts ?a) s'"
    using impl_write [OF m0 a(1) w(1)] by blast
  have e: "link_eng ?a = reg_eff w D" using a(2) by (simp add: link_eng_def)
  then have t: "task_fn (link_eng ?a) = None" using reg_eff_task [OF w(2)] a(4) by simp
  have "quiet (reg_eff w D) g s'"
    unfolding quiet_def using s'(2) quiet_turns [OF _ m0 t] e t a(3) settled_turns [of m0 stk ts ?a]
      link_eng_turns [OF t, of m0 stk ts]
    by (auto simp: settled_def Let_def intro!: exI [of _ "fold (link_turn m0 stk) ts ?a"])
  then show ?thesis using s'(1) by blast
qed

lemma quiet_read:
  assumes m0: "length (m_data m0) = 4096" and z: "quiet D g s" and r: "r < 5"
  shows "\<exists>s'. vm_read32 (dma_cb m0 stk) q 1 (DMA_REG_ADDR r) s = Some (regs D ! r, s') \<and> quiet D g s' \<and>
    (br_mem s', br_msis s') = g"
proof -
  obtain a where a: "impl a s" "link_eng a = D" "fold carry_out (lk_up a) (lk_guest a) = g" "task_fn D = None"
    using z by (auto simp: quiet_def)
  then have st: "settled m0 stk a = \<lparr>lk_down = [], lk_up = [], lk_eng = D, lk_guest = g\<rparr>"
    by (simp add: settled_def Let_def)
  obtain s' where s': "vm_read32 (dma_cb m0 stk) q 1 (DMA_REG_ADDR r) s = Some (regs D ! r, s')"
    "impl (settled m0 stk a) s'"
    using impl_read [OF m0 a(1) r] a(2,4) by auto
  then have "quiet D g s'"
    unfolding quiet_def using st a(4) by (intro conjI exI [of _ "settled m0 stk a"]) (simp_all add: link_eng_def)
  then show ?thesis using s' st by (auto simp: impls_def)
qed

text \<open>The effect of a transfer on what the guest sees.\<close>

definition dma_result :: "dma \<Rightarrow> (u64 \<Rightarrow> byte) \<Rightarrow> u64 \<Rightarrow> byte" where
  "dma_result d mem a = (let x = unat (a - xfer_base d)
     in if x < 32768 then bram d ! x + ucast (saved_baz d) else mem a)"

lemma carry_writes:
  "\<forall>m\<in>set ms. m_op m = PCIE_NET_OP_WRITE_MEM \<Longrightarrow> fold carry_out ms (mem, n) = (fold host_write ms mem, n)"
  by (induction ms arbitrary: mem) (simp_all add: carry_out_def)

lemma carry_xfer:
  assumes "length (bram d) = 32768" and "saved_ctl d AND push_bit 30 1 \<noteq> 0"
  shows "fold carry_out (map msg_norm (xfer_msgs d m0 stk)) (mem, n) = (dma_result d mem, n + 1)"
proof -
  let ?ms = "map msg_norm (xfer_msgs d m0 stk)"
  have ops: "map m_op ?ms = replicate 8 PCIE_NET_OP_WRITE_MEM @ [PCIE_NET_OP_MSI]"
    using xfer_ops [of d m0 stk] assms(2) by simp
  then have len: "length ?ms = 9" by (metis length_append length_map length_replicate length_Cons list.size(3) numeral_plus_one semiring_norm(5) One_nat_def)
  obtain m where m: "drop 8 ?ms = [m]" using len
    by (cases "drop 8 ?ms") (auto simp: Cons_eq_append_conv dest: arg_cong [of _ _ length])
  have split: "?ms = take 8 ?ms @ [m]" using append_take_drop_id [of 8 ?ms] m by simp
  have o1: "map m_op (take 8 ?ms) = replicate 8 PCIE_NET_OP_WRITE_MEM"
    using arg_cong [OF ops, of "take 8"] unfolding take_map by simp
  have o2: "m_op m = PCIE_NET_OP_MSI"
    using arg_cong [OF ops, of "drop 8"] m unfolding drop_map by simp
  have "\<forall>x\<in>set (take 8 ?ms). m_op x = PCIE_NET_OP_WRITE_MEM"
    using o1 by (metis imageI in_set_replicate list.set_map)
  then have "fold carry_out (take 8 ?ms) (mem, n) = (fold host_write (take 8 ?ms) mem, n)" by (rule carry_writes)
  moreover have "fold host_write (take 8 ?ms) mem = dma_result d mem"
    using xfer_host [OF assms(1), of m0 stk mem] by (auto simp: dma_result_def fun_eq_iff)
  ultimately have "fold carry_out (take 8 ?ms @ [m]) (mem, n) = (dma_result d mem, n + 1)"
    using o2 by (simp add: carry_out_def const_defs)
  then show ?thesis using split by simp
qed

lemma quiet_start:
  assumes m0: "length (m_data m0) = 4096" and z: "quiet D (mem, 0) s" and b: "length (bram D) = 32768"
    and c: "ctl AND push_bit 31 1 \<noteq> 0" "ctl AND push_bit 30 1 \<noteq> 0"
  shows "\<exists>s' a. vm_write32 (dma_cb m0 stk) q 1 (DMA_REG_ADDR DMA_REG_CTL) ctl s = Some s' \<and> impl a s' \<and>
    (in_transfer a \<or> transferred a) \<and> settled m0 stk a = (let d = reg_eff (DMA_REG_CTL, ctl) D
      in \<lparr>lk_down = [], lk_up = [], lk_eng = xfer_done d, lk_guest = (dma_result d mem, 1)\<rparr>)"
proof -
  obtain a where a: "impl a s" "link_eng a = D" "fold carry_out (lk_up a) (lk_guest a) = (mem, 0)" "task_fn D = None"
    using z by (auto simp: quiet_def)
  let ?d = "reg_eff (DMA_REG_CTL, ctl) D"
  let ?a = "a\<lparr>lk_down := lk_down a @ [(DMA_REG_CTL, ctl)]\<rparr>"
  have r: "DMA_REG_CTL < 5" by (simp add: DMA_REG_CTL_def)
  obtain ts s' where s': "vm_write32 (dma_cb m0 stk) q 1 (DMA_REG_ADDR DMA_REG_CTL) ctl s = Some s'"
    "impl (fold (link_turn m0 stk) ts ?a) s'"
    using impl_write [OF m0 a(1) r] by blast
  have e: "link_eng ?a = ?d" using a(2) by (simp add: link_eng_def)
  have d: "task_fn ?d \<noteq> None" "saved_ctl ?d = ctl" "length (bram ?d) = 32768"
    using c(1) b by (simp_all add: reg_eff_def)
  have fresh: "snd (lk_guest a) = 0" "PCIE_NET_OP_MSI \<notin> set (map m_op (lk_up a))"
    using arg_cong [OF a(3), of snd] unfolding carry_out_count by (simp_all add: count_list_0_iff)
  have bl: "bram (fold reg_eff ws x) = bram x" for ws x by (induction ws arbitrary: x) simp_all
  have "length (bram (lk_eng ?a)) = 32768" using b a(2) by (auto simp: link_eng_def bl)
  then have x: "in_transfer ?a" using e d c fresh by (simp add: in_transfer_def)
  have "settled m0 stk ?a = \<lparr>lk_down = [], lk_up = [], lk_eng = xfer_done ?d, lk_guest = (dma_result ?d mem, 1)\<rparr>"
    unfolding settled_def Let_def e using d c a(3) carry_xfer [of ?d m0 stk mem 0] by simp
  then show ?thesis
    using s' transfer_turns [OF m0, of ?a stk ts] x settled_turns [of m0 stk ts ?a]
    by (intro exI [of _ s'] exI [of _ "fold (link_turn m0 stk) ts ?a"]) (simp add: Let_def)
qed

section \<open>What the guest can rely on\<close>

primrec vm_writes where
  "vm_writes cb q [] s = Some s"
| "vm_writes cb q (w # ws) s = do {
     s \<leftarrow> vm_write32 cb q 1 (DMA_REG_ADDR (fst w)) (snd w) s; vm_writes cb q ws s }"

text \<open>Bridge and engine connected, nothing on the way and no transfer due.\<close>

definition vm_ready :: "dma vm \<Rightarrow> bool" where
  "vm_ready s \<longleftrightarrow> bridge_ok s \<and> loc_ok (vm_loc s) \<and> dma_inv (vm_dev s) \<and> 0 \<le> net_fd (vm_dev s) \<and>
     sock (vm_dev s) = \<lparr>sk_rx = [], sk_tx = [], sk_snd = [], sk_fail = []\<rparr> \<and>
     sk_rx (br_sock s) = [] \<and> sk_tx (br_sock s) = [] \<and> task_fn (vm_dev s) = None"

lemma ready_quiet: "vm_ready s \<Longrightarrow> quiet (vm_dev s) (br_mem s, br_msis s) s"
  unfolding quiet_def
  by (intro conjI exI [of _ "\<lparr>lk_down = [], lk_up = [], lk_eng = vm_dev s, lk_guest = (br_mem s, br_msis s)\<rparr>"])
    (simp_all add: vm_ready_def impls_def link_eng_def no_sock_def)

lemma quiet_writes:
  assumes m0: "length (m_data m0) = 4096"
  shows "quiet D g s \<Longrightarrow> \<forall>w\<in>set ws. fst w < 5 \<and> \<not> starts w \<Longrightarrow>
    \<exists>s'. vm_writes (dma_cb m0 stk) q ws s = Some s' \<and> quiet (fold reg_eff ws D) g s'"
proof (induction ws arbitrary: D s)
  case (Cons w ws)
  then obtain s1 where "vm_write32 (dma_cb m0 stk) q 1 (DMA_REG_ADDR (fst w)) (snd w) s = Some s1"
    "quiet (reg_eff w D) g s1"
    using quiet_write [OF m0 Cons.prems(1), of w stk q] by auto
  then show ?case using Cons.IH [of "reg_eff w D" s1] Cons.prems(2) by auto
qed simp

lemma regs_writes:
  "\<forall>w\<in>set ws. \<not> starts w \<Longrightarrow> regs (fold reg_eff ws D) = fold (\<lambda>(r, x) rs. rs[r := x]) ws (regs D)"
  by (induction ws arbitrary: D) (auto simp: reg_eff_def starts_def split: prod.splits)

text \<open>
  C4. Registers over the link, for every schedule of bridge and engine: register writes that start
  no transfer are all carried out, in order, before a read that comes after them returns, so the
  read returns what the last write to that register left; the bytes pass through both sockets, both
  message buffers and the loop of the engine. The guest's memory is not touched.
\<close>

theorem bus_reads_latest:
  assumes "length (m_data m0) = 4096" and "vm_ready s"
    and "\<forall>w\<in>set ws. fst w < 5 \<and> \<not> (fst w = DMA_REG_CTL \<and> snd w AND push_bit 31 1 \<noteq> 0)" and "r < 5"
  shows "\<exists>s1 s2. vm_writes (dma_cb m0 stk) q ws s = Some s1 \<and>
    vm_read32 (dma_cb m0 stk) q 1 (DMA_REG_ADDR r) s1 =
      Some (fold (\<lambda>(r, x) rs. rs[r := x]) ws (regs (vm_dev s)) ! r, s2) \<and>
    br_mem s2 = br_mem s \<and> br_msis s2 = br_msis s"
proof -
  let ?D = "fold reg_eff ws (vm_dev s)"
  have st: "\<forall>w\<in>set ws. \<not> starts w" "\<forall>w\<in>set ws. fst w < 5 \<and> \<not> starts w" using assms(3) by (auto simp: starts_def)
  obtain s1 where s1: "vm_writes (dma_cb m0 stk) q ws s = Some s1" "quiet ?D (br_mem s, br_msis s) s1"
    using quiet_writes [OF assms(1) ready_quiet [OF assms(2)] st(2)] by blast
  obtain s2 where "vm_read32 (dma_cb m0 stk) q 1 (DMA_REG_ADDR r) s1 = Some (regs ?D ! r, s2)"
    "(br_mem s2, br_msis s2) = (br_mem s, br_msis s)"
    using quiet_read [OF assms(1) s1(2) assms(4)] by blast
  then show ?thesis using s1(1) regs_writes [OF st(1)] by auto
qed

text \<open>
  C3. A transfer through both ends, for every schedule: after the guest has written seed, address and
  a control word that starts the transfer with its interrupt, it gets that interrupt, once, and by
  then the whole memory of the engine plus the seed is in the guest's memory at that address and
  nothing else of it has changed; the status read then tells completion and the low half of the
  control word.
\<close>

theorem bus_transfer_completes:
  assumes "length (m_data m0) = 4096" and "vm_ready s" and "br_msis s = 0"
    and "ctl AND push_bit 31 1 \<noteq> 0" and "ctl AND push_bit 30 1 \<noteq> 0"
  shows "\<exists>s1 s2 s3. vm_writes (dma_cb m0 stk) q [(DMA_REG_BAZ, baz), (DMA_REG_ADH, adh), (DMA_REG_ADL, adl),
       (DMA_REG_CTL, ctl)] s = Some s1 \<and> vm_wait (dma_cb m0 stk) s1 = Some s2 \<and> br_msis s2 = 1 \<and>
     br_mem s2 = (\<lambda>a. let x = unat (a - (push_bit 32 (ucast adh) OR ucast adl)) in
        if x < 32768 then bram (vm_dev s) ! x + ucast baz else br_mem s a) \<and>
     vm_read32 (dma_cb m0 stk) q 1 (DMA_REG_ADDR DMA_REG_STA) s2 =
       Some (push_bit 31 1 OR (ctl AND 0xffff), s3) \<and> br_mem s3 = br_mem s2"
proof -
  let ?ws = "[(DMA_REG_BAZ, baz), (DMA_REG_ADH, adh), (DMA_REG_ADL, adl)]"
  let ?D = "fold reg_eff ?ws (vm_dev s)"
  let ?d = "reg_eff (DMA_REG_CTL, ctl) ?D"
  have inv: "dma_inv (vm_dev s)" using assms(2) by (simp add: vm_ready_def)
  note ri = dma_inv_fields [OF inv]
  have "quiet (vm_dev s) (br_mem s, 0) s" using ready_quiet [OF assms(2)] assms(3) by simp
  moreover have "\<forall>w\<in>set ?ws. fst w < 5 \<and> \<not> starts w" by (simp add: const_defs starts_def)
  ultimately obtain s0 where s0: "vm_writes (dma_cb m0 stk) q ?ws s = Some s0" "quiet ?D (br_mem s, 0) s0"
    using quiet_writes [OF assms(1)] by blast
  have bD: "length (bram ?D) = 32768" using ri(2) by simp
  obtain s1 a where s1: "vm_write32 (dma_cb m0 stk) q 1 (DMA_REG_ADDR DMA_REG_CTL) ctl s0 = Some s1" "impl a s1"
    "in_transfer a \<or> transferred a" "settled m0 stk a =
      \<lparr>lk_down = [], lk_up = [], lk_eng = xfer_done ?d, lk_guest = (dma_result ?d (br_mem s), 1)\<rparr>"
    using quiet_start [OF assms(1) s0(2) bD assms(4,5), of stk q] unfolding Let_def by blast
  obtain s2 where s2: "vm_wait (dma_cb m0 stk) s1 = Some s2" "impl (settled m0 stk a) s2" "br_msis s2 = 1"
    using impl_wait [OF assms(1) s1(2,3)] by blast
  have q2: "quiet (xfer_done ?d) (dma_result ?d (br_mem s), 1) s2"
    unfolding quiet_def using s2(2) s1(4)
    by (intro conjI exI [of _ "settled m0 stk a"]) (simp_all add: xfer_done_def link_eng_def)
  have mem: "br_mem s2 = dma_result ?d (br_mem s)" using s2(2) s1(4) by (simp add: impls_def)
  have r: "DMA_REG_STA < 5" by (simp add: const_defs)
  obtain s3 where s3: "vm_read32 (dma_cb m0 stk) q 1 (DMA_REG_ADDR DMA_REG_STA) s2 =
      Some (regs (xfer_done ?d) ! DMA_REG_STA, s3)" "br_mem s3 = dma_result ?d (br_mem s)"
    using quiet_read [OF assms(1) q2 r] by auto
  have sta: "regs (xfer_done ?d) ! DMA_REG_STA = push_bit 31 1 OR (ctl AND 0xffff)"
    using ri(1) assms(4) by (simp add: xfer_done_def reg_eff_def const_defs)
  have res: "dma_result ?d (br_mem s) = (\<lambda>a. let x = unat (a - (push_bit 32 (ucast adh) OR ucast adl)) in
        if x < 32768 then bram (vm_dev s) ! x + ucast baz else br_mem s a)"
    using ri(1) assms(4) by (simp add: fun_eq_iff dma_result_def xfer_base_def reg_eff_def const_defs Let_def)
  have "vm_writes (dma_cb m0 stk) q (?ws @ [(DMA_REG_CTL, ctl)]) s = Some s1"
    using s0(1) s1(1) by (auto split: Option.bind_splits)
  then show ?thesis using s2(1,3) mem s3 res sta by auto
qed

text \<open>A bridge and an engine for the witnesses, with a schedule that lets the engine run ahead.\<close>

definition vm_zero :: "dma vm" where
  "vm_zero = \<lparr>br_up = True, br_sock = \<lparr>sk_rx = [], sk_tx = [], sk_snd = [], sk_fail = []\<rparr>,
     br_msg = \<lparr>m_hsize = 0, m_op = 0, m_bar = 0, m_width = 0, m_addr = 0, m_size = 0, m_data = replicate 4096 0\<rparr>,
     br_mem = (\<lambda>_. 0), br_msis = 0, br_conf = replicate 256 0, br_bar_size = replicate 7 0, br_probed = True, br_calls = [], vm_dev = zero_dma,
     vm_loc = \<lparr>l_msg = replicate 4111 0, l_reply = \<lparr>r_hsize = 0, r_status = 0, r_data = replicate 8 0\<rparr>\<rparr>,
     vm_sched = [[], [Turn_dev, Turn_bridge], [Turn_dev]]\<rparr>"

definition junk_page :: net_msg where
  "junk_page = \<lparr>m_hsize = 1, m_op = 1, m_bar = 1, m_width = 1, m_addr = 1, m_size = 1, m_data = replicate 4096 1\<rparr>"

definition qemu_off :: "'s qemu" where
  "qemu_off = \<lparr>q_select = \<lambda>_. None, q_dial = \<lambda>s. (False, s), q_register = \<lambda>_ _ s. s, q_msi = \<lambda>s. s, q_mapped = \<lambda>_ _. False, q_regions = 7\<rparr>"

lemma vm_zero_ready: "vm_ready vm_zero" "br_msis vm_zero = 0" "vm_dev vm_zero = zero_dma" "length (m_data junk_page) = 4096"
  using zero_dma_inv
  by (simp_all add: vm_ready_def vm_zero_def bridge_ok_def msg_room_def loc_ok_def zero_dma_def junk_page_def const_defs)

theorem bus_reads_latest_witness:
  "\<exists>s1 s2. vm_writes (dma_cb junk_page junk_page) qemu_off [(2, 5), (4, 6), (2, 7)] vm_zero = Some s1 \<and>
     vm_read32 (dma_cb junk_page junk_page) qemu_off 1 (DMA_REG_ADDR 2) s1 = Some (7, s2)"
  using bus_reads_latest [OF vm_zero_ready(4,1), of "[(2, 5), (4, 6), (2, 7)]" 2, where stk = junk_page and q = qemu_off]
  by (auto simp: DMA_REG_CTL_def vm_zero_ready(3) regs_zero_dma)

theorem bus_transfer_completes_witness:
  "\<exists>s1 s2. vm_writes (dma_cb junk_page junk_page) qemu_off [(DMA_REG_BAZ, 2), (DMA_REG_ADH, 1), (DMA_REG_ADL, 0x1000),
       (DMA_REG_CTL, 0xc0000010)] vm_zero = Some s1 \<and> vm_wait (dma_cb junk_page junk_page) s1 = Some s2 \<and>
     br_mem s2 0x100001001 = 9 \<and> br_mem s2 0x100000fff = 0"
proof -
  let ?ctl = "0xc0000010 :: u32"
  have c: "?ctl AND push_bit 31 1 \<noteq> 0" "?ctl AND push_bit 30 1 \<noteq> 0" by simp_all
  obtain s1 s2 where s: "vm_writes (dma_cb junk_page junk_page) qemu_off [(DMA_REG_BAZ, 2), (DMA_REG_ADH, 1),
      (DMA_REG_ADL, 0x1000), (DMA_REG_CTL, ?ctl)] vm_zero = Some s1" "vm_wait (dma_cb junk_page junk_page) s1 = Some s2"
    "br_mem s2 = (\<lambda>a. let x = unat (a - (push_bit 32 (ucast (1 :: u32)) OR ucast (0x1000 :: u32))) in
        if x < 32768 then bram (vm_dev vm_zero) ! x + ucast (2 :: u32) else br_mem vm_zero a)"
    using bus_transfer_completes [OF vm_zero_ready(4,1,2) c, where stk = junk_page and q = qemu_off and baz = 2 and adh = 1 and adl = "0x1000"] by blast
  have "br_mem s2 0x100001001 = 9" "br_mem s2 0x100000fff = 0"
    unfolding s(3) by (simp_all add: Let_def vm_zero_def zero_dma_def sizeof_bram_def unat_minus_one_u64)
  then show ?thesis using s(1,2) by blast
qed

end
