(* ===== verification/Dma_System.thy ===== *)
theory Dma_System
  imports Dma_User Dma_Link
begin

text \<open>
  The whole system around the DMA engine: a process that runs \<open>Dma_User\<close>, the driver of \<open>Kdma\<close>, and
  bridge and engine of \<open>Dma_Link\<close> as its hardware. The system calls of the process are the file
  operations of the driver, the registers the driver accesses are messages on the connection, and the
  interrupt of the engine runs the driver's handler. The interface \<open>dma_driver\<close> the program is proved
  against is discharged on this system.
\<close>

section \<open>The system\<close>

text \<open>
  A process: the driver's state with the memory of the process, \<open>errno\<close>, the next results of \<open>rand\<close>,
  and the mapping of the device's memory: its address, the physical address, and its length.
\<close>

type_synonym mapping = "(u64 \<times> u64 \<times> u64) option"

record proc = "dma vm option kdma" +
  px_errno :: int
  px_rand :: "int list"
  px_map :: mapping

text \<open>
  What stays the same: the unknown contents of the engine's memory block and stack, QEMU, the address
  BAR 1 is mapped at, the kernel's answers, the device of the file, its descriptor, and what \<open>mmap\<close>
  chooses.
\<close>

record sysenv =
  se_m0 :: net_msg
  se_stk :: net_msg
  se_qemu :: "dma vm qemu"
  se_va :: u64
  se_kenv :: kenv
  se_dev :: nat
  se_fd :: int
  se_mmap :: u64
  se_remap :: int

abbreviation se_cb :: "sysenv \<Rightarrow> (dma_fn, dma) callbacks" where
  "se_cb E \<equiv> dma_cb (se_m0 E) (se_stk E)"

definition se_mmio :: "sysenv \<Rightarrow> dma vm option mmio" where
  "se_mmio E = \<lparr>
     io_readl = (\<lambda>p h. case do { s \<leftarrow> h; vm_read32 (se_cb E) (se_qemu E) 1 (p - se_va E) s } of
        None \<Rightarrow> (0, None) | Some (x, s) \<Rightarrow> (x, Some s)),
     io_writel = (\<lambda>x p h. do { s \<leftarrow> h; vm_write32 (se_cb E) (se_qemu E) 1 (p - se_va E) x s })\<rparr>"

text \<open>A notified interrupt runs the handler.\<close>

definition deliver :: "sysenv \<Rightarrow> proc \<Rightarrow> proc" where
  "deliver E s = (case kd_hw s of None \<Rightarrow> s
     | Some v \<Rightarrow> if br_msis v = 0 then s
        else snd (kdma_irq_handler (se_mmio E) (se_dev E) (s\<lparr>kd_hw := Some (v\<lparr>br_msis := 0\<rparr>)\<rparr>)))"

definition sys_ioctl :: "sysenv \<Rightarrow> u32 \<Rightarrow> u64 \<Rightarrow> proc \<Rightarrow> int \<times> proc" where
  "sys_ioctl E cmd a s =
     (let s = deliver E s;
          (r, s) = kdma_file_ioctl (se_mmio E) (se_kenv E) (deliver E) (se_dev E) cmd a s
      in if r < 0 then (-1, s\<lparr>px_errno := - r\<rparr>) else (r, s))"

text \<open>\<open>select\<close> on the file: it returns once the file is readable.\<close>

partial_function (option) block_file :: "sysenv \<Rightarrow> proc \<Rightarrow> proc option" where
  "block_file E s = (if kdma_file_poll (se_dev E) s \<noteq> 0 then Some s
     else do {
       v \<leftarrow> kd_hw s;
       v \<leftarrow> vm_wait (se_cb E) v;
       block_file E (deliver E (s\<lparr>kd_hw := Some v\<rparr>)) })"

text \<open>
  The physical address behind \<open>n\<close> bytes of the process at \<open>a\<close>, if they are in the mapping. An access
  is inside the mapping or outside it.
\<close>

definition mapped :: "mapping \<Rightarrow> u64 \<Rightarrow> nat \<Rightarrow> u64 option" where
  "mapped mp a n = (case mp of None \<Rightarrow> None
     | Some (va, pa, len) \<Rightarrow> if unat (a - va) + n \<le> unat len then Some (pa + (a - va)) else None)"

definition mem_put :: "u64 \<Rightarrow> byte list \<Rightarrow> (u64 \<Rightarrow> byte) \<Rightarrow> u64 \<Rightarrow> byte" where
  "mem_put p d mem a = (if unat (a - p) < length d then d ! unat (a - p) else mem a)"

definition sys_store :: "u64 \<Rightarrow> byte list \<Rightarrow> proc \<Rightarrow> proc" where
  "sys_store a d s = (case mapped (px_map s) a (length d) of
      None \<Rightarrow> s\<lparr>kd_user := snd (copy_to_user (kd_user s) a d)\<rparr>
    | Some p \<Rightarrow> s\<lparr>kd_hw := map_option (\<lambda>v. v\<lparr>br_mem := mem_put p d (br_mem v)\<rparr>) (kd_hw s)\<rparr>)"

definition sys_load :: "u64 \<Rightarrow> nat \<Rightarrow> proc \<Rightarrow> byte list" where
  "sys_load a n s = (case mapped (px_map s) a n of
      None \<Rightarrow> (case copy_from_user (kd_user s) a n of Some d \<Rightarrow> d | None \<Rightarrow> [])
    | Some p \<Rightarrow> (case kd_hw s of Some v \<Rightarrow> map (\<lambda>i. br_mem v (p + of_nat i)) [0..<n] | None \<Rightarrow> []))"

definition sys_mmap :: "sysenv \<Rightarrow> u64 \<Rightarrow> u64 \<Rightarrow> proc \<Rightarrow> u64 \<times> proc" where
  "sys_mmap E len off s =
     (let (r, s) = kdma_file_mmap (se_remap E) (se_mmap E) (se_mmap E + len) (drop_bit 12 off) s
      in if r \<noteq> 0 then (MAP_FAILED, s\<lparr>px_errno := - r\<rparr>)
         else (se_mmap E, s\<lparr>px_map := Some (se_mmap E, push_bit 12 (drop_bit 12 off), len)\<rparr>))"

definition proc_sys :: "sysenv \<Rightarrow> proc sys" where
  "proc_sys E = \<lparr>
     sy_open = (\<lambda>s. (se_fd E, s)),
     sy_close = (\<lambda>fd s. snd (snd (kdma_file_close (se_kenv E) s))),
     sy_ioctl = (\<lambda>fd cmd a s. sys_ioctl E cmd a s),
     sy_mmap = (\<lambda>len fd off s. sys_mmap E len off s),
     sy_munmap = (\<lambda>a len s. s\<lparr>px_map := None\<rparr>),
     sy_select = (\<lambda>fd s. case block_file E s of Some s \<Rightarrow> (1, s) | None \<Rightarrow> (0, s\<lparr>kd_hw := None\<rparr>)),
     sy_errno = px_errno,
     sy_rand = (\<lambda>s. case px_rand s of [] \<Rightarrow> (0, s) | x # xs \<Rightarrow> (x, s\<lparr>px_rand := xs\<rparr>)),
     sy_store = sys_store,
     sy_load = sys_load\<rparr>"

section \<open>Its states\<close>

text \<open>
  The locals whose address is passed: the structure at \<open>sp\<close> and, above it, the parameter at \<open>dp\<close>,
  both outside the mapping.
\<close>

definition stack_ok :: "u64 \<Rightarrow> u64 \<Rightarrow> bool" where
  "stack_ok sp dp \<longleftrightarrow> 32 \<le> unat (dp - sp) \<and> unat (dp - sp) + 4 < 2 ^ 63"

definition unmapped :: "mapping \<Rightarrow> u64 \<Rightarrow> nat \<Rightarrow> bool" where
  "unmapped mp p n \<longleftrightarrow> (\<forall>k<n. mapped mp (p + of_nat k) 1 = None)"

definition proc_ok :: "sysenv \<Rightarrow> u64 \<Rightarrow> u64 \<Rightarrow> mapping \<Rightarrow> proc \<Rightarrow> bool" where
  "proc_ok E sp dp mp s \<longleftrightarrow> length (m_data (se_m0 E)) = 4096 \<and> stack_ok sp dp \<and>
     has_mem (kd_user s) sp 32 \<and> has_mem (kd_user s) dp 4 \<and>
     px_map s = mp \<and> unmapped mp sp 32 \<and> unmapped mp dp 4 \<and>
     se_dev E < length (d_devs (kd_drv s)) \<and> se_va E \<noteq> 0 \<and>
     dv_vadr (kdma_dev_of s (se_dev E)) ! 1 = se_va E \<and> 20 \<le> unat (dv_len (kdma_dev_of s (se_dev E)) ! 1) \<and>
     unat (se_va E) + unat (dv_len (kdma_dev_of s (se_dev E)) ! 1) < 2 ^ 64"

text \<open>The view of the engine: the engine without its connection, and the memory of the guest.\<close>

type_synonym view = "dma \<times> (u64 \<Rightarrow> byte)"

text \<open>Nothing is on its way to the guest, whose memory is \<open>mem\<close>, and no transfer is due.\<close>

definition calm :: "view \<Rightarrow> dma vm \<Rightarrow> bool" where
  "calm a v \<longleftrightarrow> dma_inv (fst a) \<and> task_fn (fst a) = None \<and>
     (\<exists>l. impl l v \<and> link_eng l = fst a \<and> lk_up l = [] \<and> lk_guest l = (snd a, 0))"

definition sys_fresh :: "sysenv \<Rightarrow> u64 \<Rightarrow> u64 \<Rightarrow> mapping \<Rightarrow> view \<Rightarrow> proc \<Rightarrow> bool" where
  "sys_fresh E sp dp mp a s \<longleftrightarrow> proc_ok E sp dp mp s \<and> (\<exists>v. kd_hw s = Some v \<and> calm a v)"

definition irq_clear :: "sysenv \<Rightarrow> proc \<Rightarrow> bool" where
  "irq_clear E s \<longleftrightarrow> irq_sta (kdma_dev_of s (se_dev E)) AND push_bit 31 1 = 0"

definition sys_idle :: "sysenv \<Rightarrow> u64 \<Rightarrow> u64 \<Rightarrow> mapping \<Rightarrow> view \<Rightarrow> proc \<Rightarrow> bool" where
  "sys_idle E sp dp mp a s \<longleftrightarrow> sys_fresh E sp dp mp a s \<and> irq_clear E s"

definition sys_going :: "sysenv \<Rightarrow> u64 \<Rightarrow> u64 \<Rightarrow> mapping \<Rightarrow> view \<Rightarrow> proc \<Rightarrow> bool" where
  "sys_going E sp dp mp a s \<longleftrightarrow> proc_ok E sp dp mp s \<and> irq_clear E s \<and> dma_inv (fst a) \<and> task_fn (fst a) = None \<and>
     regs (fst a) ! DMA_REG_STA AND push_bit 31 1 \<noteq> 0 \<and>
     (\<exists>v l. kd_hw s = Some v \<and> impl l v \<and> (in_transfer l \<or> transferred l) \<and>
       settled (se_m0 E) (se_stk E) l = \<lparr>lk_down = [], lk_up = [], lk_eng = fst a, lk_guest = (snd a, 1)\<rparr>)"

definition view_put :: "mapping \<Rightarrow> u64 \<Rightarrow> byte list \<Rightarrow> view \<Rightarrow> view" where
  "view_put mp p d = (\<lambda>(e, mem). (e, case mapped mp p (length d) of None \<Rightarrow> mem | Some q \<Rightarrow> mem_put q d mem))"

definition view_wr :: "u64 \<Rightarrow> u32 \<Rightarrow> view \<Rightarrow> view" where
  "view_wr off x = (\<lambda>(e, mem). (reg_eff (unat off div 4, x) e, mem))"

definition view_run :: "u32 \<Rightarrow> view \<Rightarrow> view" where
  "view_run x = (\<lambda>(e, mem). let e = reg_eff (DMA_REG_CTL, x) e in (xfer_done e, dma_result e mem))"

definition view_sta :: "view \<Rightarrow> u32" where
  "view_sta a = regs (fst a) ! DMA_REG_STA"

section \<open>The process and its memory\<close>

lemma store_has:
  assumes "has_mem m a (length d)"
  shows "copy_to_user m a d = (0, snd (copy_to_user m a d))" "dom (snd (copy_to_user m a d)) = dom m"
proof -
  obtain m' where "copy_to_user m a d = (0, m')" "dom m' = dom m" using copy_to_has [OF assms] by blast
  then show "copy_to_user m a d = (0, snd (copy_to_user m a d))" "dom (snd (copy_to_user m a d)) = dom m" by simp_all
qed

lemma dom_store [simp]: "dom (snd (copy_to_user m a d)) = dom m"
  using copy_to_dom [of m a d] by (metis prod.collapse)

lemma has_mem_store [simp]: "has_mem (snd (copy_to_user m a d)) b n = has_mem m b n"
  by (rule has_mem_dom) simp

text \<open>The argument of a one-word access as it lies in memory after the five stores.\<close>

lemma readwrite_memory:
  fixes sp dp :: u64 and bar :: u32 and x :: u32 and off :: u64
  assumes h: "has_mem m sp 32" "has_mem m dp 4" and st: "stack_ok sp dp"
  shows "let m1 = snd (copy_to_user m dp (le_bytes 4 x)); m2 = snd (copy_to_user m1 (sp + 8) (le_bytes 4 bar));
      m3 = snd (copy_to_user m2 (sp + 16) (le_bytes 8 off)); m4 = snd (copy_to_user m3 sp (le_bytes 8 dp));
      m5 = snd (copy_to_user m4 (sp + 24) (le_bytes 4 (1 :: u32)))
    in copy_from_user m5 dp 4 = Some (le_bytes 4 x) \<and>
      (\<exists>b. copy_from_user m5 sp 32 = Some b \<and>
         decode_readwrite b = \<lparr>rw_addr = dp, rw_bar = bar, rw_off = off, rw_word32_count = 1\<rparr>)"
proof -
  let ?k = "unat (dp - sp)"
  have k: "dp = sp + of_nat ?k" "32 \<le> ?k" "?k + 4 < 2 ^ 63" using st by (simp_all add: stack_ok_def)
  obtain m1 m2 m3 m4 m5 where m: "m1 = snd (copy_to_user m dp (le_bytes 4 x))"
    "m2 = snd (copy_to_user m1 (sp + 8) (le_bytes 4 bar))" "m3 = snd (copy_to_user m2 (sp + 16) (le_bytes 8 off))"
    "m4 = snd (copy_to_user m3 sp (le_bytes 8 dp))" "m5 = snd (copy_to_user m4 (sp + 24) (le_bytes 4 (1 :: u32)))" by blast
  have hs: "has_mem m (sp + of_nat p) n" if "p + n \<le> 32" for p n using has_mem_sub [OF h(1) that] .
  have c1: "copy_to_user m (sp + of_nat ?k) (le_bytes 4 x) = (0, m1)"
    using store_has(1) [of m dp "le_bytes 4 x"] h(2) m(1) k(1) by simp
  have c2: "copy_to_user m1 (sp + of_nat 8) (le_bytes 4 bar) = (0, m2)"
    using store_has(1) [of m1 "sp + of_nat 8" "le_bytes 4 bar"] hs [of 8 4] m(1,2) by simp
  have c3: "copy_to_user m2 (sp + of_nat 16) (le_bytes 8 off) = (0, m3)"
    using store_has(1) [of m2 "sp + of_nat 16" "le_bytes 8 off"] hs [of 16 8] m(1-3) by simp
  have c4: "copy_to_user m3 (sp + of_nat 0) (le_bytes 8 dp) = (0, m4)"
    using store_has(1) [of m3 "sp + of_nat 0" "le_bytes 8 dp"] hs [of 0 8] m(1-4) by simp
  have c5: "copy_to_user m4 (sp + of_nat 24) (le_bytes 4 (1 :: u32)) = (0, m5)"
    using store_has(1) [of m4 "sp + of_nat 24" "le_bytes 4 (1 :: u32)"] hs [of 24 4] m(1-5) by simp
  note el2 = store_elsewhere [OF c2] and el3 = store_elsewhere [OF c3] and el4 = store_elsewhere [OF c4]
    and el5 = store_elsewhere [OF c5]
  have fx: "copy_from_user m5 (sp + of_nat ?k) 4 = Some (le_bytes 4 x)"
    using copy_to_from [OF c1] el2 [of ?k 4] el3 [of ?k 4] el4 [of ?k 4] el5 [of ?k 4] k(2,3) by simp
  have f8: "copy_from_user m5 (sp + of_nat 8) 4 = Some (le_bytes 4 bar)"
    using copy_to_from [OF c2] el3 [of 8 4] el4 [of 8 4] el5 [of 8 4] by simp
  have f16: "copy_from_user m5 (sp + of_nat 16) 8 = Some (le_bytes 8 off)"
    using copy_to_from [OF c3] el4 [of 16 8] el5 [of 16 8] by simp
  have f0: "copy_from_user m5 sp 8 = Some (le_bytes 8 dp)"
    using copy_to_from [OF c4] el5 [of 0 8] by simp
  have f24: "copy_from_user m5 (sp + of_nat 24) 4 = Some (le_bytes 4 (1 :: u32))"
    using copy_to_from [OF c5] by simp
  have hm: "has_mem m5 (sp + of_nat p) n" if "p + n \<le> 32" for p n using hs [OF that] m by simp
  obtain p1 p2 where p: "copy_from_user m5 (sp + of_nat 12) 4 = Some p1" "copy_from_user m5 (sp + of_nat 28) 4 = Some p2"
    using copy_from_has [OF hm [of 12 4]] copy_from_has [OF hm [of 28 4]] by auto
  have len: "length p1 = 4" "length p2 = 4" using p by (simp_all add: copy_from_length)
  let ?b = "le_bytes 8 dp @ (le_bytes 4 bar @ p1) @ le_bytes 8 off @ le_bytes 4 (1 :: u32) @ p2"
  have "copy_from_user m5 sp 32 = Some ?b"
    using copy_from_append [of m5 sp 8 24] copy_from_append [of m5 "sp + of_nat 8" 8 16]
      copy_from_append [of m5 "sp + of_nat 8" 4 4] copy_from_append [of m5 "sp + of_nat 16" 8 8]
      copy_from_append [of m5 "sp + of_nat 24" 4 4] f0 f8 f16 f24 p
    by (simp add: add.assoc)
  moreover have "decode_readwrite ?b = \<lparr>rw_addr = dp, rw_bar = bar, rw_off = off, rw_word32_count = 1\<rparr>"
    using len by (simp add: decode_readwrite_def of_le_le_bytes)
  ultimately show ?thesis using fx k(1) m by (simp add: Let_def)
qed

section \<open>The system calls\<close>

lemma deliver_none: "kd_hw s = Some v \<Longrightarrow> br_msis v = 0 \<Longrightarrow> deliver E s = s"
  by (simp add: deliver_def)

lemma proc_ok_upd [simp]:
  "proc_ok E sp dp mp (s\<lparr>kd_hw := h\<rparr>) = proc_ok E sp dp mp s" "proc_ok E sp dp mp (s\<lparr>px_errno := e\<rparr>) = proc_ok E sp dp mp s"
  "proc_ok E sp dp mp (s\<lparr>px_rand := r\<rparr>) = proc_ok E sp dp mp s" "proc_ok E sp dp mp (s\<lparr>kd_log := l\<rparr>) = proc_ok E sp dp mp s"
  "dom m = dom (kd_user s) \<Longrightarrow> proc_ok E sp dp mp (s\<lparr>kd_user := m\<rparr>) = proc_ok E sp dp mp s"
  by (simp_all add: proc_ok_def has_mem_def domIff set_eq_iff)

lemma proc_ok_irq [simp]: "proc_ok E sp dp mp (set_irq_sta (se_dev E) x s) = proc_ok E sp dp mp s"
proof (cases "se_dev E < length (d_devs (kd_drv s))")
  case True
  then show ?thesis by (simp add: proc_ok_def set_irq_sta_def)
qed (simp add: proc_ok_def set_irq_sta_def)

lemma irq_clear_upd [simp]:
  "irq_clear E (s\<lparr>kd_hw := h\<rparr>) = irq_clear E s" "irq_clear E (s\<lparr>px_errno := e\<rparr>) = irq_clear E s"
  "irq_clear E (s\<lparr>px_rand := r\<rparr>) = irq_clear E s" "irq_clear E (s\<lparr>kd_log := l\<rparr>) = irq_clear E s"
  "irq_clear E (s\<lparr>kd_user := m\<rparr>) = irq_clear E s"
  by (simp_all add: irq_clear_def)

text \<open>The write of a register: the stores of the program, the checks of the driver, and one write to the BAR.\<close>

lemma stack_access [simp]:
  assumes "proc_ok E sp dp mp s" and "0 < n"
  shows "k < 32 \<Longrightarrow> mapped mp (sp + of_nat k) n = None" "mapped mp dp n = None" "mapped mp sp n = None"
proof -
  have one: "mapped mp p n = None" if "mapped mp p 1 = None" for p
    using that assms(2) by (auto simp: mapped_def split: option.splits if_splits)
  have u: "unmapped mp sp 32" "unmapped mp dp 4" using assms(1) by (simp_all add: proc_ok_def)
  show "k < 32 \<Longrightarrow> mapped mp (sp + of_nat k) n = None" by (rule one) (use u in \<open>simp add: unmapped_def\<close>)
  have "mapped mp (dp + of_nat 0) 1 = None" "mapped mp (sp + of_nat 0) 1 = None"
    using u unfolding unmapped_def by (metis zero_less_numeral)+
  then show "mapped mp dp n = None" "mapped mp sp n = None" using one by simp_all
qed

lemma store_stack:
  assumes "proc_ok E sp dp mp s" and "d \<noteq> []"
  shows "k < 32 \<Longrightarrow> sys_store (sp + of_nat k) d s = s\<lparr>kd_user := snd (copy_to_user (kd_user s) (sp + of_nat k) d)\<rparr>"
    "sys_store dp d s = s\<lparr>kd_user := snd (copy_to_user (kd_user s) dp d)\<rparr>"
    "sys_store sp d s = s\<lparr>kd_user := snd (copy_to_user (kd_user s) sp d)\<rparr>"
  using stack_access [OF assms(1), of "length d"] assms by (simp_all add: sys_store_def proc_ok_def)

lemma le_bytes_nonempty: "0 < n \<Longrightarrow> le_bytes n x \<noteq> []"
  using length_le_bytes [of n x] by (metis less_numeral_extra(3) list.size(3))

lemmas store_fields = store_stack(1) [where k = 8, simplified] store_stack(1) [where k = 16, simplified]
  store_stack(1) [where k = 24, simplified]

lemma load_stack:
  assumes "proc_ok E sp dp mp s" and "0 < n"
  shows "sys_load sp n s = (case copy_from_user (kd_user s) sp n of Some d \<Rightarrow> d | None \<Rightarrow> [])"
  using stack_access(3) [OF assms] assms by (simp add: sys_load_def proc_ok_def)

lemma write_word32_step:
  assumes ok: "proc_ok E sp dp mp s" and hw: "kd_hw s = Some v" "br_msis v = 0"
    and off: "unat off mod 4 = 0" "unat off + 4 \<le> 20"
  shows "\<exists>m. dom m = dom (kd_user s) \<and> pci_dev_write_word32 (proc_sys E) sp dp fd U_REG_BAR off x s =
    (0, s\<lparr>kd_user := m, kd_hw := vm_write32 (se_cb E) (se_qemu E) 1 off x v\<rparr>)"
proof -
  obtain m1 m2 m3 m4 m5 where m: "m1 = snd (copy_to_user (kd_user s) dp (le_bytes 4 x))"
    "m2 = snd (copy_to_user m1 (sp + 8) (le_bytes 4 U_REG_BAR))" "m3 = snd (copy_to_user m2 (sp + 16) (le_bytes 8 off))"
    "m4 = snd (copy_to_user m3 sp (le_bytes 8 dp))" "m5 = snd (copy_to_user m4 (sp + 24) (le_bytes 4 (1 :: u32)))" by blast
  have mem: "has_mem (kd_user s) sp 32" "has_mem (kd_user s) dp 4" and st: "stack_ok sp dp" using ok by (simp_all add: proc_ok_def)
  obtain b where b: "copy_from_user m5 dp 4 = Some (le_bytes 4 x)" "copy_from_user m5 sp 32 = Some b"
    "decode_readwrite b = \<lparr>rw_addr = dp, rw_bar = 1, rw_off = off, rw_word32_count = 1\<rparr>"
    using readwrite_memory [OF mem st, of x U_REG_BAR off] unfolding Let_def m by (auto simp: U_REG_BAR_def)
  let ?s = "s\<lparr>kd_user := m5\<rparr>"
  have p: "proc_ok E sp dp mp (s\<lparr>kd_user := k\<rparr>)" if "k \<in> {m1, m2, m3, m4}" for k using ok that m by auto
  have stores: "sys_store dp (le_bytes 4 x) s = s\<lparr>kd_user := m1\<rparr>"
    "sys_store (sp + 8) (le_bytes 4 U_REG_BAR) (s\<lparr>kd_user := m1\<rparr>) = s\<lparr>kd_user := m2\<rparr>"
    "sys_store (sp + 16) (le_bytes 8 off) (s\<lparr>kd_user := m2\<rparr>) = s\<lparr>kd_user := m3\<rparr>"
    "sys_store sp (le_bytes 8 dp) (s\<lparr>kd_user := m3\<rparr>) = s\<lparr>kd_user := m4\<rparr>"
    "sys_store (sp + 24) (le_bytes 4 (1 :: u32)) (s\<lparr>kd_user := m4\<rparr>) = ?s"
    using store_stack(2) [OF ok le_bytes_nonempty, of 4 x] store_fields(1) [OF p le_bytes_nonempty, of m1 4 U_REG_BAR]
      store_fields(2) [OF p le_bytes_nonempty, of m2 8 off] store_stack(3) [OF p le_bytes_nonempty, of m3 8 dp]
      store_fields(3) [OF p le_bytes_nonempty, of m4 4 "1 :: u32"] m by simp_all
  have dv: "dv_vadr (kdma_dev_of ?s (se_dev E)) ! 1 = se_va E" "se_va E \<noteq> 0"
    "20 \<le> unat (dv_len (kdma_dev_of ?s (se_dev E)) ! 1)"
    "unat (se_va E) + unat (dv_len (kdma_dev_of ?s (se_dev E)) ! 1) < 2 ^ 64" using ok by (simp_all add: proc_ok_def)
  have one: "unat (1 :: u32) = 1" by simp
  have "check_bar_access (kdma_dev_of ?s (se_dev E)) 1 off 1 = 0"
    using check_bar_access_cases [of "kdma_dev_of ?s (se_dev E)" 1 off 1] dv off by simp
  moreover have "io_writel (se_mmio E) x (se_va E + off) (Some v) = vm_write32 (se_cb E) (se_qemu E) 1 off x v"
    by (simp add: se_mmio_def)
  ultimately have "kdma_file_ioctl (se_mmio E) (se_kenv E) (deliver E) (se_dev E) KDMA_IOCTL_WRITE_BAR sp ?s =
      (0, ?s\<lparr>kd_hw := vm_write32 (se_cb E) (se_qemu E) 1 off x v\<rparr>)"
    using b hw(1) dv(1) bytes_to_words_le_append [of x "[]"]
    by (simp add: kdma_file_ioctl_def ioctl_write_bar_def const_defs write_bar_safe_def)
  then have "sys_ioctl E KDMA_IOCTL_WRITE_BAR sp ?s = (0, ?s\<lparr>kd_hw := vm_write32 (se_cb E) (se_qemu E) 1 off x v\<rparr>)"
    using deliver_none [of ?s v E] hw by (simp add: sys_ioctl_def)
  then have "pci_dev_write_word32 (proc_sys E) sp dp fd U_REG_BAR off x s =
      (0, ?s\<lparr>kd_hw := vm_write32 (se_cb E) (se_qemu E) 1 off x v\<rparr>)"
    using stores by (simp add: pci_dev_write_word32_def pci_dev_write_def pci_dev_readwrite_def proc_sys_def)
  then show ?thesis by (intro exI [of _ m5]) (simp add: m)
qed

text \<open>The address of a register.\<close>

lemma reg_off:
  assumes "r < 5"
  shows "unat (DMA_REG_ADDR r) mod 4 = 0" "unat (DMA_REG_ADDR r) + 4 \<le> 20" "unat (DMA_REG_ADDR r) div 4 = r"
  using assms by (simp_all add: unat_reg_addr)

text \<open>Quiet with nothing on the way to the guest.\<close>

lemma calm_quiet: "calm a v \<Longrightarrow> quiet (fst a) (snd a, 0) v" "calm a v \<Longrightarrow> br_msis v = 0" "calm a v \<Longrightarrow> br_mem v = snd a"
  by (auto simp: calm_def quiet_def impls_def)

lemma calm_put: "calm (d, mem) v \<Longrightarrow> calm (d, mem') (v\<lparr>br_mem := mem'\<rparr>)"
proof -
  assume "calm (d, mem) v"
  then obtain l where "impl l v" "link_eng l = d" "lk_up l = []" "lk_guest l = (mem, 0)" "dma_inv d" "task_fn d = None"
    by (auto simp: calm_def)
  then show ?thesis unfolding calm_def
    by (intro conjI exI [of _ "l\<lparr>lk_guest := (mem', 0)\<rparr>"]) (simp_all add: impls_def bridge_ok_def link_eng_def)
qed

lemma calm_turns:
  assumes "task_fn (link_eng l) = None" and "lk_up l = []"
  shows "lk_up (fold (link_turn m0 stk) ts l) = [] \<and> lk_guest (fold (link_turn m0 stk) ts l) = lk_guest l"
  using assms
proof (induction ts arbitrary: l)
  case (Cons t ts)
  have t0: "task_fn (lk_eng l) = None" if "lk_down l = []" using Cons.prems(1) that by (simp add: link_eng_def)
  have "lk_up (link_turn m0 stk t l) = [] \<and> lk_guest (link_turn m0 stk t l) = lk_guest l"
    using Cons.prems(2) t0 by (cases t) (auto simp: link_dev_def link_bridge_def split: list.splits)
  then show ?case using Cons.IH [of "link_turn m0 stk t l"] Cons.prems link_eng_turn [OF Cons.prems(1), of m0 stk t] by simp
qed simp

lemma calm_write:
  assumes m0: "length (m_data m0) = 4096" and z: "calm (d, mem) v" and w: "r < 5" "r \<noteq> DMA_REG_CTL"
  shows "\<exists>v'. vm_write32 (dma_cb m0 stk) q 1 (DMA_REG_ADDR r) x v = Some v' \<and> calm (reg_eff (r, x) d, mem) v'"
proof -
  obtain l where l: "impl l v" "link_eng l = d" "lk_up l = []" "lk_guest l = (mem, 0)" "dma_inv d" "task_fn d = None"
    using z by (auto simp: calm_def)
  let ?l = "l\<lparr>lk_down := lk_down l @ [(r, x)]\<rparr>"
  obtain ts v' where v': "vm_write32 (dma_cb m0 stk) q 1 (DMA_REG_ADDR r) x v = Some v'"
    "impl (fold (link_turn m0 stk) ts ?l) v'"
    using impl_write [OF m0 l(1) w(1)] by blast
  have e: "link_eng ?l = reg_eff (r, x) d" using l(2) by (simp add: link_eng_def)
  then have t: "task_fn (link_eng ?l) = None" using reg_eff_task [of "(r, x)" d] w(2) l(6) by (simp add: starts_def)
  have "calm (reg_eff (r, x) d, mem) v'" unfolding calm_def
    using v'(2) calm_turns [OF t, of m0 stk ts] link_eng_turns [OF t, of m0 stk ts] l(3-5) e t dma_inv_reg_eff [of d "(r, x)"]
    by (intro conjI exI [of _ "fold (link_turn m0 stk) ts ?l"]) simp_all
  then show ?thesis using v'(1) by blast
qed

lemma calm_read:
  assumes m0: "length (m_data m0) = 4096" and z: "quiet d (mem, 0) v" and i: "dma_inv d" and r: "r < 5"
  shows "\<exists>v'. vm_read32 (dma_cb m0 stk) q 1 (DMA_REG_ADDR r) v = Some (regs d ! r, v') \<and> calm (d, mem) v'"
proof -
  obtain l where l: "impl l v" "link_eng l = d" "fold carry_out (lk_up l) (lk_guest l) = (mem, 0)" "task_fn d = None"
    using z by (auto simp: quiet_def)
  then have st: "settled m0 stk l = \<lparr>lk_down = [], lk_up = [], lk_eng = d, lk_guest = (mem, 0)\<rparr>"
    by (simp add: settled_def Let_def)
  obtain v' where v': "vm_read32 (dma_cb m0 stk) q 1 (DMA_REG_ADDR r) v = Some (regs d ! r, v')"
    "impl (settled m0 stk l) v'"
    using impl_read [OF m0 l(1) r] l(2,4) by auto
  then have "calm (d, mem) v'" unfolding calm_def using st i l(4)
    by (intro conjI exI [of _ "settled m0 stk l"]) (simp_all add: link_eng_def)
  then show ?thesis using v'(1) by blast
qed

lemma sys_write_reg:
  assumes a: "sys_idle E sp dp mp a s" and r: "r < 5" "r \<noteq> DMA_REG_CTL"
  shows "sys_idle E sp dp mp (view_wr (DMA_REG_ADDR r) x a) (snd (pci_dev_write_word32 (proc_sys E) sp dp fd U_REG_BAR (DMA_REG_ADDR r) x s))"
proof -
  obtain d mem where D: "a = (d, mem)" by fastforce
  obtain v where v: "kd_hw s = Some v" "calm (d, mem) v" and ok: "proc_ok E sp dp mp s" "irq_clear E s"
    using a by (auto simp: sys_idle_def sys_fresh_def D)
  have m0: "length (m_data (se_m0 E)) = 4096" using ok(1) by (simp add: proc_ok_def)
  obtain m where m: "dom m = dom (kd_user s)" "pci_dev_write_word32 (proc_sys E) sp dp fd U_REG_BAR (DMA_REG_ADDR r) x s =
    (0, s\<lparr>kd_user := m, kd_hw := vm_write32 (se_cb E) (se_qemu E) 1 (DMA_REG_ADDR r) x v\<rparr>)"
    using write_word32_step [OF ok(1) v(1) calm_quiet(2) [OF v(2)] reg_off(1,2) [OF r(1)], of fd x] by (elim exE conjE) (rule that)
  obtain v' where v': "vm_write32 (se_cb E) (se_qemu E) 1 (DMA_REG_ADDR r) x v = Some v'" "calm (reg_eff (r, x) d, mem) v'"
    using calm_write [OF m0 v(2) r, of "se_stk E" "se_qemu E" x] by blast
  show ?thesis
    using ok m v' reg_off(3) [OF r(1)] by (simp add: sys_idle_def sys_fresh_def view_wr_def D)
qed

lemma xfer_done_inv: "dma_inv d \<Longrightarrow> dma_inv (xfer_done d)"
  by (simp add: xfer_done_def dma_inv_def dev_wf_def PCIE_BAR_COUNT_def)

lemma done_bit: "(push_bit 31 1 OR y :: u32) AND push_bit 31 1 \<noteq> 0"
  unfolding and_bit_iff by (simp only: bit_simps) simp

lemma sys_start:
  assumes a: "sys_idle E sp dp mp a s"
    and x: "x AND push_bit 31 1 \<noteq> 0" "x AND push_bit 30 1 \<noteq> 0"
  shows "sys_going E sp dp mp (view_run x a) (snd (pci_dev_write_word32 (proc_sys E) sp dp fd U_REG_BAR U_REG_CTL x s))"
proof -
  obtain D mem where D: "a = (D, mem)" by fastforce
  obtain v where v: "kd_hw s = Some v" "quiet D (mem, 0) v" "br_msis v = 0" and
    ok: "proc_ok E sp dp mp s" "irq_clear E s" "dma_inv D"
  proof -
    obtain v where "kd_hw s = Some v" "calm (D, mem) v" "proc_ok E sp dp mp s" "irq_clear E s"
      using a by (auto simp: sys_idle_def sys_fresh_def D)
    then show ?thesis using that calm_quiet [of "(D, mem)" v] by (simp add: calm_def)
  qed
  have m0: "length (m_data (se_m0 E)) = 4096" using ok(1) by (simp add: proc_ok_def)
  have c: "U_REG_CTL = DMA_REG_ADDR DMA_REG_CTL" "DMA_REG_CTL < 5" by (simp_all add: const_defs DMA_REG_ADDR_def)
  obtain m where m: "dom m = dom (kd_user s)" "pci_dev_write_word32 (proc_sys E) sp dp fd U_REG_BAR U_REG_CTL x s =
    (0, s\<lparr>kd_user := m, kd_hw := vm_write32 (se_cb E) (se_qemu E) 1 U_REG_CTL x v\<rparr>)"
    using write_word32_step [OF ok(1) v(1,3) reg_off(1,2) [OF c(2)], of fd x, folded c(1)] by (elim exE conjE) (rule that)
  note di = dma_inv_fields [OF ok(3)]
  let ?d = "reg_eff (DMA_REG_CTL, x) D"
  obtain v' l where v': "vm_write32 (se_cb E) (se_qemu E) 1 U_REG_CTL x v = Some v'" "impl l v'"
    "in_transfer l \<or> transferred l" "settled (se_m0 E) (se_stk E) l =
      \<lparr>lk_down = [], lk_up = [], lk_eng = xfer_done ?d, lk_guest = (dma_result ?d mem, 1)\<rparr>"
    using quiet_start [OF m0 v(2) di(2) x, of "se_stk E" "se_qemu E", unfolded Let_def, folded c(1)]
    by (elim exE conjE) (rule that)
  have "view_run x a = (xfer_done ?d, dma_result ?d mem)" by (simp add: view_run_def D Let_def)
  moreover have "regs (xfer_done ?d) ! DMA_REG_STA = push_bit 31 1 OR (x AND 0xffff)"
    using di(1) x(1) by (simp add: xfer_done_def reg_eff_def const_defs)
  then have "regs (xfer_done ?d) ! DMA_REG_STA AND push_bit 31 1 \<noteq> 0" by (metis done_bit)
  ultimately show ?thesis
    using ok m v' xfer_done_inv [OF dma_inv_reg_eff [OF ok(3)]]
    by (auto simp: sys_going_def xfer_done_def)
qed

text \<open>The other calls touch the memory of the process and the log of the kernel only.\<close>

lemma sys_rand: "sys_fresh E sp dp mp a s \<Longrightarrow> sys_fresh E sp dp mp a (snd (sy_rand (proc_sys E) s))"
  by (auto simp: sys_fresh_def proc_sys_def split: list.split)

lemma sys_store_fresh: "sys_fresh E sp dp mp a s \<Longrightarrow> sys_fresh E sp dp mp (view_put mp p bs a) (sys_store p bs s)"
proof -
  assume f: "sys_fresh E sp dp mp a s"
  obtain d mem where D: "a = (d, mem)" by fastforce
  obtain v where v: "kd_hw s = Some v" "calm (d, mem) v" and ok: "proc_ok E sp dp mp s"
    using f by (auto simp: sys_fresh_def D)
  have m: "px_map s = mp" using ok by (simp add: proc_ok_def)
  show ?thesis
  proof (cases "mapped mp p (length bs)")
    case None
    then show ?thesis using ok v m by (simp add: sys_fresh_def sys_store_def view_put_def D)
  next
    case (Some q)
    then show ?thesis
      using ok v m calm_put [OF v(2)] calm_quiet(3) [OF v(2)] by (simp add: sys_fresh_def sys_store_def view_put_def D)
  qed
qed

lemma irq_clear_store [simp]: "irq_clear E (sys_store p bs s) = irq_clear E s"
  by (simp add: sys_store_def split: option.split)

lemma sys_store_stack:
  assumes "sys_fresh E sp dp mp a s" and "bs \<noteq> []" and "k < 32"
  shows "sys_fresh E sp dp mp a (sys_store (sp + of_nat k) bs s)"
proof -
  have ok: "proc_ok E sp dp mp s" using assms(1) by (simp add: sys_fresh_def)
  show ?thesis using assms(1) store_stack(1) [OF ok assms(2,3)] by (simp add: sys_fresh_def)
qed

lemma sync_step:
  assumes "sys_fresh E sp dp mp a s"
  shows "\<exists>r s'. sys_ioctl E KDMA_IOCTL_PMEM_SYNC p s = (r, s') \<and> sys_fresh E sp dp mp a s' \<and> irq_clear E s' = irq_clear E s"
proof -
  obtain v where "kd_hw s = Some v" "br_msis v = 0" using assms by (auto simp: sys_fresh_def calm_quiet)
  then have "deliver E s = s" by (rule deliver_none)
  then show ?thesis
    using assms by (cases "copy_from_user (kd_user s) p sizeof_pmem")
      (auto simp: Let_def sys_ioctl_def kdma_file_ioctl_def ioctl_pmem_sync_def sys_fresh_def EFAULT_def
         KDMA_IOCTL_PMEM_SYNC_def KDMA_IOCTL_READ_BAR_def KDMA_IOCTL_WRITE_BAR_def KDMA_IOCTL_GET_IRQCONTEXT_def
         KDMA_IOCTL_PMEM_ALLOC_def KDMA_IOCTL_PMEM_FREE_def)
qed

lemma sys_sync:
  assumes "sys_fresh E sp dp mp a s"
  shows "sys_fresh E sp dp mp a (snd (dma_sync_pmem (proc_sys E) sp h buf s))"
    "irq_clear E (snd (dma_sync_pmem (proc_sys E) sp h buf s)) = irq_clear E s"
proof -
  let ?s = "sy_store (proc_sys E) (sp + 8) (le_bytes 8 (db_paddr buf))
    (sy_store (proc_sys E) (sp + 16) (le_bytes 4 (byte_to_dword (ucast (db_size buf)))) s)"
  have f: "sys_fresh E sp dp mp a ?s"
    using sys_store_stack [OF sys_store_stack [OF assms le_bytes_nonempty, of 4 16 "byte_to_dword (ucast (db_size buf))"]
      le_bytes_nonempty, of 8 8 "db_paddr buf"] by (simp add: proc_sys_def)
  have i: "irq_clear E ?s = irq_clear E s" by (simp add: proc_sys_def)
  have "dma_sync_pmem (proc_sys E) sp h buf s = sys_ioctl E KDMA_IOCTL_PMEM_SYNC sp ?s"
    by (simp add: dma_sync_pmem_def proc_sys_def)
  then show "sys_fresh E sp dp mp a (snd (dma_sync_pmem (proc_sys E) sp h buf s))"
    "irq_clear E (snd (dma_sync_pmem (proc_sys E) sp h buf s)) = irq_clear E s"
    using sync_step [OF f, of sp] i by auto
qed

text \<open>The context: it is given to the process and cleared.\<close>

lemma get_context:
  assumes "sys_fresh E sp dp mp a s"
  shows "\<exists>s'. pci_dev_poll_int (proc_sys E) sp fd s = (0, Some (irq_sta (kdma_dev_of s (se_dev E))), s') \<and> sys_idle E sp dp mp a s'"
proof -
  obtain v where v: "kd_hw s = Some v" "br_msis v = 0" and ok: "proc_ok E sp dp mp s"
    using assms by (auto simp: sys_fresh_def calm_quiet)
  let ?sta = "irq_sta (kdma_dev_of s (se_dev E))"
  let ?s1 = "set_irq_sta (se_dev E) 0 s"
  have i: "se_dev E < length (d_devs (kd_drv s))" using ok by (simp add: proc_ok_def)
  have "has_mem (kd_user s) sp 4" using ok has_mem_sub [of "kd_user s" sp 32 0 4] by (simp add: proc_ok_def)
  then obtain m where m: "copy_to_user (kd_user s) sp (le_bytes 4 ?sta) = (0, m)" "dom m = dom (kd_user s)"
    using copy_to_has [of "kd_user s" sp "le_bytes 4 ?sta"] by auto
  have got: "copy_from_user m sp 4 = Some (le_bytes 4 ?sta)" using copy_to_from [OF m(1)] by simp
  have "kdma_file_ioctl (se_mmio E) (se_kenv E) (deliver E) (se_dev E) KDMA_IOCTL_GET_IRQCONTEXT sp s =
      (0, ?s1\<lparr>kd_user := m\<rparr>)"
    using m(1) deliver_none [OF v, of E]
    by (simp add: kdma_file_ioctl_def ioctl_get_irqcontext_def KDMA_IOCTL_READ_BAR_def KDMA_IOCTL_WRITE_BAR_def
        KDMA_IOCTL_GET_IRQCONTEXT_def set_irq_sta_other)
  then have s': "pci_dev_poll_int (proc_sys E) sp fd s = (0, Some ?sta, ?s1\<lparr>kd_user := m\<rparr>)"
    using deliver_none [OF v, of E] got of_le_le_bytes [of 4 ?sta] load_stack [where E = E and sp = sp and dp = dp and mp = mp and n = 4 and s = "?s1\<lparr>kd_user := m\<rparr>"] ok m(2)
    by (simp add: pci_dev_poll_int_def sys_ioctl_def proc_sys_def set_irq_sta_other)
  have "sys_fresh E sp dp mp a (?s1\<lparr>kd_user := m\<rparr>)"
    using assms m(2) by (simp add: sys_fresh_def set_irq_sta_other)
  moreover have "irq_clear E (?s1\<lparr>kd_user := m\<rparr>)" using set_irq_sta_of [OF i, of 0] by (simp add: irq_clear_def)
  ultimately show ?thesis using s' by (auto simp: sys_idle_def)
qed

text \<open>Waiting: the interrupt comes, the handler reads the status, and the file becomes readable.\<close>

lemma quiet_ack: "quiet D (mem, n) v \<Longrightarrow> br_msis v = n \<Longrightarrow> quiet D (mem, 0) (v\<lparr>br_msis := 0\<rparr>)"
proof -
  assume q: "quiet D (mem, n) v" and n: "br_msis v = n"
  then obtain a where a: "impl a v" "link_eng a = D" "fold carry_out (lk_up a) (lk_guest a) = (mem, n)" "task_fn D = None"
    by (auto simp: quiet_def)
  let ?a = "a\<lparr>lk_guest := (fst (lk_guest a), 0)\<rparr>"
  have c: "carry_out m (g, 0) = (fst (carry_out m (g, k)), 0)" if "m_op m \<noteq> PCIE_NET_OP_MSI" for m g k
    using that by (simp add: carry_out_def)
  have f: "fold carry_out ms (g, 0) = (fst (fold carry_out ms (g, k)), 0)" if "PCIE_NET_OP_MSI \<notin> set (map m_op ms)" for ms g k
    using that
  proof (induction ms arbitrary: g)
    case (Cons m ms)
    then show ?case using c [of m g k] carry_out_other [of m "(g, k)"] by (cases "carry_out m (g, k)") auto
  qed simp
  have "snd (lk_guest a) = n" using a(1) n by (simp add: impls_def)
  then have "PCIE_NET_OP_MSI \<notin> set (map m_op (lk_up a))"
    using a(3) carry_out_count [of "lk_up a" "lk_guest a"] by (simp add: count_list_0_iff)
  then have "fold carry_out (lk_up a) (fst (lk_guest a), 0) = (mem, 0)"
    using f [of "lk_up a" "fst (lk_guest a)" "snd (lk_guest a)"] a(3) by simp
  moreover have "impl ?a (v\<lparr>br_msis := 0\<rparr>)" using a(1) by (simp add: impls_def bridge_ok_def)
  ultimately show ?thesis using a(2,4) by (auto simp: quiet_def link_eng_def intro!: exI [of _ ?a])
qed

lemma irq_delivered:
  assumes ok: "proc_ok E sp dp mp s" and inv: "dma_inv D"
    and v: "kd_hw s = Some v" "quiet D (mem, 1) v" "br_msis v = 1"
    and sta: "regs D ! DMA_REG_STA AND push_bit 31 1 \<noteq> 0"
  shows "sys_fresh E sp dp mp (D, mem) (deliver E s)"
    "irq_sta (kdma_dev_of (deliver E s) (se_dev E)) = regs D ! DMA_REG_STA"
proof -
  let ?v = "v\<lparr>br_msis := 0\<rparr>"
  have m0: "length (m_data (se_m0 E)) = 4096" using ok by (simp add: proc_ok_def)
  have "DMA_REG_STA < 5" by (simp add: const_defs)
  from calm_read [OF m0 quiet_ack [OF v(2,3)] inv this, of "se_stk E" "se_qemu E"]
  obtain v' where v': "vm_read32 (se_cb E) (se_qemu E) 1 (DMA_REG_ADDR DMA_REG_STA) ?v = Some (regs D ! DMA_REG_STA, v')"
    "calm (D, mem) v'" by blast
  have a: "KDMA_REG_STA = DMA_REG_ADDR DMA_REG_STA" by (simp add: const_defs DMA_REG_ADDR_def)
  have i: "se_dev E < length (d_devs (kd_drv s))" and va: "dv_vadr (kdma_dev_of s (se_dev E)) ! 1 = se_va E"
    using ok by (simp_all add: proc_ok_def)
  have "read_sta (se_mmio E) (kdma_dev_of s (se_dev E)) (Some ?v) = (regs D ! DMA_REG_STA, Some v')"
    using v'(1) va a by (simp add: read_sta_def se_mmio_def KDMA_REG_BAR_def)
  then have d: "deliver E s = (let k = set_irq_sta (se_dev E) (regs D ! DMA_REG_STA) (s\<lparr>kd_hw := Some v'\<rparr>)
      in k\<lparr>kd_log := kd_log k @ [Km_wake_up]\<rparr>)"
    using v(1,3) sta by (simp add: deliver_def kdma_irq_handler_def Let_def)
  show "irq_sta (kdma_dev_of (deliver E s) (se_dev E)) = regs D ! DMA_REG_STA"
    using set_irq_sta_of [of "se_dev E" "s\<lparr>kd_hw := Some v'\<rparr>" "regs D ! DMA_REG_STA"] i by (simp add: d Let_def)
  show "sys_fresh E sp dp mp (D, mem) (deliver E s)"
    using ok v'(2) by (simp add: d Let_def sys_fresh_def set_irq_sta_other)
qed

lemma sys_wait:
  assumes g: "sys_going E sp dp mp a s"
  shows "\<exists>s'. poll_int_blocking (proc_sys E) sp h s = (0, Some (view_sta a), s') \<and> sys_fresh E sp dp mp a s'"
proof -
  obtain D mem where D: "a = (D, mem)" by fastforce
  obtain v l where v: "kd_hw s = Some v" "impl l v" "in_transfer l \<or> transferred l"
      "settled (se_m0 E) (se_stk E) l = \<lparr>lk_down = [], lk_up = [], lk_eng = D, lk_guest = (mem, 1)\<rparr>"
    and ok: "proc_ok E sp dp mp s" "irq_clear E s" "dma_inv D" "task_fn D = None" "regs D ! DMA_REG_STA AND push_bit 31 1 \<noteq> 0"
    using g by (auto simp: sys_going_def D)
  have m0: "length (m_data (se_m0 E)) = 4096" using ok(1) by (simp add: proc_ok_def)
  obtain v' where v': "vm_wait (se_cb E) v = Some v'" "impl (settled (se_m0 E) (se_stk E) l) v'" "br_msis v' = 1"
    using impl_wait [OF m0 v(2,3), of "se_stk E"] by blast
  have q: "quiet D (mem, 1) v'"
    unfolding quiet_def using v'(2) v(4) ok(4)
    by (intro conjI exI [of _ "settled (se_m0 E) (se_stk E) l"]) (simp_all add: link_eng_def)
  let ?s = "deliver E (s\<lparr>kd_hw := Some v'\<rparr>)"
  note w = irq_delivered [OF _ ok(3) _ q v'(3) ok(5), where sp = sp and dp = dp and mp = mp and s = "s\<lparr>kd_hw := Some v'\<rparr>"]
  have fresh: "sys_fresh E sp dp mp a ?s" and sta: "irq_sta (kdma_dev_of ?s (se_dev E)) = view_sta a"
    using w ok(1) by (simp_all add: D view_sta_def)
  have "kdma_file_poll (se_dev E) s = 0" using ok(2) by (simp add: kdma_file_poll_def irq_clear_def)
  then have "block_file E s = block_file E ?s" using v(1) v'(1) by (subst block_file.simps) simp
  moreover have "kdma_file_poll (se_dev E) ?s \<noteq> 0"
    using sta ok(5) by (simp add: kdma_file_poll_def view_sta_def D POLLIN_def POLLRDNORM_def)
  then have "block_file E ?s = Some ?s" by (subst block_file.simps) simp
  ultimately have "block_file E s = Some ?s" by simp
  then have "sy_select (proc_sys E) (h_fd h) s = (1, ?s)" by (simp add: proc_sys_def)
  then show ?thesis
    using get_context [OF fresh, of "h_fd h"] sta by (auto simp: poll_int_blocking_def sys_idle_def)
qed

section \<open>The driver over the link honours the contract\<close>

lemma reg_names: "U_REG_ADL = DMA_REG_ADDR DMA_REG_ADL" "U_REG_ADH = DMA_REG_ADDR DMA_REG_ADH"
  "U_REG_BAZ = DMA_REG_ADDR DMA_REG_BAZ"
  by (simp_all add: const_defs DMA_REG_ADDR_def)

interpretation drv: dma_driver "proc_sys E" sp dp fd "sys_fresh E sp dp mp" "sys_idle E sp dp mp" "sys_going E sp dp mp"
  "view_put mp" view_wr view_run view_sta
  for E sp dp fd mp
proof
  fix a s and h :: dma_handle and buf :: dma_buf and p :: u64 and bs :: "byte list" and off :: u64 and x :: u32
  show "sys_fresh E sp dp mp a s \<Longrightarrow> sys_fresh E sp dp mp a (snd (sy_rand (proc_sys E) s))" by (rule sys_rand)
  show "sys_fresh E sp dp mp a s \<Longrightarrow> sys_fresh E sp dp mp (view_put mp p bs a) (sy_store (proc_sys E) p bs s)"
    using sys_store_fresh by (simp add: proc_sys_def)
  show "sys_fresh E sp dp mp a s \<Longrightarrow> sys_idle E sp dp mp a (snd (snd (pci_dev_poll_int (proc_sys E) sp fd s)))"
    using get_context [of E sp dp mp a s fd] by auto
  show "sys_fresh E sp dp mp a s \<Longrightarrow> sys_fresh E sp dp mp a (snd (dma_sync_pmem (proc_sys E) sp h buf s))"
    by (rule sys_sync(1))
  show "sys_idle E sp dp mp a s \<Longrightarrow> sys_idle E sp dp mp a (snd (dma_sync_pmem (proc_sys E) sp h buf s))"
    using sys_sync [of E sp dp mp a s h buf] by (simp add: sys_idle_def)
  show "off \<in> {U_REG_ADL, U_REG_ADH, U_REG_BAZ} \<Longrightarrow> sys_idle E sp dp mp a s \<Longrightarrow>
    sys_idle E sp dp mp (view_wr off x a) (snd (pci_dev_write_word32 (proc_sys E) sp dp fd U_REG_BAR off x s))"
    using sys_write_reg [of E sp dp mp a s DMA_REG_ADL x fd] sys_write_reg [of E sp dp mp a s DMA_REG_ADH x fd]
      sys_write_reg [of E sp dp mp a s DMA_REG_BAZ x fd]
    by (auto simp: reg_names DMA_REG_ADL_def DMA_REG_ADH_def DMA_REG_BAZ_def DMA_REG_CTL_def)
  show "sys_idle E sp dp mp a s \<Longrightarrow> x AND push_bit 31 1 \<noteq> 0 \<Longrightarrow> x AND push_bit 30 1 \<noteq> 0 \<Longrightarrow>
    sys_going E sp dp mp (view_run x a) (snd (pci_dev_write_word32 (proc_sys E) sp dp fd U_REG_BAR U_REG_CTL x s))"
    by (rule sys_start)
  show "sys_going E sp dp mp a s \<Longrightarrow>
    \<exists>s'. poll_int_blocking (proc_sys E) sp h s = (0, Some (view_sta a), s') \<and> sys_fresh E sp dp mp a s'"
    by (rule sys_wait)
  show "sys_going E sp dp mp a s \<Longrightarrow> view_sta a AND push_bit 31 1 \<noteq> 0"
    by (simp add: sys_going_def view_sta_def)
qed

section \<open>One turn of the program\<close>

lemma join_halves: "push_bit 32 (ucast (ucast (drop_bit 32 p) :: u32)) OR ucast (ucast (p AND 0xffffffff) :: u32) = (p :: u64)"
proof -
  have m: "(0xffffffff :: u64) = mask 32" by (simp add: mask_eq_exp_minus_1)
  show ?thesis unfolding m by (rule bit_word_eqI) (auto simp: bit_simps)
qed

text \<open>The memory of the guest after a transfer of \<open>d\<close> to \<open>p\<close> with seed \<open>x\<close>.\<close>

definition filled :: "dma \<Rightarrow> u64 \<Rightarrow> u32 \<Rightarrow> (u64 \<Rightarrow> byte) \<Rightarrow> u64 \<Rightarrow> byte" where
  "filled d p x mem a = (let k = unat (a - p) in if k < 32768 then bram d ! k + ucast x else mem a)"

lemma turn_view:
  assumes i: "dma_inv d" and mp: "mp = Some (db_vaddr buf, db_paddr buf, db_size buf)" and len: "unat (db_size buf) \<le> 32768"
  shows "\<exists>d'. drv.turn mp x buf (d, mem) = (d', filled d (db_paddr buf) x mem) \<and> bram d' = bram d \<and> dma_inv d' \<and>
    regs d' ! DMA_REG_STA = push_bit 31 1 OR (ucast (db_size buf) AND 0xffff)"
proof -
  let ?c = "ctl_value (db_size buf)" and ?p = "db_paddr buf"
  let ?d3 = "reg_eff (DMA_REG_ADL, ucast (?p AND 0xffffffff)) (reg_eff (DMA_REG_ADH, ucast (drop_bit 32 ?p)) (reg_eff (DMA_REG_BAZ, x) d))"
  let ?d = "reg_eff (DMA_REG_CTL, ?c) ?d3"
  let ?m = "mem_put ?p (replicate (unat (db_size buf)) 0x2a) mem"
  have put: "view_put mp (db_vaddr buf) (replicate (unat (db_size buf)) 0x2a) (d, mem) = (d, ?m)"
    by (simp add: view_put_def mapped_def mp)
  have "drv.turn mp x buf (d, mem) = (xfer_done ?d, dma_result ?d ?m)"
    unfolding drv.turn_def drv.outcome_def put
    by (simp add: view_wr_def view_run_def Let_def U_REG_BAZ_def U_REG_ADL_def U_REG_ADH_def DMA_REG_BAZ_def DMA_REG_ADL_def DMA_REG_ADH_def)
  moreover note ri = dma_inv_fields [OF i]
  have sv: "xfer_base ?d = ?p" "saved_baz ?d = x" "saved_ctl ?d = ?c" "bram ?d = bram d"
    using ri(1) ctl_value_bits(1) [of "db_size buf"] join_halves [of ?p]
    by (simp_all add: xfer_base_def reg_eff_def const_defs)
  have "dma_result ?d ?m = filled d ?p x mem"
    using len by (auto simp: fun_eq_iff dma_result_def filled_def sv mem_put_def Let_def)
  moreover have "regs (xfer_done ?d) ! DMA_REG_STA = push_bit 31 1 OR (ucast (db_size buf) AND 0xffff)"
    using ri(1) sv(3) ctl_value_bits(1,3) [of "db_size buf"] by (simp add: xfer_done_def reg_eff_def const_defs)
  moreover have "dma_inv (xfer_done ?d)" using i by (intro xfer_done_inv dma_inv_reg_eff)
  moreover have "bram (xfer_done ?d) = bram d" using sv(4) by (simp add: xfer_done_def)
  ultimately show ?thesis by auto
qed

lemma load_buffer:
  assumes "sys_fresh E sp dp (Some (va, pa, len)) (d, mem) s"
  shows "sy_load (proc_sys E) va (unat len) s = map (\<lambda>k. mem (pa + of_nat k)) [0..<unat len]"
proof -
  obtain v where "kd_hw s = Some v" "calm (d, mem) v" "px_map s = Some (va, pa, len)"
    using assms by (auto simp: sys_fresh_def proc_ok_def)
  then show ?thesis using calm_quiet(3) [of "(d, mem)" v] by (simp add: proc_sys_def sys_load_def mapped_def)
qed

lemma load_filled:
  assumes "sys_fresh E sp dp (Some (va, pa, len)) (d', filled d pa x mem) s" and "unat len \<le> 32768"
  shows "sy_load (proc_sys E) va (unat len) s = map (\<lambda>k. bram d ! k + ucast x) [0..<unat len]"
  unfolding load_buffer [OF assms(1)] using assms(2)
  by (auto simp: filled_def Let_def unat_of_nat)

text \<open>What the two checks find.\<close>

lemma checks:
  assumes "sys_fresh E sp dp (Some (db_vaddr buf, db_paddr buf, db_size buf)) (d', filled d (db_paddr buf) x mem) s"
    and "unat (db_size buf) \<le> 32768"
  shows "check_buf (proc_sys E) buf x s = (if \<forall>k<unat (db_size buf). bram d ! k = 0 then 0 else -1)"
    "check_buf_c (proc_sys E) buf x s = (if \<forall>k<unat (db_size buf). bram d ! k = of_nat k then 0 else -1)"
proof -
  have "ucast (of_nat k + x :: u32) = (of_nat k + ucast x :: byte)" for k
  proof -
    have "ucast (of_nat k + x :: u32) = (ucast (of_nat k :: u32) + ucast x :: byte)" by (rule ucast_add_low)
    then show ?thesis by (simp add: ucast_of_nat_low)
  qed
  then show "check_buf (proc_sys E) buf x s = (if \<forall>k<unat (db_size buf). bram d ! k = 0 then 0 else -1)"
    "check_buf_c (proc_sys E) buf x s = (if \<forall>k<unat (db_size buf). bram d ! k = of_nat k then 0 else -1)"
    by (auto simp: check_buf_def check_buf_c_def load_filled [OF assms] Let_def)
qed

lemma count_read_back:
  fixes z :: u64
  assumes "unat z \<le> 32768"
  shows "(ucast ((push_bit 31 1 OR (ucast z AND 0xffff)) AND 0xffff :: u32) :: u64) = z"
proof -
  have m: "(0xffff :: u32) = mask 16" by (simp add: mask_eq_exp_minus_1)
  have "take_bit 16 (unat z) = unat z" using assms by (simp add: take_bit_nat_eq_self)
  then have "take_bit 16 z = z" by (metis unsigned_take_bit_eq word_unat_eq_iff)
  then have hi: "n < 16" if "bit z n" for n using that by (metis bit_take_bit_iff)
  show ?thesis unfolding m by (rule bit_word_eqI) (use hi in \<open>fastforce simp: bit_simps or_bit_iff [of 0 31, simplified]\<close>)
qed

lemma turn_runs:
  assumes f: "sys_fresh E sp dp (Some (db_vaddr buf, db_paddr buf, db_size buf)) (d, mem) s"
    and len: "unat (db_size buf) \<le> 32768"
  shows "\<exists>x d' s'. user_iter (proc_sys E) sp dp h buf io s =
      Some (if \<forall>k<unat (db_size buf). bram d ! k = 0 then 0 else -1,
        io\<lparr>io_baz := x, io_buf := Some buf, io_sta := push_bit 31 1 OR (ucast (db_size buf) AND 0xffff)\<rparr>, s') \<and>
    unat x < 256 \<and> bram d' = bram d \<and>
    sys_fresh E sp dp (Some (db_vaddr buf, db_paddr buf, db_size buf)) (d', filled d (db_paddr buf) x mem) s'"
proof -
  let ?mp = "Some (db_vaddr buf, db_paddr buf, db_size buf)"
  obtain x c s' where x: "user_iter (proc_sys E) sp dp h buf io s =
      Some (c, io\<lparr>io_baz := x, io_buf := Some buf, io_sta := view_sta (drv.turn ?mp x buf (d, mem))\<rparr>, s')"
    "sys_fresh E sp dp ?mp (drv.turn ?mp x buf (d, mem)) s'" "unat x < 256"
    "c = (if (ucast (view_sta (drv.turn ?mp x buf (d, mem)) AND 0xffff) :: u64) = db_size buf
       then check_buf (proc_sys E) buf x s' else -1)"
    using drv.iteration [OF f, of h "h_fd h" buf io] by blast
  have "dma_inv d" using f by (auto simp: sys_fresh_def calm_def)
  then obtain d' where d': "drv.turn ?mp x buf (d, mem) = (d', filled d (db_paddr buf) x mem)" "bram d' = bram d"
    "regs d' ! DMA_REG_STA = push_bit 31 1 OR (ucast (db_size buf) AND 0xffff)"
    using turn_view [OF _ refl len] by blast
  have sta: "view_sta (drv.turn ?mp x buf (d, mem)) = push_bit 31 1 OR (ucast (db_size buf) AND 0xffff)"
    by (simp add: view_sta_def d'(1,3))
  have "(ucast ((push_bit 31 1 OR (ucast (db_size buf) AND 0xffff)) AND 0xffff :: u32) :: u64) = db_size buf"
    using len by (rule count_read_back)
  then have "c = check_buf (proc_sys E) buf x s'" using x(4) sta by simp
  then show ?thesis
    using x(1-3) d' sta checks(1) [OF x(2) [unfolded d'(1)] len] by auto
qed

lemma loop_runs:
  assumes len: "unat (db_size buf) \<le> 32768"
  shows "sys_fresh E sp dp (Some (db_vaddr buf, db_paddr buf, db_size buf)) (d, mem) s \<Longrightarrow>
    \<exists>s'. user_loop (proc_sys E) sp dp h buf n io s =
      Some (if n = 0 \<or> (\<forall>k<unat (db_size buf). bram d ! k = 0) then None else Some (-1), s')"
proof (induction n arbitrary: d mem io s)
  case (Suc n)
  let ?z = "\<forall>k<unat (db_size buf). bram d ! k = 0"
  obtain x d' s1 io1 where t: "user_iter (proc_sys E) sp dp h buf io s = Some (if ?z then 0 else -1, io1, s1)"
    "bram d' = bram d"
    "sys_fresh E sp dp (Some (db_vaddr buf, db_paddr buf, db_size buf)) (d', filled d (db_paddr buf) x mem) s1"
    using turn_runs [OF Suc.prems len, of h io] by blast
  show ?case
  proof (cases ?z)
    case True
    then show ?thesis using Suc.IH [OF t(3), of io1] t(1,2) by auto
  next
    case False
    then show ?thesis using t(1) by auto
  qed
qed auto

section \<open>The buffer\<close>

text \<open>What the kernel grants: pages, a node for the list, and a mapping outside the stack.\<close>

definition grants :: "sysenv \<Rightarrow> u64 \<Rightarrow> u64 \<Rightarrow> u64 \<Rightarrow> bool" where
  "grants E sp dp pa \<longleftrightarrow> se_fd E \<noteq> -1 \<and> ke_kmalloc (se_kenv E) \<and> ke_pages (se_kenv E) \<noteq> 0 \<and>
     ke_virt_to_phys (se_kenv E) (ke_pages (se_kenv E)) = pa \<and> pa AND 0xfff = 0 \<and>
     se_remap E = 0 \<and> se_mmap E \<noteq> MAP_FAILED \<and>
     unmapped (Some (se_mmap E, pa, CONFIG_MEM_SIZE)) sp 32 \<and> unmapped (Some (se_mmap E, pa, CONFIG_MEM_SIZE)) dp 4"

lemma page_frame: "(pa :: u64) AND 0xfff = 0 \<Longrightarrow> push_bit 12 (drop_bit 12 pa) = pa"
proof -
  assume z: "pa AND 0xfff = 0"
  have m: "(0xfff :: u64) = mask 12" by (simp add: mask_eq_exp_minus_1)
  have lo: "12 \<le> n" if "bit pa n" for n
    using arg_cong [OF z [unfolded m], of "\<lambda>w. bit w n"] that bit_imp_le_length [OF that]
    by (cases "n < 12") (simp_all add: bit_simps)
  show ?thesis by (rule bit_word_eqI) (use lo in \<open>fastforce simp: bit_simps\<close>)
qed

text \<open>The argument of \<open>PMEM_ALLOC\<close>: the count is at offset 16.\<close>

lemma pmem_argument:
  assumes h: "has_mem m sp 32" and m1: "m1 = snd (copy_to_user m (sp + 20) (le_bytes 4 nid))"
    and m2: "m2 = snd (copy_to_user m1 (sp + 16) (le_bytes 4 (c :: u32)))"
  shows "\<exists>b. copy_from_user m2 sp 24 = Some b \<and> pm_word32_count (decode_pmem b) = c"
proof -
  have hs: "has_mem m (sp + of_nat p) n" if "p + n \<le> 32" for p n using has_mem_sub [OF h that] .
  have "copy_to_user m1 (sp + of_nat 16) (le_bytes 4 c) = (0, m2)"
    using store_has(1) [of m1 "sp + of_nat 16" "le_bytes 4 c"] hs [of 16 4] m1 m2 by simp
  then have c: "copy_from_user m2 (sp + of_nat 16) 4 = Some (le_bytes 4 c)" using copy_to_from by fastforce
  have hm: "has_mem m2 (sp + of_nat p) n" if "p + n \<le> 32" for p n using hs [OF that] m1 m2 by simp
  obtain b1 b2 where b: "copy_from_user m2 sp 16 = Some b1" "copy_from_user m2 (sp + of_nat 20) 4 = Some b2"
    using copy_from_has [OF hm [of 0 16]] copy_from_has [OF hm [of 20 4]] by auto
  have "copy_from_user m2 sp 24 = Some (b1 @ le_bytes 4 c @ b2)"
    using copy_from_append [of m2 sp 16 8] copy_from_append [of m2 "sp + of_nat 16" 4 4] b c by (simp add: add.assoc)
  moreover have "pm_word32_count (decode_pmem (b1 @ le_bytes 4 c @ b2)) = c"
    using copy_from_length [OF b(1)] by (simp add: decode_pmem_def of_le_le_bytes)
  ultimately show ?thesis by blast
qed

lemma small_count: "\<not> ucast (-1 :: u32) div 4 < (8192 :: u64)"
proof -
  have "unat (ucast (-1 :: u32) :: u64) = unat (-1 :: u32)" by (rule unat_ucast_up) simp
  then have "unat (ucast (-1 :: u32) div 4 :: u64) = 2 ^ 30 - 1"
    by (simp add: unat_div_distrib unsigned_minus_1_eq_mask mask_eq_exp_minus_1)
  then show ?thesis by (simp add: word_less_nat_alt)
qed

lemma alloc_call:
  assumes ok: "proc_ok E sp dp None s" and hw: "kd_hw s = Some v" "br_msis v = 0" and g: "grants E sp dp pa"
    and b: "copy_from_user (kd_user s) sp 24 = Some b" "pm_word32_count (decode_pmem b) = 8192"
  shows "\<exists>l ns m. sys_ioctl E KDMA_IOCTL_PMEM_ALLOC sp s = (0, s\<lparr>kd_log := l, kd_pmem := ns, kd_user := m\<rparr>) \<and>
    dom m = dom (kd_user s) \<and> copy_from_user m (sp + 8) 8 = Some (le_bytes 8 pa)"
proof -
  let ?a = "encode_pmem ((decode_pmem b)\<lparr>pm_paddr := pa\<rparr>)"
  have len: "length ?a = 24" by (simp add: encode_pmem_def)
  have "has_mem (kd_user s) sp 24" using ok has_mem_sub [of "kd_user s" sp 32 0 24] by (simp add: proc_ok_def)
  then obtain m where m: "copy_to_user (kd_user s) sp ?a = (0, m)" "dom m = dom (kd_user s)"
    using copy_to_has [of "kd_user s" sp ?a] len by auto
  have all: "copy_from_user m sp 24 = Some ?a" using copy_to_from [OF m(1)] len by simp
  obtain x y z where xyz: "copy_from_user m sp 8 = Some x" "copy_from_user m (sp + 8) 8 = Some y"
    "copy_from_user m (sp + 8 + 8) 8 = Some z" "?a = x @ y @ z"
    using all copy_from_append [of m sp 8 16] copy_from_append [of m "sp + 8" 8 8]
    by (auto split: Option.bind_splits)
  have "y = take 8 (drop 8 ?a)"
    using copy_from_length [OF xyz(1)] copy_from_length [OF xyz(2)] xyz(4) by simp
  then have y: "y = le_bytes 8 pa" by (simp add: encode_pmem_def)
  have dl: "deliver E s = s" using deliver_none [OF hw] .
  have "\<exists>l ns. kdma_file_ioctl (se_mmio E) (se_kenv E) (deliver E) (se_dev E) KDMA_IOCTL_PMEM_ALLOC sp s =
      (0, s\<lparr>kd_log := l, kd_pmem := ns, kd_user := m\<rparr>)"
    using g b m(1)
    by (simp add: kdma_file_ioctl_def ioctl_pmem_alloc_def pmem_alloc_def add_pmem_node_def grants_def Let_def
        KDMA_IOCTL_READ_BAR_def KDMA_IOCTL_WRITE_BAR_def KDMA_IOCTL_GET_IRQCONTEXT_def KDMA_IOCTL_PMEM_ALLOC_def
        sizeof_pmem_def small_count) (intro conjI impI exI; rule refl)
  then obtain l ns where "kdma_file_ioctl (se_mmio E) (se_kenv E) (deliver E) (se_dev E) KDMA_IOCTL_PMEM_ALLOC sp s =
      (0, s\<lparr>kd_log := l, kd_pmem := ns, kd_user := m\<rparr>)" by blast
  then have "sys_ioctl E KDMA_IOCTL_PMEM_ALLOC sp s = (0, s\<lparr>kd_log := l, kd_pmem := ns, kd_user := m\<rparr>)"
    using dl by (simp add: sys_ioctl_def)
  then show ?thesis using m(2) xyz(2) y by blast
qed

lemma alloc_runs:
  assumes f: "sys_fresh E sp dp None a s" and g: "grants E sp dp pa"
  shows "\<exists>s'. dma_alloc_buf (proc_sys E) sp h buf CONFIG_MEM_SIZE s =
      (0, buf\<lparr>db_size := CONFIG_MEM_SIZE, db_vaddr := se_mmap E, db_paddr := pa\<rparr>, s') \<and>
    sys_fresh E sp dp (Some (se_mmap E, pa, CONFIG_MEM_SIZE)) a s'"
proof -
  let ?mp = "Some (se_mmap E, pa, CONFIG_MEM_SIZE)"
  obtain v where v: "kd_hw s = Some v" "calm a v" and ok: "proc_ok E sp dp None s" using f by (auto simp: sys_fresh_def)
  let ?n = "of_int (h_nid h) :: u32"
  obtain m1 m2 where m: "m1 = snd (copy_to_user (kd_user s) (sp + 20) (le_bytes 4 ?n))"
    "m2 = snd (copy_to_user m1 (sp + 16) (le_bytes 4 (8192 :: u32)))" by blast
  let ?s2 = "s\<lparr>kd_user := m2\<rparr>"
  have p0: "px_map s = None" using ok by (simp add: proc_ok_def)
  have ok2: "proc_ok E sp dp None ?s2" using ok m by simp
  have st: "sys_store (sp + 16) (le_bytes 4 (8192 :: u32)) (sys_store (sp + 20) (le_bytes 4 ?n) s) = ?s2"
    using p0 by (simp add: sys_store_def mapped_def m)
  have "has_mem (kd_user s) sp 32" using ok by (simp add: proc_ok_def)
  from pmem_argument [OF this m]
  obtain b where b: "copy_from_user m2 sp 24 = Some b" "pm_word32_count (decode_pmem b) = 8192" by blast
  obtain l ns m3 where a: "sys_ioctl E KDMA_IOCTL_PMEM_ALLOC sp ?s2 = (0, ?s2\<lparr>kd_log := l, kd_pmem := ns, kd_user := m3\<rparr>)"
    "dom m3 = dom m2" "copy_from_user m3 (sp + 8) 8 = Some (le_bytes 8 pa)"
    using alloc_call [OF ok2 _ _ g, of v b] v(1) calm_quiet(2) [OF v(2)] b by auto
  let ?s3 = "?s2\<lparr>kd_log := l, kd_pmem := ns, kd_user := m3\<rparr>"
  have "px_map ?s3 = None" using p0 by simp
  then have l3: "sys_load (sp + 8) 8 ?s3 = le_bytes 8 pa" using a(3) by (simp add: sys_load_def mapped_def)
  let ?l4 = "l @ [Km_remap (se_mmap E) (drop_bit 12 pa) CONFIG_MEM_SIZE]"
  let ?s4 = "?s3\<lparr>kd_log := ?l4, px_map := ?mp\<rparr>"
  have mm: "sys_mmap E CONFIG_MEM_SIZE pa ?s3 = (se_mmap E, ?s4)"
    using g by (simp add: sys_mmap_def kdma_file_mmap_def grants_def page_frame)
  have ok4: "proc_ok E sp dp ?mp ?s4" using ok2 g a(2) m by (simp add: proc_ok_def grants_def has_mem_def)
  let ?m5 = "snd (copy_to_user m3 sp (le_bytes 8 (se_mmap E)))"
  have st5: "sys_store sp (le_bytes 8 (se_mmap E)) ?s4 = ?s4\<lparr>kd_user := ?m5\<rparr>"
    using store_stack(3) [OF ok4 le_bytes_nonempty, of 8 "se_mmap E"] by simp
  have "has_mem m3 sp 8" using ok2 a(2) has_mem_sub [of m3 sp 32 0 8] by (simp add: proc_ok_def has_mem_dom [of m3 m2])
  then have "copy_to_user m3 (sp + of_nat 0) (le_bytes 8 (se_mmap E)) = (0, ?m5)" using store_has(1) by simp
  from store_elsewhere [OF this, of 8 8] have "copy_from_user ?m5 (sp + 8) 8 = Some (le_bytes 8 pa)" using a(3) by simp
  moreover have ok5: "proc_ok E sp dp ?mp (?s4\<lparr>kd_user := ?m5\<rparr>)" using ok4 by (subst proc_ok_upd(5)) simp_all
  ultimately have l5: "sys_load (sp + 8) 8 (?s4\<lparr>kd_user := ?m5\<rparr>) = le_bytes 8 pa"
    using stack_access(1) [OF ok5, of 8 8] by (simp add: sys_load_def)
  have c: "byte_to_dword (ucast CONFIG_MEM_SIZE) = 8192" "CONFIG_MEM_SIZE mod CONFIG_PAGE_SIZE = 0"
    by (simp_all add: byte_to_dword_def const_defs)
  have "dma_alloc_buf (proc_sys E) sp h buf CONFIG_MEM_SIZE s =
      (0, buf\<lparr>db_size := CONFIG_MEM_SIZE, db_vaddr := se_mmap E, db_paddr := pa\<rparr>, ?s4\<lparr>kd_user := ?m5\<rparr>)"
    using st a(1) l3 mm st5 l5 g
    by (simp add: dma_alloc_buf_def proc_sys_def c Let_def of_le_le_bytes grants_def)
  moreover have "sys_fresh E sp dp ?mp a (?s4\<lparr>kd_user := ?m5\<rparr>)" using ok5 v by (simp add: sys_fresh_def)
  ultimately show ?thesis by blast
qed

section \<open>The program on the whole system\<close>

text \<open>
  C2. One turn of the program on the whole system, from its ioctls through the driver, the bridge and
  the link to the engine and back through the interrupt: it ends; the buffer then holds the memory of
  the engine plus the seed, and the check that is compiled in accepts it exactly when that memory is
  all zero, the one that is left out exactly when it is the pattern the engine starts with.
\<close>

theorem user_turn_transfers:
  assumes "sys_fresh E sp dp (Some (db_vaddr buf, db_paddr buf, db_size buf)) (d, mem) s"
    and "unat (db_size buf) \<le> 32768"
  shows "\<exists>x s'. user_iter (proc_sys E) sp dp h buf io s =
      Some (if \<forall>k<unat (db_size buf). bram d ! k = 0 then 0 else -1,
        io\<lparr>io_baz := x, io_buf := Some buf, io_sta := push_bit 31 1 OR (ucast (db_size buf) AND 0xffff)\<rparr>, s') \<and>
    unat x < 256 \<and>
    sy_load (proc_sys E) (db_vaddr buf) (unat (db_size buf)) s' = map (\<lambda>k. bram d ! k + ucast x) [0..<unat (db_size buf)] \<and>
    check_buf_c (proc_sys E) buf x s' = (if \<forall>k<unat (db_size buf). bram d ! k = of_nat k then 0 else -1)"
proof -
  obtain x d' s' where t: "user_iter (proc_sys E) sp dp h buf io s =
      Some (if \<forall>k<unat (db_size buf). bram d ! k = 0 then 0 else -1,
        io\<lparr>io_baz := x, io_buf := Some buf, io_sta := push_bit 31 1 OR (ucast (db_size buf) AND 0xffff)\<rparr>, s')"
    "unat x < 256"
    "sys_fresh E sp dp (Some (db_vaddr buf, db_paddr buf, db_size buf)) (d', filled d (db_paddr buf) x mem) s'"
    using turn_runs [OF assms, of h io] by blast
  show ?thesis
    by (intro exI [of _ x] exI [of _ s'] conjI t(1,2) load_filled [OF t(3) assms(2)] checks(2) [OF t(3) assms(2)])
qed

text \<open>
  C1. The whole program: it opens the device, gets a page-aligned buffer from the driver, maps it and
  transfers again and again while the memory of the engine is zero; if it is not, the first check
  fails and \<open>main\<close> returns -1.
\<close>

theorem user_main_verdict:
  assumes "sys_fresh E sp dp None (d, mem) s" and "grants E sp dp pa"
  shows "\<exists>s'. user_main (proc_sys E) sp dp h buf io n s =
    Some (if n = 0 \<or> (\<forall>k<32768. bram d ! k = 0) then None else Some (-1), s')"
proof -
  let ?mp = "Some (se_mmap E, pa, CONFIG_MEM_SIZE)"
  let ?h = "h\<lparr>h_fd := se_fd E, h_nid := -1\<rparr>"
  let ?b = "buf\<lparr>db_size := CONFIG_MEM_SIZE, db_vaddr := se_mmap E, db_paddr := pa\<rparr>"
  have o: "dma_open (proc_sys E) h s = (0, ?h, s)" using assms(2) by (simp add: dma_open_def proc_sys_def grants_def)
  obtain s1 where s1: "dma_alloc_buf (proc_sys E) sp ?h buf CONFIG_MEM_SIZE s = (0, ?b, s1)"
    "sys_fresh E sp dp ?mp (d, mem) s1"
    using alloc_runs [OF assms, of ?h buf] by blast
  have u: "unat (db_size ?b) = 32768" by (simp add: CONFIG_MEM_SIZE_def)
  have "sys_fresh E sp dp ?mp (view_put ?mp (se_mmap E) (replicate 32768 0x2a) (d, mem)) (reset_buffer (proc_sys E) ?b s1)"
    using sys_store_fresh [OF s1(2)] u by (simp add: reset_buffer_def proc_sys_def)
  then obtain mem' where "sys_fresh E sp dp (Some (db_vaddr ?b, db_paddr ?b, db_size ?b)) (d, mem') (reset_buffer (proc_sys E) ?b s1)"
    by (auto simp: view_put_def)
  from loop_runs [OF _ this, of ?h n io] u
  show ?thesis using o s1(1) by (auto simp: user_main_def)
qed

section \<open>A system\<close>

definition sys_env0 :: sysenv where
  "sys_env0 = \<lparr>se_m0 = junk_page, se_stk = junk_page, se_qemu = qemu_off, se_va = 0x10000,
     se_kenv = \<lparr>ke_kmalloc = True, ke_pages = 0x200000, ke_get_order = (\<lambda>_. 3), ke_virt_to_phys = (\<lambda>x. x),
       ke_phys_to_virt = (\<lambda>x. x)\<rparr>, se_dev = 0, se_fd = 3, se_mmap = 0x1000, se_remap = 0\<rparr>"

definition sys_proc0 :: "mapping \<Rightarrow> proc" where
  "sys_proc0 mp = \<lparr>kd_drv = \<lparr>d_devs = [wit_dev\<lparr>dv_vadr := [0, 0x10000, 0, 0, 0, 0]\<rparr>], d_bits = 1, d_major = 0\<rparr>,
     kd_pmem = [], kd_user = (\<lambda>_. Some 0), kd_hw = Some vm_zero, kd_log = [], px_errno = 0, px_rand = [5], px_map = mp\<rparr>"

lemma unmapped_below: "unmapped (Some (0x1000, pa, 0x8000)) (of_nat p) n" if "0x9000 \<le> p" "p + n < 2 ^ 63"
  unfolding unmapped_def
proof (intro allI impI)
  fix k assume k: "k < n"
  have "of_nat p + of_nat k - 0x1000 = (of_nat (p + k - 0x1000) :: u64)" using that by (simp add: of_nat_diff)
  moreover have "unat (of_nat (p + k - 0x1000) :: u64) = p + k - 0x1000"
    by (rule unat_of_nat_u64) (use that k in simp)
  ultimately show "mapped (Some (0x1000, pa, 0x8000)) (of_nat p + of_nat k) 1 = None"
    using that by (simp add: mapped_def)
qed

lemma calm_zero: "calm (zero_dma, \<lambda>_. 0) vm_zero"
  unfolding calm_def using vm_zero_ready zero_dma_inv
  by (intro conjI exI [of _ "\<lparr>lk_down = [], lk_up = [], lk_eng = zero_dma, lk_guest = (\<lambda>_. 0, 0)\<rparr>"])
    (simp_all add: vm_ready_def impls_def link_eng_def no_sock_def vm_zero_def zero_dma_def)

lemma sys_zero:
  assumes "mp = None \<or> mp = Some (0x1000, 0x200000, 0x8000)"
  shows "sys_fresh sys_env0 0x100000 0x100100 mp (zero_dma, \<lambda>_. 0) (sys_proc0 mp)"
proof -
  have "unmapped mp 0x100000 32" "unmapped mp 0x100100 4"
    using assms unmapped_below [of "0x100000" 32 "0x200000"] unmapped_below [of "0x100100" 4 "0x200000"]
    by (auto simp: unmapped_def mapped_def)
  then show ?thesis
    using calm_zero vm_zero_ready(4)
    by (simp add: sys_fresh_def proc_ok_def sys_proc0_def sys_env0_def stack_ok_def has_mem_def wit_dev_def)
qed

lemma grants_zero: "grants sys_env0 0x100000 0x100100 0x200000"
  using unmapped_below [of "0x100000" 32 "0x200000"] unmapped_below [of "0x100100" 4 "0x200000"]
  by (simp add: grants_def sys_env0_def MAP_FAILED_def CONFIG_MEM_SIZE_def)

theorem user_turn_transfers_witness:
  "\<exists>x s'. user_iter (proc_sys sys_env0) 0x100000 0x100100 \<lparr>h_fd = 3, h_nid = -1\<rparr>
      \<lparr>db_size = 0x8000, db_vaddr = 0x1000, db_paddr = 0x200000\<rparr> \<lparr>io_buf = None, io_baz = 0, io_sta = 0\<rparr>
      (sys_proc0 (Some (0x1000, 0x200000, 0x8000))) = Some (-1, x, s') \<and> io_sta x = 0x80008000"
proof -
  let ?b = "\<lparr>db_size = 0x8000, db_vaddr = 0x1000, db_paddr = 0x200000\<rparr>"
  have f: "sys_fresh sys_env0 0x100000 0x100100 (Some (db_vaddr ?b, db_paddr ?b, db_size ?b)) (zero_dma, \<lambda>_. 0)
      (sys_proc0 (Some (0x1000, 0x200000, 0x8000)))" using sys_zero by simp
  have b: "bram zero_dma ! 0 \<noteq> 0" by (simp add: zero_dma_def sizeof_bram_def)
  then have z: "\<not> (\<forall>k<unat (db_size ?b). bram zero_dma ! k = 0)" by (auto intro!: exI [of _ 0])
  then show ?thesis
    using user_turn_transfers [OF f, of "\<lparr>h_fd = 3, h_nid = -1\<rparr>" "\<lparr>io_buf = None, io_baz = 0, io_sta = 0\<rparr>"] by auto
qed

theorem user_main_verdict_witness:
  "\<exists>s'. user_main (proc_sys sys_env0) 0x100000 0x100100 \<lparr>h_fd = 0, h_nid = 0\<rparr>
      \<lparr>db_size = 0, db_vaddr = 0, db_paddr = 0\<rparr> \<lparr>io_buf = None, io_baz = 0, io_sta = 0\<rparr> 5 (sys_proc0 None) =
    Some (Some (-1), s')"
proof -
  have f: "sys_fresh sys_env0 0x100000 0x100100 None (zero_dma, \<lambda>_. 0) (sys_proc0 None)" using sys_zero by simp
  have z: "(\<forall>k<32768. bram zero_dma ! k = 0) = False" by (auto simp: zero_dma_def sizeof_bram_def intro!: exI [of _ 0])
  then show ?thesis
    using user_main_verdict [OF f grants_zero, of "\<lparr>h_fd = 0, h_nid = 0\<rparr>" "\<lparr>db_size = 0, db_vaddr = 0, db_paddr = 0\<rparr>"
        "\<lparr>io_buf = None, io_baz = 0, io_sta = 0\<rparr>" 5] by (simp add: z)
qed

end
