(* ===== verification/Pcie_Glue.thy ===== *)
theory Pcie_Glue
  imports Pcie_Dev
begin

text \<open>
  The glue between the network side and a VHDL simulation, \<open>src/src/pcie/pcie_glue.c\<close>: the
  conversions between integers and the simulator's logic vectors, the linked queues shared by the
  two threads, the handlers of the network thread and the routines the simulation calls.

  Memory that \<open>malloc\<close> hands out is an explicit heap of nodes; using a node that is not allocated
  is \<open>None\<close>. \<open>malloc\<close> is assumed to succeed, as in the code, and the address it returns is an
  argument.
\<close>

section \<open>Logic vectors\<close>

definition glue_levels :: "byte list" where "glue_levels = [2, 3]"

text \<open>\<open>uintN_to_logic\<close>, most significant bit first.\<close>

definition uint_to_logic :: "'a::len word \<Rightarrow> byte list" where
  "uint_to_logic x = map (\<lambda>i. glue_levels ! unat (drop_bit i x AND 1)) (rev [0..<LENGTH('a)])"

text \<open>\<open>logic_to_uintN\<close> of the levels from offset \<open>off\<close> on: \<open>i\<close> counts down to 0.\<close>

fun logic_bits :: "byte list \<Rightarrow> 'a::len word \<Rightarrow> 'a word" where
  "logic_bits [] x = x"
| "logic_bits (b # bs) x =
     logic_bits bs (if b = glue_levels ! 1 then x OR push_bit (length bs) 1 else x)"

definition logic_to_uint :: "byte list \<Rightarrow> nat \<Rightarrow> 'a::len word option" where
  "logic_to_uint buf off = do {
     d \<leftarrow> mem_read buf off LENGTH('a);
     Some (logic_bits d 0)
   }"

text \<open>
  \<open>logic_to_buf\<close>: the bytes from index \<open>i\<close> on. The \<open>size_t\<close> subtraction wraps for an index that is
  not below \<open>data_size\<close>, which leaves the vector.
\<close>

primrec logic_to_buf_from :: "byte list \<Rightarrow> nat \<Rightarrow> nat \<Rightarrow> nat \<Rightarrow> byte list option" where
  "logic_to_buf_from data data_size i 0 = Some []"
| "logic_to_buf_from data data_size i (Suc n) = do {
     b \<leftarrow> (if i < data_size then logic_to_uint data ((data_size - 1 - i) * 8) else None);
     bs \<leftarrow> logic_to_buf_from data data_size (Suc i) n;
     Some (b # bs)
   }"

definition logic_to_buf :: "byte list \<Rightarrow> nat \<Rightarrow> nat \<Rightarrow> byte list \<Rightarrow> byte list option" where
  "logic_to_buf data data_size sz buf = do {
     bs \<leftarrow> logic_to_buf_from data data_size 0 sz;
     mem_write buf 0 bs
   }"

section \<open>Nodes, the heap and the queues\<close>

record bar_access =
  ba_is_replied :: bool
  ba_is_read :: u32
  ba_bar :: u32
  ba_addr :: u64
  ba_size :: u32
  ba_data :: "byte list"

datatype node_body = Access bar_access | Send_msg net_msg

record fnode =
  fn_next :: "nat option"
  fn_u :: node_body

type_synonym heap = "nat \<rightharpoonup> fnode"

record fifo =
  f_head :: "nat option"
  f_tail :: "nat option"

definition fifo_init :: fifo where
  "fifo_init = \<lparr>f_head = None, f_tail = None\<rparr>"

text \<open>A new node at the address \<open>malloc\<close> returned.\<close>

definition fifo_alloc_node :: "nat \<Rightarrow> node_body \<Rightarrow> heap \<Rightarrow> heap" where
  "fifo_alloc_node a body h = h(a \<mapsto> \<lparr>fn_next = None, fn_u = body\<rparr>)"

text \<open>\<open>free\<close>: of an address that is not allocated it is undefined.\<close>

definition heap_free :: "nat \<Rightarrow> heap \<Rightarrow> heap option" where
  "heap_free a h = (if h a = None then None else Some (h(a := None)))"

text \<open>
  \<open>fifo_alloc_access_node\<close>: \<open>junk\<close> is the content \<open>malloc\<close> left in the eight data bytes, into
  which \<open>sz\<close> bytes are copied unchecked.
\<close>

definition fifo_alloc_access_node ::
  "nat \<Rightarrow> byte list \<Rightarrow> u32 \<Rightarrow> u32 \<Rightarrow> u64 \<Rightarrow> nat \<Rightarrow> byte list \<Rightarrow> heap \<Rightarrow> heap option" where
  "fifo_alloc_access_node a junk is_read bar addr sz data h = do {
     d \<leftarrow> mem_read data 0 sz;
     nd \<leftarrow> mem_write (take 8 (junk @ replicate 8 0)) 0 d;
     Some (fifo_alloc_node a (Access \<lparr>ba_is_replied = False, ba_is_read = is_read, ba_bar = bar,
       ba_addr = addr, ba_size = of_nat sz, ba_data = nd\<rparr>) h)
   }"

definition fifo_push_node :: "nat \<Rightarrow> heap \<times> fifo \<Rightarrow> (heap \<times> fifo) option" where
  "fifo_push_node n = (\<lambda>(h, f). do {
     (h, f) \<leftarrow> (case f_head f of
         None \<Rightarrow> Some (h, f\<lparr>f_head := Some n\<rparr>)
       | Some _ \<Rightarrow> do {
           t \<leftarrow> f_tail f;
           x \<leftarrow> h t;
           Some (h(t \<mapsto> x\<lparr>fn_next := Some n\<rparr>), f) });
     Some (h, f\<lparr>f_tail := Some n\<rparr>)
   })"

text \<open>The critical section of \<open>pcie_glue_poll_rx_fifo\<close>.\<close>

definition fifo_pop_node :: "heap \<times> fifo \<Rightarrow> (nat option \<times> heap \<times> fifo) option" where
  "fifo_pop_node = (\<lambda>(h, f). case f_head f of
      None \<Rightarrow> Some (None, h, f)
    | Some n \<Rightarrow> do {
        x \<leftarrow> h n;
        let f = f\<lparr>f_head := fn_next x\<rparr>;
        let f = (if f_head f = None then f\<lparr>f_tail := None\<rparr> else f);
        Some (Some n, h, f) })"

text \<open>\<open>fifo_fini\<close>: the loop that frees every node.\<close>

partial_function (option) free_nodes :: "heap \<Rightarrow> nat option \<Rightarrow> heap option" where
  "free_nodes h i = (case i of
      None \<Rightarrow> Some h
    | Some tmp \<Rightarrow> do {
        x \<leftarrow> h tmp;
        h \<leftarrow> heap_free tmp h;
        free_nodes h (fn_next x) })"

definition fifo_fini :: "heap \<times> fifo \<Rightarrow> heap option" where
  "fifo_fini = (\<lambda>(h, f). free_nodes h (f_head f))"

section \<open>The thread context\<close>

text \<open>The functions the glue registers: the two handlers of each BAR, and the event handler.\<close>

datatype glue_fn = On_bar_read nat | On_bar_write nat | On_event

text \<open>
  \<open>thread_context_t\<close>; the device comes first. \<open>g_heap\<close> is the heap, \<open>g_pipe\<close> the keys written to
  the event pipe and not yet read.
\<close>

record glue = "glue_fn pcie_dev" +
  g_tx :: fifo
  g_rx :: fifo
  g_ev_fds :: "int \<times> int"
  g_reply :: "nat option"
  g_state :: u32
  g_heap :: heap
  g_pipe :: "u32 list"

definition evk_quit :: u32 where [const_defs]: "evk_quit = 0x2a2a2a2a"
definition evk_push :: u32 where [const_defs]: "evk_push = 0x2a2a2a2b"

text \<open>Push onto one of the queues of the context.\<close>

definition push_rx :: "nat \<Rightarrow> glue \<Rightarrow> glue option" where
  "push_rx n c = do {
     (h, f) \<leftarrow> fifo_push_node n (g_heap c, g_rx c);
     Some (c\<lparr>g_heap := h, g_rx := f\<rparr>)
   }"

definition push_tx :: "nat \<Rightarrow> glue \<Rightarrow> glue option" where
  "push_tx n c = do {
     (h, f) \<leftarrow> fifo_push_node n (g_heap c, g_tx c);
     Some (c\<lparr>g_heap := h, g_tx := f\<rparr>)
   }"

section \<open>Handlers of the network thread\<close>

text \<open>
  \<open>on_bar_read\<close> up to the wait for the reply, and from it on; in between the simulation runs.
  \<open>a\<close> is the address of the node.
\<close>

definition on_bar_read_start ::
  "nat \<Rightarrow> byte list \<Rightarrow> u32 \<Rightarrow> u64 \<Rightarrow> byte list \<Rightarrow> nat \<Rightarrow> glue \<Rightarrow> glue option" where
  "on_bar_read_start a junk bar addr data sz c = do {
     h \<leftarrow> fifo_alloc_access_node a junk 1 bar addr sz data (g_heap c);
     push_rx a (c\<lparr>g_heap := h\<rparr>)
   }"

definition on_bar_read_finish :: "nat \<Rightarrow> byte list \<Rightarrow> nat \<Rightarrow> glue \<Rightarrow> (byte list \<times> glue) option" where
  "on_bar_read_finish a data sz c = do {
     x \<leftarrow> g_heap c a;
     case fn_u x of
       Send_msg _ \<Rightarrow> None
     | Access ba \<Rightarrow> do {
         let sz = (if sz > unat (ba_size ba) then unat (ba_size ba) else sz);
         d \<leftarrow> mem_read (ba_data ba) 0 sz;
         data \<leftarrow> mem_write data 0 d;
         h \<leftarrow> heap_free a (g_heap c);
         Some (data, c\<lparr>g_heap := h\<rparr>) }
   }"

definition is_replied :: "nat \<Rightarrow> glue \<Rightarrow> bool" where
  "is_replied a c = (case g_heap c a of
      Some x \<Rightarrow> (case fn_u x of Access ba \<Rightarrow> ba_is_replied ba | Send_msg _ \<Rightarrow> False)
    | None \<Rightarrow> False)"

definition on_bar_write ::
  "nat \<Rightarrow> byte list \<Rightarrow> u32 \<Rightarrow> u64 \<Rightarrow> byte list \<Rightarrow> nat \<Rightarrow> glue \<Rightarrow> glue option" where
  "on_bar_write a junk bar addr data sz c = do {
     h \<leftarrow> fifo_alloc_access_node a junk 0 bar addr sz data (g_heap c);
     push_rx a (c\<lparr>g_heap := h\<rparr>)
   }"

text \<open>The loop of \<open>on_event\<close> over the detached nodes.\<close>

partial_function (option) send_nodes :: "nat option \<Rightarrow> glue \<Rightarrow> glue option" where
  "send_nodes head c = (case head of
      None \<Rightarrow> Some c
    | Some pos \<Rightarrow> do {
        x \<leftarrow> g_heap c pos;
        (case fn_u x of
           Access _ \<Rightarrow> None
         | Send_msg m \<Rightarrow> do {
             (_, m, c) \<leftarrow> pcie_net_send_msg c m;
             h \<leftarrow> heap_free pos (g_heap c);
             send_nodes (fn_next x) (c\<lparr>g_heap := h\<rparr>) }) })"

definition on_event :: "u32 \<Rightarrow> glue \<Rightarrow> (int \<times> glue) option" where
  "on_event key c =
     (if key = evk_quit then Some (-1, c)
      else do {
        let head = f_head (g_tx c);
        let c = c\<lparr>g_tx := (g_tx c)\<lparr>f_head := None, f_tail := None\<rparr>\<rparr>;
        c \<leftarrow> send_nodes head c;
        Some (0, c) })"

section \<open>Routines for the simulation\<close>

text \<open>
  \<open>alloc_write_node\<close>: \<open>junk\<close> is what \<open>malloc\<close> left in the message, of which there are \<open>size\<close>
  data bytes.
\<close>

definition alloc_write_msg :: "net_msg \<Rightarrow> byte \<Rightarrow> u64 \<Rightarrow> u16 \<Rightarrow> net_msg" where
  "alloc_write_msg junk mop addr sz = junk\<lparr>m_op := mop, m_size := sz, m_addr := addr,
     m_data := take (unat sz) (m_data junk @ replicate (unat sz) 0)\<rparr>"

text \<open>Storing a message node at \<open>a\<close>, pushing it and waking the network thread.\<close>

definition push_msg :: "nat \<Rightarrow> net_msg \<Rightarrow> glue \<Rightarrow> glue option" where
  "push_msg a m c = do {
     c \<leftarrow> push_tx a (c\<lparr>g_heap := fifo_alloc_node a (Send_msg m) (g_heap c)\<rparr>);
     Some (c\<lparr>g_pipe := g_pipe c @ [evk_push]\<rparr>)
   }"

definition pcie_glue_send_msi :: "nat \<Rightarrow> net_msg \<Rightarrow> glue \<Rightarrow> glue option" where
  "pcie_glue_send_msi a junk c = do {
     let m = alloc_write_msg junk PCIE_NET_OP_MSI 0 8;
     d \<leftarrow> mem_write (m_data m) 0 (replicate 8 0);
     push_msg a (m\<lparr>m_data := d\<rparr>) c
   }"

text \<open>The loop of \<open>pcie_glue_send_write_buf\<close>, from index \<open>i\<close> on.\<close>

primrec write_buf_bytes :: "byte list \<Rightarrow> nat \<Rightarrow> nat \<Rightarrow> byte list option" where
  "write_buf_bytes base i 0 = Some []"
| "write_buf_bytes base i (Suc n) = do {
     b \<leftarrow> logic_to_uint base i;
     bs \<leftarrow> write_buf_bytes base (Suc i) n;
     Some (b # bs)
   }"

definition pcie_glue_send_write_buf ::
  "nat \<Rightarrow> net_msg \<Rightarrow> byte list \<Rightarrow> byte list \<Rightarrow> byte list \<Rightarrow> glue \<Rightarrow> glue option" where
  "pcie_glue_send_write_buf a junk l_addr base l_data_size c = do {
     addr \<leftarrow> logic_to_uint l_addr 0;
     data_size \<leftarrow> logic_to_uint l_data_size 0;
     let m = alloc_write_msg junk PCIE_NET_OP_WRITE_MEM addr data_size;
     bs \<leftarrow> write_buf_bytes base 0 (unat data_size);
     d \<leftarrow> mem_write (m_data m) 0 bs;
     push_msg a (m\<lparr>m_data := d\<rparr>) c
   }"

definition pcie_glue_send_write ::
  "nat \<Rightarrow> net_msg \<Rightarrow> byte list \<Rightarrow> byte list \<Rightarrow> byte list \<Rightarrow> byte list \<Rightarrow> glue \<Rightarrow> glue option" where
  "pcie_glue_send_write a junk l_addr l_data l_data_size l_size c = do {
     addr \<leftarrow> logic_to_uint l_addr 0;
     data_size \<leftarrow> logic_to_uint l_data_size 0;
     sz \<leftarrow> logic_to_uint l_data_size 0;
     let m = alloc_write_msg junk PCIE_NET_OP_WRITE_MEM addr sz;
     d \<leftarrow> logic_to_buf l_data (unat (data_size :: u16)) (unat sz) (m_data m);
     push_msg a (m\<lparr>m_data := d\<rparr>) c
   }"

text \<open>Storing the body of the access in the node at \<open>n\<close>.\<close>

definition put_access :: "nat \<Rightarrow> bar_access \<Rightarrow> glue \<Rightarrow> glue option" where
  "put_access n ba c = do {
     x \<leftarrow> g_heap c n;
     Some (c\<lparr>g_heap := (g_heap c)(n \<mapsto> x\<lparr>fn_u := Access ba\<rparr>)\<rparr>)
   }"

definition pcie_glue_send_reply :: "byte list \<Rightarrow> glue \<Rightarrow> glue option" where
  "pcie_glue_send_reply l_data c = do {
     data \<leftarrow> (logic_to_uint l_data 0 :: u64 option);
     case g_reply c of
       None \<Rightarrow> Some c
     | Some node \<Rightarrow> do {
         let c = c\<lparr>g_reply := None\<rparr>;
         x \<leftarrow> g_heap c node;
         (case fn_u x of
            Send_msg _ \<Rightarrow> None
          | Access ba \<Rightarrow> do {
              d \<leftarrow> mem_write (ba_data ba) 0 (le_bytes 8 data);
              put_access node (ba\<lparr>ba_data := d, ba_is_replied := True\<rparr>) c }) }
   }"

text \<open>
  What \<open>pcie_glue_poll_rx_fifo\<close> stores through its pointers: \<open>None\<close> is an output it leaves as it
  was.
\<close>

record poll_out =
  po_is_read :: "byte list option"
  po_bar :: "byte list option"
  po_addr :: "byte list option"
  po_data :: "byte list option"
  po_size :: "byte list option"

definition poll_empty :: "poll_out \<Rightarrow> poll_out" where
  "poll_empty o' = o'\<lparr>po_is_read := Some (uint_to_logic (0 :: byte)), po_bar := Some (uint_to_logic (0 :: byte)),
     po_data := Some (uint_to_logic (0 :: u64)), po_size := Some (uint_to_logic (0 :: u16))\<rparr>"

definition pcie_glue_poll_rx_fifo :: "glue \<Rightarrow> (poll_out \<times> glue) option" where
  "pcie_glue_poll_rx_fifo c = do {
     let out = \<lparr>po_is_read = None, po_bar = None, po_addr = None, po_data = None, po_size = None\<rparr>;
     (node, h, f) \<leftarrow> fifo_pop_node (g_heap c, g_rx c);
     let c = c\<lparr>g_heap := h, g_rx := f\<rparr>;
     case node of
       None \<Rightarrow> Some (poll_empty out, c)
     | Some n \<Rightarrow> do {
         x \<leftarrow> g_heap c n;
         (case fn_u x of
            Send_msg _ \<Rightarrow> None
          | Access ba \<Rightarrow>
            let out = out\<lparr>po_is_read := Some (uint_to_logic (ucast (ba_is_read ba) :: byte)),
                          po_bar := Some (uint_to_logic (ucast (ba_bar ba) :: byte)),
                          po_addr := Some (uint_to_logic (ba_addr ba)),
                          po_size := Some (uint_to_logic (ucast (ba_size ba) :: u16))\<rparr> in
            if ba_is_read ba = 0 then do {
              d \<leftarrow> mem_read (ba_data ba) 0 (unat (ba_size ba));
              xb \<leftarrow> mem_write (replicate 8 0) 0 d;
              let out = out\<lparr>po_data := Some (uint_to_logic (of_le xb :: u64))\<rparr>;
              h \<leftarrow> heap_free n (g_heap c);
              Some (out, c\<lparr>g_heap := h\<rparr>) }
            else if g_reply c \<noteq> None then do {
              h \<leftarrow> heap_free n (g_heap c);
              Some (poll_empty out, c\<lparr>g_heap := h\<rparr>) }
            else Some (out, c\<lparr>g_reply := Some n\<rparr>)) }
   }"

section \<open>The network thread\<close>

text \<open>
  The beginning of \<open>thread_entry\<close>, up to the moment the state is committed. \<open>env\<close> is the
  environment of the process and \<open>strtoul16\<close> the library's conversion from base 16; \<open>self\<close> is
  the address of the context, \<open>fds\<close> what \<open>pipe\<close> stored. The addresses and ports only go to the
  system calls, whose results \<open>e\<close> holds.
\<close>

definition env_num :: "(string \<Rightarrow> string option) \<Rightarrow> (string \<Rightarrow> u64) \<Rightarrow> string \<Rightarrow> u64" where
  "env_num env strtoul16 s = (case env s of None \<Rightarrow> 0 | Some v \<Rightarrow> strtoul16 v)"

definition bar_size_names :: "string list" where
  "bar_size_names = [''PCIE_BAR0_SIZE'', ''PCIE_BAR1_SIZE'', ''PCIE_BAR2_SIZE'', ''PCIE_BAR3_SIZE'',
     ''PCIE_BAR4_SIZE'', ''PCIE_BAR5_SIZE'']"

primrec set_bars :: "u32 list \<Rightarrow> nat \<Rightarrow> ptr \<Rightarrow> nat \<Rightarrow> glue \<Rightarrow> glue option" where
  "set_bars bsz i self 0 c = Some c"
| "set_bars bsz i self (Suc n) c = do {
     (_, c) \<leftarrow> pcie_set_bar c (of_nat i) (ucast (bsz ! i)) (Some (On_bar_read i)) (Some (On_bar_write i)) self;
     set_bars bsz (Suc i) self n c
   }"

definition thread_init ::
  "(string \<Rightarrow> string option) \<Rightarrow> (string \<Rightarrow> u64) \<Rightarrow> int \<times> int \<Rightarrow> tcp_env \<Rightarrow> ptr \<Rightarrow> glue \<Rightarrow> glue option" where
  "thread_init env strtoul16 fds e self c = do {
     let vendor_id = (ucast (env_num env strtoul16 ''PCIE_VENDOR_ID'') :: u32);
     let device_id = (ucast (env_num env strtoul16 ''PCIE_DEVICE_ID'') :: u32);
     let bsz = map (\<lambda>n. ucast (env_num env strtoul16 n)) bar_size_names;
     let c = c\<lparr>g_ev_fds := fds\<rparr>;
     let c = c\<lparr>g_tx := fifo_init, g_rx := fifo_init, g_reply := None\<rparr>;
     (_, _, c) \<leftarrow> pcie_init_net e c;
     let (_, c) = pcie_add_event c (fst fds) On_event self;
     (_, c) \<leftarrow> pcie_set_vendorid c (ucast vendor_id);
     (_, c) \<leftarrow> pcie_set_deviceid c (ucast device_id);
     c \<leftarrow> set_bars bsz 0 self PCIE_BAR_COUNT c;
     Some (c\<lparr>g_state := 1\<rparr>)
   }"

text \<open>The end of \<open>thread_entry\<close>, after the last return of the loop.\<close>

definition thread_fini :: "glue \<Rightarrow> (os_call list \<times> glue) option" where
  "thread_fini c = do {
     let (_, calls) = pcie_fini c;
     h \<leftarrow> fifo_fini (g_heap c, g_tx c);
     h \<leftarrow> fifo_fini (h, g_rx c);
     Some (calls @ [Os_close (fst (g_ev_fds c)), Os_close (snd (g_ev_fds c))], c\<lparr>g_heap := h\<rparr>)
   }"

text \<open>
  \<open>pcie_glue_create_thread\<close>: the result as a function of what \<open>pthread_create\<close> returns and of
  the first non-zero state the new thread commits.
\<close>

definition pcie_glue_create_thread :: "int \<Rightarrow> u32 \<Rightarrow> int \<times> bool" where
  "pcie_glue_create_thread create_ret committed =
     (if create_ret \<noteq> 0 then (-1, False)
      else if committed \<noteq> 1 then (-1, True)
      else (0, False))"

definition pcie_glue_join_thread :: "glue \<Rightarrow> glue" where
  "pcie_glue_join_thread c = (let c = c\<lparr>g_state := 0\<rparr> in c\<lparr>g_pipe := g_pipe c @ [evk_quit]\<rparr>)"

text \<open>The handler registered for the events of the pipe.\<close>

fun glue_call_ev :: "glue_fn \<Rightarrow> u32 \<Rightarrow> ptr \<Rightarrow> glue \<Rightarrow> (int \<times> glue) option" where
  "glue_call_ev On_event key opak c = on_event key c"
| "glue_call_ev _ key opak c = None"

text \<open>
  \<open>main\<close> of \<open>src/src/main/main_ghdl.c\<close>. \<open>ghdl_main\<close>, which the simulator generates, is the
  change to the shared context until it returns, by the simulation and the network thread.
\<close>

definition ghdl_program :: "int \<Rightarrow> u32 \<Rightarrow> (glue \<Rightarrow> glue) \<Rightarrow> glue \<Rightarrow> int \<times> glue" where
  "ghdl_program create_ret committed ghdl_main c =
     (let (r, _) = pcie_glue_create_thread create_ret committed in
      if r \<noteq> 0 then (-1, c)
      else let c = ghdl_main c; c = pcie_glue_join_thread c in (0, c))"

section \<open>Logic vectors: round trip and byte order\<close>

named_theorems glue_simps \<open>heap cells, queues and nodes\<close>

lemma length_uint_to_logic [simp]: "length (uint_to_logic (x :: 'a::len word)) = LENGTH('a)"
  by (simp add: uint_to_logic_def)

lemma level_is_one: "glue_levels ! unat (drop_bit i (x :: 'a::len word) AND 1) = glue_levels ! 1 \<longleftrightarrow> bit x i"
  by (cases "bit x i") (simp_all add: glue_levels_def and_one_eq bit_iff_odd_drop_bit odd_iff_mod_2_eq_one even_iff_mod_2_eq_zero)

lemma bit_logic_bits:
  "bit (logic_bits bs x :: 'a::len word) k \<longleftrightarrow>
     bit x k \<or> k < LENGTH('a) \<and> k < length bs \<and> rev bs ! k = glue_levels ! 1"
proof (induction bs arbitrary: x)
  case (Cons b bs)
  show ?case
    by (auto simp: Cons.IH bit_or_iff bit_exp_iff nth_append less_Suc_eq
      dest: bit_imp_le_length)
qed simp

lemma logic_bits_uint: "logic_bits (uint_to_logic x) 0 = (x :: 'a::len word)"
proof (rule bit_word_eqI)
  fix k assume k: "k < LENGTH('a)"
  have "rev (uint_to_logic x) ! k = glue_levels ! unat (drop_bit k x AND 1)"
    using k by (simp add: uint_to_logic_def rev_map)
  then show "bit (logic_bits (uint_to_logic x) 0 :: 'a word) k = bit x k"
    using k by (simp only: bit_logic_bits level_is_one) simp
qed

lemma logic_to_uint_at:
  "length p = off \<Longrightarrow> logic_to_uint (p @ uint_to_logic (x :: 'a::len word) @ q) off = Some x"
  by (simp add: logic_to_uint_def mem_read_def logic_bits_uint)

lemma logic_to_uint_defined:
  "(\<exists>x :: 'a::len word. logic_to_uint buf off = Some x) \<longleftrightarrow> off + LENGTH('a) \<le> length buf"
  by (auto simp: logic_to_uint_def mem_read_def bind_eq_Some_conv)

text \<open>The bytes as the simulator lays them out: the last one first.\<close>

definition logic_of_bytes :: "byte list \<Rightarrow> byte list" where
  "logic_of_bytes bs = concat (map uint_to_logic (rev bs))"

lemma length_logic_of_bytes [simp]: "length (logic_of_bytes bs) = 8 * length bs"
proof -
  have "length (concat (map uint_to_logic (xs :: byte list))) = 8 * length xs" for xs
    by (induction xs) simp_all
  then show ?thesis by (simp add: logic_of_bytes_def)
qed

lemma logic_byte_at:
  assumes "i < length bs"
  shows "logic_to_uint (logic_of_bytes bs @ q) ((length bs - 1 - i) * 8) = Some (bs ! i)"
proof -
  have "rev bs = rev (drop (Suc i) bs) @ [bs ! i] @ rev (take i bs)"
    using assms by (metis id_take_nth_drop rev_append rev.simps(2) append_assoc)
  then have s: "logic_of_bytes bs = logic_of_bytes (drop (Suc i) bs) @ uint_to_logic (bs ! i) @
      logic_of_bytes (take i bs)"
    by (simp add: logic_of_bytes_def)
  have l: "length (logic_of_bytes (drop (Suc i) bs)) = (length bs - 1 - i) * 8" by simp
  show ?thesis
    unfolding s append_assoc by (rule logic_to_uint_at [OF l])
qed

lemma logic_to_buf_from_bytes:
  "i + n \<le> length bs \<Longrightarrow>
     logic_to_buf_from (logic_of_bytes bs @ q) (length bs) i n = Some (take n (drop i bs))"
proof (induction n arbitrary: i)
  case (Suc n)
  then have i: "i < length bs" by simp
  have d: "drop i bs = bs ! i # drop (Suc i) bs" using i by (simp add: Cons_nth_drop_Suc)
  show ?case using Suc i logic_byte_at [OF i, of q] by (simp add: d)
qed simp

lemma logic_to_buf_from_defined:
  "i + n \<le> ds \<Longrightarrow> 8 * ds \<le> length data \<Longrightarrow>
     \<exists>bs. logic_to_buf_from data ds i n = Some bs \<and> length bs = n"
proof (induction n arbitrary: i)
  case (Suc n)
  have "(ds - 1 - i) * 8 + LENGTH(8) \<le> length data" using Suc.prems by simp
  then obtain b :: byte where b: "logic_to_uint data ((ds - 1 - i) * 8) = Some b"
    using logic_to_uint_defined [where 'a = 8] by blast
  obtain bs where "logic_to_buf_from data ds (Suc i) n = Some bs" "length bs = n"
    using Suc.IH [of "Suc i"] Suc.prems by auto
  then show ?case using b Suc.prems by simp
qed simp

section \<open>Queues: the list a queue represents\<close>

primrec lseg :: "heap \<Rightarrow> nat option \<Rightarrow> nat list \<Rightarrow> bool" where
  "lseg h p [] \<longleftrightarrow> p = None"
| "lseg h p (n # ns) \<longleftrightarrow> p = Some n \<and> (\<exists>x. h n = Some x \<and> lseg h (fn_next x) ns)"

definition fifo_rep :: "heap \<times> fifo \<Rightarrow> nat list \<Rightarrow> bool" where
  "fifo_rep = (\<lambda>(h, f) ns. lseg h (f_head f) ns \<and> distinct ns \<and>
     f_tail f = (if ns = [] then None else Some (last ns)))"

text \<open>A node that can be pushed: allocated and with no successor.\<close>

definition fifo_ready :: "nat \<Rightarrow> heap \<times> fifo \<Rightarrow> bool" where
  "fifo_ready n = (\<lambda>(h, f). \<exists>x. h n = Some x \<and> fn_next x = None)"

definition fifo_body :: "heap \<times> fifo \<Rightarrow> nat \<Rightarrow> node_body option" where
  "fifo_body = (\<lambda>(h, f) n. map_option fn_u (h n))"

definition fifo_cell :: "heap \<times> fifo \<Rightarrow> nat \<Rightarrow> fnode option" where
  "fifo_cell = (\<lambda>(h, f) n. h n)"

lemma lseg_frame: "(\<And>n. n \<in> set ns \<Longrightarrow> h' n = h n) \<Longrightarrow> lseg h' p ns \<longleftrightarrow> lseg h p ns"
  by (induction ns arbitrary: p) auto

lemma lseg_append:
  "lseg h p ns \<Longrightarrow> distinct ns \<Longrightarrow> n \<notin> set ns \<Longrightarrow> h n = Some x \<Longrightarrow> fn_next x = None \<Longrightarrow> ns \<noteq> [] \<Longrightarrow>
     lseg (h(last ns \<mapsto> (the (h (last ns)))\<lparr>fn_next := Some n\<rparr>)) p (ns @ [n])"
proof (induction ns arbitrary: p)
  case (Cons a ns)
  show ?case
  proof (cases "ns = []")
    case True
    then show ?thesis using Cons.prems by auto
  next
    case False
    then have "a \<noteq> last ns" using Cons.prems(2) by (metis distinct.simps(2) last_in_set)
    then show ?thesis using Cons False by auto
  qed
qed simp

lemma lseg_alloc: "lseg h p ns \<Longrightarrow> set ns \<subseteq> dom h"
  by (induction ns arbitrary: p) auto

text \<open>The interface of a queue of heap nodes.\<close>

locale node_queue =
  fixes q_rep :: "'s \<Rightarrow> 'n list \<Rightarrow> bool"
    and q_ready :: "'n \<Rightarrow> 's \<Rightarrow> bool"
    and q_cell :: "'s \<Rightarrow> 'n \<Rightarrow> 'x option"
    and q_body :: "'s \<Rightarrow> 'n \<Rightarrow> 'b option"
    and q_push :: "'n \<Rightarrow> 's \<Rightarrow> 's option"
    and q_pop :: "'s \<Rightarrow> ('n option \<times> 's) option"
  assumes push: "q_rep s ns \<Longrightarrow> q_ready n s \<Longrightarrow> n \<notin> set ns \<Longrightarrow>
      \<exists>s'. q_push n s = Some s' \<and> q_rep s' (ns @ [n]) \<and> q_body s' = q_body s \<and>
        (\<forall>m. m \<notin> set ns \<longrightarrow> q_cell s' m = q_cell s m)"
    and pop_empty: "q_rep s [] \<Longrightarrow> q_pop s = Some (None, s)"
    and pop: "q_rep s (n # ns) \<Longrightarrow> \<exists>s'. q_pop s = Some (Some n, s') \<and> q_rep s' ns \<and> q_cell s' = q_cell s \<and>
        q_body s' = q_body s"
begin

primrec push_all :: "'n list \<Rightarrow> 's \<Rightarrow> 's option" where
  "push_all [] s = Some s"
| "push_all (n # ns) s = Option.bind (q_push n s) (push_all ns)"

primrec pop_many :: "nat \<Rightarrow> 's \<Rightarrow> ('n option list \<times> 's) option" where
  "pop_many 0 s = Some ([], s)"
| "pop_many (Suc k) s = do {
     (r, s) \<leftarrow> q_pop s;
     (rs, s) \<leftarrow> pop_many k s;
     Some (r # rs, s)
   }"

text \<open>Popping as often as there are nodes returns them in the order of the queue, then nothing.\<close>

lemma pop_many_rep:
  "q_rep s ns \<Longrightarrow> \<exists>s'. pop_many (length ns + k) s = Some (map Some ns @ replicate k None, s') \<and> q_rep s' [] \<and>
     q_body s' = q_body s"
proof (induction ns arbitrary: s)
  case Nil
  then show ?case by (induction k) (auto simp: pop_empty)
next
  case (Cons n ns)
  obtain s1 where s1: "q_pop s = Some (Some n, s1)" "q_rep s1 ns" "q_body s1 = q_body s"
    using pop [OF Cons.prems] by auto
  then show ?case using Cons.IH [OF s1(2)] by auto
qed

end

lemma fifo_push_rep:
  assumes r: "fifo_rep s ns" and n: "fifo_ready n s" "n \<notin> set ns"
  shows "\<exists>s'. fifo_push_node n s = Some s' \<and> fifo_rep s' (ns @ [n]) \<and> fifo_body s' = fifo_body s \<and>
    (\<forall>m. m \<notin> set ns \<longrightarrow> fifo_cell s' m = fifo_cell s m)"
proof -
  obtain h f where s: "s = (h, f)" by force
  obtain x where x: "h n = Some x" "fn_next x = None" using n(1) by (auto simp: fifo_ready_def s)
  have l: "lseg h (f_head f) ns" "distinct ns" using r by (auto simp: fifo_rep_def s)
  show ?thesis
  proof (cases "ns = []")
    case True
    then show ?thesis
      using l x by (auto simp: fifo_push_node_def s fifo_rep_def fifo_body_def fifo_cell_def)
  next
    case False
    then obtain a as where as: "ns = a # as" by (cases ns) auto
    have t: "f_tail f = Some (last ns)" using r False by (simp add: fifo_rep_def s)
    obtain y where y: "h (last ns) = Some y"
      using lseg_alloc [OF l(1)] False by (meson domD last_in_set subsetD)
    have hd: "f_head f = Some a" using l(1) by (simp add: as)
    have "fifo_push_node n s = Some (h(last ns \<mapsto> y\<lparr>fn_next := Some n\<rparr>), f\<lparr>f_tail := Some n\<rparr>)"
      using hd t y by (simp add: fifo_push_node_def s)
    moreover have "lseg (h(last ns \<mapsto> y\<lparr>fn_next := Some n\<rparr>)) (f_head f) (ns @ [n])"
      using lseg_append [OF l n(2) x False] y by simp
    ultimately show ?thesis
      using l n(2) False y by (auto simp: fifo_rep_def fifo_body_def fifo_cell_def s fun_eq_iff)
  qed
qed

lemma fifo_pop_rep:
  assumes r: "fifo_rep s (n # ns)"
  shows "\<exists>s'. fifo_pop_node s = Some (Some n, s') \<and> fifo_rep s' ns \<and> fifo_cell s' = fifo_cell s \<and>
    fifo_body s' = fifo_body s"
proof -
  obtain h f where s: "s = (h, f)" by force
  obtain x where x: "f_head f = Some n" "h n = Some x" "lseg h (fn_next x) ns"
    using r by (auto simp: fifo_rep_def s)
  have "fn_next x = None \<longleftrightarrow> ns = []" using x(3) by (cases ns) auto
  then show ?thesis
    using r x by (auto simp: fifo_pop_node_def fifo_rep_def fifo_cell_def fifo_body_def s Let_def)
qed

interpretation fq: node_queue fifo_rep fifo_ready fifo_cell fifo_body fifo_push_node fifo_pop_node
proof
  show "fifo_rep s [] \<Longrightarrow> fifo_pop_node s = Some (None, s)" for s
    by (cases s) (simp add: fifo_rep_def fifo_pop_node_def)
qed (fact fifo_push_rep, fact fifo_pop_rep)

end
