(* ===== verification/Glue_System.thy ===== *)
theory Glue_System
  imports Pcie_Glue "HOL-Library.Sublist"
begin

text \<open>
  The two threads of the glue as one system. The network thread runs the handlers of
  \<open>src/src/pcie/pcie_glue.c\<close> (\<open>on_bar_read\<close>, \<open>on_bar_write\<close>, \<open>on_event\<close>), the simulation the
  routines \<open>pcie_glue_poll_rx_fifo\<close>, \<open>pcie_glue_send_reply\<close>, \<open>pcie_glue_send_msi\<close>,
  \<open>pcie_glue_send_write\<close> and \<open>pcie_glue_send_write_buf\<close>, in any interleaving. A routine is one
  step: what it does outside the lock of a queue concerns a node only its thread can reach. The
  read handler is two steps, with the wait for the reply in between.

  The invariant of the reachable states gives the protocol between the threads: no routine uses
  or frees a node it must not, requests reach the simulation in the order the host made them, and
  every read returns the bytes of the reply to it.
\<close>

section \<open>The system\<close>

text \<open>A request of the host, and what polling it must show to the simulation.\<close>

datatype bar_req = Rd u32 u64 nat | Wr u32 u64 "byte list"

fun is_rd :: "bar_req \<Rightarrow> bool" where
  "is_rd (Rd _ _ _) = True"
| "is_rd (Wr _ _ _) = False"

fun rd_size :: "bar_req \<Rightarrow> nat" where
  "rd_size (Rd _ _ sz) = sz"
| "rd_size (Wr _ _ d) = length d"

fun req_out :: "bar_req \<Rightarrow> poll_out" where
  "req_out (Rd bar addr sz) = \<lparr>po_is_read = Some (uint_to_logic (1 :: byte)),
     po_bar = Some (uint_to_logic (ucast bar :: byte)), po_addr = Some (uint_to_logic addr),
     po_data = None, po_size = Some (uint_to_logic (of_nat sz :: u16))\<rparr>"
| "req_out (Wr bar addr d) = \<lparr>po_is_read = Some (uint_to_logic (0 :: byte)),
     po_bar = Some (uint_to_logic (ucast bar :: byte)), po_addr = Some (uint_to_logic addr),
     po_data = Some (uint_to_logic (of_le d :: u64)),
     po_size = Some (uint_to_logic (of_nat (length d) :: u16))\<rparr>"

text \<open>Where the network thread is: in its loop, or waiting in \<open>on_bar_read\<close> for a node.\<close>

datatype io_state = Io_idle | Io_wait nat "byte list" nat

fun wait_node :: "io_state \<Rightarrow> nat option" where
  "wait_node Io_idle = None"
| "wait_node (Io_wait n _ _) = Some n"

text \<open>
  The context, the place of the network thread, and the history: the requests made, what polls
  of a non-empty queue have shown, the replies accepted, and the bytes the reads have returned.
\<close>

record glue_sys =
  gs_c :: glue
  gs_io :: io_state
  gs_issued :: "bar_req list"
  gs_polled :: "poll_out list"
  gs_replies :: "u64 list"
  gs_results :: "byte list list"

text \<open>
  The steps. \<open>malloc\<close> returns an address that is not allocated. The rule \<open>other\<close> is the rest of
  the network loop, which works on the device and not on the fields of the glue. A request of
  more than eight bytes overflows the node (\<open>access_node_safe_iff\<close>), so the rules have the limit.
\<close>

inductive glue_step :: "glue_sys \<Rightarrow> glue_sys \<Rightarrow> bool" where
  read_start: "\<lbrakk>gs_io s = Io_idle; g_heap (gs_c s) a = None; sz \<le> 8; length data = 8;
      on_bar_read_start a junk bar addr data sz (gs_c s) = Some c\<rbrakk> \<Longrightarrow>
    glue_step s (s\<lparr>gs_c := c, gs_io := Io_wait a data sz, gs_issued := gs_issued s @ [Rd bar addr sz]\<rparr>)"
| read_finish: "\<lbrakk>gs_io s = Io_wait a data sz; is_replied a (gs_c s);
      on_bar_read_finish a data sz (gs_c s) = Some (d, c)\<rbrakk> \<Longrightarrow>
    glue_step s (s\<lparr>gs_c := c, gs_io := Io_idle, gs_results := gs_results s @ [take sz d]\<rparr>)"
| bar_write: "\<lbrakk>gs_io s = Io_idle; g_heap (gs_c s) a = None; sz \<le> 8; sz \<le> length data;
      on_bar_write a junk bar addr data sz (gs_c s) = Some c\<rbrakk> \<Longrightarrow>
    glue_step s (s\<lparr>gs_c := c, gs_issued := gs_issued s @ [Wr bar addr (take sz data)]\<rparr>)"
| event: "\<lbrakk>gs_io s = Io_idle; on_event key (gs_c s) = Some (r, c)\<rbrakk> \<Longrightarrow> glue_step s (s\<lparr>gs_c := c\<rparr>)"
| other: "\<lbrakk>gs_io s = Io_idle; g_heap c = g_heap (gs_c s);
      g_rx c = g_rx (gs_c s); g_tx c = g_tx (gs_c s); g_reply c = g_reply (gs_c s)\<rbrakk> \<Longrightarrow>
    glue_step s (s\<lparr>gs_c := c\<rparr>)"
| poll: "pcie_glue_poll_rx_fifo (gs_c s) = Some (out, c) \<Longrightarrow>
    glue_step s (s\<lparr>gs_c := c,
      gs_polled := gs_polled s @ (if f_head (g_rx (gs_c s)) = None then [] else [out])\<rparr>)"
| reply: "\<lbrakk>logic_to_uint l_data 0 = Some x; pcie_glue_send_reply l_data (gs_c s) = Some c\<rbrakk> \<Longrightarrow>
    glue_step s (s\<lparr>gs_c := c,
      gs_replies := gs_replies s @ (if g_reply (gs_c s) = None then [] else [x])\<rparr>)"
| msi: "\<lbrakk>g_heap (gs_c s) a = None; pcie_glue_send_msi a j (gs_c s) = Some c\<rbrakk> \<Longrightarrow>
    glue_step s (s\<lparr>gs_c := c\<rparr>)"
| send_write: "\<lbrakk>g_heap (gs_c s) a = None; pcie_glue_send_write a j l_addr l_data l_ds l_sz (gs_c s) = Some c\<rbrakk> \<Longrightarrow>
    glue_step s (s\<lparr>gs_c := c\<rparr>)"
| send_write_buf: "\<lbrakk>g_heap (gs_c s) a = None; pcie_glue_send_write_buf a j l_addr base l_ds (gs_c s) = Some c\<rbrakk> \<Longrightarrow>
    glue_step s (s\<lparr>gs_c := c\<rparr>)"

definition glue_start :: "glue \<Rightarrow> glue_sys" where
  "glue_start c = \<lparr>gs_c = c, gs_io = Io_idle, gs_issued = [], gs_polled = [], gs_replies = [], gs_results = []\<rparr>"

text \<open>The states from the moment the network thread commits its start.\<close>

inductive glue_reach :: "glue_sys \<Rightarrow> bool" where
  start: "\<lbrakk>thread_init env strtoul16 fds e self c0 = Some c; g_heap c0 = Map.empty\<rbrakk> \<Longrightarrow>
    glue_reach (glue_start c)"
| step: "\<lbrakk>glue_reach s; glue_step s s'\<rbrakk> \<Longrightarrow> glue_reach s'"

section \<open>The invariant\<close>

text \<open>The node of a request in the queue of requests.\<close>

fun node_req :: "bar_req \<Rightarrow> node_body \<Rightarrow> bool" where
  "node_req (Rd bar addr sz) (Access ba) \<longleftrightarrow> ba_is_read ba = 1 \<and> ba_bar ba = bar \<and> ba_addr ba = addr \<and>
     unat (ba_size ba) = sz \<and> sz \<le> 8 \<and> length (ba_data ba) = 8 \<and> \<not> ba_is_replied ba"
| "node_req (Wr bar addr d) (Access ba) \<longleftrightarrow> ba_is_read ba = 0 \<and> ba_bar ba = bar \<and> ba_addr ba = addr \<and>
     unat (ba_size ba) = length d \<and> length d \<le> 8 \<and> length (ba_data ba) = 8 \<and> take (length d) (ba_data ba) = d"
| "node_req _ (Send_msg _) \<longleftrightarrow> False"

definition rx_node :: "heap \<Rightarrow> nat option \<Rightarrow> nat \<Rightarrow> bar_req \<Rightarrow> bool" where
  "rx_node h w n r \<longleftrightarrow> (\<exists>x. h n = Some x \<and> node_req r (fn_u x)) \<and> (is_rd r \<longleftrightarrow> w = Some n)"

definition tx_node :: "heap \<Rightarrow> nat \<Rightarrow> net_msg \<Rightarrow> bool" where
  "tx_node h n m \<longleftrightarrow> (\<exists>x. h n = Some x \<and> fn_u x = Send_msg m) \<and> unat (m_size m) = length (m_data m)"

text \<open>The queues: nodes \<open>rx\<close> for the requests \<open>pend\<close>, nodes \<open>tx\<close> for the messages \<open>ms\<close>.\<close>

definition queues_inv ::
  "glue \<Rightarrow> nat option \<Rightarrow> nat list \<Rightarrow> bar_req list \<Rightarrow> nat list \<Rightarrow> net_msg list \<Rightarrow> bool" where
  "queues_inv c w rx pend tx ms \<longleftrightarrow>
     fifo_rep (g_heap c, g_rx c) rx \<and> fifo_rep (g_heap c, g_tx c) tx \<and> set rx \<inter> set tx = {} \<and>
     list_all2 (rx_node (g_heap c) w) rx pend \<and> list_all2 (tx_node (g_heap c)) tx ms \<and>
     dom (g_heap c) = set rx \<union> set tx \<union> set_option w"

text \<open>The node of an outstanding read.\<close>

definition wait_access :: "heap \<Rightarrow> nat \<Rightarrow> nat \<Rightarrow> bar_access \<Rightarrow> bool" where
  "wait_access h n sz ba \<longleftrightarrow> (\<exists>x. h n = Some x \<and> fn_u x = Access ba) \<and> length (ba_data ba) = 8 \<and>
     unat (ba_size ba) = sz \<and> sz \<le> 8"

text \<open>The bytes a read of a size returns for a reply.\<close>

definition read_result :: "nat \<Rightarrow> u64 \<Rightarrow> byte list" where
  "read_result sz x = take sz (le_bytes 8 x)"

definition reads :: "glue_sys \<Rightarrow> nat list" where
  "reads s = map rd_size (filter is_rd (gs_issued s))"

fun reply_phase :: "glue_sys \<Rightarrow> io_state \<Rightarrow> nat list \<Rightarrow> nat list \<Rightarrow> bool" where
  "reply_phase s Io_idle rx tx \<longleftrightarrow> g_reply (gs_c s) = None \<and> length (reads s) = length (gs_replies s) \<and>
     gs_results s = map2 read_result (reads s) (gs_replies s)"
| "reply_phase s (Io_wait n data sz) rx tx \<longleftrightarrow> length data = 8 \<and> n \<notin> set tx \<and>
     (\<exists>rs ba. reads s = rs @ [sz] \<and> wait_access (g_heap (gs_c s)) n sz ba \<and>
       (length rs = length (gs_replies s) \<and> gs_results s = map2 read_result rs (gs_replies s) \<and>
          \<not> ba_is_replied ba \<and> g_reply (gs_c s) = (if n \<in> set rx then None else Some n)
        \<or> n \<notin> set rx \<and> g_reply (gs_c s) = None \<and> ba_is_replied ba \<and>
          (\<exists>xs x. gs_replies s = xs @ [x] \<and> length rs = length xs \<and> gs_results s = map2 read_result rs xs \<and>
             ba_data ba = le_bytes 8 x)))"

definition glue_inv_at ::
  "glue_sys \<Rightarrow> nat list \<Rightarrow> bar_req list \<Rightarrow> nat list \<Rightarrow> net_msg list \<Rightarrow> bool" where
  "glue_inv_at s rx pend tx ms \<longleftrightarrow>
     queues_inv (gs_c s) (wait_node (gs_io s)) rx pend tx ms \<and>
     map req_out (gs_issued s) = gs_polled s @ map req_out pend \<and>
     reply_phase s (gs_io s) rx tx"

definition glue_inv :: "glue_sys \<Rightarrow> bool" where
  "glue_inv s \<longleftrightarrow> (\<exists>rx pend tx ms. glue_inv_at s rx pend tx ms)"

section \<open>Operations on the queues\<close>

lemma rx_node_mono:
  assumes "list_all2 (rx_node h w) rx pend" and "\<And>n. n \<in> set rx \<Longrightarrow> map_option fn_u (h' n) = map_option fn_u (h n)"
    and "\<And>n. n \<in> set rx \<Longrightarrow> w = Some n \<longleftrightarrow> w' = Some n"
  shows "list_all2 (rx_node h' w') rx pend"
proof (rule list.rel_mono_strong [OF assms(1)])
  fix n r assume n: "n \<in> set rx" and r: "rx_node h w n r"
  then obtain x where x: "h n = Some x" "node_req r (fn_u x)" "is_rd r \<longleftrightarrow> w = Some n" by (auto simp: rx_node_def)
  then obtain x' where "h' n = Some x'" "fn_u x' = fn_u x" using assms(2) [OF n] by (cases "h' n") auto
  then show "rx_node h' w' n r" using x assms(3) [OF n] by (auto simp: rx_node_def)
qed

lemma tx_node_mono:
  assumes "list_all2 (tx_node h) tx ms" and "\<And>n. n \<in> set tx \<Longrightarrow> map_option fn_u (h' n) = map_option fn_u (h n)"
  shows "list_all2 (tx_node h') tx ms"
proof (rule list.rel_mono_strong [OF assms(1)])
  fix n m assume n: "n \<in> set tx" and r: "tx_node h n m"
  then obtain x where x: "h n = Some x" "fn_u x = Send_msg m" by (auto simp: tx_node_def)
  then obtain x' where "h' n = Some x'" "fn_u x' = fn_u x" using assms(2) [OF n] by (cases "h' n") auto
  then show "tx_node h' n m" using x r by (auto simp: tx_node_def)
qed

lemma fifo_rep_frame:
  "fifo_rep (h, f) ns \<Longrightarrow> (\<And>n. n \<in> set ns \<Longrightarrow> h' n = h n) \<Longrightarrow> fifo_rep (h', f) ns"
  using lseg_frame [of ns h' h] by (auto simp: fifo_rep_def)

text \<open>A node just allocated is pushed on a queue; the other one keeps its cells.\<close>

lemma alloc_push:
  assumes q: "fifo_rep (h, f) ns" and a: "h a = None"
  shows "\<exists>h' f'. fifo_push_node a (fifo_alloc_node a b h, f) = Some (h', f') \<and> fifo_rep (h', f') (ns @ [a]) \<and>
    (\<forall>n. n \<noteq> a \<longrightarrow> map_option fn_u (h' n) = map_option fn_u (h n)) \<and> (\<exists>x. h' a = Some x \<and> fn_u x = b) \<and>
    (\<forall>n. n \<notin> set ns \<longrightarrow> n \<noteq> a \<longrightarrow> h' n = h n) \<and> dom h' = insert a (dom h)"
proof -
  let ?h = "fifo_alloc_node a b h"
  have nin: "a \<notin> set ns" using lseg_alloc [of h "f_head f" ns] q a by (auto simp: fifo_rep_def)
  have r: "fifo_rep (?h, f) ns"
    by (rule fifo_rep_frame [OF q]) (use nin in \<open>auto simp: fifo_alloc_node_def\<close>)
  have rdy: "fifo_ready a (?h, f)" by (simp add: fifo_ready_def fifo_alloc_node_def)
  obtain h' f' where p: "fifo_push_node a (?h, f) = Some (h', f')" "fifo_rep (h', f') (ns @ [a])"
    and b: "fifo_body (h', f') = fifo_body (?h, f)"
    and k: "\<forall>m. m \<notin> set ns \<longrightarrow> fifo_cell (h', f') m = fifo_cell (?h, f) m"
    using fq.push [OF r rdy nin] by auto
  have b': "map_option fn_u (h' n) = map_option fn_u (?h n)" for n
    using b by (auto simp: fifo_body_def fun_eq_iff)
  have "h' n = None \<longleftrightarrow> ?h n = None" for n using b' [of n] by (cases "h' n"; cases "?h n") simp_all
  then have "dom h' = dom ?h" by (auto simp: dom_def)
  then have d: "dom h' = insert a (dom h)" by (auto simp: fifo_alloc_node_def)
  have "\<forall>n. n \<noteq> a \<longrightarrow> map_option fn_u (h' n) = map_option fn_u (h n)"
    using b' by (simp add: fifo_alloc_node_def)
  moreover have "\<exists>x. h' a = Some x \<and> fn_u x = b" using b' [of a] by (auto simp: fifo_alloc_node_def)
  moreover have "\<forall>n. n \<notin> set ns \<longrightarrow> n \<noteq> a \<longrightarrow> h' n = h n"
    using k by (auto simp: fifo_cell_def fifo_alloc_node_def)
  ultimately show ?thesis using p d by blast
qed

lemma queues_nodes:
  assumes "queues_inv c w rx pend tx ms" and "g_heap c a = None"
  shows "a \<notin> set rx" "a \<notin> set tx" "w \<noteq> Some a"
proof -
  have "a \<notin> set rx \<union> set tx \<union> set_option w"
    using assms(1) domIff [of a "g_heap c"] assms(2) by (simp add: queues_inv_def)
  then show "a \<notin> set rx" "a \<notin> set tx" "w \<noteq> Some a" by auto
qed

lemma push_rx_inv:
  assumes i: "queues_inv c None rx pend tx ms" and a: "g_heap c a = None" and r: "node_req r b"
  obtains c' where "push_rx a (c\<lparr>g_heap := fifo_alloc_node a b (g_heap c)\<rparr>) = Some c'"
    and "queues_inv c' (if is_rd r then Some a else None) (rx @ [a]) (pend @ [r]) tx ms"
    and "g_reply c' = g_reply c"
proof -
  let ?w = "if is_rd r then Some a else None"
  have q: "fifo_rep (g_heap c, g_rx c) rx" "fifo_rep (g_heap c, g_tx c) tx" "set rx \<inter> set tx = {}"
    using i by (auto simp: queues_inv_def)
  note nin = queues_nodes [OF i a]
  obtain h' f' where p: "fifo_push_node a (fifo_alloc_node a b (g_heap c), g_rx c) = Some (h', f')"
    "fifo_rep (h', f') (rx @ [a])"
    and body: "\<forall>n. n \<noteq> a \<longrightarrow> map_option fn_u (h' n) = map_option fn_u (g_heap c n)"
    and new: "\<exists>x. h' a = Some x \<and> fn_u x = b"
    and frame: "\<forall>n. n \<notin> set rx \<longrightarrow> n \<noteq> a \<longrightarrow> h' n = g_heap c n"
    and d: "dom h' = insert a (dom (g_heap c))"
    using alloc_push [OF q(1) a, of b] by blast
  let ?c = "c\<lparr>g_heap := h', g_rx := f'\<rparr>"
  have tx: "fifo_rep (h', g_tx c) tx"
    by (rule fifo_rep_frame [OF q(2)]) (use frame nin q(3) in auto)
  have l: "list_all2 (rx_node h' ?w) rx pend"
    by (rule rx_node_mono [where h = "g_heap c" and w = None])
      (use i body nin in \<open>auto simp: queues_inv_def split: if_splits\<close>)
  have la: "rx_node h' ?w a r" using new r by (auto simp: rx_node_def)
  have lt: "list_all2 (tx_node h') tx ms"
    by (rule tx_node_mono [where h = "g_heap c"]) (use i body nin in \<open>auto simp: queues_inv_def\<close>)
  have "queues_inv ?c ?w (rx @ [a]) (pend @ [r]) tx ms"
    using p(2) tx q(3) nin l la lt d i by (auto simp: queues_inv_def list_all2_appendI)
  then show ?thesis using that [of ?c] p(1) by (simp add: push_rx_def)
qed

lemma push_msg_inv:
  assumes i: "queues_inv c w rx pend tx ms" and a: "g_heap c a = None"
    and m: "unat (m_size m) = length (m_data m)"
  obtains c' where "push_msg a m c = Some c'"
    and "queues_inv c' w rx pend (tx @ [a]) (ms @ [m])"
    and "g_reply c' = g_reply c"
    and "\<forall>n. n \<notin> set tx \<longrightarrow> n \<noteq> a \<longrightarrow> g_heap c' n = g_heap c n"
    and "g_pipe c' = g_pipe c @ [evk_push]"
proof -
  have q: "fifo_rep (g_heap c, g_rx c) rx" "fifo_rep (g_heap c, g_tx c) tx" "set rx \<inter> set tx = {}"
    using i by (auto simp: queues_inv_def)
  note nin = queues_nodes [OF i a]
  obtain h' f' where p: "fifo_push_node a (fifo_alloc_node a (Send_msg m) (g_heap c), g_tx c) = Some (h', f')"
    "fifo_rep (h', f') (tx @ [a])"
    and body: "\<forall>n. n \<noteq> a \<longrightarrow> map_option fn_u (h' n) = map_option fn_u (g_heap c n)"
    and new: "\<exists>x. h' a = Some x \<and> fn_u x = Send_msg m"
    and frame: "\<forall>n. n \<notin> set tx \<longrightarrow> n \<noteq> a \<longrightarrow> h' n = g_heap c n"
    and d: "dom h' = insert a (dom (g_heap c))"
    using alloc_push [OF q(2) a, of "Send_msg m"] by blast
  let ?c = "c\<lparr>g_heap := h', g_tx := f', g_pipe := g_pipe c @ [evk_push]\<rparr>"
  have rx: "fifo_rep (h', g_rx c) rx"
    by (rule fifo_rep_frame [OF q(1)]) (use frame nin q(3) in auto)
  have l: "list_all2 (rx_node h' w) rx pend"
    by (rule rx_node_mono [where h = "g_heap c" and w = w])
      (use i body nin in \<open>auto simp: queues_inv_def\<close>)
  have lt: "list_all2 (tx_node h') tx ms"
    by (rule tx_node_mono [where h = "g_heap c"]) (use i body nin in \<open>auto simp: queues_inv_def\<close>)
  have "tx_node h' a m" using new m by (auto simp: tx_node_def)
  then have "queues_inv ?c w rx pend (tx @ [a]) (ms @ [m])"
    using p(2) rx q(3) nin l lt d i by (auto simp: queues_inv_def list_all2_appendI)
  then show ?thesis using that [of ?c] p(1) frame by (simp add: push_msg_def push_tx_def)
qed

lemma access_node_safe_iff:
  "(\<exists>h'. fifo_alloc_access_node a junk is_read bar addr sz data h = Some h') \<longleftrightarrow> sz \<le> 8 \<and> sz \<le> length data"
  by (auto simp: fifo_alloc_access_node_def mem_read_def mem_write_def)

lemma access_node_body:
  assumes "sz \<le> 8" and "sz \<le> length data"
  obtains ba where "fifo_alloc_access_node a junk is_read bar addr sz data h = Some (fifo_alloc_node a (Access ba) h)"
    and "ba_is_read ba = is_read" "ba_bar ba = bar" "ba_addr ba = addr" "unat (ba_size ba) = sz"
    and "length (ba_data ba) = 8" "take sz (ba_data ba) = take sz data" "\<not> ba_is_replied ba"
proof -
  have w: "mem_write (take 8 (junk @ replicate 8 0)) 0 (take sz data) =
      Some (take sz data @ drop sz (take 8 (junk @ replicate 8 0)))"
    using assms by (simp add: mem_write_def)
  let ?ba = "\<lparr>ba_is_replied = False, ba_is_read = is_read, ba_bar = bar, ba_addr = addr, ba_size = of_nat sz,
    ba_data = take sz data @ drop sz (take 8 (junk @ replicate 8 0))\<rparr>"
  have "unat (of_nat sz :: u32) = sz" using assms by (subst unat_of_nat) simp
  moreover have "fifo_alloc_access_node a junk is_read bar addr sz data h = Some (fifo_alloc_node a (Access ?ba) h)"
    using assms w by (simp add: fifo_alloc_access_node_def mem_read_def)
  ultimately show ?thesis using assms by (intro that [of ?ba]) simp_all
qed

text \<open>Polling a queue whose first request is a write, and one whose first request is a read.\<close>

lemma queues_rep:
  assumes "queues_inv c w rx pend tx ms"
  shows "fifo_rep (g_heap c, g_rx c) rx" "fifo_rep (g_heap c, g_tx c) tx" "set rx \<inter> set tx = {}"
    "list_all2 (rx_node (g_heap c) w) rx pend" "list_all2 (tx_node (g_heap c)) tx ms"
    "dom (g_heap c) = set rx \<union> set tx \<union> set_option w"
  using assms by (simp_all add: queues_inv_def)

lemma pop_rx:
  assumes "fifo_rep (h, f) (n # ns)"
  obtains f' where "fifo_pop_node (h, f) = Some (Some n, h, f')" and "fifo_rep (h, f') ns"
proof -
  obtain s' where s: "fifo_pop_node (h, f) = Some (Some n, s')" "fifo_rep s' ns" "fifo_cell s' = fifo_cell (h, f)"
    using fq.pop [OF assms] by blast
  moreover have "fst s' = h" using s(3) by (cases s') (simp add: fifo_cell_def fun_eq_iff)
  ultimately show ?thesis using that [of "snd s'"] by (cases s') auto
qed

lemma poll_write:
  assumes i: "queues_inv c w (n # rx) (Wr bar addr d # pend) tx ms"
  obtains c' where "pcie_glue_poll_rx_fifo c = Some (req_out (Wr bar addr d), c')"
    and "queues_inv c' w rx pend tx ms" and "g_reply c' = g_reply c"
    and "\<forall>m. m \<noteq> n \<longrightarrow> g_heap c' m = g_heap c m"
proof -
  note q = queues_rep [OF i]
  obtain f' where f': "fifo_pop_node (g_heap c, g_rx c) = Some (Some n, g_heap c, f')" "fifo_rep (g_heap c, f') rx"
    by (rule pop_rx [OF q(1)])
  obtain x where x: "g_heap c n = Some x" "node_req (Wr bar addr d) (fn_u x)" "w \<noteq> Some n"
    using q(4) by (auto simp: rx_node_def)
  then obtain ba where ba: "fn_u x = Access ba" "ba_is_read ba = 0" "ba_bar ba = bar" "ba_addr ba = addr"
    "unat (ba_size ba) = length d" "length d \<le> 8" "length (ba_data ba) = 8" "take (length d) (ba_data ba) = d"
    by (cases "fn_u x") auto
  have sz: "ucast (ba_size ba) = (of_nat (length d) :: u16)"
    using ba(5) by (metis of_nat_unat)
  have rd: "mem_read (ba_data ba) 0 (length d) = Some d"
    using ba by (simp add: mem_read_def)
  have wr: "mem_write (replicate 8 0) 0 d = Some (d @ replicate (8 - length d) 0)"
    using ba(6) by (simp add: mem_write_def)
  let ?h = "(g_heap c)(n := None)"
  let ?c = "c\<lparr>g_heap := ?h, g_rx := f'\<rparr>"
  have p: "pcie_glue_poll_rx_fifo c = Some (req_out (Wr bar addr d), ?c)"
    using f'(1) x ba rd wr sz
    by (simp add: pcie_glue_poll_rx_fifo_def heap_free_def of_le_append_zeros)
  have nin: "n \<notin> set rx" "n \<notin> set tx" using q(1,3) by (auto simp: fifo_rep_def)
  have "list_all2 (rx_node ?h w) rx pend"
    by (rule rx_node_mono [where h = "g_heap c" and w = w]) (use q(4) nin in auto)
  moreover have "list_all2 (tx_node ?h) tx ms"
    by (rule tx_node_mono [where h = "g_heap c"]) (use q(5) nin in auto)
  moreover have "fifo_rep (?h, f') rx" by (rule fifo_rep_frame [OF f'(2)]) (use nin in auto)
  moreover have "fifo_rep (?h, g_tx c) tx" by (rule fifo_rep_frame [OF q(2)]) (use nin in auto)
  moreover have "dom ?h = set rx \<union> set tx \<union> set_option w" using q(6) nin x(3) by (auto simp: dom_def)
  ultimately have "queues_inv ?c w rx pend tx ms" using q(3) by (simp add: queues_inv_def)
  then show ?thesis using that [of ?c] p by simp
qed

lemma poll_read:
  assumes i: "queues_inv c w (n # rx) (Rd bar addr sz # pend) tx ms" and r: "g_reply c = None"
  obtains c' ba where "pcie_glue_poll_rx_fifo c = Some (req_out (Rd bar addr sz), c')"
    and "queues_inv c' w rx pend tx ms" and "g_reply c' = Some n" and "w = Some n"
    and "n \<notin> set rx" "wait_access (g_heap c') n sz ba" "\<not> ba_is_replied ba" "g_heap c' = g_heap c"
proof -
  note q = queues_rep [OF i]
  obtain f' where f': "fifo_pop_node (g_heap c, g_rx c) = Some (Some n, g_heap c, f')" "fifo_rep (g_heap c, f') rx"
    by (rule pop_rx [OF q(1)])
  obtain x where x: "g_heap c n = Some x" "node_req (Rd bar addr sz) (fn_u x)" "w = Some n"
    using q(4) by (auto simp: rx_node_def)
  then obtain ba where ba: "fn_u x = Access ba" "ba_is_read ba = 1" "ba_bar ba = bar" "ba_addr ba = addr"
    "unat (ba_size ba) = sz" "sz \<le> 8" "length (ba_data ba) = 8" "\<not> ba_is_replied ba"
    by (cases "fn_u x") auto
  have sz: "ucast (ba_size ba) = (of_nat sz :: u16)"
    using ba(5) by (metis of_nat_unat)
  let ?c = "c\<lparr>g_rx := f', g_reply := Some n\<rparr>"
  have p: "pcie_glue_poll_rx_fifo c = Some (req_out (Rd bar addr sz), ?c)"
    using f'(1) x ba sz r by (simp add: pcie_glue_poll_rx_fifo_def)
  have nin: "n \<notin> set rx" using q(1) by (auto simp: fifo_rep_def)
  have "list_all2 (rx_node (g_heap c) w) rx pend" using q(4) by simp
  moreover have "dom (g_heap c) = set rx \<union> set tx \<union> set_option w" using q(6) x(3) by auto
  ultimately have "queues_inv ?c w rx pend tx ms" using q(2,3,5) f'(2) by (simp add: queues_inv_def)
  moreover have "wait_access (g_heap ?c) n sz ba" using ba x by (auto simp: wait_access_def)
  ultimately show ?thesis using that [of ?c ba] p x(3) nin ba(8) by simp
qed

lemma poll_none:
  assumes "queues_inv c w [] pend tx ms"
  shows "\<exists>out. pcie_glue_poll_rx_fifo c = Some (out, c)" and "f_head (g_rx c) = None" and "pend = []"
proof -
  note q = queues_rep [OF assms]
  have "fifo_pop_node (g_heap c, g_rx c) = Some (None, g_heap c, g_rx c)" by (rule fq.pop_empty [OF q(1)])
  then show "\<exists>out. pcie_glue_poll_rx_fifo c = Some (out, c)" by (simp add: pcie_glue_poll_rx_fifo_def)
  show "f_head (g_rx c) = None" "pend = []" using q(1,4) by (simp_all add: fifo_rep_def)
qed

text \<open>Freeing a queue, and sending its messages.\<close>

lemma lseg_free: "lseg h p ns \<Longrightarrow> n \<notin> set ns \<Longrightarrow> lseg (h(n := None)) p ns"
  by (subst lseg_frame [where h = h]) auto

lemma free_nodes_all:
  "lseg h p ns \<Longrightarrow> distinct ns \<Longrightarrow> free_nodes h p = Some (h |` (- set ns))"
proof (induction ns arbitrary: h p)
  case Nil
  then show ?case by (simp add: free_nodes.simps)
next
  case (Cons n ns)
  obtain x where x: "p = Some n" "h n = Some x" "lseg h (fn_next x) ns" using Cons.prems by auto
  have "lseg (h(n := None)) (fn_next x) ns"
    using lseg_free [OF x(3), of n] Cons.prems(2) by simp
  then have "free_nodes (h(n := None)) (fn_next x) = Some (h(n := None) |` (- set ns))"
    by (rule Cons.IH) (use Cons.prems(2) in simp)
  moreover have "h(n := None) |` (- set ns) = h |` (- set (n # ns))"
    by (auto simp: restrict_map_def fun_eq_iff)
  ultimately have "free_nodes (h(n := None)) (fn_next x) = Some (h |` (- set (n # ns)))" by simp
  then show ?case unfolding x(1) by (subst free_nodes.simps) (simp add: x(2) heap_free_def)
qed

lemma fifo_fini_all: "fifo_rep (h, f) ns \<Longrightarrow> fifo_fini (h, f) = Some (h |` (- set ns))"
  by (simp add: fifo_fini_def fifo_rep_def free_nodes_all)

lemma send_msg_ok:
  assumes "unat (m_size m) \<le> length (m_data m)"
  obtains r m' k where "pcie_net_send_msg net m = Some (r, m', net\<lparr>sock := k\<rparr>)"
    and "sk_snd (sock net) = [] \<longrightarrow> k = (sock net)\<lparr>sk_tx := sk_tx (sock net) @ msg_frame m\<rparr>"
proof -
  let ?n = "msg_data_off + unat (m_size m)"
  obtain r k where k: "sys_send (msg_frame m) (sock net) = (r, k)" by force
  have "mem_read (encode_msg (m\<lparr>m_hsize := of_nat ?n\<rparr>)) 0 ?n = Some (msg_frame m)"
    using assms by (simp add: mem_read_def msg_frame_def)
  then have "pcie_net_send_msg net m =
      Some (if r \<noteq> int (length (msg_frame m)) then -1 else 0, m\<lparr>m_hsize := of_nat ?n\<rparr>, net\<lparr>sock := k\<rparr>)"
    using k by (simp add: pcie_net_send_msg_def pcie_net_send_buf_def Let_def del: of_nat_add)
  then show ?thesis by (rule that) (use k in \<open>auto simp: sys_send_def\<close>)
qed

lemma send_nodes_all:
  "lseg (g_heap c) p ns \<Longrightarrow> distinct ns \<Longrightarrow> list_all2 (tx_node (g_heap c)) ns ms \<Longrightarrow>
     \<exists>k. send_nodes p c = Some (c\<lparr>sock := k, g_heap := g_heap c |` (- set ns)\<rparr>) \<and>
       (sk_snd (sock c) = [] \<longrightarrow> k = (sock c)\<lparr>sk_tx := sk_tx (sock c) @ concat (map msg_frame ms)\<rparr>)"
proof (induction ns arbitrary: c p ms)
  case Nil
  then show ?case by (intro exI [of _ "sock c"]) (simp add: send_nodes.simps)
next
  case (Cons n ns)
  obtain m ms' where ms: "ms = m # ms'" using Cons.prems(3) by (cases ms) auto
  obtain x where x: "p = Some n" "g_heap c n = Some x" "lseg (g_heap c) (fn_next x) ns"
    "fn_u x = Send_msg m" "unat (m_size m) = length (m_data m)"
    using Cons.prems by (auto simp: ms tx_node_def)
  obtain r m' k where s: "pcie_net_send_msg c m = Some (r, m', c\<lparr>sock := k\<rparr>)"
    "sk_snd (sock c) = [] \<longrightarrow> k = (sock c)\<lparr>sk_tx := sk_tx (sock c) @ msg_frame m\<rparr>"
    using x(5) by (elim eq_imp_le [THEN send_msg_ok])
  let ?c = "c\<lparr>sock := k, g_heap := (g_heap c)(n := None)\<rparr>"
  have nin: "n \<notin> set ns" "distinct ns" using Cons.prems(2) by auto
  have "lseg (g_heap ?c) (fn_next x) ns"
    using lseg_free [OF x(3) nin(1)] by simp
  moreover have "list_all2 (tx_node (g_heap ?c)) ns ms'"
    by (rule tx_node_mono [where h = "g_heap c"]) (use Cons.prems(3) nin in \<open>auto simp: ms\<close>)
  ultimately obtain k' where k': "send_nodes (fn_next x) ?c =
      Some (?c\<lparr>sock := k', g_heap := g_heap ?c |` (- set ns)\<rparr>)"
    "sk_snd (sock ?c) = [] \<longrightarrow> k' = (sock ?c)\<lparr>sk_tx := sk_tx (sock ?c) @ concat (map msg_frame ms')\<rparr>"
    using Cons.IH [of ?c] nin(2) by blast
  have "g_heap ?c |` (- set ns) = g_heap c |` (- set (n # ns))"
    by (auto simp: restrict_map_def fun_eq_iff)
  then have "send_nodes p c = Some (c\<lparr>sock := k', g_heap := g_heap c |` (- set (n # ns))\<rparr>)"
    unfolding x(1) using x s(1) k'(1) by (subst send_nodes.simps) (simp add: heap_free_def)
  then show ?case using s(2) k'(2) by (intro exI [of _ k']) (simp add: ms)
qed

lemma on_event_queues:
  assumes i: "queues_inv c w rx pend tx ms" and w: "\<forall>n. w = Some n \<longrightarrow> n \<notin> set tx" and key: "key \<noteq> evk_quit"
  shows "\<exists>c'. on_event key c = Some (0, c') \<and> queues_inv c' w rx pend [] [] \<and> g_reply c' = g_reply c \<and>
    (sk_snd (sock c) = [] \<longrightarrow>
       sock c' = (sock c)\<lparr>sk_tx := sk_tx (sock c) @ concat (map msg_frame ms)\<rparr>)"
proof -
  note q = queues_rep [OF i]
  let ?c = "c\<lparr>g_tx := (g_tx c)\<lparr>f_head := None, f_tail := None\<rparr>\<rparr>"
  have "lseg (g_heap ?c) (f_head (g_tx c)) tx" "distinct tx" "list_all2 (tx_node (g_heap ?c)) tx ms"
    using q(2,5) by (simp_all add: fifo_rep_def)
  then obtain k where k: "send_nodes (f_head (g_tx c)) ?c = Some (?c\<lparr>sock := k, g_heap := g_heap ?c |` (- set tx)\<rparr>)"
    "sk_snd (sock ?c) = [] \<longrightarrow> k = (sock ?c)\<lparr>sk_tx := sk_tx (sock ?c) @ concat (map msg_frame ms)\<rparr>"
    using send_nodes_all by blast
  let ?h = "g_heap c |` (- set tx)"
  have same: "?h n = g_heap c n" if "n \<in> set rx" for n
    using that q(3) by (auto simp: restrict_map_def)
  have "list_all2 (rx_node ?h w) rx pend"
    by (rule rx_node_mono [OF q(4)]) (simp_all add: same)
  moreover have "fifo_rep (?h, g_rx c) rx"
    by (rule fifo_rep_frame [OF q(1)]) (simp add: same)
  moreover have "dom ?h = set rx \<union> set_option w" using q(3,6) w by auto
  ultimately have "queues_inv (?c\<lparr>sock := k, g_heap := ?h\<rparr>) w rx pend [] []"
    by (simp add: queues_inv_def fifo_rep_def)
  then show ?thesis using k key by (simp add: on_event_def)
qed

text \<open>The reply to the read that is waiting, and the end of the read.\<close>

lemma reply_ok:
  assumes i: "queues_inv c (Some n) rx pend tx ms" and n: "g_reply c = Some n" "n \<notin> set rx" "n \<notin> set tx"
    and a: "wait_access (g_heap c) n sz ba" and l: "logic_to_uint l_data 0 = Some (x :: u64)"
  shows "\<exists>c'. pcie_glue_send_reply l_data c = Some c' \<and> queues_inv c' (Some n) rx pend tx ms \<and>
    g_reply c' = None \<and> wait_access (g_heap c') n sz (ba\<lparr>ba_data := le_bytes 8 x, ba_is_replied := True\<rparr>)"
proof -
  note q = queues_rep [OF i]
  obtain y where y: "g_heap c n = Some y" "fn_u y = Access ba" "length (ba_data ba) = 8" "unat (ba_size ba) = sz" "sz \<le> 8"
    using a by (auto simp: wait_access_def)
  let ?ba = "ba\<lparr>ba_data := le_bytes 8 x, ba_is_replied := True\<rparr>"
  let ?h = "(g_heap c)(n \<mapsto> y\<lparr>fn_u := Access ?ba\<rparr>)"
  let ?c = "c\<lparr>g_reply := None, g_heap := ?h\<rparr>"
  have p: "pcie_glue_send_reply l_data c = Some ?c"
    using n(1) y l by (simp add: pcie_glue_send_reply_def put_access_def mem_write_def)
  have "list_all2 (rx_node ?h (Some n)) rx pend"
    by (rule rx_node_mono [where h = "g_heap c" and w = "Some n"]) (use q(4) n in auto)
  moreover have "list_all2 (tx_node ?h) tx ms"
    by (rule tx_node_mono [where h = "g_heap c"]) (use q(5) n in auto)
  moreover have "fifo_rep (?h, g_rx c) rx" by (rule fifo_rep_frame [OF q(1)]) (use n in auto)
  moreover have "fifo_rep (?h, g_tx c) tx" by (rule fifo_rep_frame [OF q(2)]) (use n in auto)
  ultimately have "queues_inv ?c (Some n) rx pend tx ms" using q(3,6) by (auto simp: queues_inv_def)
  then show ?thesis using p y by (simp add: wait_access_def)
qed

lemma finish_ok:
  assumes i: "queues_inv c (Some n) rx pend tx ms" and n: "n \<notin> set rx" "n \<notin> set tx"
    and a: "wait_access (g_heap c) n sz ba" and d: "length data = 8"
  shows "\<exists>d' c'. on_bar_read_finish n data sz c = Some (d', c') \<and> take sz d' = take sz (ba_data ba) \<and>
    queues_inv c' None rx pend tx ms \<and> g_reply c' = g_reply c"
proof -
  note q = queues_rep [OF i]
  obtain y where y: "g_heap c n = Some y" "fn_u y = Access ba" "length (ba_data ba) = 8" "unat (ba_size ba) = sz" "sz \<le> 8"
    using a by (auto simp: wait_access_def)
  let ?h = "(g_heap c)(n := None)"
  have p: "on_bar_read_finish n data sz c = Some (take sz (ba_data ba) @ drop sz data, c\<lparr>g_heap := ?h\<rparr>)"
    using y d by (simp add: on_bar_read_finish_def mem_read_def mem_write_def heap_free_def)
  have "list_all2 (rx_node ?h None) rx pend"
    by (rule rx_node_mono [where h = "g_heap c" and w = "Some n"]) (use q(4) n in auto)
  moreover have "list_all2 (tx_node ?h) tx ms"
    by (rule tx_node_mono [where h = "g_heap c"]) (use q(5) n in auto)
  moreover have "fifo_rep (?h, g_rx c) rx" by (rule fifo_rep_frame [OF q(1)]) (use n in auto)
  moreover have "fifo_rep (?h, g_tx c) tx" by (rule fifo_rep_frame [OF q(2)]) (use n in auto)
  moreover have "dom ?h = set rx \<union> set tx \<union> set_option None" using q(6) n by auto
  ultimately have "queues_inv (c\<lparr>g_heap := ?h\<rparr>) None rx pend tx ms" using q(3) by (simp add: queues_inv_def)
  then show ?thesis using p y by simp
qed

section \<open>The start of the thread\<close>

lemma set_bars_ok:
  "i + n \<le> PCIE_BAR_COUNT \<Longrightarrow> \<exists>bs br bw bd. set_bars bsz i self n c =
     Some (c\<lparr>bar_size := bs, bar_readfn := br, bar_writefn := bw, bar_data := bd\<rparr>)"
proof (induction n arbitrary: i c)
  case 0
  have "c = c\<lparr>bar_size := bar_size c, bar_readfn := bar_readfn c, bar_writefn := bar_writefn c,
    bar_data := bar_data c\<rparr>" by simp
  then show ?case by (metis set_bars.simps(1))
next
  case (Suc n)
  then have i: "i < PCIE_BAR_COUNT" by simp
  then have u: "unat (of_nat i :: u64) = i" by (simp add: PCIE_BAR_COUNT_def unat_of_nat_u64)
  let ?c = "c\<lparr>bar_size := (bar_size c)[i := ucast (bsz ! i)], bar_readfn := (bar_readfn c)[i := Some (On_bar_read i)],
    bar_writefn := (bar_writefn c)[i := Some (On_bar_write i)], bar_data := (bar_data c)[i := self]\<rparr>"
  have "set_bars bsz i self (Suc n) c = set_bars bsz (Suc i) self n ?c"
    using i u by (simp add: pcie_set_bar_def)
  then show ?case using Suc.IH [of "Suc i" ?c] Suc.prems by auto
qed

lemma set_ids_ok:
  assumes "length (config c) = 4096"
  shows "\<exists>f. pcie_set_vendorid c x = Some (0, c\<lparr>config := f\<rparr>) \<and> length f = 4096"
    and "\<exists>f. pcie_set_deviceid c x = Some (0, c\<lparr>config := f\<rparr>) \<and> length f = 4096"
  using assms
  by (simp_all add: pcie_set_vendorid_def pcie_set_deviceid_def pcie_write_config_safe_def mem_write_def const_defs)
    (rule exI, rule conjI, rule refl, simp)+

lemma thread_init_ok:
  "\<exists>c. thread_init env strtoul16 fds e self c0 = Some c \<and> g_heap c = g_heap c0 \<and> g_rx c = fifo_init \<and>
     g_tx c = fifo_init \<and> g_reply c = None \<and> g_state c = 1 \<and> ev_fn c = Some On_event"
proof -
  let ?c0 = "c0\<lparr>g_ev_fds := fds, g_tx := fifo_init, g_rx := fifo_init, g_reply := None\<rparr>"
  obtain r srv cli calls where o: "open_tcp_socket e = (r, srv, cli, calls)" by (cases "open_tcp_socket e") auto
  obtain cf where cf: "init_common ?c0 = Some (?c0\<lparr>bar_size := replicate 6 0, bar_writefn := replicate 6 None,
     bar_readfn := replicate 6 None, config := cf\<rparr>)" "length cf = 4096"
    using init_common_shape [of ?c0] by blast
  have bars: "\<exists>bs br bw bd. set_bars bsz 0 self PCIE_BAR_COUNT c =
     Some (c\<lparr>bar_size := bs, bar_readfn := br, bar_writefn := bw, bar_data := bd\<rparr>)" for bsz c
    by (rule set_bars_ok) simp
  obtain r' calls' c1 where c1: "pcie_init_net e ?c0 = Some (r', calls', c1)" "length (config c1) = 4096"
    "g_heap c1 = g_heap c0" "g_rx c1 = fifo_init" "g_tx c1 = fifo_init" "g_reply c1 = None"
    using cf o by (cases "r = 0") (simp_all add: pcie_init_net_def pcie_net_init_def Let_def)
  let ?c2 = "c1\<lparr>ev_fn := Some On_event, ev_fd := fst fds, ev_data := self\<rparr>"
  obtain f1 where f1: "pcie_set_vendorid ?c2 (ucast (ucast (env_num env strtoul16 ''PCIE_VENDOR_ID'') :: u32)) =
      Some (0, ?c2\<lparr>config := f1\<rparr>)" "length f1 = 4096"
    using set_ids_ok(1) [of ?c2] c1(2) by auto
  obtain f2 where f2: "pcie_set_deviceid (?c2\<lparr>config := f1\<rparr>)
      (ucast (ucast (env_num env strtoul16 ''PCIE_DEVICE_ID'') :: u32)) = Some (0, ?c2\<lparr>config := f2\<rparr>)"
    using set_ids_ok(2) [of "?c2\<lparr>config := f1\<rparr>"] f1(2) by auto
  obtain bs br bw bd where b: "set_bars (map (\<lambda>n. ucast (env_num env strtoul16 n)) bar_size_names) 0 self
      PCIE_BAR_COUNT (?c2\<lparr>config := f2\<rparr>) = Some (?c2\<lparr>config := f2, bar_size := bs, bar_readfn := br,
        bar_writefn := bw, bar_data := bd\<rparr>)"
    using bars by fastforce
  have "thread_init env strtoul16 fds e self c0 = Some (?c2\<lparr>config := f2, bar_size := bs, bar_readfn := br,
      bar_writefn := bw, bar_data := bd, g_state := 1\<rparr>)"
    using c1(1) f1(1) f2 b
    by (simp add: thread_init_def pcie_add_event_def pcie_net_add_ev_def)
  then show ?thesis using c1 by simp
qed

section \<open>Every step is defined and keeps the invariant\<close>

lemma start_inv:
  assumes "thread_init env strtoul16 fds e self c0 = Some c" and "g_heap c0 = Map.empty"
  shows "glue_inv (glue_start c)"
proof -
  have "g_heap c = Map.empty" "g_rx c = fifo_init" "g_tx c = fifo_init" "g_reply c = None"
    using thread_init_ok [of env strtoul16 fds e self c0] assms by auto
  then have "glue_inv_at (glue_start c) [] [] [] []"
    by (simp add: glue_inv_at_def queues_inv_def fifo_rep_def fifo_init_def glue_start_def reads_def)
  then show ?thesis by (auto simp: glue_inv_def)
qed

lemma glue_invE:
  assumes "glue_inv s"
  obtains rx pend tx ms where "queues_inv (gs_c s) (wait_node (gs_io s)) rx pend tx ms"
    and "map req_out (gs_issued s) = gs_polled s @ map req_out pend" and "reply_phase s (gs_io s) rx tx"
  using assms by (auto simp: glue_inv_def glue_inv_at_def)

lemma glue_invI:
  assumes "queues_inv (gs_c s) (wait_node (gs_io s)) rx pend tx ms"
    and "map req_out (gs_issued s) = gs_polled s @ map req_out pend" and "reply_phase s (gs_io s) rx tx"
  shows "glue_inv s"
  using assms by (auto simp: glue_inv_def glue_inv_at_def)

lemma read_start_ok:
  assumes i: "glue_inv s" and g: "gs_io s = Io_idle" "g_heap (gs_c s) a = None" "sz \<le> 8" "length data = 8"
  shows "\<exists>c. on_bar_read_start a junk bar addr data sz (gs_c s) = Some c \<and>
    glue_inv (s\<lparr>gs_c := c, gs_io := Io_wait a data sz, gs_issued := gs_issued s @ [Rd bar addr sz]\<rparr>)"
proof -
  obtain rx pend tx ms where q: "queues_inv (gs_c s) None rx pend tx ms"
    "map req_out (gs_issued s) = gs_polled s @ map req_out pend" "reply_phase s Io_idle rx tx"
    using glue_invE [OF i] g(1) by (metis wait_node.simps(1))
  obtain ba where ba: "fifo_alloc_access_node a junk 1 bar addr sz data (g_heap (gs_c s)) =
      Some (fifo_alloc_node a (Access ba) (g_heap (gs_c s)))" "node_req (Rd bar addr sz) (Access ba)"
    using access_node_body [of sz data a junk 1 bar addr "g_heap (gs_c s)"] g(3,4) by auto
  obtain c where c: "push_rx a ((gs_c s)\<lparr>g_heap := fifo_alloc_node a (Access ba) (g_heap (gs_c s))\<rparr>) = Some c"
    "queues_inv c (Some a) (rx @ [a]) (pend @ [Rd bar addr sz]) tx ms" "g_reply c = g_reply (gs_c s)"
    using push_rx_inv [OF q(1) g(2) ba(2)] by auto
  have "rx_node (g_heap c) (Some a) a (Rd bar addr sz)"
    using queues_rep(4) [OF c(2)] list_all2_lengthD [OF queues_rep(4) [OF q(1)]] by (simp add: list_all2_append)
  then obtain ba' where ba': "wait_access (g_heap c) a sz ba'" "\<not> ba_is_replied ba'"
    using g(3) by (auto simp: rx_node_def wait_access_def elim!: node_req.elims(2))
  have "on_bar_read_start a junk bar addr data sz (gs_c s) = Some c"
    using ba(1) c(1) by (simp add: on_bar_read_start_def)
  moreover have "glue_inv (s\<lparr>gs_c := c, gs_io := Io_wait a data sz, gs_issued := gs_issued s @ [Rd bar addr sz]\<rparr>)"
    by (rule glue_invI [of _ "rx @ [a]" "pend @ [Rd bar addr sz]" tx ms])
      (use c q g ba' queues_nodes [OF q(1) g(2)] in \<open>auto simp: reads_def\<close>)
  ultimately show ?thesis by blast
qed

lemma bar_write_ok:
  assumes i: "glue_inv s" and g: "gs_io s = Io_idle" "g_heap (gs_c s) a = None" "sz \<le> 8" "sz \<le> length data"
  shows "\<exists>c. on_bar_write a junk bar addr data sz (gs_c s) = Some c \<and>
    glue_inv (s\<lparr>gs_c := c, gs_issued := gs_issued s @ [Wr bar addr (take sz data)]\<rparr>)"
proof -
  obtain rx pend tx ms where q: "queues_inv (gs_c s) None rx pend tx ms"
    "map req_out (gs_issued s) = gs_polled s @ map req_out pend" "reply_phase s Io_idle rx tx"
    using glue_invE [OF i] g(1) by (metis wait_node.simps(1))
  let ?r = "Wr bar addr (take sz data)"
  obtain ba where ba: "fifo_alloc_access_node a junk 0 bar addr sz data (g_heap (gs_c s)) =
      Some (fifo_alloc_node a (Access ba) (g_heap (gs_c s)))" "node_req ?r (Access ba)"
    using access_node_body [of sz data a junk 0 bar addr "g_heap (gs_c s)"] g(3,4) by (auto simp: min_absorb2)
  obtain c where c: "push_rx a ((gs_c s)\<lparr>g_heap := fifo_alloc_node a (Access ba) (g_heap (gs_c s))\<rparr>) = Some c"
    "queues_inv c None (rx @ [a]) (pend @ [?r]) tx ms" "g_reply c = g_reply (gs_c s)"
    using push_rx_inv [OF q(1) g(2) ba(2)] by auto
  have "on_bar_write a junk bar addr data sz (gs_c s) = Some c"
    using ba(1) c(1) by (simp add: on_bar_write_def)
  moreover have "glue_inv (s\<lparr>gs_c := c, gs_issued := gs_issued s @ [?r]\<rparr>)"
    by (rule glue_invI [of _ "rx @ [a]" "pend @ [?r]" tx ms])
      (use c q g in \<open>auto simp: reads_def\<close>)
  ultimately show ?thesis by blast
qed

lemma read_finish_ok:
  assumes i: "glue_inv s" and g: "gs_io s = Io_wait a data sz" "is_replied a (gs_c s)"
  shows "\<exists>d c. on_bar_read_finish a data sz (gs_c s) = Some (d, c) \<and>
    glue_inv (s\<lparr>gs_c := c, gs_io := Io_idle, gs_results := gs_results s @ [take sz d]\<rparr>)"
proof -
  obtain rx pend tx ms where q: "queues_inv (gs_c s) (Some a) rx pend tx ms"
    "map req_out (gs_issued s) = gs_polled s @ map req_out pend" "reply_phase s (Io_wait a data sz) rx tx"
    using glue_invE [OF i] g(1) by (metis wait_node.simps(2))
  have nrx: "\<not> a \<in> set rx"
  proof
    assume "a \<in> set rx"
    then obtain r where "rx_node (g_heap (gs_c s)) (Some a) a r"
      using queues_rep(4) [OF q(1)] by (metis in_set_conv_nth list_all2_nthD)
    then obtain x where "is_rd r" "g_heap (gs_c s) a = Some x" "node_req r (fn_u x)" by (auto simp: rx_node_def)
    then show False using g(2) by (cases r; cases "fn_u x") (auto simp: is_replied_def)
  qed
  have nwait: "\<not> (wait_access (g_heap (gs_c s)) a sz ba \<and> \<not> ba_is_replied ba)" for ba
    using g(2) by (auto simp: is_replied_def wait_access_def)
  obtain rs xs x ba where p: "reads s = rs @ [sz]" "g_reply (gs_c s) = None" "gs_replies s = xs @ [x]"
    "length rs = length xs" "gs_results s = map2 read_result rs xs"
    "wait_access (g_heap (gs_c s)) a sz ba" "ba_data ba = le_bytes 8 x"
    and da: "length data = 8" "a \<notin> set tx"
    using q(3) nrx nwait by auto
  obtain d c where c: "on_bar_read_finish a data sz (gs_c s) = Some (d, c)" "take sz d = take sz (ba_data ba)"
    "queues_inv c None rx pend tx ms" "g_reply c = g_reply (gs_c s)"
    using finish_ok [OF q(1) nrx da(2) p(6) da(1)] by blast
  have "glue_inv (s\<lparr>gs_c := c, gs_io := Io_idle, gs_results := gs_results s @ [take sz d]\<rparr>)"
    by (rule glue_invI [of _ rx pend tx ms])
      (use c q p in \<open>auto simp: reads_def read_result_def\<close>)
  then show ?thesis using c(1) by blast
qed

lemma wait_access_frame: "h' n = h n \<Longrightarrow> wait_access h' n sz ba = wait_access h n sz ba"
  by (simp add: wait_access_def)

lemma wait_access_unique:
  "wait_access h n sz ba \<Longrightarrow> wait_access h n sz' ba' \<Longrightarrow> sz = sz' \<and> ba = ba'"
  by (auto simp: wait_access_def)

lemma reads_glue [simp]: "reads (s\<lparr>gs_c := c\<rparr>) = reads s" "reads (s\<lparr>gs_polled := p\<rparr>) = reads s"
  "reads (s\<lparr>gs_replies := xs\<rparr>) = reads s"
  by (simp_all add: reads_def)

text \<open>A change of the context that keeps the reply node and the cell of the node waited for.\<close>

lemma reply_phase_frame:
  assumes p: "reply_phase s io rx tx" and r: "g_reply c = g_reply (gs_c s)"
    and n: "\<And>n. wait_node io = Some n \<Longrightarrow> n \<notin> set tx' \<and>
        (n \<in> set rx' \<longleftrightarrow> n \<in> set rx) \<and> g_heap c n = g_heap (gs_c s) n"
  shows "reply_phase (s\<lparr>gs_c := c\<rparr>) io rx' tx'"
proof (cases io)
  case Io_idle
  then show ?thesis using p r by simp
next
  case (Io_wait a data sz)
  then have nn: "a \<notin> set tx'" "a \<in> set rx' \<longleftrightarrow> a \<in> set rx" "g_heap c a = g_heap (gs_c s) a"
    using n [of a] by auto
  show ?thesis using p nn(1) unfolding Io_wait by (simp add: nn(2) r wait_access_frame [of "g_heap c" a "g_heap (gs_c s)", OF nn(3)])
qed

lemma push_step_ok:
  assumes i: "glue_inv s" and a: "g_heap (gs_c s) a = None" and m: "unat (m_size m) = length (m_data m)"
  shows "\<exists>c. push_msg a m (gs_c s) = Some c \<and> glue_inv (s\<lparr>gs_c := c\<rparr>)"
proof -
  obtain rx pend tx ms where q: "queues_inv (gs_c s) (wait_node (gs_io s)) rx pend tx ms"
    "map req_out (gs_issued s) = gs_polled s @ map req_out pend" "reply_phase s (gs_io s) rx tx"
    by (rule glue_invE [OF i])
  obtain c where c: "push_msg a m (gs_c s) = Some c"
    "queues_inv c (wait_node (gs_io s)) rx pend (tx @ [a]) (ms @ [m])" "g_reply c = g_reply (gs_c s)"
    "\<forall>n. n \<notin> set tx \<longrightarrow> n \<noteq> a \<longrightarrow> g_heap c n = g_heap (gs_c s) n"
    by (rule push_msg_inv [OF q(1) a m])
  have ntx: "n \<notin> set tx \<and> n \<noteq> a" if "wait_node (gs_io s) = Some n" for n
    using q(3) that queues_nodes(3) [OF q(1) a] by (cases "gs_io s") auto
  have "reply_phase (s\<lparr>gs_c := c\<rparr>) (gs_io s) rx (tx @ [a])"
    by (rule reply_phase_frame [OF q(3) c(3)]) (use ntx c(4) in auto)
  then have "glue_inv (s\<lparr>gs_c := c\<rparr>)"
    by (intro glue_invI [of _ rx pend "tx @ [a]" "ms @ [m]"]) (use c(2) q(2) in auto)
  then show ?thesis using c(1) by blast
qed

lemma event_step_ok:
  assumes i: "glue_inv s" and g: "gs_io s = Io_idle"
  shows "\<exists>r c. on_event key (gs_c s) = Some (r, c) \<and> glue_inv (s\<lparr>gs_c := c\<rparr>)"
proof (cases "key = evk_quit")
  case True
  then show ?thesis using i by (simp add: on_event_def)
next
  case False
  obtain rx pend tx ms where q: "queues_inv (gs_c s) (wait_node (gs_io s)) rx pend tx ms"
    "map req_out (gs_issued s) = gs_polled s @ map req_out pend" "reply_phase s (gs_io s) rx tx"
    by (rule glue_invE [OF i])
  obtain c where c: "on_event key (gs_c s) = Some (0, c)" "queues_inv c (wait_node (gs_io s)) rx pend [] []"
    "g_reply c = g_reply (gs_c s)"
    using on_event_queues [OF q(1) _ False] g by auto
  have "reply_phase (s\<lparr>gs_c := c\<rparr>) (gs_io s) rx []"
    by (rule reply_phase_frame [OF q(3) c(3)]) (use g in auto)
  then have "glue_inv (s\<lparr>gs_c := c\<rparr>)"
    by (intro glue_invI [of _ rx pend "[]" "[]"]) (use c(2) q(2) in auto)
  then show ?thesis using c(1) by blast
qed

lemma other_ok:
  assumes i: "glue_inv s" and g: "gs_io s = Io_idle" and c: "g_heap c = g_heap (gs_c s)"
      "g_rx c = g_rx (gs_c s)" "g_tx c = g_tx (gs_c s)" "g_reply c = g_reply (gs_c s)"
  shows "glue_inv (s\<lparr>gs_c := c\<rparr>)"
proof -
  obtain rx pend tx ms where q: "queues_inv (gs_c s) (wait_node (gs_io s)) rx pend tx ms"
    "map req_out (gs_issued s) = gs_polled s @ map req_out pend" "reply_phase s (gs_io s) rx tx"
    by (rule glue_invE [OF i])
  show ?thesis
    by (rule glue_invI [of _ rx pend tx ms]) (use q c g in \<open>auto simp: queues_inv_def\<close>)
qed

lemma reply_step_ok:
  assumes i: "glue_inv s" and l: "logic_to_uint l_data 0 = Some x"
  shows "\<exists>c. pcie_glue_send_reply l_data (gs_c s) = Some c \<and>
    glue_inv (s\<lparr>gs_c := c, gs_replies := gs_replies s @ (if g_reply (gs_c s) = None then [] else [x])\<rparr>)"
proof -
  obtain rx pend tx ms where q: "queues_inv (gs_c s) (wait_node (gs_io s)) rx pend tx ms"
    "map req_out (gs_issued s) = gs_polled s @ map req_out pend" "reply_phase s (gs_io s) rx tx"
    by (rule glue_invE [OF i])
  show ?thesis
  proof (cases "g_reply (gs_c s)")
    case None
    then have "pcie_glue_send_reply l_data (gs_c s) = Some (gs_c s)"
      using l by (simp add: pcie_glue_send_reply_def)
    then show ?thesis using i None by simp
  next
    case (Some n)
    then obtain data sz where io: "gs_io s = Io_wait n data sz" using q(3) by (cases "gs_io s") (auto split: if_splits)
    then obtain rs ba where p: "n \<notin> set tx" "n \<notin> set rx" "length data = 8" "reads s = rs @ [sz]"
      "length rs = length (gs_replies s)" "gs_results s = map2 read_result rs (gs_replies s)"
      "wait_access (g_heap (gs_c s)) n sz ba"
      using q(3) Some by (auto split: if_splits)
    have q1: "queues_inv (gs_c s) (Some n) rx pend tx ms" using q(1) io by simp
    let ?ba = "ba\<lparr>ba_data := le_bytes 8 x, ba_is_replied := True\<rparr>"
    obtain c where c: "pcie_glue_send_reply l_data (gs_c s) = Some c" "queues_inv c (Some n) rx pend tx ms"
      "g_reply c = None" "wait_access (g_heap c) n sz ?ba"
      using reply_ok [OF q1 Some p(2) p(1) p(7) l] by blast
    have "\<exists>ba. wait_access (g_heap c) n sz ba \<and> ba_is_replied ba \<and> ba_data ba = le_bytes 8 x"
      using c(4) by (intro exI [of _ ?ba]) simp
    then have "glue_inv (s\<lparr>gs_c := c, gs_replies := gs_replies s @ [x]\<rparr>)"
      by (intro glue_invI [of _ rx pend tx ms]) (use c(2,3) q(2) p io in auto)
    then show ?thesis using c(1) Some by simp
  qed
qed

text \<open>A poll that shows a write, and one that shows a read.\<close>

lemma poll_write_ok:
  assumes q: "queues_inv (gs_c s) (wait_node (gs_io s)) (n # rx) (Wr bar addr d # pend) tx ms"
    and o: "map req_out (gs_issued s) = gs_polled s @ map req_out (Wr bar addr d # pend)"
    and p: "reply_phase s (gs_io s) (n # rx) tx"
  shows "\<exists>c. pcie_glue_poll_rx_fifo (gs_c s) = Some (req_out (Wr bar addr d), c) \<and>
    glue_inv (s\<lparr>gs_c := c, gs_polled := gs_polled s @ [req_out (Wr bar addr d)]\<rparr>)"
proof -
  obtain c where c: "pcie_glue_poll_rx_fifo (gs_c s) = Some (req_out (Wr bar addr d), c)"
    "queues_inv c (wait_node (gs_io s)) rx pend tx ms" "g_reply c = g_reply (gs_c s)"
    "\<forall>m. m \<noteq> n \<longrightarrow> g_heap c m = g_heap (gs_c s) m"
    using poll_write [OF q] by metis
  have "wait_node (gs_io s) \<noteq> Some n" using queues_rep(4) [OF q] by (simp add: rx_node_def)
  then have "reply_phase (s\<lparr>gs_c := c\<rparr>) (gs_io s) rx tx"
    by (intro reply_phase_frame [OF p c(3)]) (use p c(4) in \<open>cases "gs_io s"; auto\<close>)
  then have "reply_phase (s\<lparr>gs_c := c, gs_polled := gs_polled s @ [req_out (Wr bar addr d)]\<rparr>) (gs_io s) rx tx"
    by (cases "gs_io s") (simp_all add: reads_def)
  then have "glue_inv (s\<lparr>gs_c := c, gs_polled := gs_polled s @ [req_out (Wr bar addr d)]\<rparr>)"
    by (intro glue_invI [of _ rx pend tx ms]) (use c(2) o in simp_all)
  with c(1) show ?thesis by blast
qed

lemma poll_read_ok:
  assumes q: "queues_inv (gs_c s) (wait_node (gs_io s)) (n # rx) (Rd bar addr sz # pend) tx ms"
    and o: "map req_out (gs_issued s) = gs_polled s @ map req_out (Rd bar addr sz # pend)"
    and ph: "reply_phase s (gs_io s) (n # rx) tx"
  shows "\<exists>c. pcie_glue_poll_rx_fifo (gs_c s) = Some (req_out (Rd bar addr sz), c) \<and>
    glue_inv (s\<lparr>gs_c := c, gs_polled := gs_polled s @ [req_out (Rd bar addr sz)]\<rparr>)"
proof -
  have nn: "n \<notin> set rx" using queues_rep(1) [OF q] by (simp add: fifo_rep_def)
  have "wait_node (gs_io s) = Some n" using queues_rep(4) [OF q] by (simp add: rx_node_def)
  then obtain data sz' where io: "gs_io s = Io_wait n data sz'" by (cases "gs_io s") auto
  have r: "g_reply (gs_c s) = None" using ph io by auto
  obtain c ba where c: "pcie_glue_poll_rx_fifo (gs_c s) = Some (req_out (Rd bar addr sz), c)"
    "queues_inv c (wait_node (gs_io s)) rx pend tx ms" "g_reply c = Some n"
    "wait_access (g_heap c) n sz ba" "\<not> ba_is_replied ba" "g_heap c = g_heap (gs_c s)"
    using poll_read [OF q r] by metis
  obtain rs ba' where p: "length data = 8" "n \<notin> set tx" "reads s = rs @ [sz']"
    "length rs = length (gs_replies s)" "gs_results s = map2 read_result rs (gs_replies s)"
    "wait_access (g_heap (gs_c s)) n sz' ba'"
    using ph io by auto
  have sz: "sz' = sz" "ba' = ba" using wait_access_unique [OF p(6)] c(4,6) by auto
  have "glue_inv (s\<lparr>gs_c := c, gs_polled := gs_polled s @ [req_out (Rd bar addr sz)]\<rparr>)"
    by (rule glue_invI [of _ rx pend tx ms]) (use c p o io nn in \<open>auto simp: sz\<close>)
  with c(1) show ?thesis by blast
qed

lemma poll_step_ok:
  assumes i: "glue_inv s"
  shows "\<exists>out c. pcie_glue_poll_rx_fifo (gs_c s) = Some (out, c) \<and> glue_inv (s\<lparr>gs_c := c,
      gs_polled := gs_polled s @ (if f_head (g_rx (gs_c s)) = None then [] else [out])\<rparr>)"
proof -
  obtain rx pend tx ms where q: "queues_inv (gs_c s) (wait_node (gs_io s)) rx pend tx ms"
    "map req_out (gs_issued s) = gs_polled s @ map req_out pend" "reply_phase s (gs_io s) rx tx"
    by (rule glue_invE [OF i])
  show ?thesis
  proof (cases rx)
    case Nil
    then show ?thesis using poll_none [OF q(1) [unfolded Nil]] i by auto
  next
    case (Cons n rx')
    then obtain r pend' where pend: "pend = r # pend'" using queues_rep(4) [OF q(1)] by (cases pend) auto
    have h: "f_head (g_rx (gs_c s)) \<noteq> None" using queues_rep(1) [OF q(1)] by (simp add: Cons fifo_rep_def)
    have "\<exists>c. pcie_glue_poll_rx_fifo (gs_c s) = Some (req_out r, c) \<and>
        glue_inv (s\<lparr>gs_c := c, gs_polled := gs_polled s @ [req_out r]\<rparr>)"
      using poll_write_ok poll_read_ok q [unfolded Cons pend] by (cases r) metis+
    then show ?thesis by (simp only: if_not_P [OF h]) blast
  qed
qed

text \<open>The routines that queue a message.\<close>

lemma length_alloc_write_msg [simp]: "length (m_data (alloc_write_msg j mop addr sz)) = unat sz"
  "m_size (alloc_write_msg j mop addr sz) = sz" "m_op (alloc_write_msg j mop addr sz) = mop"
  "m_addr (alloc_write_msg j mop addr sz) = addr"
  by (simp_all add: alloc_write_msg_def)

lemma mem_write_all: "length d = length b \<Longrightarrow> mem_write b 0 d = Some d"
  by (simp add: mem_write_def)

lemma send_msi_push:
  "\<exists>m. pcie_glue_send_msi a j c = push_msg a m c \<and> unat (m_size m) = length (m_data m) \<and>
     m_op m = PCIE_NET_OP_MSI \<and> m_data m = replicate 8 0"
  by (simp add: pcie_glue_send_msi_def mem_write_all)
    (rule exI, rule conjI, rule refl, simp)

lemma send_write_push:
  assumes "logic_to_uint l_addr 0 = Some addr" and "logic_to_uint l_ds 0 = Some (ds :: u16)"
    and "logic_to_buf_from l_data (unat ds) 0 (unat ds) = Some bs" and "length bs = unat ds"
  shows "\<exists>m. pcie_glue_send_write a j l_addr l_data l_ds l_sz c = push_msg a m c \<and>
     unat (m_size m) = length (m_data m) \<and> m_op m = PCIE_NET_OP_WRITE_MEM \<and> m_addr m = addr \<and> m_data m = bs"
  using assms
  by (simp add: pcie_glue_send_write_def logic_to_buf_def mem_write_all)
    (rule exI, rule conjI, rule refl, simp)

lemma write_buf_bytes_defined:
  "(\<exists>bs. write_buf_bytes base i n = Some bs) \<longleftrightarrow> n = 0 \<or> i + n + 7 \<le> length base"
proof (induction n arbitrary: i)
  case (Suc n)
  have "(\<exists>bs. write_buf_bytes base i (Suc n) = Some bs) \<longleftrightarrow>
      (\<exists>b :: byte. logic_to_uint base i = Some b) \<and> (\<exists>bs. write_buf_bytes base (Suc i) n = Some bs)"
    by (auto simp: bind_eq_Some_conv)
  then show ?case by (auto simp: Suc.IH logic_to_uint_defined)
qed simp

lemma length_write_buf_bytes: "write_buf_bytes base i n = Some bs \<Longrightarrow> length bs = n"
  by (induction n arbitrary: i bs) (auto simp: bind_eq_Some_conv)

lemma send_write_buf_push:
  assumes "logic_to_uint l_addr 0 = Some addr" and "logic_to_uint l_ds 0 = Some (ds :: u16)"
    and "write_buf_bytes base 0 (unat ds) = Some bs"
  shows "\<exists>m. pcie_glue_send_write_buf a j l_addr base l_ds c = push_msg a m c \<and>
     unat (m_size m) = length (m_data m) \<and> m_op m = PCIE_NET_OP_WRITE_MEM \<and> m_addr m = addr \<and> m_data m = bs"
  using assms length_write_buf_bytes [OF assms(3)]
  by (simp add: pcie_glue_send_write_buf_def mem_write_all)
    (rule exI, rule conjI, rule refl, simp)

text \<open>What the simulation must pass: vectors of the widths the comments give.\<close>

lemma logic_to_buf_from_length: "logic_to_buf_from data ds i n = Some bs \<Longrightarrow> length bs = n"
  by (induction n arbitrary: i bs) (auto simp: bind_eq_Some_conv)

lemma send_write_step_ok:
  assumes i: "glue_inv s" and a: "g_heap (gs_c s) a = None"
    and c: "pcie_glue_send_write a j l_addr l_data l_ds l_sz (gs_c s) = Some c"
  shows "glue_inv (s\<lparr>gs_c := c\<rparr>)"
proof -
  obtain addr ds bs where d: "logic_to_uint l_addr 0 = Some (addr :: u64)" "logic_to_uint l_ds 0 = Some (ds :: u16)"
    "logic_to_buf_from l_data (unat ds) 0 (unat ds) = Some bs"
    using c by (auto simp: pcie_glue_send_write_def logic_to_buf_def bind_eq_Some_conv Let_def)
  obtain m where "push_msg a m (gs_c s) = Some c" "unat (m_size m) = length (m_data m)"
    using send_write_push [OF d logic_to_buf_from_length [OF d(3)], of a j l_sz "gs_c s"] c by auto
  then show ?thesis using push_step_ok [OF i a] by fastforce
qed

lemma send_write_buf_step_ok:
  assumes i: "glue_inv s" and a: "g_heap (gs_c s) a = None"
    and c: "pcie_glue_send_write_buf a j l_addr base l_ds (gs_c s) = Some c"
  shows "glue_inv (s\<lparr>gs_c := c\<rparr>)"
proof -
  obtain addr ds bs where d: "logic_to_uint l_addr 0 = Some (addr :: u64)" "logic_to_uint l_ds 0 = Some (ds :: u16)"
    "write_buf_bytes base 0 (unat ds) = Some bs"
    using c by (auto simp: pcie_glue_send_write_buf_def bind_eq_Some_conv Let_def)
  obtain m where "push_msg a m (gs_c s) = Some c" "unat (m_size m) = length (m_data m)"
    using send_write_buf_push [OF d, of a j "gs_c s"] c by auto
  then show ?thesis using push_step_ok [OF i a] by fastforce
qed

lemma msi_step_ok:
  assumes i: "glue_inv s" and a: "g_heap (gs_c s) a = None"
  shows "\<exists>c. pcie_glue_send_msi a j (gs_c s) = Some c \<and> glue_inv (s\<lparr>gs_c := c\<rparr>)"
  using send_msi_push [of a j "gs_c s"] push_step_ok [OF i a] by metis

lemma glue_step_inv: "glue_step s s' \<Longrightarrow> glue_inv s \<Longrightarrow> glue_inv s'"
proof (induction rule: glue_step.induct)
  case (read_start s a sz data junk bar addr c)
  then show ?case using read_start_ok [of s a sz data junk bar addr] by simp
next
  case (read_finish s a data sz d c)
  then show ?case using read_finish_ok [of s a data sz] by simp
next
  case (bar_write s a sz data junk bar addr c)
  then show ?case using bar_write_ok [of s a sz data junk bar addr] by simp
next
  case (event s key r c)
  then show ?case using event_step_ok [of s key] by simp
next
  case (other s c)
  then show ?case by (intro other_ok)
next
  case (poll s out c)
  then show ?case using poll_step_ok [of s] by simp
next
  case (reply l_data x s c)
  then show ?case using reply_step_ok [of s l_data x] by simp
next
  case (msi s a j c)
  then show ?case using msi_step_ok [of s a j] by simp
next
  case (send_write s a j l_addr l_data l_ds l_sz c)
  then show ?case by (intro send_write_step_ok)
next
  case (send_write_buf s a j l_addr base l_ds c)
  then show ?case by (intro send_write_buf_step_ok)
qed

lemma glue_reach_inv: "glue_reach s \<Longrightarrow> glue_inv s"
  by (induction rule: glue_reach.induct) (auto intro: start_inv glue_step_inv)

lemma uint_defined: "(logic_to_uint l off :: 'a::len word option) \<noteq> None \<longleftrightarrow> off + LENGTH('a) \<le> length l"
  using logic_to_uint_defined [where 'a = 'a and buf = l and off = off] by auto

lemma send_write_defined:
  assumes i: "glue_inv s" and a: "g_heap (gs_c s) a = None" and l: "64 \<le> length l_addr"
    "logic_to_uint l_ds 0 = Some (ds :: u16)" "8 * unat ds \<le> length l_vec"
  shows "pcie_glue_send_write a j l_addr l_vec l_ds l_sz (gs_c s) \<noteq> None"
proof -
  obtain addr :: u64 where "logic_to_uint l_addr 0 = Some addr"
    using logic_to_uint_defined [where 'a = 64 and off = 0 and buf = l_addr] l(1) by auto
  moreover obtain bs where "logic_to_buf_from l_vec (unat ds) 0 (unat ds) = Some bs" "length bs = unat ds"
    using logic_to_buf_from_defined [of 0 "unat ds" "unat ds" l_vec] l(3) by auto
  ultimately obtain m where m: "pcie_glue_send_write a j l_addr l_vec l_ds l_sz (gs_c s) = push_msg a m (gs_c s)"
    "unat (m_size m) = length (m_data m)"
    using send_write_push l(2) by metis
  show ?thesis using push_step_ok [OF i a m(2)] m(1) by auto
qed

section \<open>What the threads can rely on\<close>

text \<open>
  C7. In every reachable state, whatever the interleaving, what the polls of the simulation have
  shown is a prefix of the requests in the order the host made them, each with its bar, address,
  size and data; when the queue is empty nothing is missing. No request is lost, duplicated or
  reordered, and the branch of \<open>pcie_glue_poll_rx_fifo\<close> that drops a read is never taken.
\<close>

theorem glue_requests_in_order:
  assumes "glue_reach s"
  shows "prefix (gs_polled s) (map req_out (gs_issued s)) \<and>
    (f_head (g_rx (gs_c s)) = None \<longrightarrow> gs_polled s = map req_out (gs_issued s))"
proof -
  obtain rx pend tx ms where q: "queues_inv (gs_c s) (wait_node (gs_io s)) rx pend tx ms"
    "map req_out (gs_issued s) = gs_polled s @ map req_out pend"
    by (rule glue_invE [OF glue_reach_inv [OF assms]])
  have "f_head (g_rx (gs_c s)) = None \<Longrightarrow> pend = []"
    using queues_rep(1,4) [OF q(1)] by (cases rx) (auto simp: fifo_rep_def)
  then show ?thesis using q(2) by auto
qed

text \<open>
  C8. Whenever the network thread is in its loop, each read the host made has returned the first
  bytes of the reply the simulation gave to it, in order and one reply for each read.
\<close>

theorem glue_read_results:
  assumes "glue_reach s" and "gs_io s = Io_idle"
  shows "length (gs_replies s) = length (reads s) \<and>
    gs_results s = map2 read_result (reads s) (gs_replies s)"
  by (rule glue_invE [OF glue_reach_inv [OF assms(1)]]) (use assms(2) in simp)

text \<open>Which calls with vectors are defined.\<close>

lemma send_reply_defined:
  assumes "glue_inv s"
  shows "pcie_glue_send_reply l_data (gs_c s) \<noteq> None \<longleftrightarrow> 64 \<le> length l_data"
proof (cases "logic_to_uint l_data 0 :: u64 option")
  case None
  then show ?thesis using uint_defined [where 'a = 64 and l = l_data and off = 0] by (simp add: pcie_glue_send_reply_def)
next
  case (Some x)
  then show ?thesis using uint_defined [where 'a = 64 and l = l_data and off = 0] reply_step_ok [OF assms Some] by auto
qed

lemma write_vectors:
  assumes "64 \<le> length l_addr" and "logic_to_uint l_ds 0 = Some (ds :: u16)"
  shows "pcie_glue_send_write a j l_addr l_vec l_ds l_sz c \<noteq> None \<Longrightarrow> 8 * unat ds \<le> length l_vec"
    and "pcie_glue_send_write_buf a j l_addr base l_ds c \<noteq> None \<Longrightarrow> ds = 0 \<or> unat ds + 7 \<le> length base"
proof -
  assume "pcie_glue_send_write a j l_addr l_vec l_ds l_sz c \<noteq> None"
  then have "logic_to_buf_from l_vec (unat ds) 0 (unat ds) \<noteq> None"
    using assms(2) by (auto simp: pcie_glue_send_write_def logic_to_buf_def bind_eq_Some_conv Let_def)
  then show "8 * unat ds \<le> length l_vec"
    using uint_defined [where 'a = 8 and l = l_vec and off = "(unat ds - 1) * 8"]
    by (cases "unat ds") (auto simp: bind_eq_Some_conv)
next
  have w: "write_buf_bytes b i n \<noteq> None \<Longrightarrow> n = 0 \<or> i + n + 7 \<le> length b" for b i n
  proof (induction n arbitrary: i)
    case (Suc n)
    then have "write_buf_bytes b (Suc i) n \<noteq> None" "(logic_to_uint b i :: byte option) \<noteq> None"
      by (auto simp: bind_eq_Some_conv)
    then show ?case using Suc.IH [of "Suc i"] uint_defined [where 'a = 8 and l = b and off = i] by auto
  qed simp
  assume "pcie_glue_send_write_buf a j l_addr base l_ds c \<noteq> None"
  then have "write_buf_bytes base 0 (unat ds) \<noteq> None"
    using assms(2) by (auto simp: pcie_glue_send_write_buf_def bind_eq_Some_conv Let_def)
  from w [OF this] show "ds = 0 \<or> unat ds + 7 \<le> length base" by (auto simp: unat_eq_0)
qed

lemma send_write_buf_defined:
  assumes i: "glue_inv s" and a: "g_heap (gs_c s) a = None" and l: "64 \<le> length l_addr"
    "logic_to_uint l_ds 0 = Some (ds :: u16)" "ds = 0 \<or> unat ds + 7 \<le> length base"
  shows "pcie_glue_send_write_buf a j l_addr base l_ds (gs_c s) \<noteq> None"
proof -
  have w: "n = 0 \<or> i + n + 7 \<le> length base \<Longrightarrow> \<exists>bs. write_buf_bytes base i n = Some bs" for i n
  proof (induction n arbitrary: i)
    case (Suc n)
    obtain b :: byte where b: "logic_to_uint base i = Some b"
      using Suc.prems logic_to_uint_defined [where 'a = 8 and buf = base and off = i] by auto
    have "n = 0 \<or> Suc i + n + 7 \<le> length base" using Suc.prems by auto
    then show ?case using Suc.IH [of "Suc i"] b by auto
  qed simp
  obtain addr :: u64 where "logic_to_uint l_addr 0 = Some addr"
    using logic_to_uint_defined [where 'a = 64 and off = 0 and buf = l_addr] l(1) by auto
  moreover obtain bs where "write_buf_bytes base 0 (unat ds) = Some bs" using w [of "unat ds" 0] l(3) by auto
  ultimately obtain m where m: "pcie_glue_send_write_buf a j l_addr base l_ds (gs_c s) = push_msg a m (gs_c s)"
    "unat (m_size m) = length (m_data m)"
    using send_write_buf_push l(2) by metis
  show ?thesis using push_step_ok [OF i a m(2)] m(1) by auto
qed

lemma access_defined:
  assumes i: "glue_inv s" and a: "gs_io s = Io_idle" "g_heap (gs_c s) a = None"
  shows "length data = 8 \<Longrightarrow> on_bar_read_start a junk bar addr data sz (gs_c s) \<noteq> None \<longleftrightarrow> sz \<le> 8"
    and "sz \<le> length data \<Longrightarrow> on_bar_write a junk bar addr data sz (gs_c s) \<noteq> None \<longleftrightarrow> sz \<le> 8"
proof -
  have n: "fifo_alloc_access_node a junk r bar addr sz data h = None" if "8 < sz" for r h
    using access_node_safe_iff [of a junk r bar addr sz data h] that by auto
  show "on_bar_read_start a junk bar addr data sz (gs_c s) \<noteq> None \<longleftrightarrow> sz \<le> 8" if "length data = 8"
    using read_start_ok [OF i a(1,2), of sz data junk bar addr] that n
    by (cases "sz \<le> 8") (auto simp: on_bar_read_start_def)
  show "on_bar_write a junk bar addr data sz (gs_c s) \<noteq> None \<longleftrightarrow> sz \<le> 8" if "sz \<le> length data"
    using bar_write_ok [OF i a(1,2), of sz data junk bar addr] that n
    by (cases "sz \<le> 8") (auto simp: on_bar_write_def)
qed

text \<open>
  C10. Exactly which calls of the glue are undefined in a reachable state. The routines of the simulation:
  polling and the interrupt never; a reply if its vector is shorter than 64; a write if the vector of
  its address or of its size is too short for the number, or that of its data shorter than the
  size says, which is the size in bytes for \<open>pcie_glue_send_write\<close> but, as \<open>pcie_glue_send_write_buf\<close>
  reads byte \<open>i\<close> at element \<open>i\<close>, only seven elements more than the size there. The handlers of the network
  thread: the event and the end of a read never; an access of the host if it has more than eight
  bytes, which overruns the node. So as long as the accesses of the host have at most eight bytes and
  the vectors have their widths, no node is used after it was freed, none is freed twice, and no copy
  leaves its buffer; the states reached are those after such accesses.
\<close>

theorem glue_calls_defined:
  assumes r: "glue_reach s" and a: "g_heap (gs_c s) a = None"
  shows "pcie_glue_poll_rx_fifo (gs_c s) \<noteq> None \<and>
    (pcie_glue_send_reply l_data (gs_c s) \<noteq> None \<longleftrightarrow> 64 \<le> length l_data) \<and>
    pcie_glue_send_msi a j (gs_c s) \<noteq> None \<and>
    (64 \<le> length l_addr \<and> logic_to_uint l_ds 0 = Some (ds :: u16) \<longrightarrow>
       (pcie_glue_send_write a j l_addr l_vec l_ds l_sz (gs_c s) \<noteq> None \<longleftrightarrow> 8 * unat ds \<le> length l_vec) \<and>
       (pcie_glue_send_write_buf a j l_addr l_vec l_ds (gs_c s) \<noteq> None \<longleftrightarrow> ds = 0 \<or> unat ds + 7 \<le> length l_vec)) \<and>
    (length l_addr < 64 \<or> length l_ds < 16 \<longrightarrow> pcie_glue_send_write a j l_addr l_vec l_ds l_sz (gs_c s) = None \<and>
       pcie_glue_send_write_buf a j l_addr l_vec l_ds (gs_c s) = None) \<and>
    (gs_io s = Io_wait n d sz \<and> is_replied n (gs_c s) \<longrightarrow> on_bar_read_finish n d sz (gs_c s) \<noteq> None) \<and>
    (gs_io s = Io_idle \<longrightarrow> on_event key (gs_c s) \<noteq> None \<and>
       (length data = 8 \<longrightarrow> (on_bar_read_start a junk bar addr data sz (gs_c s) \<noteq> None \<longleftrightarrow> sz \<le> 8)) \<and>
       (sz \<le> length data \<longrightarrow> (on_bar_write a junk bar addr data sz (gs_c s) \<noteq> None \<longleftrightarrow> sz \<le> 8)))"
proof -
  note i = glue_reach_inv [OF r]
  have w: "pcie_glue_send_write a j l_addr l_vec l_ds l_sz (gs_c s) \<noteq> None \<longleftrightarrow> 8 * unat ds \<le> length l_vec"
    "pcie_glue_send_write_buf a j l_addr l_vec l_ds (gs_c s) \<noteq> None \<longleftrightarrow> ds = 0 \<or> unat ds + 7 \<le> length l_vec"
    if "64 \<le> length l_addr" "logic_to_uint l_ds 0 = Some (ds :: u16)"
    using send_write_defined [OF i a that] send_write_buf_defined [OF i a that] write_vectors [OF that] by blast+
  have u: "pcie_glue_send_write a j l_addr l_vec l_ds l_sz (gs_c s) = None \<and>
      pcie_glue_send_write_buf a j l_addr l_vec l_ds (gs_c s) = None" if "length l_addr < 64 \<or> length l_ds < 16"
    using that uint_defined [where 'a = 64 and l = l_addr and off = 0] uint_defined [where 'a = 16 and l = l_ds and off = 0]
    by (cases "logic_to_uint l_addr 0 :: u64 option"; cases "logic_to_uint l_ds 0 :: u16 option")
      (auto simp: pcie_glue_send_write_def pcie_glue_send_write_buf_def)
  show ?thesis
    using poll_step_ok [OF i] msi_step_ok [OF i a, of j] event_step_ok [OF i, of key] read_finish_ok [OF i, of n d sz]
      access_defined [OF i _ a] send_reply_defined [OF i] w u
    by auto
qed

text \<open>
  When the network thread leaves its loop, \<open>thread_entry\<close> ends with every node of both queues
  freed exactly once and nothing left allocated, and closes both ends of the event pipe.
\<close>

lemma thread_fini_frees_all:
  assumes "glue_reach s" and "gs_io s = Io_idle"
  shows "\<exists>calls c. thread_fini (gs_c s) = Some (calls, c) \<and> g_heap c = Map.empty \<and>
    {fst (g_ev_fds (gs_c s)), snd (g_ev_fds (gs_c s))} \<subseteq> set (closes calls)"
proof -
  let ?c = "gs_c s"
  obtain rx pend tx ms where q: "queues_inv ?c (wait_node (gs_io s)) rx pend tx ms"
    by (rule glue_invE [OF glue_reach_inv [OF assms(1)]])
  note q = queues_rep [OF q]
  let ?h = "g_heap ?c |` (- set tx)"
  have "fifo_rep (?h, g_rx ?c) rx"
    by (rule fifo_rep_frame [OF q(1)]) (use q(3) in \<open>auto simp: restrict_map_def\<close>)
  then have "fifo_fini (?h, g_rx ?c) = Some (?h |` (- set rx))" by (rule fifo_fini_all)
  moreover have "fifo_fini (g_heap ?c, g_tx ?c) = Some ?h" by (rule fifo_fini_all [OF q(2)])
  moreover have "?h |` (- set rx) = Map.empty"
    using q(6) assms(2) by (auto simp: restrict_map_def fun_eq_iff dom_def set_eq_iff)
  ultimately show ?thesis
    by (simp add: thread_fini_def pcie_fini_def closes_def split: prod.splits)
qed

section \<open>A read completes\<close>

primrec polls :: "nat \<Rightarrow> glue \<Rightarrow> glue option" where
  "polls 0 c = Some c"
| "polls (Suc k) c = do {
     (_, c) \<leftarrow> pcie_glue_poll_rx_fifo c;
     polls k c
   }"

lemma polls_take_read:
  "queues_inv c (Some n) rx pend tx ms \<Longrightarrow> n \<in> set rx \<Longrightarrow> n \<notin> set tx \<Longrightarrow> g_reply c = None \<Longrightarrow>
     wait_access (g_heap c) n sz ba \<Longrightarrow>
     \<exists>k c' rx' pend'. k \<le> length rx \<and> polls k c = Some c' \<and> queues_inv c' (Some n) rx' pend' tx ms \<and>
       g_reply c' = Some n \<and> n \<notin> set rx' \<and> wait_access (g_heap c') n sz ba"
proof (induction rx arbitrary: c pend)
  case (Cons m rx)
  obtain r pend' where pend: "pend = r # pend'" using queues_rep(4) [OF Cons.prems(1)] by (cases pend) auto
  note q = Cons.prems(1) [unfolded pend]
  show ?case
  proof (cases r)
    case (Wr bar addr d)
    obtain c1 where c1: "pcie_glue_poll_rx_fifo c = Some (req_out (Wr bar addr d), c1)"
      "queues_inv c1 (Some n) rx pend' tx ms" "g_reply c1 = g_reply c" "\<forall>k. k \<noteq> m \<longrightarrow> g_heap c1 k = g_heap c k"
      by (rule poll_write [OF q [unfolded Wr]])
    have nm: "n \<noteq> m" using queues_rep(4) [OF q] Wr by (auto simp: rx_node_def)
    have "wait_access (g_heap c1) n sz ba"
      using Cons.prems(5) c1(4) nm by (simp add: wait_access_def)
    moreover have "n \<in> set rx" using Cons.prems(2) nm by simp
    ultimately obtain k c' rx' p' where k: "k \<le> length rx" "polls k c1 = Some c'"
      "queues_inv c' (Some n) rx' p' tx ms" "g_reply c' = Some n" "n \<notin> set rx'" "wait_access (g_heap c') n sz ba"
      using Cons.IH [OF c1(2) _ Cons.prems(3)] c1(3) Cons.prems(4) by fastforce
    then show ?thesis using c1(1) by (intro exI [of _ "Suc k"] exI [of _ c'] exI [of _ rx'] exI [of _ p']) simp
  next
    case (Rd bar addr sz')
    obtain c1 ba' where c1: "pcie_glue_poll_rx_fifo c = Some (req_out (Rd bar addr sz'), c1)"
      "queues_inv c1 (Some n) rx pend' tx ms" "g_reply c1 = Some m" "Some n = Some m" "m \<notin> set rx"
      "g_heap c1 = g_heap c"
      by (rule poll_read [OF q [unfolded Rd] Cons.prems(4)])
    then show ?thesis using Cons.prems(5)
      by (intro exI [of _ "Suc 0"] exI [of _ c1] exI [of _ rx] exI [of _ pend']) simp
  qed
qed simp

text \<open>
  C9. Liveness of a read: however many requests are queued before it, a read that waits is shown
  to the simulation after at most as many polls as there are requests, and the next reply ends
  the wait with the bytes of that reply.
\<close>

theorem glue_read_completes:
  assumes "glue_reach s" and "gs_io s = Io_wait n data sz" and "\<not> is_replied n (gs_c s)"
  shows "\<exists>k c1 c2 d c3. polls k (gs_c s) = Some c1 \<and> k \<le> length (gs_issued s) \<and>
    pcie_glue_send_reply (uint_to_logic x) c1 = Some c2 \<and> is_replied n c2 \<and>
    on_bar_read_finish n data sz c2 = Some (d, c3) \<and> take sz d = read_result sz x"
proof -
  obtain rx pend tx ms where q: "queues_inv (gs_c s) (Some n) rx pend tx ms"
    "map req_out (gs_issued s) = gs_polled s @ map req_out pend" "reply_phase s (Io_wait n data sz) rx tx"
    using glue_invE [OF glue_reach_inv [OF assms(1)]] assms(2) by (metis wait_node.simps(2))
  then obtain ba where ba: "wait_access (g_heap (gs_c s)) n sz ba" "length data = 8" "n \<notin> set tx" by auto
  have g: "g_reply (gs_c s) = (if n \<in> set rx then None else Some n)"
    using q(3) assms(3) by (auto simp: is_replied_def wait_access_def)
  have len: "length rx \<le> length (gs_issued s)"
    using arg_cong [OF q(2), of length] list_all2_lengthD [OF queues_rep(4) [OF q(1)]] by simp
  obtain k c1 rx' pend' where k: "k \<le> length rx" "polls k (gs_c s) = Some c1"
    "queues_inv c1 (Some n) rx' pend' tx ms" "g_reply c1 = Some n" "n \<notin> set rx'" "wait_access (g_heap c1) n sz ba"
  proof (cases "n \<in> set rx")
    case True
    then show ?thesis using polls_take_read [OF q(1) True ba(3) _ ba(1)] g that by auto
  next
    case False
    then show ?thesis using that [of 0 "gs_c s" rx pend] q(1) g ba(1) by simp
  qed
  have l: "logic_to_uint (uint_to_logic x) 0 = Some x"
    using logic_to_uint_at [of "[]" 0 x "[]"] by simp
  obtain c2 where c2: "pcie_glue_send_reply (uint_to_logic x) c1 = Some c2"
    "queues_inv c2 (Some n) rx' pend' tx ms"
    "wait_access (g_heap c2) n sz (ba\<lparr>ba_data := le_bytes 8 x, ba_is_replied := True\<rparr>)"
    using reply_ok [OF k(3,4,5) ba(3) k(6) l] by blast
  moreover have "is_replied n c2" using c2(3) by (auto simp: is_replied_def wait_access_def)
  ultimately show ?thesis
    using finish_ok [OF c2(2) k(5) ba(3) c2(3) ba(2)] k(1,2) len by (fastforce simp: read_result_def)
qed

section \<open>What the simulation sends\<close>

text \<open>
  One write of the simulation: the address of the node, the address of the write, the bytes of the data
  vector (\<open>_data\<close>, whose length is \<open>_data_size\<close>) and how many of them are the write's own (\<open>_size\<close>).
\<close>

type_synonym sim_wr = "nat \<times> u64 \<times> byte list \<times> u16"

primrec glue_writes :: "sim_wr list \<Rightarrow> net_msg \<Rightarrow> glue \<Rightarrow> glue option" where
  "glue_writes [] j c = Some c"
| "glue_writes (w # ws) j c = (case w of (a, addr, bs, sz) \<Rightarrow> do {
     c \<leftarrow> pcie_glue_send_write a j (uint_to_logic addr) (logic_of_bytes bs)
       (uint_to_logic (of_nat (length bs) :: u16)) (uint_to_logic sz) c;
     glue_writes ws j c })"

definition write_msg :: "sim_wr \<Rightarrow> net_msg \<Rightarrow> bool" where
  "write_msg = (\<lambda>(a, addr, bs, sz) m. m_op m = PCIE_NET_OP_WRITE_MEM \<and> m_addr m = addr \<and> m_data m = bs \<and>
     unat (m_size m) = length bs)"

text \<open>What the write asks for, and whether the vector has more.\<close>

definition own_bytes :: "sim_wr \<Rightarrow> byte list" where
  "own_bytes = (\<lambda>(a, addr, bs, sz). take (unat sz) bs)"

definition partial_write :: "sim_wr \<Rightarrow> bool" where
  "partial_write = (\<lambda>(a, addr, bs, sz). unat sz < length bs)"

lemma write_msg_own: "write_msg w m \<Longrightarrow> m_data m = own_bytes w \<longleftrightarrow> \<not> partial_write w"
  by (cases w) (simp add: write_msg_def own_bytes_def partial_write_def eq_commute [of _ "take _ _"] not_less)

lemma glue_write_push:
  assumes "length bs < 2 ^ 16"
  obtains m where "pcie_glue_send_write a j (uint_to_logic addr) (logic_of_bytes bs)
       (uint_to_logic (of_nat (length bs) :: u16)) (uint_to_logic sz) c = push_msg a m c"
    and "write_msg (a, addr, bs, sz :: u16) m"
proof -
  let ?n = "of_nat (length bs) :: u16"
  have u: "unat ?n = length bs" using assms by (subst unat_of_nat) simp
  have "logic_to_buf_from (logic_of_bytes bs) (unat ?n) 0 (unat ?n) = Some bs"
    using logic_to_buf_from_bytes [of 0 "length bs" bs "[]"] by (simp add: u)
  then obtain m where "pcie_glue_send_write a j (uint_to_logic addr) (logic_of_bytes bs) (uint_to_logic ?n)
       (uint_to_logic sz) c = push_msg a m c" "unat (m_size m) = length (m_data m)"
      "m_op m = PCIE_NET_OP_WRITE_MEM" "m_addr m = addr" "m_data m = bs"
    using send_write_push [of "uint_to_logic addr" addr "uint_to_logic ?n" ?n "logic_of_bytes bs" bs a j "uint_to_logic sz" c]
      logic_to_uint_at [of "[]" 0 addr "[]"] logic_to_uint_at [of "[]" 0 ?n "[]"] u by auto
  then show ?thesis by (intro that [of m]) (simp_all add: write_msg_def)
qed

lemma glue_writes_queue:
  "queues_inv c w rx pend tx ms \<Longrightarrow> distinct (map fst ws) \<Longrightarrow> \<forall>(a, _, bs, _)\<in>set ws. g_heap c a = None \<and> length bs < 2 ^ 16 \<Longrightarrow>
     \<exists>c' tx' ms'. glue_writes ws j c = Some c' \<and> queues_inv c' w rx pend (tx @ tx') (ms @ ms') \<and>
       list_all2 write_msg ws ms' \<and> set tx' = fst ` set ws \<and> sock c' = sock c"
proof (induction ws arbitrary: c tx ms)
  case (Cons x ws)
  obtain a addr bs sz where x: "x = (a, addr, bs, sz)" by (cases x) auto
  have a: "g_heap c a = None" "length bs < 2 ^ 16" using Cons.prems(3) by (auto simp: x)
  obtain m where m: "pcie_glue_send_write a j (uint_to_logic addr) (logic_of_bytes bs)
       (uint_to_logic (of_nat (length bs) :: u16)) (uint_to_logic sz) c = push_msg a m c"
    "write_msg (a, addr, bs, sz) m"
    by (rule glue_write_push [OF a(2)])
  have l: "unat (m_size m) = length (m_data m)" using m(2) by (simp add: write_msg_def)
  obtain c1 where c1: "push_msg a m c = Some c1" "queues_inv c1 w rx pend (tx @ [a]) (ms @ [m])"
    "\<forall>n. n \<notin> set tx \<longrightarrow> n \<noteq> a \<longrightarrow> g_heap c1 n = g_heap c n"
    by (rule push_msg_inv [OF Cons.prems(1) a(1) l])
  have sock: "sock c1 = sock c"
    using c1(1) by (auto simp: push_msg_def push_tx_def bind_eq_Some_conv split: prod.splits)
  have "\<forall>(b, _, bs, _)\<in>set ws. g_heap c1 b = None \<and> length bs < 2 ^ 16"
  proof (clarify, goal_cases)
    case (1 b ad bs' sz')
    have "g_heap c b = None" "length bs' < 2 ^ 16" "b \<noteq> a" using Cons.prems(2,3) 1 by (force simp: x)+
    then show ?case using c1(3) queues_nodes(2) [OF Cons.prems(1), of b] by auto
  qed
  then obtain c' tx' ms' where r: "glue_writes ws j c1 = Some c'"
    "queues_inv c' w rx pend ((tx @ [a]) @ tx') ((ms @ [m]) @ ms')" "list_all2 write_msg ws ms'"
    "set tx' = fst ` set ws" "sock c' = sock c1"
    using Cons.IH [OF c1(2)] Cons.prems(2) by fastforce
  show ?case
    by (rule exI [of _ c'], rule exI [of _ "a # tx'"], rule exI [of _ "m # ms'"])
      (use r m c1(1) sock in \<open>simp add: x\<close>)
qed simp

text \<open>
  C19. Writes the simulation makes with \<open>pcie_glue_send_write\<close>, their address, data and sizes given as
  logic vectors, go out on the connection in the order they were made when the event handler next
  runs: each is one memory write message with that address and the bytes of the data vector in their
  order, and its node is freed. The parameter \<open>_size\<close> has no effect, whatever it is: the message
  carries the whole vector of \<open>_data_size\<close> bytes, so it is not the write that was asked for, but writes
  past its end, exactly when \<open>_size\<close> is smaller, which is the case the comment describes.
\<close>

theorem glue_writes_on_wire:
  assumes "glue_reach s" and "gs_io s = Io_idle" and "f_head (g_tx (gs_c s)) = None" and "sk_snd (sock (gs_c s)) = []"
    and "distinct (map fst ws)" and "\<forall>(a, _, bs, _)\<in>set ws. g_heap (gs_c s) a = None \<and> length bs < 2 ^ 16"
  shows "\<exists>c1 c2 ms. glue_writes ws j (gs_c s) = Some c1 \<and> on_event evk_push c1 = Some (0, c2) \<and>
    list_all2 (\<lambda>w m. write_msg w m \<and> (m_data m = own_bytes w \<longleftrightarrow> \<not> partial_write w)) ws ms \<and>
    sk_tx (sock c2) = sk_tx (sock (gs_c s)) @ concat (map msg_frame ms) \<and>
    dom (g_heap c2) = dom (g_heap (gs_c s))"
proof -
  let ?c = "gs_c s"
  obtain rx pend tx ms where q: "queues_inv ?c None rx pend tx ms"
    using glue_invE [OF glue_reach_inv [OF assms(1)]] assms(2) by (metis wait_node.simps(1))
  have tx: "tx = []" "ms = []" using queues_rep(2,5) [OF q] assms(3) by (cases tx; auto simp: fifo_rep_def)+
  obtain c1 tx' ms' where c1: "glue_writes ws j ?c = Some c1" "queues_inv c1 None rx pend tx' ms'"
    "list_all2 write_msg ws ms'" "sock c1 = sock ?c"
    using glue_writes_queue [OF q assms(5,6), of j] tx by auto
  have k: "evk_push \<noteq> evk_quit" by (simp add: const_defs)
  obtain c2 where c2: "on_event evk_push c1 = Some (0, c2)" "queues_inv c2 None rx pend [] []"
    "sock c2 = (sock c1)\<lparr>sk_tx := sk_tx (sock c1) @ concat (map msg_frame ms')\<rparr>"
    using on_event_queues [OF c1(2) _ k] c1(4) assms(4) by auto
  have "dom (g_heap c2) = dom (g_heap ?c)" using queues_rep(6) [OF c2(2)] queues_rep(6) [OF q] tx by simp
  moreover have "list_all2 (\<lambda>w m. write_msg w m \<and> (m_data m = own_bytes w \<longleftrightarrow> \<not> partial_write w)) ws ms'"
    by (rule list_all2_mono [OF c1(3)]) (simp add: write_msg_own)
  ultimately show ?thesis using c1 c2 by (intro exI [of _ c1] exI [of _ c2] exI [of _ ms']) simp
qed

section \<open>Runs that exist\<close>

text \<open>A context before the thread starts, and a run in which the host reads once.\<close>

definition glue_zero :: glue where
  "glue_zero = \<lparr>server_fd = -1, net_fd = -1, ev_fd = -1, ev_fn = None, ev_data = 0,
     task_tm = \<lparr>tv_sec = 0, tv_usec = 0\<rparr>, task_fn = None, task_data = 0,
     sock = \<lparr>sk_rx = [], sk_tx = [], sk_snd = [], sk_fail = []\<rparr>,
     bar_size = [], bar_readfn = [], bar_writefn = [], bar_data = [], config = [],
     g_tx = fifo_init, g_rx = fifo_init, g_ev_fds = (-1, -1), g_reply = None, g_state = 0,
     g_heap = Map.empty, g_pipe = []\<rparr>"

definition env_zero :: tcp_env where
  "env_zero = \<lparr>te_gai = -1, te_socket = 3, te_bind = 0, te_listen = 0, te_accept = 4,
     te_conn = \<lparr>sk_rx = [], sk_tx = [], sk_snd = [], sk_fail = []\<rparr>\<rparr>"

lemma thread_init_sock:
  "te_gai e \<noteq> 0 \<Longrightarrow> thread_init env strtoul16 fds e self c0 = Some c \<Longrightarrow> sock c = sock c0"
proof -
  assume e: "te_gai e \<noteq> 0" and t: "thread_init env strtoul16 fds e self c0 = Some c"
  have b: "set_bars bsz i self n c = Some c' \<Longrightarrow> sock c' = sock c" for bsz i n and c c' :: glue
    by (induction n arbitrary: i c)
      (auto simp: pcie_set_bar_def Let_def bind_eq_Some_conv split: if_splits)
  obtain cf where cf: "init_common d = Some (d\<lparr>bar_size := replicate 6 0, bar_writefn := replicate 6 None,
     bar_readfn := replicate 6 None, config := cf d\<rparr>)" for d :: glue
    using init_common_shape by metis
  have i: "pcie_init_net e d = Some r \<Longrightarrow> sock (snd (snd r)) = sock d" for r and d :: glue
    using e by (auto simp: pcie_init_net_def cf pcie_net_init_def open_tcp_socket_def tcp_on_error_def Let_def)
  have v: "pcie_set_vendorid d x = Some r \<Longrightarrow> sock (snd r) = sock d"
    "pcie_set_deviceid d x = Some r \<Longrightarrow> sock (snd r) = sock d" for r x and d :: glue
    by (auto simp: pcie_set_vendorid_def pcie_set_deviceid_def pcie_write_config_safe_def bind_eq_Some_conv)
  show ?thesis
    using t unfolding thread_init_def Let_def pcie_add_event_def pcie_net_add_ev_def
    by (auto simp: bind_eq_Some_conv dest!: b i v)
qed

lemma start_example:
  obtains c where "thread_init (\<lambda>_. None) (\<lambda>_. 0) (5, 6) env_zero 0 glue_zero = Some c"
    and "glue_reach (glue_start c)" and "g_heap c = Map.empty" and "g_rx c = fifo_init" and "g_tx c = fifo_init"
    and "g_reply c = None" and "sk_snd (sock c) = []" and "sk_tx (sock c) = []" and "ev_fn c = Some On_event"
proof -
  obtain c where c: "thread_init (\<lambda>_. None) (\<lambda>_. 0) (5, 6) env_zero 0 glue_zero = Some c"
    "g_heap c = Map.empty" "g_rx c = fifo_init" "g_tx c = fifo_init" "g_reply c = None" "ev_fn c = Some On_event"
    using thread_init_ok [of "\<lambda>_. None" "\<lambda>_. 0" "(5, 6)" env_zero 0 glue_zero]
    by (auto simp: glue_zero_def)
  have "glue_reach (glue_start c)" by (rule glue_reach.start [OF c(1)]) (simp add: glue_zero_def)
  moreover have "sock c = sock glue_zero" by (rule thread_init_sock [OF _ c(1)]) (simp add: env_zero_def)
  ultimately show ?thesis using c by (intro that [of c]) (simp_all add: glue_zero_def)
qed

definition ex_access :: "bool \<Rightarrow> u64 \<Rightarrow> bar_access" where
  "ex_access r x = \<lparr>ba_is_replied = r, ba_is_read = 1, ba_bar = 0, ba_addr = 8, ba_size = 4, ba_data = le_bytes 8 x\<rparr>"

definition ex_read :: "glue \<Rightarrow> glue" where
  "ex_read c = c\<lparr>g_heap := [0 \<mapsto> \<lparr>fn_next = None, fn_u = Access (ex_access False 0)\<rparr>],
     g_rx := \<lparr>f_head = Some 0, f_tail = Some 0\<rparr>\<rparr>"

definition ex_taken :: "glue \<Rightarrow> glue" where
  "ex_taken c = c\<lparr>g_heap := [0 \<mapsto> \<lparr>fn_next = None, fn_u = Access (ex_access False 0)\<rparr>],
     g_rx := fifo_init, g_reply := Some 0\<rparr>"

definition ex_replied :: "glue \<Rightarrow> glue" where
  "ex_replied c = c\<lparr>g_heap := [0 \<mapsto> \<lparr>fn_next = None, fn_u = Access (ex_access True 42)\<rparr>],
     g_rx := fifo_init, g_reply := None\<rparr>"

lemma zero_bytes: "le_bytes 8 (0 :: u64) = replicate 8 0"
  by (rule nth_equalityI) (simp_all add: le_bytes_def)

lemma ex_steps:
  assumes c: "g_heap c = Map.empty" "g_rx c = fifo_init" "g_reply c = None"
  shows "on_bar_read_start 0 [] 0 8 (replicate 8 0) 4 c = Some (ex_read c)"
    and "pcie_glue_poll_rx_fifo (ex_read c) = Some (req_out (Rd 0 8 4), ex_taken c)"
    and "pcie_glue_send_reply (uint_to_logic (42 :: u64)) (ex_taken c) = Some (ex_replied c)"
    and "on_bar_read_finish 0 (replicate 8 0) 4 (ex_replied c) =
      Some (take 4 (le_bytes 8 (42 :: u64)) @ replicate 4 0, c\<lparr>g_heap := Map.empty\<rparr>)"
proof -
  have l: "logic_to_uint (uint_to_logic (42 :: u64)) 0 = Some (42 :: u64)"
    using logic_to_uint_at [of "[]" 0 "42 :: u64" "[]"] by simp
  show "on_bar_read_start 0 [] 0 8 (replicate 8 0) 4 c = Some (ex_read c)"
    using c by (simp add: on_bar_read_start_def fifo_alloc_access_node_def mem_read_def mem_write_def
        fifo_alloc_node_def push_rx_def fifo_push_node_def fifo_init_def ex_read_def ex_access_def zero_bytes replicate_add [symmetric])
  show "pcie_glue_poll_rx_fifo (ex_read c) = Some (req_out (Rd 0 8 4), ex_taken c)"
    using c by (simp add: pcie_glue_poll_rx_fifo_def fifo_pop_node_def ex_read_def ex_access_def ex_taken_def
        fifo_init_def)
  show "pcie_glue_send_reply (uint_to_logic (42 :: u64)) (ex_taken c) = Some (ex_replied c)"
    using l by (simp add: pcie_glue_send_reply_def ex_taken_def ex_replied_def put_access_def ex_access_def
        mem_write_def)
  show "on_bar_read_finish 0 (replicate 8 0) 4 (ex_replied c) =
      Some (take 4 (le_bytes 8 (42 :: u64)) @ replicate 4 0, c\<lparr>g_heap := Map.empty\<rparr>)"
    using c by (simp add: on_bar_read_finish_def ex_replied_def ex_access_def mem_read_def mem_write_def heap_free_def)
qed

text \<open>A host that reads four bytes at address 8 of BAR 0: waiting, and after the reply 42.\<close>

lemma wait_example:
  obtains s where "glue_reach s" and "gs_io s = Io_wait 0 (replicate 8 0) 4" and "\<not> is_replied 0 (gs_c s)"
    and "gs_issued s = [Rd 0 8 4]" and "gs_polled s = []" and "g_heap (gs_c s) 1 = None"
proof -
  obtain c where c: "glue_reach (glue_start c)" "g_heap c = Map.empty" "g_rx c = fifo_init" "g_reply c = None"
    by (rule start_example)
  have "glue_step (glue_start c) ((glue_start c)\<lparr>gs_c := ex_read c, gs_io := Io_wait 0 (replicate 8 0) 4,
      gs_issued := gs_issued (glue_start c) @ [Rd 0 8 4]\<rparr>)"
    by (rule glue_step.read_start) (use c ex_steps(1) [OF c(2-4)] in \<open>simp_all add: glue_start_def\<close>)
  from glue_reach.step [OF c(1) this] show ?thesis
    by (intro that) (auto simp: glue_start_def is_replied_def ex_read_def ex_access_def)
qed

lemma done_example:
  obtains s where "glue_reach s" and "gs_io s = Io_idle" and "gs_issued s = [Rd 0 8 4]" and "gs_replies s = [42]"
    and "f_head (g_rx (gs_c s)) = None"
proof -
  obtain c where c: "glue_reach (glue_start c)" "g_heap c = Map.empty" "g_rx c = fifo_init" "g_reply c = None"
    by (rule start_example)
  note e = ex_steps [OF c(2-4)]
  let ?s1 = "(glue_start c)\<lparr>gs_c := ex_read c, gs_io := Io_wait 0 (replicate 8 0) 4,
      gs_issued := gs_issued (glue_start c) @ [Rd 0 8 4]\<rparr>"
  have r1: "glue_reach ?s1"
    by (rule glue_reach.step [OF c(1) glue_step.read_start])
      (use c e(1) in \<open>simp_all add: glue_start_def\<close>)
  let ?s2 = "?s1\<lparr>gs_c := ex_taken c, gs_polled := gs_polled ?s1 @
      (if f_head (g_rx (gs_c ?s1)) = None then [] else [req_out (Rd 0 8 4)])\<rparr>"
  have r2: "glue_reach ?s2"
    by (rule glue_reach.step [OF r1 glue_step.poll]) (use e(2) in simp)
  let ?s3 = "?s2\<lparr>gs_c := ex_replied c, gs_replies := gs_replies ?s2 @
      (if g_reply (gs_c ?s2) = None then [] else [42])\<rparr>"
  have r3: "glue_reach ?s3"
    by (rule glue_reach.step [OF r2 glue_step.reply [where l_data = "uint_to_logic (42 :: u64)"]])
      (use e(3) logic_to_uint_at [of "[]" 0 "42 :: u64" "[]"] in simp_all)
  let ?d = "take 4 (le_bytes 8 (42 :: u64)) @ replicate 4 0"
  let ?s4 = "?s3\<lparr>gs_c := c\<lparr>g_heap := Map.empty\<rparr>, gs_io := Io_idle, gs_results := gs_results ?s3 @ [take 4 ?d]\<rparr>"
  have r4: "glue_reach ?s4"
    by (rule glue_reach.step [OF r3 glue_step.read_finish [where a = 0 and data = "replicate 8 0"]])
      (use e(4) in \<open>simp_all add: is_replied_def ex_replied_def ex_access_def\<close>)
  show ?thesis
    by (rule that [OF r4]) (use c in \<open>simp_all add: glue_start_def ex_taken_def fifo_init_def\<close>)
qed

theorem glue_requests_in_order_witness:
  "\<exists>s. glue_reach s \<and> gs_issued s = [Rd 0 8 4] \<and> gs_polled s = [req_out (Rd 0 8 4)]"
proof -
  obtain s where s: "glue_reach s" "gs_issued s = [Rd 0 8 4]" "f_head (g_rx (gs_c s)) = None"
    by (rule done_example)
  then show ?thesis using glue_requests_in_order [OF s(1)] by auto
qed

theorem glue_read_results_witness:
  "\<exists>s. glue_reach s \<and> gs_replies s = [42] \<and> gs_results s = [[42, 0, 0, 0]]"
proof -
  obtain s where s: "glue_reach s" "gs_io s = Io_idle" "gs_issued s = [Rd 0 8 4]" "gs_replies s = [42]"
    by (rule done_example)
  have "take 4 (le_bytes 8 (42 :: u64)) = [42, 0, 0, 0]" by (simp add: le_bytes_def upt_rec)
  then show ?thesis using glue_read_results [OF s(1,2)] s by (auto simp: reads_def read_result_def)
qed

theorem glue_calls_defined_witness:
  "\<exists>s. glue_reach s \<and> gs_issued s = [Rd 0 8 4] \<and> pcie_glue_poll_rx_fifo (gs_c s) \<noteq> None \<and>
     pcie_glue_send_write_buf 1 \<lparr>m_hsize = 7, m_op = 0, m_bar = 0, m_width = 0, m_addr = 0, m_size = 0, m_data = []\<rparr>
       (uint_to_logic (7 :: u64)) (replicate 9 0) (uint_to_logic (2 :: u16)) (gs_c s) \<noteq> None \<and>
     pcie_glue_send_write 1 \<lparr>m_hsize = 7, m_op = 0, m_bar = 0, m_width = 0, m_addr = 0, m_size = 0, m_data = []\<rparr>
       (uint_to_logic (7 :: u64)) (replicate 9 0) (uint_to_logic (2 :: u16)) [] (gs_c s) = None"
proof -
  let ?j = "\<lparr>m_hsize = 7, m_op = 0, m_bar = 0, m_width = 0, m_addr = 0, m_size = 0, m_data = []\<rparr> :: net_msg"
  obtain s where s: "glue_reach s" "gs_issued s = [Rd 0 8 4]" "g_heap (gs_c s) 1 = None" by (rule wait_example)
  have "logic_to_uint (uint_to_logic (2 :: u16)) 0 = Some (2 :: u16)"
    using logic_to_uint_at [of "[]" 0 "2 :: u16" "[]"] by simp
  then show ?thesis
    using glue_calls_defined [OF s(1,3), where l_addr = "uint_to_logic (7 :: u64)" and l_ds = "uint_to_logic (2 :: u16)"
        and ds = 2 and l_vec = "replicate 9 0" and j = ?j and l_sz = "[]"] s(1,2)
    by auto
qed

lemma thread_fini_frees_all_witness:
  "\<exists>s calls c. glue_reach s \<and> gs_issued s = [Rd 0 8 4] \<and> thread_fini (gs_c s) = Some (calls, c) \<and> g_heap c = Map.empty"
proof -
  obtain s where s: "glue_reach s" "gs_io s = Io_idle" "gs_issued s = [Rd 0 8 4]" by (rule done_example)
  then show ?thesis using thread_fini_frees_all [OF s(1,2)] by blast
qed

theorem glue_read_completes_witness:
  "\<exists>s k c1 c2. glue_reach s \<and> gs_issued s = [Rd 0 8 4] \<and> polls k (gs_c s) = Some c1 \<and>
     pcie_glue_send_reply (uint_to_logic (42 :: u64)) c1 = Some c2 \<and> is_replied 0 c2"
proof -
  obtain s where s: "glue_reach s" "gs_io s = Io_wait 0 (replicate 8 0) 4" "\<not> is_replied 0 (gs_c s)"
    "gs_issued s = [Rd 0 8 4]" by (rule wait_example)
  obtain k c1 c2 where "polls k (gs_c s) = Some c1" "pcie_glue_send_reply (uint_to_logic (42 :: u64)) c1 = Some c2"
    "is_replied 0 c2"
    using glue_read_completes [OF s(1-3), of 42] by blast
  then show ?thesis using s(1,4) by blast
qed

theorem glue_writes_on_wire_witness:
  "\<exists>c c1 c2 m m'. glue_writes [(0, 0x1000, [1, 2, 3], 2), (1, 0x2000, [4], 1)]
       \<lparr>m_hsize = 7, m_op = 0, m_bar = 0, m_width = 0, m_addr = 0, m_size = 0, m_data = []\<rparr> c = Some c1 \<and>
     on_event evk_push c1 = Some (0, c2) \<and> sk_tx (sock c2) = msg_frame m @ msg_frame m' \<and>
     m_addr m = 0x1000 \<and> m_data m = [1, 2, 3] \<and> m_addr m' = 0x2000 \<and> m_data m' = [4]"
proof -
  obtain c where c: "glue_reach (glue_start c)" "g_heap c = Map.empty" "g_tx c = fifo_init"
    "sk_snd (sock c) = []" "sk_tx (sock c) = []" by (rule start_example)
  let ?ws = "[(0, 0x1000, [1, 2, 3], 2), (1, 0x2000, [4], 1)] :: sim_wr list"
  let ?j = "\<lparr>m_hsize = 7, m_op = 0, m_bar = 0, m_width = 0, m_addr = 0, m_size = 0, m_data = []\<rparr> :: net_msg"
  obtain c1 c2 ms where w: "glue_writes ?ws ?j c = Some c1" "on_event evk_push c1 = Some (0, c2)"
    "list_all2 (\<lambda>w m. write_msg w m \<and> (m_data m = own_bytes w \<longleftrightarrow> \<not> partial_write w)) ?ws ms"
    "sk_tx (sock c2) = concat (map msg_frame ms)"
    using glue_writes_on_wire [OF c(1), of ?ws ?j] c by (auto simp: glue_start_def fifo_init_def)
  obtain m m' where "ms = [m, m']" "write_msg (0, 0x1000, [1, 2, 3], 2) m" "write_msg (1, 0x2000, [4], 1) m'"
    using w(3) by (auto simp: list_all2_Cons1)
  then show ?thesis using w by (fastforce simp: write_msg_def)
qed

text \<open>
  The conversions to and from the simulator's vectors: a number of any width is read back from
  its vector, and a buffer laid out as the simulator does, last byte first, is read back in order.
\<close>

lemma logic_vectors_roundtrip:
  assumes "n \<le> length bs" and "n \<le> length buf"
  shows "logic_to_uint (uint_to_logic (x :: 'a::len word)) 0 = Some x \<and>
    logic_to_buf (logic_of_bytes bs) (length bs) n buf = Some (take n bs @ drop n buf)"
  using assms logic_to_uint_at [of "[]" 0 x "[]"] logic_to_buf_from_bytes [of 0 n bs "[]"]
  by (simp add: logic_to_buf_def mem_write_def)

lemma logic_vectors_roundtrip_witness:
  "logic_to_uint (uint_to_logic (0x1234 :: u16)) 0 = Some (0x1234 :: u16) \<and>
   logic_to_buf (logic_of_bytes [1, 2, 3]) 3 2 [0, 0, 9] = Some [1, 2, 9]"
  using logic_vectors_roundtrip [of 2 "[1, 2, 3]" "[0, 0, 9]" "0x1234 :: u16"] by (simp add: numeral_eq_Suc)


section \<open>The end of the program\<close>

lemma glue_reach_frame:
  assumes "glue_reach s" and "gs_io s = Io_idle" and "g_heap c = g_heap (gs_c s)"
    and "g_rx c = g_rx (gs_c s)" and "g_tx c = g_tx (gs_c s)" and "g_reply c = g_reply (gs_c s)"
  shows "glue_reach (s\<lparr>gs_c := c\<rparr>)"
  by (rule glue_reach.step [OF assms(1) glue_step.other]) (use assms in simp_all)

lemma send_nodes_ev: "send_nodes p c = Some c' \<Longrightarrow> ev_fn c' = ev_fn c \<and> g_ev_fds c' = g_ev_fds c"
proof (induction rule: send_nodes.raw_induct [rotated, consumes 1, case_names step])
  case (step f p c c')
  show ?case
  proof (cases p)
    case None
    then show ?thesis using step(2) by simp
  next
    case (Some pos)
    then obtain x :: fnode where x: "(case fn_u x of Access _ \<Rightarrow> None
       | Send_msg m \<Rightarrow> do {
             (_, m, c) \<leftarrow> pcie_net_send_msg c m;
             h \<leftarrow> heap_free pos (g_heap c);
             f (fn_next x) (c\<lparr>g_heap := h\<rparr>) }) = Some c'"
      using step(2) by (auto simp: bind_eq_Some_conv)
    then obtain m r m2 c2 h where x: "pcie_net_send_msg c m = Some (r, m2, c2)"
      "f (fn_next x) (c2\<lparr>g_heap := h\<rparr>) = Some c'"
      by (cases "fn_u x") (auto simp: bind_eq_Some_conv)
    have "ev_fn c2 = ev_fn c" "g_ev_fds c2 = g_ev_fds c"
      using x(1) by (auto simp: pcie_net_send_msg_def pcie_net_send_buf_def Let_def bind_eq_Some_conv split: prod.splits)
    then show ?thesis using step(1) [OF x(2)] by simp
  qed
qed

lemma on_event_ev: "on_event k c = Some (r, c') \<Longrightarrow> ev_fn c' = ev_fn c \<and> g_ev_fds c' = g_ev_fds c"
  by (auto simp: on_event_def bind_eq_Some_conv split: if_splits dest!: send_nodes_ev)

text \<open>The keys of the pipe, whatever they are, are handled; the one to quit stops the loop.\<close>

lemma quit_stops:
  "\<lbrakk>glue_reach s; gs_io s = Io_idle; ev_fn (gs_c s) = Some On_event\<rbrakk> \<Longrightarrow>
   \<exists>c. net_ev_keys glue_call_ev (ks @ [evk_quit]) stop (gs_c s) = Some (True, c) \<and>
     glue_reach (s\<lparr>gs_c := c\<rparr>) \<and> g_ev_fds c = g_ev_fds (gs_c s)"
proof (induction ks arbitrary: s stop)
  case Nil
  then show ?case by (simp add: on_event_def)
next
  case (Cons k ks)
  obtain r c where c: "on_event k (gs_c s) = Some (r, c)"
    using event_step_ok [OF glue_reach_inv [OF Cons.prems(1)] Cons.prems(2), of k] by blast
  have "glue_reach (s\<lparr>gs_c := c\<rparr>)"
    by (rule glue_reach.step [OF Cons.prems(1) glue_step.event]) (use c Cons.prems(2) in simp_all)
  with Cons.IH [of "s\<lparr>gs_c := c\<rparr>" "stop \<or> r \<noteq> 0"] Cons.prems c on_event_ev [OF c] show ?case by simp
qed

text \<open>
  C38. When the simulation returns and no access of the host is under way, the program ends
  well: the key that the join writes makes the network thread leave its loop whatever keys come
  before it, the thread frees every node of both queues exactly once, leaves nothing allocated
  and closes both ends of the pipe.
\<close>

theorem program_shuts_down:
  assumes "glue_reach s" and "gs_io s = Io_idle" and "ev_fn (gs_c s) = Some On_event"
    and "ghdl_program 0 1 (\<lambda>_. gs_c s) c0 = (r, c1)"
  shows "r = 0 \<and> g_state c1 = 0 \<and> last (g_pipe c1) = evk_quit \<and>
    (\<exists>c2 calls c3. net_ev_keys glue_call_ev (ks @ [evk_quit]) stop c1 = Some (True, c2) \<and>
       thread_fini c2 = Some (calls, c3) \<and> g_heap c3 = Map.empty \<and>
       {fst (g_ev_fds c1), snd (g_ev_fds c1)} \<subseteq> set (closes calls))"
proof -
  have c1: "r = 0" "c1 = pcie_glue_join_thread (gs_c s)"
    using assms(4) by (simp_all add: ghdl_program_def pcie_glue_create_thread_def Let_def)
  let ?s1 = "s\<lparr>gs_c := c1\<rparr>"
  have r1: "glue_reach ?s1" "gs_io ?s1 = Io_idle" "ev_fn (gs_c ?s1) = Some On_event"
    using glue_reach_frame [OF assms(1,2), of c1] assms(2,3) by (simp_all add: c1(2) pcie_glue_join_thread_def)
  obtain c2 where c2: "net_ev_keys glue_call_ev (ks @ [evk_quit]) stop c1 = Some (True, c2)"
    "glue_reach (s\<lparr>gs_c := c2\<rparr>)" "g_ev_fds c2 = g_ev_fds c1"
    using quit_stops [OF r1, of ks stop] by auto
  from thread_fini_frees_all [OF c2(2)] assms(2)
  obtain calls c3 where "thread_fini c2 = Some (calls, c3)" "g_heap c3 = Map.empty"
    "{fst (g_ev_fds c2), snd (g_ev_fds c2)} \<subseteq> set (closes calls)" by auto
  then show ?thesis using c1 c2(1,3) by (simp add: pcie_glue_join_thread_def)
qed

theorem program_shuts_down_witness:
  "\<exists>c c1 c2 calls c3. glue_reach (glue_start c) \<and> ghdl_program 0 1 (\<lambda>_. c) glue_zero = (0, c1) \<and>
     net_ev_keys glue_call_ev [evk_push, evk_quit] False c1 = Some (True, c2) \<and>
     thread_fini c2 = Some (calls, c3) \<and> g_heap c3 = Map.empty"
proof -
  obtain c where c: "glue_reach (glue_start c)" "ev_fn c = Some On_event" by (rule start_example)
  let ?r = "ghdl_program 0 1 (\<lambda>_. gs_c (glue_start c)) glue_zero"
  have "gs_io (glue_start c) = Io_idle" "ev_fn (gs_c (glue_start c)) = Some On_event" "gs_c (glue_start c) = c"
    using c(2) by (simp_all add: glue_start_def)
  moreover have "?r = (fst ?r, snd ?r)" by simp
  ultimately show ?thesis
    using program_shuts_down [OF c(1), of glue_zero "fst ?r" "snd ?r" "[evk_push]" False] c(1)
    by (auto simp: prod_eq_iff intro!: exI)
qed

end
