(* ===== verification/Sbone_User.thy ===== *)
theory Sbone_User
  imports Vm_Bridge "HOL-Library.Multiset"
begin

text \<open>
  The user library and program of the SBONE devices: \<open>src/src/sbone/u/sbone_dev.c\<close> finds the device
  with libpci, measures its BARs, maps them out of \<open>/dev/mem\<close> and opens the file of the driver;
  \<open>src/src/sbone/u/main.c\<close> writes registers, reads them back and waits for an interrupt.

  libpci and the operating system are arguments: accesses to the configuration space are functions
  on a state (\<open>pci_lib\<close>), what the calls of \<open>open\<close> return is the record \<open>lib_env\<close>, and all calls that take
  or give back something are logged, in order, as \<open>lib_call\<close>s.
\<close>

section \<open>libpci and the operating system\<close>

text \<open>\<open>pl_method\<close> is the field \<open>method\<close> of \<open>struct pci_access\<close>, \<open>pl_type1\<close> is \<open>PCI_ACCESS_I386_TYPE1\<close>.\<close>

record 's pci_lib =
  pl_read :: "int \<Rightarrow> 's \<Rightarrow> u32 \<times> 's"
  pl_write :: "int \<Rightarrow> u32 \<Rightarrow> 's \<Rightarrow> 's"
  pl_method :: "'s \<Rightarrow> nat"
  pl_set_method :: "nat \<Rightarrow> 's \<Rightarrow> 's"
  pl_type1 :: nat

text \<open>
  Whether \<open>pci_alloc\<close> and \<open>pci_get_dev\<close> succeed, the addresses and sizes \<open>pci_fill_info\<close> finds, the
  descriptors the two \<open>open\<close>s return, and the address each \<open>mmap\<close> returns.
\<close>

record lib_env =
  le_alloc :: bool
  le_get_dev :: bool
  le_base :: "nat \<Rightarrow> u64"
  le_size :: "nat \<Rightarrow> u64"
  le_mem_fd :: int
  le_mmap :: "nat \<Rightarrow> u64"
  le_dev_fd :: int

datatype lib_call = Lc_pci_alloc | Lc_pci_init | Lc_pci_scan_bus | Lc_pci_get_dev int int int int bool
  | Lc_pci_fill_info | Lc_open_mem int | Lc_mmap u64 u64 u64 | Lc_munmap u64 u64 | Lc_open_dev int
  | Lc_close int | Lc_pci_free_dev | Lc_pci_cleanup

definition U_MAP_FAILED :: u64 where "U_MAP_FAILED = -1"

section \<open>The library\<close>

record sbone_udev =
  su_fd :: int
  su_nid :: int
  su_addrs :: "u64 list"
  su_sizes :: "u64 list"

datatype sbone_err = SBONE_ERR_SUCCESS | SBONE_ERR_ALREADY | SBONE_ERR_FAILURE

definition sbone_dev_fd :: "sbone_udev \<Rightarrow> int" where "sbone_dev_fd = su_fd"

definition get_bar_size :: "'s pci_lib \<Rightarrow> nat \<Rightarrow> 's \<Rightarrow> u64 \<times> 's" where
  "get_bar_size lib i s =
     (let saved_method = pl_method lib s;
          addr = 0x10 + int i * 4;
          s = pl_set_method lib (pl_type1 lib) s;
          (saved_long, s) = pl_read lib addr s;
          s = pl_write lib addr (-1) s;
          (size1, s) = pl_read lib addr s;
          size1 = size1 AND NOT PCI_ADDR_FLAG_MASK;
          size1 = NOT size1 + 1;
          s = pl_write lib addr saved_long s;
          s = pl_set_method lib saved_method s
      in (ucast size1, s))"

text \<open>
  One turn of the loop that maps the BARs, and the loop. The flag tells that a mapping failed, which
  ends the loop. In the failing turn \<open>munmap\<close> is called once for each earlier BAR, each time with
  the address and size of the BAR that failed.
\<close>

definition open_map_bar ::
  "'s pci_lib \<Rightarrow> lib_env \<Rightarrow> nat \<Rightarrow> sbone_udev \<times> lib_call list \<times> 's \<Rightarrow> bool \<times> sbone_udev \<times> lib_call list \<times> 's" where
  "open_map_bar lib e i = (\<lambda>(dev, cs, s).
     let (sz, s) = (if le_base e i \<noteq> 0 then get_bar_size lib i s else (le_size e i, s));
         dev = dev\<lparr>su_sizes := (su_sizes dev)[i := sz]\<rparr>
     in if su_sizes dev ! i = 0 then (False, dev, cs, s)
        else let a = le_mmap e i;
                 cs = cs @ [Lc_mmap sz (le_base e i) a];
                 dev = dev\<lparr>su_addrs := (su_addrs dev)[i := a]\<rparr>
        in if su_addrs dev ! i = U_MAP_FAILED then
             (True, dev, cs @ replicate i (Lc_munmap (su_addrs dev ! i) (su_sizes dev ! i)), s)
           else (False, dev, cs, s))"

fun open_map_bars ::
  "'s pci_lib \<Rightarrow> lib_env \<Rightarrow> nat list \<Rightarrow> sbone_udev \<times> lib_call list \<times> 's \<Rightarrow>
     bool \<times> sbone_udev \<times> lib_call list \<times> 's" where
  "open_map_bars lib e [] st = (False, st)"
| "open_map_bars lib e (i # is) st =
     (case open_map_bar lib e i st of
        (True, st) \<Rightarrow> (True, st) | (False, st) \<Rightarrow> open_map_bars lib e is st)"

definition SBONE_NBAR :: nat where [const_defs]: "SBONE_NBAR = 6"

text \<open>The error labels, and \<open>sbone_dev_open_pcie\<close>. Success runs through them too, with \<open>err\<close> 0.\<close>

definition open_error_1 :: "lib_call list" where "open_error_1 = [Lc_pci_cleanup]"
definition open_error_2 :: "lib_call list" where "open_error_2 = Lc_pci_free_dev # open_error_1"
definition open_error_3 :: "int \<Rightarrow> lib_call list" where "open_error_3 mem_fd = Lc_close mem_fd # open_error_2"

definition sbone_dev_open_pcie ::
  "'s pci_lib \<Rightarrow> lib_env \<Rightarrow> int \<Rightarrow> int \<Rightarrow> int \<Rightarrow> int \<Rightarrow> sbone_udev \<Rightarrow> 's \<Rightarrow>
     int \<times> sbone_udev \<times> lib_call list \<times> 's" where
  "sbone_dev_open_pcie lib e dm bus dv fn dev s =
     (let dev = dev\<lparr>su_sizes := replicate SBONE_NBAR 0\<rparr>;
          dev = dev\<lparr>su_nid := -1\<rparr>;
          cs = [Lc_pci_alloc] in
      if \<not> le_alloc e then (-1, dev, [], s)
      else let cs = cs @ [Lc_pci_init, Lc_pci_scan_bus, Lc_pci_get_dev dm bus dv fn (le_get_dev e)] in
      if \<not> le_get_dev e then (-1, dev, cs @ open_error_1, s)
      else let cs = cs @ [Lc_pci_fill_info, Lc_open_mem (le_mem_fd e)] in
      if le_mem_fd e = -1 then (-1, dev, cs @ open_error_2, s)
      else case open_map_bars lib e [0..<SBONE_NBAR] (dev, cs, s) of
          (True, dev, cs, s) \<Rightarrow> (-1, dev, cs @ open_error_3 (le_mem_fd e), s)
        | (False, dev, cs, s) \<Rightarrow>
            let dev = dev\<lparr>su_fd := le_dev_fd e\<rparr>; cs = cs @ [Lc_open_dev (le_dev_fd e)] in
            if su_fd dev = -1 then (-1, dev, cs @ open_error_3 (le_mem_fd e), s)
            else (0, dev, cs @ open_error_3 (le_mem_fd e), s))"

definition sbone_dev_close :: "sbone_udev \<Rightarrow> sbone_err \<times> lib_call list" where
  "sbone_dev_close dev = (SBONE_ERR_SUCCESS,
     concat (map (\<lambda>i. if su_sizes dev ! i = 0 then [] else [Lc_munmap (su_addrs dev ! i) (su_sizes dev ! i)])
       [0..<SBONE_NBAR]) @ [Lc_close (su_fd dev)])"

section \<open>The program\<close>

text \<open>
  What the program uses besides the library: 32-bit accesses to mapped memory, the ioctl with the
  count it stores, and \<open>select\<close> on the file.
\<close>

record 's sbone_os =
  bo_load32 :: "u64 \<Rightarrow> 's \<Rightarrow> u32 \<times> 's"
  bo_store32 :: "u64 \<Rightarrow> u32 \<Rightarrow> 's \<Rightarrow> 's"
  bo_get_irqcount :: "int \<Rightarrow> 's \<Rightarrow> int \<times> u64 \<times> 's"
  bo_select :: "int \<Rightarrow> 's \<Rightarrow> int \<times> 's"

text \<open>\<open>None\<close> when the count of the caller is left alone.\<close>

definition get_irqcount :: "'s sbone_os \<Rightarrow> int \<Rightarrow> 's \<Rightarrow> int \<times> u64 option \<times> 's" where
  "get_irqcount os fd s = (let (r, count1, s) = bo_get_irqcount os fd s in
     if r \<noteq> 0 then (-1, None, s) else (0, Some count1, s))"

definition clear_irqcount :: "'s sbone_os \<Rightarrow> int \<Rightarrow> 's \<Rightarrow> int \<times> 's" where
  "clear_irqcount os fd s = (let (r, _, s) = get_irqcount os fd s in (r, s))"

definition r_reg :: "'s sbone_os \<Rightarrow> sbone_udev \<Rightarrow> u64 \<Rightarrow> 's \<Rightarrow> u64 \<times> 's" where
  "r_reg os d a s = (let (x, s) = bo_load32 os (su_addrs d ! 1 + a) s in (ucast x, s))"

definition w_reg :: "'s sbone_os \<Rightarrow> sbone_udev \<Rightarrow> u64 \<Rightarrow> u64 \<Rightarrow> 's \<Rightarrow> 's" where
  "w_reg os d a x s = bo_store32 os (su_addrs d ! 1 + a) (ucast x) s"

definition e_byte :: "u32 \<Rightarrow> u64" where
  "e_byte i = of_le (replicate 8 (ucast i :: byte))"

text \<open>The loop of \<open>main\<close>, with the number it prints: \<open>None\<close> if it never ends.\<close>

partial_function (option) irq_loop :: "'s sbone_os \<Rightarrow> int \<Rightarrow> 's \<Rightarrow> (u64 \<times> 's) option" where
  "irq_loop os fd s = (case bo_select os fd s of (n, s) \<Rightarrow>
     if n > 0 then
       (case get_irqcount os fd s of (_, c, s) \<Rightarrow> Some (case c of None \<Rightarrow> 0 | Some x \<Rightarrow> x, s))
     else irq_loop os fd s)"

text \<open>The result, the numbers printed in order, and the calls of the library.\<close>

definition sbone_main ::
  "'s pci_lib \<Rightarrow> lib_env \<Rightarrow> 's sbone_os \<Rightarrow> sbone_udev \<Rightarrow> 's \<Rightarrow> (int \<times> u64 list \<times> lib_call list \<times> 's) option" where
  "sbone_main lib e os dev s =
     (let (r, dev, cs, s) = sbone_dev_open_pcie lib e 0 0 4 0 dev s in
      if r \<noteq> 0 then Some (-1, [], cs, s)
      else if su_sizes dev ! 1 = 0 then Some (-1, [], cs @ snd (sbone_dev_close dev), s)
      else let s = fold (\<lambda>i s. w_reg os dev (of_nat i * 8) (e_byte (of_nat i)) s) [0..<4] s;
               (x, s) = r_reg os dev 0x10 s;
               (y, s) = r_reg os dev 0x18 s;
               (_, s) = clear_irqcount os (su_fd dev) s;
               s = w_reg os dev 0x20 0 s
           in do {
             (n, s) \<leftarrow> irq_loop os (su_fd dev) s;
             Some (0, [x, y, n], cs @ snd (sbone_dev_close dev), s) })"

section \<open>What the library holds\<close>

text \<open>Mappings, descriptors, accesses and devices taken and not given back.\<close>

record lib_ledger =
  ll_maps :: "(u64 \<times> u64) multiset"
  ll_fds :: "int multiset"
  ll_access :: int
  ll_devs :: int

fun lib_upd :: "lib_call \<Rightarrow> lib_ledger \<Rightarrow> lib_ledger" where
  "lib_upd Lc_pci_alloc l = l\<lparr>ll_access := ll_access l + 1\<rparr>"
| "lib_upd Lc_pci_cleanup l = l\<lparr>ll_access := ll_access l - 1\<rparr>"
| "lib_upd (Lc_pci_get_dev _ _ _ _ b) l = (if b then l\<lparr>ll_devs := ll_devs l + 1\<rparr> else l)"
| "lib_upd Lc_pci_free_dev l = l\<lparr>ll_devs := ll_devs l - 1\<rparr>"
| "lib_upd (Lc_open_mem fd) l = (if fd \<noteq> -1 then l\<lparr>ll_fds := add_mset fd (ll_fds l)\<rparr> else l)"
| "lib_upd (Lc_open_dev fd) l = (if fd \<noteq> -1 then l\<lparr>ll_fds := add_mset fd (ll_fds l)\<rparr> else l)"
| "lib_upd (Lc_close fd) l = l\<lparr>ll_fds := ll_fds l - {#fd#}\<rparr>"
| "lib_upd (Lc_mmap sz off a) l = (if a \<noteq> U_MAP_FAILED then l\<lparr>ll_maps := add_mset (a, sz) (ll_maps l)\<rparr> else l)"
| "lib_upd (Lc_munmap a sz) l = l\<lparr>ll_maps := ll_maps l - {#(a, sz)#}\<rparr>"
| "lib_upd _ l = l"

definition nothing_held :: lib_ledger where
  "nothing_held = \<lparr>ll_maps = {#}, ll_fds = {#}, ll_access = 0, ll_devs = 0\<rparr>"

definition lib_held :: "lib_call list \<Rightarrow> lib_ledger" where
  "lib_held cs = fold lib_upd cs nothing_held"

lemma lib_held_append: "lib_held (cs @ ds) = fold lib_upd ds (lib_held cs)"
  by (simp add: lib_held_def)

text \<open>The mappings the device record describes, and those a sequence of calls has made.\<close>

definition bar_maps :: "sbone_udev \<Rightarrow> nat list \<Rightarrow> (u64 \<times> u64) multiset" where
  "bar_maps dev is = mset (map (\<lambda>i. (su_addrs dev ! i, su_sizes dev ! i)) (filter (\<lambda>i. su_sizes dev ! i \<noteq> 0) is))"

definition made_maps :: "lib_call list \<Rightarrow> (u64 \<times> u64) multiset" where
  "made_maps cs = mset (concat (map (\<lambda>c. case c of Lc_mmap sz off a \<Rightarrow> if a \<noteq> U_MAP_FAILED then [(a, sz)] else [] | _ \<Rightarrow> []) cs))"

lemma made_maps_simps [simp]:
  "made_maps [] = {#}" "made_maps (cs @ ds) = made_maps cs + made_maps ds"
  by (simp_all add: made_maps_def)

definition real_maps :: "lib_ledger \<Rightarrow> bool" where
  "real_maps l \<longleftrightarrow> (\<forall>m\<in>#ll_maps l. fst m \<noteq> U_MAP_FAILED)"

lemma munmap_failed: "real_maps l \<Longrightarrow> fold lib_upd (replicate n (Lc_munmap U_MAP_FAILED sz)) l = l"
proof (induction n)
  case (Suc n)
  have "(U_MAP_FAILED, sz) \<notin># ll_maps l" using Suc.prems by (auto simp: real_maps_def)
  then have "lib_upd (Lc_munmap U_MAP_FAILED sz) l = l" by (simp add: diff_single_trivial)
  then show ?case using Suc by (simp del: fold_replicate)
qed simp

lemma made_munmaps: "made_maps (replicate n (Lc_munmap a sz)) = {#}"
  by (induction n) (simp_all add: made_maps_def)

definition udev_ok :: "sbone_udev \<Rightarrow> bool" where
  "udev_ok dev \<longleftrightarrow> length (su_addrs dev) = 6 \<and> length (su_sizes dev) = 6"

text \<open>One turn of the loop.\<close>

lemma open_map_bar_cases:
  assumes "open_map_bar lib e i (dev, cs, s) = (b, dev', cs', s')" and "udev_ok dev" and "i < 6"
  shows "udev_ok dev' \<and> (\<forall>j. j \<noteq> i \<longrightarrow> su_addrs dev' ! j = su_addrs dev ! j \<and> su_sizes dev' ! j = su_sizes dev ! j) \<and>
    (\<exists>ds. cs' = cs @ ds \<and> (\<forall>l. real_maps l \<longrightarrow> fold lib_upd ds l = l\<lparr>ll_maps := ll_maps l + made_maps ds\<rparr>) \<and>
      (\<not> b \<longrightarrow> made_maps ds = bar_maps dev' [i]))"
proof -
  obtain sz s1 where sz: "(if le_base e i \<noteq> 0 then get_bar_size lib i s else (le_size e i, s)) = (sz, s1)" by force
  have l: "length (su_addrs dev) = 6" "length (su_sizes dev) = 6" using assms(2) by (simp_all add: udev_ok_def)
  consider "sz = 0" | "sz \<noteq> 0" "le_mmap e i = U_MAP_FAILED" | "sz \<noteq> 0" "le_mmap e i \<noteq> U_MAP_FAILED" by blast
  then show ?thesis
  proof cases
    case 1
    then show ?thesis
      using assms l sz by (auto simp: open_map_bar_def udev_ok_def bar_maps_def split: prod.splits if_splits)
  next
    case 2
    then have "cs' = cs @ Lc_mmap sz (le_base e i) U_MAP_FAILED # replicate i (Lc_munmap U_MAP_FAILED sz)" "b"
        "dev' = dev\<lparr>su_sizes := (su_sizes dev)[i := sz], su_addrs := (su_addrs dev)[i := U_MAP_FAILED]\<rparr>"
      using assms l sz by (simp_all add: open_map_bar_def Let_def)
    then show ?thesis
      using l by (auto simp: udev_ok_def munmap_failed made_munmaps made_maps_def simp del: fold_replicate)
  next
    case 3
    then have "cs' = cs @ [Lc_mmap sz (le_base e i) (le_mmap e i)]" "\<not> b"
        "dev' = dev\<lparr>su_sizes := (su_sizes dev)[i := sz], su_addrs := (su_addrs dev)[i := le_mmap e i]\<rparr>"
      using assms l sz by (simp_all add: open_map_bar_def Let_def)
    then show ?thesis using l assms(3) 3 by (auto simp: udev_ok_def made_maps_def bar_maps_def)
  qed
qed

lemma real_after: "real_maps l \<Longrightarrow> real_maps (l\<lparr>ll_maps := ll_maps l + made_maps ds\<rparr>)"
  by (auto simp: real_maps_def made_maps_def split: lib_call.splits if_splits)

lemma open_map_loop:
  "open_map_bars lib e is (dev, cs, s) = (b, dev', cs', s') \<Longrightarrow> udev_ok dev \<Longrightarrow> distinct is \<Longrightarrow> \<forall>i\<in>set is. i < 6 \<Longrightarrow>
    udev_ok dev' \<and> (\<forall>j. j \<notin> set is \<longrightarrow> su_addrs dev' ! j = su_addrs dev ! j \<and> su_sizes dev' ! j = su_sizes dev ! j) \<and>
    (\<exists>ds. cs' = cs @ ds \<and> (\<forall>l. real_maps l \<longrightarrow> fold lib_upd ds l = l\<lparr>ll_maps := ll_maps l + made_maps ds\<rparr>) \<and>
      (\<not> b \<longrightarrow> made_maps ds = bar_maps dev' is))"
proof (induction "is" arbitrary: dev cs s)
  case Nil
  then show ?case by (auto simp: bar_maps_def)
next
  case (Cons i "is")
  obtain b1 dev1 cs1 s1 where m: "open_map_bar lib e i (dev, cs, s) = (b1, dev1, cs1, s1)" by (metis prod_cases4)
  have "i < 6" using Cons.prems(4) by simp
  note c = open_map_bar_cases [OF m Cons.prems(2) this]
  then obtain ds1 where ds1: "cs1 = cs @ ds1"
    "\<And>l. real_maps l \<Longrightarrow> fold lib_upd ds1 l = l\<lparr>ll_maps := ll_maps l + made_maps ds1\<rparr>"
    "\<not> b1 \<Longrightarrow> made_maps ds1 = bar_maps dev1 [i]" by blast
  show ?case
  proof (cases b1)
    case True
    then have "b" "dev' = dev1" "cs' = cs1" using Cons.prems(1) m by simp_all
    then show ?thesis using c ds1(1,2) by auto
  next
    case False
    then have "open_map_bars lib e is (dev1, cs1, s1) = (b, dev', cs', s')" using Cons.prems(1) m by simp
    from Cons.IH [OF this] c Cons.prems(3,4) have r: "udev_ok dev'"
      "\<forall>j. j \<notin> set is \<longrightarrow> su_addrs dev' ! j = su_addrs dev1 ! j \<and> su_sizes dev' ! j = su_sizes dev1 ! j"
      "\<exists>ds. cs' = cs1 @ ds \<and> (\<forall>l. real_maps l \<longrightarrow> fold lib_upd ds l = l\<lparr>ll_maps := ll_maps l + made_maps ds\<rparr>) \<and>
        (\<not> b \<longrightarrow> made_maps ds = bar_maps dev' is)" by simp_all
    then obtain ds2 where ds2: "cs' = cs1 @ ds2"
      "\<And>l. real_maps l \<Longrightarrow> fold lib_upd ds2 l = l\<lparr>ll_maps := ll_maps l + made_maps ds2\<rparr>"
      "\<not> b \<Longrightarrow> made_maps ds2 = bar_maps dev' is" by blast
    have "bar_maps dev' (i # is) = bar_maps dev1 [i] + bar_maps dev' is"
      using r(2) Cons.prems(3) by (simp add: bar_maps_def)
    then have "\<not> b \<longrightarrow> made_maps (ds1 @ ds2) = bar_maps dev' (i # is)" using ds1(3) ds2(3) False by simp
    moreover have "fold lib_upd (ds1 @ ds2) l = l\<lparr>ll_maps := ll_maps l + made_maps (ds1 @ ds2)\<rparr>" if "real_maps l" for l
      using ds1(2) [OF that] ds2(2) [OF real_after [OF that]] by (simp add: add.assoc)
    ultimately show ?thesis using r(1,2) c ds1(1) ds2(1) by (intro conjI exI [of _ "ds1 @ ds2"]) auto
  qed
qed

lemma close_unmaps:
  "fold lib_upd (concat (map (\<lambda>i. if su_sizes dev ! i = 0 then [] else [Lc_munmap (su_addrs dev ! i) (su_sizes dev ! i)]) is)) l =
     l\<lparr>ll_maps := ll_maps l - bar_maps dev is\<rparr>"
  by (induction "is" arbitrary: l) (simp_all add: bar_maps_def)

text \<open>The state of the ledger after \<open>sbone_dev_open_pcie\<close>, on every path.\<close>

lemma open_ledger:
  assumes "sbone_dev_open_pcie lib e dm bus dv fn dev s = (r, dev', cs, s')" and "length (su_addrs dev) = 6"
  shows "(r = 0 \<and> su_fd dev' = le_dev_fd e \<and> le_dev_fd e \<noteq> -1 \<and>
      lib_held cs = nothing_held\<lparr>ll_maps := bar_maps dev' [0..<6], ll_fds := {#le_dev_fd e#}\<rparr>) \<or>
    (r = -1 \<and> lib_held cs = nothing_held\<lparr>ll_maps := made_maps cs\<rparr>)"
proof -
  let ?dev = "dev\<lparr>su_sizes := replicate 6 0, su_nid := -1\<rparr>"
  let ?cs = "[Lc_pci_alloc, Lc_pci_init, Lc_pci_scan_bus, Lc_pci_get_dev dm bus dv fn (le_get_dev e), Lc_pci_fill_info, Lc_open_mem (le_mem_fd e)]"
  obtain b dev1 cs1 s1 where m: "open_map_bars lib e [0..<6] (?dev, ?cs, s) = (b, dev1, cs1, s1)" by (metis prod_cases4)
  have "udev_ok ?dev" using assms(2) by (simp add: udev_ok_def)
  from open_map_loop [OF m this] obtain ds where ds: "cs1 = ?cs @ ds"
    "\<And>l. real_maps l \<Longrightarrow> fold lib_upd ds l = l\<lparr>ll_maps := ll_maps l + made_maps ds\<rparr>"
    "\<not> b \<Longrightarrow> made_maps ds = bar_maps dev1 [0..<6]" by auto
  let ?l = "nothing_held\<lparr>ll_fds := {#le_mem_fd e#}, ll_access := 1, ll_devs := 1\<rparr>"
  have l: "lib_held cs1 = ?l\<lparr>ll_maps := made_maps ds\<rparr>" if "le_get_dev e" "le_mem_fd e \<noteq> -1"
    using ds(2) [of ?l] that by (simp add: ds(1) lib_held_def nothing_held_def real_maps_def)
  have z: "made_maps ?cs = {#}" "made_maps (open_error_3 fd) = {#}" "made_maps [Lc_open_dev fd] = {#}"
    "made_maps (Lc_open_dev fd # open_error_3 fd') = {#}" for fd fd'
    by (simp_all add: made_maps_def open_error_1_def open_error_2_def open_error_3_def)
  have mc: "made_maps cs1 = made_maps ds" unfolding ds(1) made_maps_simps z by simp
  have e3: "fold lib_upd (open_error_3 (le_mem_fd e)) (?l\<lparr>ll_maps := M, ll_fds := add_mset (le_mem_fd e) F\<rparr>) =
      nothing_held\<lparr>ll_maps := M, ll_fds := F\<rparr>" for M F
    by (simp add: open_error_3_def open_error_2_def open_error_1_def nothing_held_def)
  consider "\<not> le_alloc e" | "le_alloc e" "\<not> le_get_dev e" | "le_alloc e" "le_get_dev e" "le_mem_fd e = -1"
    | "le_alloc e" "le_get_dev e" "le_mem_fd e \<noteq> -1" "b" | "le_alloc e" "le_get_dev e" "le_mem_fd e \<noteq> -1" "\<not> b" by blast
  then show ?thesis
  proof cases
    case 4
    then have "r = -1" "cs = cs1 @ open_error_3 (le_mem_fd e)"
      using assms(1) m by (simp_all add: sbone_dev_open_pcie_def SBONE_NBAR_def Let_def)
    then show ?thesis
      using l [OF 4(2,3)] e3 [where M = "made_maps ds" and F = "{#}"] z(2) mc by (simp add: lib_held_append nothing_held_def)
  next
    case 5
    then have r: "r = (if le_dev_fd e = -1 then -1 else 0)" "dev' = dev1\<lparr>su_fd := le_dev_fd e\<rparr>"
      "cs = cs1 @ Lc_open_dev (le_dev_fd e) # open_error_3 (le_mem_fd e)"
      using assms(1) m by (auto simp: sbone_dev_open_pcie_def SBONE_NBAR_def Let_def split: if_splits)
    have "lib_held cs = nothing_held\<lparr>ll_maps := made_maps ds, ll_fds := if le_dev_fd e = -1 then {#} else {#le_dev_fd e#}\<rparr>"
      using l [OF 5(2,3)] e3 [where M = "made_maps ds" and F = "{#}"] e3 [where M = "made_maps ds" and F = "{#le_dev_fd e#}"] unfolding r(3) lib_held_append
      by (auto simp: nothing_held_def add_mset_commute)
    moreover have "bar_maps dev' [0..<6] = bar_maps dev1 [0..<6]" by (simp add: bar_maps_def r(2))
    moreover have "made_maps cs = made_maps ds" unfolding r(3) made_maps_simps mc z by simp
    ultimately show ?thesis using r(1,2) ds(3) [OF 5(4)] by (auto simp: nothing_held_def)
  qed (use assms(1) in \<open>auto simp: sbone_dev_open_pcie_def lib_held_def nothing_held_def made_maps_def
      open_error_1_def open_error_2_def Let_def\<close>)
qed

lemma open_close_ledger:
  assumes "sbone_dev_open_pcie lib e dm bus dv fn dev s = (0, dev', cs, s')" and "length (su_addrs dev) = 6"
  shows "lib_held (cs @ snd (sbone_dev_close dev')) = nothing_held"
proof -
  have "lib_held cs = nothing_held\<lparr>ll_maps := bar_maps dev' [0..<6], ll_fds := {#su_fd dev'#}\<rparr>"
    using open_ledger [OF assms] by auto
  then show ?thesis
    unfolding lib_held_append sbone_dev_close_def snd_conv SBONE_NBAR_def fold_append comp_apply close_unmaps
    by (simp add: nothing_held_def)
qed

text \<open>
  C34. What \<open>sbone_dev_open_pcie\<close> and \<open>sbone_dev_close\<close> hold. A successful open holds the mappings of
  the BARs it found and the descriptor of the driver, nothing else, and close gives all of it back.
  A failed open gives back all descriptors and everything of libpci, and none of the mappings it
  made: all of them leak.
\<close>

theorem sbone_open_ledger:
  assumes "sbone_dev_open_pcie lib e dm bus dv fn dev s = (r, dev', cs, s')" and "length (su_addrs dev) = 6"
  shows "(r = 0 \<longrightarrow> ll_maps (lib_held cs) = bar_maps dev' [0..<6] \<and> ll_fds (lib_held cs) = {#su_fd dev'#} \<and>
      ll_access (lib_held cs) = 0 \<and> ll_devs (lib_held cs) = 0 \<and>
      lib_held (cs @ snd (sbone_dev_close dev')) = nothing_held) \<and>
    (r \<noteq> 0 \<longrightarrow> r = -1 \<and> lib_held cs = nothing_held\<lparr>ll_maps := made_maps cs\<rparr>)"
  using open_ledger [OF assms] open_close_ledger [OF _ assms(2)] assms(1) by (auto simp: nothing_held_def)

section \<open>The size of a BAR\<close>

text \<open>
  What the measurement needs of the configuration space: \<open>reg\<close> is the register of a BAR, \<open>sz\<close> its
  size, 0 for none, and \<open>ok\<close> the states the laws hold in.
\<close>

locale config_access =
  fixes lib :: "'s pci_lib" and ok :: "'s \<Rightarrow> bool" and reg sz :: "nat \<Rightarrow> 's \<Rightarrow> u32"
  assumes read_reg: "ok s \<Longrightarrow> i < 6 \<Longrightarrow> pl_read lib (0x10 + int i * 4) s = (reg i s, s)"
    and probe_reg: "ok s \<Longrightarrow> i < 6 \<Longrightarrow> sz i s \<noteq> 0 \<Longrightarrow> ok (pl_write lib (0x10 + int i * 4) (-1) s) \<and>
      reg i (pl_write lib (0x10 + int i * 4) (-1) s) = NOT (sz i s - 1)"
    and restore_reg: "ok s \<Longrightarrow> i < 6 \<Longrightarrow> reg i s \<noteq> -1 \<Longrightarrow>
      pl_write lib (0x10 + int i * 4) (reg i s) (pl_write lib (0x10 + int i * 4) (-1) s) = s"
    and set_ok: "ok s \<Longrightarrow> ok (pl_set_method lib m s)"
    and set_other: "reg i (pl_set_method lib m s) = reg i s" "sz i (pl_set_method lib m s) = sz i s"
    and set_back: "pl_set_method lib (pl_method lib s) (pl_set_method lib m s) = s"
begin

text \<open>The size is read exactly and the configuration space is left as it was.\<close>

lemma get_bar_size_exact:
  assumes "ok s" and "i < 6" and "sz i s \<noteq> 0" and "sz i s AND 0xf = 0" and "reg i s \<noteq> -1"
  shows "get_bar_size lib i s = (ucast (sz i s), s)"
proof -
  let ?s = "pl_set_method lib (pl_type1 lib) s"
  have k: "ok ?s" using set_ok [OF assms(1)] .
  have z: "sz i ?s \<noteq> 0" "reg i ?s \<noteq> -1" using assms(3,5) set_other by simp_all
  note p = probe_reg [OF k assms(2) z(1)]
  have m: "(0xf :: u32) = mask 4" by (simp add: mask_eq_exp_minus_1)
  have "push_bit 4 (drop_bit 4 (sz i s)) = sz i s"
    using arg_cong [OF assms(4) [unfolded m], of bit]
    by (intro bit_word_eqI) (fastforce simp: bit_simps fun_eq_iff not_le)
  then have "- sz i s = push_bit 4 (- drop_bit 4 (sz i s))" by (metis mult_minus_left push_bit_eq_mult)
  moreover have "push_bit 4 w AND NOT (mask 4) = push_bit 4 w" for w :: u32
    by (rule bit_word_eqI) (auto simp: bit_simps)
  ultimately have "- sz i s AND NOT 0xf = - sz i s" unfolding m by metis
  then have "NOT (NOT (sz i s - 1) AND NOT PCI_ADDR_FLAG_MASK) + 1 = sz i s"
    by (simp add: PCI_ADDR_FLAG_MASK_def not_eq_complement)
  then show ?thesis
    using read_reg [OF k assms(2)] read_reg [OF conjunct1 [OF p] assms(2)] p restore_reg [OF k assms(2) z(2)]
      set_other set_back
    by (simp add: get_bar_size_def Let_def)
qed

end

section \<open>An open that fails\<close>

text \<open>Two BARs whose sizes are known; the second mapping fails.\<close>

definition still_lib :: "unit pci_lib" where
  "still_lib = \<lparr>pl_read = \<lambda>_ s. (0, s), pl_write = \<lambda>_ _ s. s, pl_method = \<lambda>_. 0, pl_set_method = \<lambda>_ s. s, pl_type1 = 3\<rparr>"

definition fail_env :: lib_env where
  "fail_env = \<lparr>le_alloc = True, le_get_dev = True, le_base = (\<lambda>_. 0), le_size = (\<lambda>i. if i < 2 then 0x1000 else 0),
     le_mem_fd = 3, le_mmap = (\<lambda>i. if i = 0 then 0x7000 else U_MAP_FAILED), le_dev_fd = 4\<rparr>"

theorem sbone_open_ledger_witness:
  "\<exists>dev' cs. sbone_dev_open_pcie still_lib fail_env 0 0 4 0
      \<lparr>su_fd = 9, su_nid = 9, su_addrs = replicate 6 9, su_sizes = replicate 6 9\<rparr> () = (-1, dev', cs, ()) \<and>
    lib_held cs = nothing_held\<lparr>ll_maps := {#(0x7000, 0x1000)#}\<rparr>"
proof -
  let ?d = "\<lparr>su_fd = 9, su_nid = 9, su_addrs = replicate 6 9, su_sizes = replicate 6 9\<rparr>"
  have six: "[0..<6] = [0, 1, 2, 3, 4, 5 :: nat]" by (simp add: upt_rec)
  obtain dev' cs where o: "sbone_dev_open_pcie still_lib fail_env 0 0 4 0 ?d () = (-1, dev', cs, ())"
    "made_maps cs = {#(0x7000, 0x1000)#}"
    by (simp add: sbone_dev_open_pcie_def fail_env_def SBONE_NBAR_def six open_map_bar_def U_MAP_FAILED_def Let_def
        made_maps_def open_error_1_def open_error_2_def open_error_3_def)
  have "length (su_addrs ?d) = 6" by simp
  from sbone_open_ledger [OF o(1) this] show ?thesis using o by auto
qed

end
