(* ===== verification/Sbone_Driver.thy ===== *)
theory Sbone_Driver
  imports Drv_Core Kernel_User
begin

text \<open>
  The driver of the SBONE devices, \<open>src/src/sbone/k/sbone.c\<close> and \<open>sbone_ioctl.h\<close>. The bitmap of
  devices, the mapping of the BARs, \<open>probe\<close> and \<open>remove\<close> are the code of \<open>Drv_Core\<close>, instantiated
  for the structures of this driver; its own are the interrupt counter and the file operations.
\<close>

section \<open>State\<close>

text \<open>
  \<open>sbone_dev_t\<close>. The character device is known by the index of the device; of the wait queue only
  the wake-ups are counted.
\<close>

record sbone_dev = drv_dev +
  sb_irq_count :: atomic32
  sb_wakeups :: nat

definition SBONE_DEV_COUNT :: nat where [const_defs]: "SBONE_DEV_COUNT = 2"

type_synonym sbone_driver = "sbone_dev drv"

definition sbone_dev_init :: "sbone_dev \<Rightarrow> sbone_dev" where
  "sbone_dev_init dev = (let dev = dev_init_bars dev; dev = dev\<lparr>sb_wakeups := 0\<rparr>
     in dev\<lparr>sb_irq_count := atomic32_init (sb_irq_count dev)\<rparr>)"

definition sbone_driver_init :: "sbone_driver \<Rightarrow> sbone_driver" where
  "sbone_driver_init d = d\<lparr>d_bits := atomic32_init (d_bits d)\<rparr>"

definition sbone_irq_handler :: "sbone_dev \<Rightarrow> int \<times> sbone_dev" where
  "sbone_irq_handler dev =
     (let dev = dev\<lparr>sb_irq_count := snd (atomic32_inc (sb_irq_count dev))\<rparr>;
          dev = dev\<lparr>sb_wakeups := sb_wakeups dev + 1\<rparr>
      in (1, dev))"

section \<open>Devices\<close>

definition sbone_dev_alloc ::
  "(nat \<Rightarrow> atomic32 \<Rightarrow> atomic32) \<Rightarrow> sbone_driver \<Rightarrow> nat option \<times> sbone_driver" where
  "sbone_dev_alloc = dev_alloc sbone_dev_init SBONE_DEV_COUNT"

definition sbone_dev_free :: "nat \<Rightarrow> sbone_driver \<Rightarrow> sbone_driver" where
  "sbone_dev_free = dev_free"

definition sbone_is_dev_allocated :: "nat \<Rightarrow> sbone_driver \<Rightarrow> bool" where
  "sbone_is_dev_allocated = is_dev_allocated"

text \<open>\<open>base\<close> is the address of the table and \<open>sz\<close> the size of a \<open>sbone_dev_t\<close>.\<close>

definition sbone_is_dev_valid :: "u64 \<Rightarrow> u64 \<Rightarrow> u64 \<Rightarrow> bool" where
  "sbone_is_dev_valid base sz dev = is_dev_valid base sz SBONE_DEV_COUNT dev"

definition sbone_dev_unmap_bars :: "sbone_dev \<Rightarrow> kcall list \<times> sbone_dev" where
  "sbone_dev_unmap_bars = dev_unmap_bars"

definition sbone_dev_map_bars :: "probe_env \<Rightarrow> sbone_dev \<Rightarrow> int \<times> kcall list \<times> sbone_dev" where
  "sbone_dev_map_bars = dev_map_bars"

definition sbone_pci_error_detected :: "pci_channel_state \<Rightarrow> pci_ers_result \<times> kcall list" where
  "sbone_pci_error_detected = error_detected"

definition sbone_pci_mmio_enabled :: "pci_ers_result \<times> kcall list" where
  "sbone_pci_mmio_enabled = mmio_enabled"

definition sbone_pci_link_reset :: "pci_ers_result \<times> kcall list" where
  "sbone_pci_link_reset = link_reset"

definition sbone_pci_slot_reset :: "pci_ers_result \<times> kcall list" where
  "sbone_pci_slot_reset = slot_reset"

definition sbone_err_handler :: "ers_event \<Rightarrow> pci_ers_result option \<times> kcall list" where
  "sbone_err_handler = err_handler"

definition sbone_pci_ids :: "pci_id list" where "sbone_pci_ids = drv_pci_ids"

definition sbone_pci_probe ::
  "(nat \<Rightarrow> atomic32 \<Rightarrow> atomic32) \<Rightarrow> probe_env \<Rightarrow> ptr \<Rightarrow> sbone_driver \<Rightarrow>
     int \<times> kcall list \<times> sbone_driver" where
  "sbone_pci_probe others e pci drv = pci_probe sbone_dev_init SBONE_DEV_COUNT others e pci drv"

definition sbone_pci_remove :: "nat \<Rightarrow> sbone_driver \<Rightarrow> kcall list \<times> sbone_driver" where
  "sbone_pci_remove = pci_remove"

definition sbone_pci_driver :: "sbone_dev pci_driver" where
  "sbone_pci_driver = \<lparr>pd_id_table = sbone_pci_ids, pd_probe = sbone_pci_probe, pd_remove = sbone_pci_remove,
     pd_err_handler = sbone_err_handler\<rparr>"

section \<open>File operations\<close>

definition sbone_file_open :: "u64 \<Rightarrow> u64 \<Rightarrow> u64 \<Rightarrow> sbone_driver \<Rightarrow> int \<times> nat option" where
  "sbone_file_open base sz dev drv =
     (if \<not> (sbone_is_dev_valid base sz dev \<and>
            sbone_is_dev_allocated (unat (dev_to_bit32 base sz dev)) drv)
      then (- EFAULT, None)
      else (0, Some (unat (dev_to_bit32 base sz dev))))"

definition sbone_file_close :: "int \<times> nat option" where
  "sbone_file_close = (0, None)"

definition SBONE_IOCTL_GET_IRQCOUNT :: u32 where [const_defs]: "SBONE_IOCTL_GET_IRQCOUNT = 0x7300"

text \<open>
  \<open>sbone_file_ioctl\<close> on the device of the file: the result, the device and the memory of the
  process. The count is read and cleared in one atomic access, before the copy.
\<close>

definition sbone_file_ioctl :: "u32 \<Rightarrow> u64 \<Rightarrow> sbone_dev \<times> umem \<Rightarrow> int \<times> sbone_dev \<times> umem" where
  "sbone_file_ioctl cmd uaddr = (\<lambda>(dev, m).
     if cmd = SBONE_IOCTL_GET_IRQCOUNT then
       let (prev, x) = atomic32_and (sb_irq_count dev) 0; dev = dev\<lparr>sb_irq_count := x\<rparr>;
           count = ucast prev :: u64;
           (n, m) = copy_to_user m uaddr (le_bytes 8 count)
       in if n \<noteq> 0 then (- EINVAL, dev, m) else (0, dev, m)
     else (- ENOSYS, dev, m))"

definition sbone_file_poll :: "sbone_dev \<Rightarrow> u32" where
  "sbone_file_poll dev =
     (let mask = 0 in if sb_irq_count dev \<noteq> 0 then mask OR (POLLIN OR POLLRDNORM) else mask)"

text \<open>Only with \<open>HAVE_UNLOCKED_IOCTL\<close> is the function of the entry declared by that name.\<close>

definition sbone_fops where
  "sbone_fops = \<lparr>fo_unlocked_ioctl = Some sbone_file_ioctl, fo_ioctl = None, fo_open = sbone_file_open,
     fo_poll = sbone_file_poll, fo_release = sbone_file_close, fo_mmap = (None :: unit option)\<rparr>"

section \<open>The module\<close>

definition sbone_cdev_init :: "int \<Rightarrow> nat \<Rightarrow> sbone_driver \<Rightarrow> int \<times> mod_call list" where
  "sbone_cdev_init ret i drv =
     (let minor = int i; devno = MKDEV (d_major drv) minor in (ret, [Mc_cdev_add devno ret]))"

definition sbone_cdev_fini :: "mod_call list" where "sbone_cdev_fini = [Mc_cdev_del]"

definition sbone_pci_init :: "int \<Rightarrow> int \<times> mod_call list" where
  "sbone_pci_init pci_ret = (if pci_ret \<noteq> 0 then (pci_ret, [Mc_register_driver pci_ret])
     else (0, [Mc_register_driver pci_ret]))"

definition sbone_init :: "int \<Rightarrow> int \<Rightarrow> int \<Rightarrow> sbone_driver \<Rightarrow> int \<times> mod_call list \<times> sbone_driver" where
  "sbone_init region_ret first_dev pci_ret drv =
     (let ndev = SBONE_DEV_COUNT;
          drv = sbone_driver_init drv;
          calls = [Mc_alloc_chrdev_region ndev region_ret] in
      if region_ret < 0 then (region_ret, calls, drv)
      else let drv = drv\<lparr>d_major := MAJOR first_dev\<rparr>; (err, c) = sbone_pci_init pci_ret; calls = calls @ c in
      if err \<noteq> 0 then (err, calls @ [Mc_unregister_chrdev_region first_dev ndev], drv)
      else (0, calls, drv))"

definition sbone_exit :: "sbone_driver \<Rightarrow> mod_call list" where
  "sbone_exit drv = [Mc_unregister_driver,
     Mc_unregister_chrdev_region (MKDEV (d_major drv) 0) SBONE_DEV_COUNT]"

text \<open>Loading and unloading the module.\<close>

lemma sbone_module_balance:
  assumes "sbone_init region_ret first_dev pci_ret drv = (r, cs, drv')" and "first_dev mod 2 ^ 20 = 0"
  shows "(r = 0 \<longleftrightarrow> 0 \<le> region_ret \<and> pci_ret = 0) \<and>
    mod_held first_dev cs = (if r = 0 then ({(first_dev, SBONE_DEV_COUNT)}, True) else ({}, False)) \<and>
    (r = 0 \<longrightarrow> d_bits drv' = 0 \<and> mod_held first_dev (cs @ sbone_exit drv') = ({}, False))"
  using assms(1) first_minor [OF assms(2)]
  by (auto simp: sbone_init_def sbone_pci_init_def sbone_exit_def mod_held_def Let_def
      sbone_driver_init_def atomic32_init_def split: if_splits)

section \<open>Opening a device\<close>

interpretation sbone_alloc: dev_allocator "sbone_dev_alloc (\<lambda>_ b. b)" sbone_dev_free
  "used_devs SBONE_DEV_COUNT" SBONE_DEV_COUNT
  unfolding sbone_dev_alloc_def sbone_dev_free_def
  by (rule dev_allocator_impl) (simp add: SBONE_DEV_COUNT_def)

text \<open>Where the linker puts the table: it fits in the address space and is below 4 GiB long.\<close>

definition table_placed :: "u64 \<Rightarrow> u64 \<Rightarrow> bool" where
  "table_placed base sz \<longleftrightarrow> sz \<noteq> 0 \<and> unat base + 3 * unat sz \<le> 2 ^ 64 \<and> 2 * unat sz < 2 ^ 32"

lemma sbone_open_entry:
  assumes "table_placed base sz" and "i \<le> 2"
  shows "sbone_file_open base sz (base + of_nat i * sz) drv =
    (if i \<in> used_devs 2 drv then (0, Some i) else (- EFAULT, None))"
proof -
  have p: "sz \<noteq> 0" "unat base + Suc 2 * unat sz \<le> 2 ^ 64" "i * unat sz < 2 ^ 32"
  proof -
    show "sz \<noteq> 0" "unat base + Suc 2 * unat sz \<le> 2 ^ 64" using assms(1) by (simp_all add: table_placed_def)
    have "2 * unat sz < 2 ^ 32" using assms(1) by (simp add: table_placed_def)
    then show "i * unat sz < 2 ^ 32" using mult_le_mono1 [OF assms(2), of "unat sz"] by linarith
  qed
  show ?thesis
    using dev_address [OF p assms(2)] and_bit_iff [of "d_bits drv" i]
    by (auto simp: sbone_file_open_def sbone_is_dev_valid_def SBONE_DEV_COUNT_def sbone_is_dev_allocated_def
        is_dev_allocated_def used_devs_def)
qed

lemma sbone_init_bars: "dv_vadr (sbone_dev_init d) = replicate 6 0" "dv_len (sbone_dev_init d) = replicate 6 0"
  by (simp_all add: sbone_dev_init_def dev_init_bars_def Let_def NBAR_def)

text \<open>
  C26. The life of a device: a successful \<open>probe\<close> gives a device number whose character device can
  be opened and which nobody could open before; \<open>remove\<close> returns the device, all regions, mappings,
  the interrupt, MSI and the character device, and the device can be opened no more.
\<close>

theorem sbone_lifecycle:
  assumes "table_placed base sz" and "length (d_devs drv) = 2"
    and "sbone_pci_probe (\<lambda>_ b. b) e pci drv = (0, calls, drv1)"
  shows "\<exists>i<2. sbone_file_open base sz (base + of_nat i * sz) drv = (- EFAULT, None) \<and>
    sbone_file_open base sz (base + of_nat i * sz) drv1 = (0, Some i) \<and>
    regions calls = {k. k < 6 \<and> usable e k} \<and>
    (\<exists>calls2 drv2. sbone_pci_remove i drv1 = (calls2, drv2) \<and>
       sbone_file_open base sz (base + of_nat i * sz) drv2 = (- EFAULT, None) \<and>
       regions (calls @ calls2) = {} \<and> maps (calls @ calls2) = {#} \<and>
       lg_irq (ledger (calls @ calls2)) = {} \<and> lg_cdev (ledger (calls @ calls2)) = {} \<and>
       \<not> lg_msi (ledger (calls @ calls2)))"
proof -
  have p: "pci_probe sbone_dev_init 2 (\<lambda>_ b. b) e pci drv = (0, calls, drv1)"
    using assms(3) by (simp add: sbone_pci_probe_def SBONE_DEV_COUNT_def)
  obtain i calls2 drv2 where i: "i < 2" "\<not> bit (d_bits drv) i" "is_dev_allocated i drv1"
    "regions calls = {k. k < 6 \<and> usable e k}" "pci_remove i drv1 = (calls2, drv2)" "d_bits drv2 = d_bits drv"
    "regions (calls @ calls2) = {}" "maps (calls @ calls2) = {#}"
    "ledger (calls @ calls2) = \<lparr>lg_enable = if pe_is_enabled e then -1 else 0, lg_msi = False,
          lg_irq = {}, lg_cdev = {}, lg_data = None\<rparr>"
    using probe_remove_result [OF _ assms(2) sbone_init_bars p] by auto
  have u: "i \<notin> used_devs 2 drv" "i \<in> used_devs 2 drv1" "i \<notin> used_devs 2 drv2"
    using i and_bit_iff [of "d_bits drv1" i] by (auto simp: used_devs_def is_dev_allocated_def)
  show ?thesis
    by (rule exI [of _ i])
      (use i u sbone_open_entry [OF assms(1), of i] in \<open>simp add: sbone_pci_remove_def\<close>)
qed

section \<open>The interrupt counter\<close>

text \<open>
  A history of a device: interrupts, and requests of the count by processes. \<open>sb_run\<close> adds up the
  counts processes received and the counts that were cleared but not delivered.
\<close>

datatype sb_event = Sb_irq | Sb_get u64

fun sb_run :: "sb_event list \<Rightarrow> sbone_dev \<times> umem \<Rightarrow> nat \<times> nat \<times> sbone_dev \<times> umem" where
  "sb_run [] s = (0, 0, s)"
| "sb_run (Sb_irq # es) s = sb_run es (snd (sbone_irq_handler (fst s)), snd s)"
| "sb_run (Sb_get ua # es) s =
     (let (r, dev, m) = sbone_file_ioctl SBONE_IOCTL_GET_IRQCOUNT ua s;
          n = (case copy_from_user m ua 8 of Some b \<Rightarrow> unat (of_le b :: u64) | None \<Rightarrow> 0);
          (d, l, s') = sb_run es (dev, m)
      in if r = 0 then (n + d, l, s') else (d, unat (sb_irq_count (fst s)) + l, s'))"

lemma irq_count_step:
  "unat (sb_irq_count dev) + 1 < 2 ^ 32 \<Longrightarrow>
     unat (sb_irq_count (snd (sbone_irq_handler dev))) = unat (sb_irq_count dev) + 1"
  by (simp add: sbone_irq_handler_def atomic32_inc_def Let_def unat_word_ariths)

lemma get_irqcount_result:
  assumes "sbone_file_ioctl SBONE_IOCTL_GET_IRQCOUNT ua (dev, m) = (r, dev', m')"
  shows "sb_irq_count dev' = 0" and "dom m' = dom m" and "r = 0 \<or> r = - EINVAL"
    and "r = 0 \<Longrightarrow> \<exists>b. copy_from_user m' ua 8 = Some b \<and> unat (of_le b :: u64) = unat (sb_irq_count dev)"
    and "(\<And>j. j < 8 \<Longrightarrow> m (ua + of_nat j) \<noteq> None) \<Longrightarrow> r = 0"
proof -
  let ?x = "le_bytes 8 (ucast (sb_irq_count dev) :: u64)"
  obtain n m1 where c: "copy_to_user m ua ?x = (n, m1)" by force
  then have r: "r = (if n \<noteq> 0 then - EINVAL else 0)" "m' = m1" "dev' = dev\<lparr>sb_irq_count := 0\<rparr>"
    using assms by (auto simp: sbone_file_ioctl_def atomic32_and_def Let_def split: if_splits)
  show "sb_irq_count dev' = 0" "dom m' = dom m" "r = 0 \<or> r = - EINVAL"
    using r copy_to_dom [OF c] by auto
  show "\<exists>b. copy_from_user m' ua 8 = Some b \<and> unat (of_le b :: u64) = unat (sb_irq_count dev)" if "r = 0"
  proof -
    have "n = 0" using r that by (simp add: EINVAL_def split: if_splits)
    then have "copy_from_user m1 ua 8 = Some ?x" using copy_to_from [of m ua ?x m1] c by simp
    moreover have "unat (of_le ?x :: u64) = unat (sb_irq_count dev)"
      by (simp add: of_le_le_bytes unat_ucast_up)
    ultimately show ?thesis using r(2) by simp
  qed
  show "r = 0" if "\<And>j. j < 8 \<Longrightarrow> m (ua + of_nat j) \<noteq> None"
    using copy_to_mapped [of ?x m ua] that c r(1) by auto
qed

text \<open>One request of a process: it is told the pending count or that count is lost.\<close>

lemma sb_get_step:
  assumes "sb_run (Sb_get ua # es) (dev, m) = (d, l, dev', m')"
  obtains dev1 m1 d1 l1 where "sb_run es (dev1, m1) = (d1, l1, dev', m')" and "sb_irq_count dev1 = 0"
    and "dom m1 = dom m" and "d + l = unat (sb_irq_count dev) + d1 + l1"
    and "(\<forall>j<8. ua + of_nat j \<in> dom m) \<longrightarrow> l = l1"
proof -
  obtain r dev1 m1 where g: "sbone_file_ioctl SBONE_IOCTL_GET_IRQCOUNT ua (dev, m) = (r, dev1, m1)"
    by (metis prod_cases3)
  obtain d1 l1 where r1: "sb_run es (dev1, m1) = (d1, l1, dev', m')"
    using assms g by (auto simp: Let_def split: prod.splits if_splits)
  note G = get_irqcount_result [OF g]
  show ?thesis
  proof (cases "r = 0")
    case True
    then obtain b where "copy_from_user m1 ua 8 = Some b" "unat (of_le b :: u64) = unat (sb_irq_count dev)"
      using G(4) by blast
    then have "d = unat (sb_irq_count dev) + d1" "l = l1" using assms g r1 True by auto
    then show ?thesis using that [OF r1 G(1,2)] by simp
  next
    case False
    then have "d = d1" "l = unat (sb_irq_count dev) + l1" using assms g r1 by auto
    moreover have "\<not> (\<forall>j<8. ua + of_nat j \<in> dom m)" using False G(5) by auto
    ultimately show ?thesis using that [OF r1 G(1,2)] by auto
  qed
qed

lemma sb_run_counts:
  "\<lbrakk>sb_run es (dev, m) = (d, l, dev', m'); unat (sb_irq_count dev) + count_list es Sb_irq < 2 ^ 32\<rbrakk> \<Longrightarrow>
   d + l + unat (sb_irq_count dev') = unat (sb_irq_count dev) + count_list es Sb_irq \<and>
   ((\<forall>ua. Sb_get ua \<in> set es \<longrightarrow> (\<forall>j<8. ua + of_nat j \<in> dom m)) \<longrightarrow> l = 0)"
proof (induction es arbitrary: dev m d l)
  case (Cons e es)
  show ?case
  proof (cases e)
    case Sb_irq
    have s: "unat (sb_irq_count (snd (sbone_irq_handler dev))) = unat (sb_irq_count dev) + 1"
      by (rule irq_count_step) (use Cons.prems(2) Sb_irq in simp)
    then show ?thesis
      using Cons.IH [of "snd (sbone_irq_handler dev)" m d l] Cons.prems Sb_irq by simp
  next
    case (Sb_get ua)
    obtain dev1 m1 d1 l1 where 1: "sb_run es (dev1, m1) = (d1, l1, dev', m')" "sb_irq_count dev1 = 0"
      "dom m1 = dom m" "d + l = unat (sb_irq_count dev) + d1 + l1"
      "(\<forall>j<8. ua + of_nat j \<in> dom m) \<longrightarrow> l = l1"
      by (rule sb_get_step [OF Cons.prems(1) [unfolded Sb_get]])
    then show ?thesis using Cons.IH [OF 1(1)] Cons.prems(2) Sb_get by auto
  qed
qed simp

text \<open>
  C22. No interrupt is lost: over any history with fewer than 2^32 interrupts outstanding, what
  processes were told plus what is still pending is what was pending plus the interrupts that came,
  the device is readable exactly when something is pending, and counts get lost only where a
  process passes an address it does not have.
\<close>

theorem sbone_irq_conserved:
  assumes "sb_run es (dev, m) = (d, l, dev', m')" and "unat (sb_irq_count dev) + count_list es Sb_irq < 2 ^ 32"
  shows "d + l + unat (sb_irq_count dev') = unat (sb_irq_count dev) + count_list es Sb_irq \<and>
    (sbone_file_poll dev' = 0 \<longleftrightarrow> sb_irq_count dev' = 0) \<and>
    ((\<forall>ua. Sb_get ua \<in> set es \<longrightarrow> (\<forall>j<8. ua + of_nat j \<in> dom m)) \<longrightarrow> l = 0)"
proof -
  have "sbone_file_poll dev' = 0 \<longleftrightarrow> sb_irq_count dev' = 0"
    by (simp add: sbone_file_poll_def const_defs)
  then show ?thesis using sb_run_counts [OF assms] by blast
qed

text \<open>A device with one pending interrupt; the process has the eight bytes at 0x2000 only.\<close>

definition wit_sb :: sbone_dev where
  "wit_sb = \<lparr>dv_pci = 0, dv_vadr = replicate 6 0, dv_len = replicate 6 0, sb_irq_count = 1, sb_wakeups = 0\<rparr>"

definition wit_sb_user :: umem where
  "wit_sb_user a = (if unat (a - 0x2000) < 8 then Some 0 else None)"

theorem sbone_irq_conserved_witness:
  "\<exists>d l dev' m'. sb_run [Sb_irq, Sb_get 0x2000, Sb_irq] (wit_sb, wit_sb_user) = (d, l, dev', m') \<and>
     l = 0 \<and> d + unat (sb_irq_count dev') = 3"
proof -
  obtain d l dev' m' where r: "sb_run [Sb_irq, Sb_get 0x2000, Sb_irq] (wit_sb, wit_sb_user) = (d, l, dev', m')"
    by (metis prod_cases4)
  have "\<forall>j<8. (0x2000 :: u64) + of_nat j \<in> dom wit_sb_user"
    by (auto simp: wit_sb_user_def dom_def unat_of_nat_u64)
  then show ?thesis
    using sbone_irq_conserved [OF r] r by (auto simp: wit_sb_def)
qed

theorem sbone_lifecycle_witness:
  "\<exists>calls drv1 i. sbone_pci_probe (\<lambda>_ b. b) (wit_env 0) 7 \<lparr>d_devs = [wit_sb, wit_sb], d_bits = 1, d_major = 0\<rparr> =
      (0, calls, drv1) \<and> sbone_file_open 0x1000 0x80 (0x1000 + of_nat i * 0x80) drv1 = (0, Some i)"
proof -
  let ?drv = "\<lparr>d_devs = [wit_sb, wit_sb], d_bits = 1, d_major = 0\<rparr>"
  obtain err calls drv1 where p: "sbone_pci_probe (\<lambda>_ b. b) (wit_env 0) 7 ?drv = (err, calls, drv1)"
    by (metis prod_cases3)
  then have "pci_probe sbone_dev_init 2 (\<lambda>_ b. b) (wit_env 0) 7 ?drv = (err, calls, drv1)"
    by (simp add: sbone_pci_probe_def SBONE_DEV_COUNT_def)
  from wit_probe_gen [OF _ _ sbone_init_bars this] have "err = 0" by simp
  then have p0: "sbone_pci_probe (\<lambda>_ b. b) (wit_env 0) 7 ?drv = (0, calls, drv1)" using p by simp
  have t: "table_placed 0x1000 0x80" "length (d_devs ?drv) = 2" by (simp_all add: table_placed_def)
  show ?thesis using sbone_lifecycle [OF t p0] p0 by blast
qed

end
