(* ===== verification/Sbone_System.thy ===== *)
theory Sbone_System
  imports Sbone_User Sbone_Driver
begin

text \<open>
  The whole system around an SBONE device: the registers of \<open>src/src/sbone/d/*.vhdl\<close> at the level of
  clock edges, the configuration space of the endpoint (\<open>Pcie_Dev\<close>), the driver (\<open>Sbone_Driver\<close>) and
  the user program (\<open>Sbone_User\<close>). Signals are two-valued: what the simulator calls uninitialised is
  some value here.
\<close>

section \<open>The registers\<close>

record sb_req =
  rq_en :: bool
  rq_wr :: bool
  rq_bar :: "3 word"
  rq_addr :: u64
  rq_data :: u64

definition bar_addr_cmp :: "3 word \<Rightarrow> u64 \<Rightarrow> sb_req \<Rightarrow> bool" where
  "bar_addr_cmp b a r \<longleftrightarrow> rq_bar r = b \<and> rq_addr r = a"

text \<open>A register that can be read, at a rising edge: its value and its reply.\<close>

record sb_rw =
  rw_data :: u64
  rw_rep_en :: bool
  rw_rep_data :: u64

definition reg_rw :: "3 word \<Rightarrow> u64 \<Rightarrow> sb_req \<Rightarrow> sb_rw \<Rightarrow> sb_rw" where
  "reg_rw b a r q =
     (let is_en = bar_addr_cmp b a r \<and> rq_en r; q' = q\<lparr>rw_rep_en := False\<rparr> in
      if is_en then
        let q' = q'\<lparr>rw_rep_data := 0\<rparr> in
        if rq_wr r then q'\<lparr>rw_data := rq_data r\<rparr>
        else q'\<lparr>rw_rep_data := rw_data q, rw_rep_en := True\<rparr>
      else q')"

definition reg_wo :: "3 word \<Rightarrow> u64 \<Rightarrow> sb_req \<Rightarrow> u64 \<Rightarrow> u64" where
  "reg_wo b a r d = (if bar_addr_cmp b a r \<and> rq_en r \<and> rq_wr r then rq_data r else d)"

text \<open>The new value, and whether an interrupt is raised.\<close>

definition reg_wo_msi :: "3 word \<Rightarrow> u64 \<Rightarrow> sb_req \<Rightarrow> u64 \<Rightarrow> u64 \<times> bool" where
  "reg_wo_msi b a r d = (if bar_addr_cmp b a r \<and> rq_en r \<and> rq_wr r then (rq_data r, True) else (d, False))"

definition rep_mux :: "sb_rw \<Rightarrow> sb_rw \<Rightarrow> bool \<times> u64" where
  "rep_mux q0 q1 = (rw_rep_en q0 \<or> rw_rep_en q1,
     if \<not> rw_rep_en q1 \<and> rw_rep_en q0 then rw_rep_data q0
     else if rw_rep_en q1 \<and> \<not> rw_rep_en q0 then rw_rep_data q1 else -1)"

record sb_hw =
  hw_wo0 :: u64
  hw_wo1 :: u64
  hw_rw0 :: sb_rw
  hw_rw1 :: sb_rw
  hw_msi :: "u64 \<times> bool"
  hw_rep :: "bool \<times> u64"

text \<open>One edge: every process sees the signals as they were before it.\<close>

definition sb_clk :: "sb_req \<Rightarrow> sb_hw \<Rightarrow> sb_hw" where
  "sb_clk r h = \<lparr>hw_wo0 = reg_wo 1 0x00 r (hw_wo0 h), hw_wo1 = reg_wo 1 0x08 r (hw_wo1 h),
     hw_rw0 = reg_rw 1 0x10 r (hw_rw0 h), hw_rw1 = reg_rw 1 0x18 r (hw_rw1 h),
     hw_msi = reg_wo_msi 1 0x20 r (fst (hw_msi h)), hw_rep = rep_mux (hw_rw0 h) (hw_rw1 h)\<rparr>"

text \<open>
  A request of the endpoint lasts one cycle. A write takes one edge, after which the interrupt line
  tells whether it raised one; a read is answered after the second edge, or not at all.
\<close>

definition sb_idle :: sb_req where
  "sb_idle = \<lparr>rq_en = False, rq_wr = False, rq_bar = 0, rq_addr = 0, rq_data = 0\<rparr>"

definition sb_write :: "u64 \<Rightarrow> u64 \<Rightarrow> sb_hw \<Rightarrow> bool \<times> sb_hw" where
  "sb_write a x h = (let h = sb_clk \<lparr>rq_en = True, rq_wr = True, rq_bar = 1, rq_addr = a, rq_data = x\<rparr> h
     in (snd (hw_msi h), sb_clk sb_idle h))"

definition sb_read :: "u64 \<Rightarrow> sb_hw \<Rightarrow> u64 option \<times> sb_hw" where
  "sb_read a h = (let h = sb_clk \<lparr>rq_en = True, rq_wr = False, rq_bar = 1, rq_addr = a, rq_data = 0\<rparr> h;
       h = sb_clk sb_idle h
     in (if fst (hw_rep h) then Some (snd (hw_rep h)) else None, h))"

section \<open>The system\<close>

text \<open>
  The configuration space with the method field of libpci, the registers, the driver's device and
  the memory of the process, the interrupts on their way, the schedule that says how many of them
  arrive at each step, and whether the host waits for a reply that never comes.
\<close>

record bone =
  bn_cfg :: "unit pcie_dev"
  bn_method :: nat
  bn_hw :: sb_hw
  bn_drv :: sbone_dev
  bn_user :: umem
  bn_pend :: nat
  bn_sched :: "nat list"
  bn_hung :: bool

definition bone_irqs :: "nat \<Rightarrow> bone \<Rightarrow> bone" where
  "bone_irqs n s = (let n = min n (bn_pend s) in
     s\<lparr>bn_drv := ((\<lambda>d. snd (sbone_irq_handler d)) ^^ n) (bn_drv s), bn_pend := bn_pend s - n\<rparr>)"

definition bone_turn :: "bone \<Rightarrow> bone" where
  "bone_turn s = (case bn_sched s of [] \<Rightarrow> s | n # r \<Rightarrow> bone_irqs n (s\<lparr>bn_sched := r\<rparr>))"

definition no_reply :: net_reply where
  "no_reply = \<lparr>r_hsize = 0, r_status = 0, r_data = replicate 8 0\<rparr>"

definition bone_lib :: "bone pci_lib" where
  "bone_lib = \<lparr>
     pl_read = (\<lambda>a s. (case on_read_config (bn_cfg s) (read_req PCIE_NET_OP_READ_CONFIG 0 (of_int a) 4) no_reply of
        Some r \<Rightarrow> of_le (take 4 (r_data r)) | None \<Rightarrow> -1, s)),
     pl_write = (\<lambda>a x s. case on_write_config (bn_cfg s) (write_req PCIE_NET_OP_WRITE_CONFIG 0 (of_int a) 4 (ucast x)) of
        Some d \<Rightarrow> s\<lparr>bn_cfg := d\<rparr> | None \<Rightarrow> s),
     pl_method = bn_method,
     pl_set_method = (\<lambda>m s. s\<lparr>bn_method := m\<rparr>),
     pl_type1 = 3\<rparr>"

text \<open>\<open>base\<close> is where BAR 1 is mapped and \<open>ua\<close> the address of the argument of the ioctl.\<close>

definition bone_os :: "u64 \<Rightarrow> u64 \<Rightarrow> bone sbone_os" where
  "bone_os base ua = \<lparr>
     bo_load32 = (\<lambda>a s. case sb_read (a - base) (bn_hw s) of
        (Some x, h) \<Rightarrow> (ucast x, bone_turn (s\<lparr>bn_hw := h\<rparr>))
      | (None, h) \<Rightarrow> (0, s\<lparr>bn_hw := h, bn_hung := True\<rparr>)),
     bo_store32 = (\<lambda>a x s. case sb_write (a - base) (ucast x) (bn_hw s) of
        (msi, h) \<Rightarrow> bone_turn (s\<lparr>bn_hw := h, bn_pend := bn_pend s + (if msi then 1 else 0)\<rparr>)),
     bo_get_irqcount = (\<lambda>fd s. let s = bone_turn s in
        case sbone_file_ioctl SBONE_IOCTL_GET_IRQCOUNT ua (bn_drv s, bn_user s) of
          (r, d, m) \<Rightarrow> (if r < 0 then -1 else r,
             case copy_from_user m ua 8 of Some b \<Rightarrow> of_le b | None \<Rightarrow> 0, s\<lparr>bn_drv := d, bn_user := m\<rparr>)),
     bo_select = (\<lambda>fd s. let s = bone_turn s in
        if sbone_file_poll (bn_drv s) \<noteq> 0 then (1, s)
        else let s = bone_irqs (bn_pend s) s in (if sbone_file_poll (bn_drv s) \<noteq> 0 then 1 else 0, s))\<rparr>"

section \<open>Accesses to the registers\<close>

text \<open>Whatever the signals were before: a write is stored, a read is answered with the last value.\<close>

lemma sb_write_cases:
  "fst (sb_write a x h) = (a = 0x20)"
  "rw_data (hw_rw0 (snd (sb_write a x h))) = (if a = 0x10 then x else rw_data (hw_rw0 h))"
  "rw_data (hw_rw1 (snd (sb_write a x h))) = (if a = 0x18 then x else rw_data (hw_rw1 h))"
  by (auto simp: sb_write_def sb_clk_def reg_rw_def reg_wo_msi_def bar_addr_cmp_def sb_idle_def Let_def)

lemma sb_read_cases:
  "fst (sb_read 0x10 h) = Some (rw_data (hw_rw0 h))" "fst (sb_read 0x18 h) = Some (rw_data (hw_rw1 h))"
  "a \<noteq> 0x10 \<Longrightarrow> a \<noteq> 0x18 \<Longrightarrow> fst (sb_read a h) = None"
  "rw_data (hw_rw0 (snd (sb_read a h))) = rw_data (hw_rw0 h)" "rw_data (hw_rw1 (snd (sb_read a h))) = rw_data (hw_rw1 h)"
  by (auto simp: sb_read_def sb_clk_def reg_rw_def rep_mux_def bar_addr_cmp_def sb_idle_def Let_def)

section \<open>The configuration space honours the contract of the measurement\<close>

definition bar_reg :: "nat \<Rightarrow> bone \<Rightarrow> u32" where
  "bar_reg i s = (case pcie_read_config_long (bn_cfg s) (bar_addr i) of Some x \<Rightarrow> x | None \<Rightarrow> 0)"

definition bar_sz :: "nat \<Rightarrow> bone \<Rightarrow> u32" where
  "bar_sz i s = ucast (bar_size (bn_cfg s) ! i)"

lemma lib_addr: "i < 6 \<Longrightarrow> (of_int (0x10 + int i * 4) :: u64) = bar_addr i"
  by (simp add: bar_addr_def const_defs mult.commute)

lemma cfg_read:
  assumes "dev_wf d" and "i < 6"
  shows "pcie_read_config_long d (bar_addr i) = Some (of_le (take 4 (drop (16 + 4 * i) (config d))))"
proof -
  note b = bar_addr_props [OF assms(2)]
  have c: "length (config d) = 4096" using assms(1) by (simp add: dev_wf_def)
  have "pcie_check_config (bar_addr i) 4 = 0"
    using check_config_iff [of 4 "bar_addr i"] b(4,5) by (simp add: config_aligned_def)
  then show ?thesis
    using c b(4) assms(2)
    by (simp add: pcie_read_config_long_def pcie_read_config_def pcie_read_config_safe_def mem_read_def)
qed

lemma cfg_write:
  assumes "dev_wf d" and "i < 6"
  shows "pcie_write_config_long d (bar_addr i) x = Some (0, d\<lparr>config := mem_patch (config d) (16 + 4 * i) (le_bytes 4 x)\<rparr>)"
proof -
  note b = bar_addr_props [OF assms(2)]
  have "length (config d) = 4096" using assms(1) by (simp add: dev_wf_def)
  then show ?thesis
    using write_config_ok [of "bar_addr i" "le_bytes 4 x" d] b(4,5) by (simp add: pcie_write_config_long_def)
qed

lemma lib_read_at:
  assumes "dev_wf (bn_cfg s)" and "i < 6" and a: "of_int a = bar_addr i"
  shows "pl_read bone_lib a s = (bar_reg i s, s)"
proof -
  obtain x where x: "pcie_read_config_long (bn_cfg s) (bar_addr i) = Some x" using cfg_read [OF assms(1,2)] by blast
  have "of_le (take 4 (le_bytes 8 (ucast x :: u64))) = x" by (simp add: take_4_bytes of_le_le_bytes)
  then show ?thesis using x by (simp add: bone_lib_def bar_reg_def on_read_config_def read_req_def a)
qed

lemma config_write_at:
  assumes "dev_wf d" and "i < 6"
  shows "on_write_config d (write_req PCIE_NET_OP_WRITE_CONFIG 0 (bar_addr i) 4 (ucast (x :: u32))) =
    Some (if x = -1 \<and> bar_size d ! i = 0 then d
      else d\<lparr>config := mem_patch (config d) (16 + 4 * i) (le_bytes 4 (if x = -1 then NOT (ucast (bar_size d ! i) - 1) else x))\<rparr>)"
proof -
  note b = bar_addr_props [OF assms(2)]
  have m: "mem_read (le_bytes 8 (ucast x :: u64)) 0 4 = Some (le_bytes 4 x)"
    by (simp add: mem_read_def take_4_bytes)
  have l: "of_le (le_bytes 4 x) = x" by (rule of_le_le_bytes) simp
  consider "x = -1" "bar_size d ! i = 0" | "x = -1" "bar_size d ! i \<noteq> 0" | "x \<noteq> -1" by blast
  then show ?thesis
  proof cases
    case 1
    then show ?thesis using b(1-3) m l by (simp add: on_write_config_def write_req_def)
  next
    case 2
    then show ?thesis using b(1-3) m l cfg_write [OF assms]
      by (simp add: on_write_config_def write_req_def del: word_not_simps)
  next
    case 3
    then show ?thesis using b(1-3) m l cfg_write [OF assms, of x]
      by (simp add: on_write_config_def write_config_default_def write_req_def)
  qed
qed

lemma lib_write_at:
  assumes "dev_wf (bn_cfg s)" and "i < 6" and a: "of_int a = bar_addr i"
  shows "pl_write bone_lib a x s =
    (if x = -1 \<and> bar_size (bn_cfg s) ! i = 0 then s
     else s\<lparr>bn_cfg := (bn_cfg s)\<lparr>config := mem_patch (config (bn_cfg s)) (16 + 4 * i)
       (le_bytes 4 (if x = -1 then NOT (bar_sz i s - 1) else x))\<rparr>\<rparr>)"
  by (simp only: bone_lib_def pci_lib.select_convs a config_write_at [OF assms(1,2)] bar_sz_def option.case) simp

lemma bar_reg_patch:
  assumes "dev_wf d" and "i < 6" and "bn_cfg s = d\<lparr>config := mem_patch (config d) (16 + 4 * i) (le_bytes 4 x)\<rparr>"
  shows "bar_reg i s = x"
  using conjunct1 [OF config_long_roundtrip_aux [OF cfg_write [OF assms(1,2), of x]]] assms(3) by (simp add: bar_reg_def)

lemma patch_back:
  assumes "length c = 4096" and "i < 6" and "length d = 4"
  shows "mem_patch (mem_patch c (16 + 4 * i) d) (16 + 4 * i) (take 4 (drop (16 + 4 * i) c)) = c"
  using assms by (intro nth_equalityI) (auto simp: length_mem_patch nth_mem_patch min_def)

lemma wf_patch:
  "dev_wf d \<Longrightarrow> i < 6 \<Longrightarrow> dev_wf (d\<lparr>config := mem_patch (config d) (16 + 4 * i) (le_bytes 4 x)\<rparr>)"
  by (simp add: dev_wf_def length_mem_patch)

interpretation cfg_lib: config_access bone_lib "\<lambda>s. dev_wf (bn_cfg s)" bar_reg bar_sz
proof
  fix s :: bone and i m :: nat
  let ?a = "0x10 + int i * 4"
  let ?d = "bn_cfg s"
  show "dev_wf (bn_cfg s) \<Longrightarrow> dev_wf (bn_cfg (pl_set_method bone_lib m s))"
    "bar_reg i (pl_set_method bone_lib m s) = bar_reg i s" "bar_sz i (pl_set_method bone_lib m s) = bar_sz i s"
    "pl_set_method bone_lib (pl_method bone_lib s) (pl_set_method bone_lib m s) = s"
    by (simp_all add: bone_lib_def bar_reg_def bar_sz_def)
  assume k: "dev_wf ?d" and i: "i < 6"
  note a = lib_addr [OF i]
  show "pl_read bone_lib ?a s = (bar_reg i s, s)" by (rule lib_read_at [OF k i a])
  have nz: "bar_size ?d ! i \<noteq> 0" if "bar_sz i s \<noteq> 0" using that by (auto simp: bar_sz_def)
  show "dev_wf (bn_cfg (pl_write bone_lib ?a (-1) s)) \<and> bar_reg i (pl_write bone_lib ?a (-1) s) = NOT (bar_sz i s - 1)"
    if z: "bar_sz i s \<noteq> 0"
    unfolding lib_write_at [OF k i a] using nz [OF z] wf_patch [OF k i] by (simp add: bar_reg_patch [OF k i])
  assume r: "bar_reg i s \<noteq> -1"
  have len: "length (config ?d) = 4096" using k by (simp add: dev_wf_def)
  have orig: "le_bytes 4 (bar_reg i s) = take 4 (drop (16 + 4 * i) (config ?d))"
    using cfg_read [OF k i] le_bytes_of_le [of "take 4 (drop (16 + 4 * i) (config ?d))", where 'a = 32] len i
    by (simp add: bar_reg_def)
  let ?s = "pl_write bone_lib ?a (-1) s"
  have k': "dev_wf (bn_cfg ?s)" unfolding lib_write_at [OF k i a] using k by (simp add: wf_patch [OF k i])
  have "mem_patch (config ?d) (16 + 4 * i) (le_bytes 4 (bar_reg i s)) = config ?d"
    using orig len i by (intro nth_equalityI) (auto simp: length_mem_patch nth_mem_patch)
  then show "pl_write bone_lib ?a (bar_reg i s) ?s = s"
    unfolding lib_write_at [OF k' i a] using r unfolding lib_write_at [OF k i a]
    by (simp add: orig patch_back [OF len i])
qed

section \<open>Interrupts\<close>

lemma irq_pow: "sb_irq_count (((\<lambda>d. snd (sbone_irq_handler d)) ^^ n) d) = sb_irq_count d + of_nat n"
  by (induction n) (simp_all add: sbone_irq_handler_def atomic32_inc_def Let_def)

definition irqs :: "bone \<Rightarrow> nat" where
  "irqs s = unat (sb_irq_count (bn_drv s)) + bn_pend s"

text \<open>What a turn leaves alone, and that it loses no interrupt.\<close>

definition same_regs :: "bone \<Rightarrow> bone \<Rightarrow> bool" where
  "same_regs s t \<longleftrightarrow> bn_cfg t = bn_cfg s \<and> bn_hw t = bn_hw s \<and> bn_user t = bn_user s \<and> bn_hung t = bn_hung s"

lemma irqs_step: "irqs s < 2 ^ 32 \<Longrightarrow> same_regs s (bone_irqs n s) \<and> irqs (bone_irqs n s) = irqs s \<and> bn_pend (bone_irqs n s) = bn_pend s - n"
proof -
  assume l: "irqs s < 2 ^ 32"
  let ?n = "min n (bn_pend s)" and ?c = "sb_irq_count (bn_drv s)"
  have "unat (?c + of_nat ?n) = unat ?c + ?n"
    using l by (simp add: unat_word_ariths unat_of_nat irqs_def)
  then show ?thesis by (auto simp: same_regs_def bone_irqs_def Let_def irqs_def irq_pow)
qed

lemma turn_step: "irqs s < 2 ^ 32 \<Longrightarrow> same_regs s (bone_turn s) \<and> irqs (bone_turn s) = irqs s \<and> bn_pend (bone_turn s) \<le> bn_pend s"
proof (cases "bn_sched s")
  case (Cons n r)
  assume "irqs s < 2 ^ 32"
  then have "irqs (s\<lparr>bn_sched := r\<rparr>) < 2 ^ 32" by (simp add: irqs_def)
  from irqs_step [OF this, of n] Cons show ?thesis by (simp add: bone_turn_def same_regs_def irqs_def)
qed (simp add: bone_turn_def same_regs_def)

section \<open>The steps of the program\<close>

text \<open>What the program depends on: memory, registers and interrupts.\<close>

definition seen :: "bone \<Rightarrow> unit pcie_dev \<times> bool \<times> u64 \<times> u64 \<times> nat" where
  "seen s = (bn_cfg s, bn_hung s, rw_data (hw_rw0 (bn_hw s)), rw_data (hw_rw1 (bn_hw s)), irqs s)"

lemma seen_turn: "irqs s < 2 ^ 32 \<Longrightarrow> seen (bone_turn s) = seen s \<and> bn_user (bone_turn s) = bn_user s \<and> bn_pend (bone_turn s) \<le> bn_pend s"
  using turn_step [of s] by (simp add: seen_def same_regs_def)

lemma store_step:
  assumes "su_addrs d ! 1 = base" and "irqs s + (if a = 0x20 then 1 else 0) < 2 ^ 32"
  shows "seen (w_reg (bone_os base ua) d a x s) = (bn_cfg s, bn_hung s,
      if a = 0x10 then ucast (ucast x :: u32) else rw_data (hw_rw0 (bn_hw s)),
      if a = 0x18 then ucast (ucast x :: u32) else rw_data (hw_rw1 (bn_hw s)), irqs s + (if a = 0x20 then 1 else 0)) \<and>
    bn_user (w_reg (bone_os base ua) d a x s) = bn_user s \<and>
    bn_pend (w_reg (bone_os base ua) d a x s) \<le> bn_pend s + (if a = 0x20 then 1 else 0)"
proof -
  obtain h where h: "sb_write a (ucast (ucast x :: u32)) (bn_hw s) = (a = 0x20, h)"
    using sb_write_cases(1) [of a "ucast (ucast x :: u32)" "bn_hw s"] by (cases "sb_write a (ucast (ucast x :: u32)) (bn_hw s)") simp
  let ?s = "s\<lparr>bn_hw := h, bn_pend := bn_pend s + (if a = 0x20 then 1 else 0)\<rparr>"
  have "w_reg (bone_os base ua) d a x s = bone_turn ?s" using h assms(1) by (simp add: w_reg_def bone_os_def)
  moreover have "irqs ?s = irqs s + (if a = 0x20 then 1 else 0)" by (simp add: irqs_def)
  ultimately show ?thesis
    using seen_turn [of ?s] assms(2) sb_write_cases(2,3) [of a "ucast (ucast x :: u32)" "bn_hw s"] h
    by (simp add: seen_def)
qed

lemma load_step:
  assumes "su_addrs d ! 1 = base" and "irqs s < 2 ^ 32" and "a = 0x10 \<or> a = 0x18"
  shows "\<exists>t. r_reg (bone_os base ua) d a s =
      (ucast (ucast (if a = 0x10 then rw_data (hw_rw0 (bn_hw s)) else rw_data (hw_rw1 (bn_hw s))) :: u32), t) \<and>
    seen t = seen s \<and> bn_user t = bn_user s \<and> bn_pend t \<le> bn_pend s"
proof -
  obtain h where h: "sb_read a (bn_hw s) = (Some (if a = 0x10 then rw_data (hw_rw0 (bn_hw s)) else rw_data (hw_rw1 (bn_hw s))), h)"
    using sb_read_cases(1,2) [of "bn_hw s"] assms(3) by (cases "sb_read a (bn_hw s)") auto
  let ?s = "s\<lparr>bn_hw := h\<rparr>"
  have "irqs ?s = irqs s" by (simp add: irqs_def)
  then show ?thesis
    using h assms seen_turn [of ?s] sb_read_cases(4,5) [of a "bn_hw s"]
    by (intro exI [of _ "bone_turn ?s"]) (simp add: r_reg_def bone_os_def seen_def)
qed

lemma count_step:
  assumes "has_mem (bn_user s) ua 8" and "irqs s < 2 ^ 32" and "bn_pend s = 0"
  shows "\<exists>t. get_irqcount (bone_os base ua) fd s = (0, Some (of_nat (irqs s)), t) \<and> irqs t = 0 \<and> bn_pend t = 0 \<and>
    bn_cfg t = bn_cfg s \<and> bn_hung t = bn_hung s \<and> has_mem (bn_user t) ua 8"
proof -
  let ?s = "bone_turn s"
  note k = turn_step [OF assms(2)]
  obtain r d m where g: "sbone_file_ioctl SBONE_IOCTL_GET_IRQCOUNT ua (bn_drv ?s, bn_user ?s) = (r, d, m)" by (metis prod_cases3)
  note G = get_irqcount_result [OF g]
  have "bn_user ?s (ua + of_nat j) \<noteq> None" if "j < 8" for j
    using assms(1) that k by (auto simp: has_mem_def same_regs_def)
  then have r: "r = 0" by (rule G(5))
  then obtain b where b: "copy_from_user m ua 8 = Some b" "unat (of_le b :: u64) = unat (sb_irq_count (bn_drv ?s))"
    using G(4) by blast
  have p: "bn_pend ?s = 0" using k assms(3) by simp
  then have "unat (sb_irq_count (bn_drv ?s)) = irqs s" using k by (simp add: irqs_def)
  then have v: "(of_le b :: u64) = of_nat (irqs s)" using b(2) assms(2) by (simp add: word_unat_eq_iff unat_of_nat_u64)
  let ?t = "?s\<lparr>bn_drv := d, bn_user := m\<rparr>"
  have "get_irqcount (bone_os base ua) fd s = (0, Some (of_nat (irqs s)), ?t)"
    using g r b(1) v by (simp add: get_irqcount_def bone_os_def Let_def)
  moreover have "has_mem m ua 8" using assms(1) k has_mem_dom [OF G(2)] by (simp add: same_regs_def)
  moreover have "irqs ?t = 0" "bn_pend ?t = 0" using G(1) p by (simp_all add: irqs_def)
  ultimately show ?thesis using k by (auto simp: same_regs_def)
qed

lemma wait_step:
  assumes "has_mem (bn_user s) ua 8" and "irqs s < 2 ^ 32" and "irqs s \<noteq> 0"
  shows "\<exists>t. bo_select (bone_os base ua) fd s = (1, t) \<and> irqs t = irqs s \<and>
    sb_irq_count (bn_drv t) \<noteq> 0 \<and> bn_pend t \<le> bn_pend s \<and> same_regs s t"
proof -
  let ?s = "bone_turn s"
  note k = turn_step [OF assms(2)]
  have poll: "sbone_file_poll d \<noteq> 0 \<longleftrightarrow> sb_irq_count d \<noteq> 0" for d by (simp add: sbone_file_poll_def const_defs)
  show ?thesis
  proof (cases "sb_irq_count (bn_drv ?s) = 0")
    case False
    then show ?thesis using k by (simp add: bone_os_def poll Let_def)
  next
    case True
    let ?t = "bone_irqs (bn_pend ?s) ?s"
    have "irqs ?s < 2 ^ 32" using k assms(2) by simp
    note i = irqs_step [OF this, of "bn_pend ?s"]
    then have "irqs ?t = irqs s" "bn_pend ?t = 0" using k by simp_all
    then have "sb_irq_count (bn_drv ?t) \<noteq> 0" using assms(3) by (auto simp: irqs_def)
    then show ?thesis
      using True i k \<open>irqs ?t = irqs s\<close> by (intro exI [of _ ?t]) (simp add: bone_os_def poll Let_def same_regs_def)
  qed
qed

lemma e_byte_values [simp]:
  "ucast (ucast (e_byte 2) :: u32) = (0x02020202 :: u64)" "ucast (ucast (e_byte 3) :: u32) = (0x03030303 :: u64)"
  by code_simp+

text \<open>Accesses while no interrupt is on its way.\<close>

definition undisturbed :: "bone \<Rightarrow> bone \<Rightarrow> bool" where
  "undisturbed s t \<longleftrightarrow> bn_cfg t = bn_cfg s \<and> bn_hung t = bn_hung s \<and> bn_user t = bn_user s \<and> irqs t = irqs s \<and>
     bn_pend t = 0"

lemma plain_store:
  assumes "su_addrs d ! 1 = base" and "irqs s < 2 ^ 32" and "a \<noteq> 0x20" and "bn_pend s = 0"
  shows "undisturbed s (w_reg (bone_os base ua) d a x s)"
    "rw_data (hw_rw0 (bn_hw (w_reg (bone_os base ua) d a x s))) =
       (if a = 0x10 then ucast (ucast x :: u32) else rw_data (hw_rw0 (bn_hw s)))"
    "rw_data (hw_rw1 (bn_hw (w_reg (bone_os base ua) d a x s))) =
       (if a = 0x18 then ucast (ucast x :: u32) else rw_data (hw_rw1 (bn_hw s)))"
  using store_step [OF assms(1), of s a ua x] assms(2-4) by (auto simp: seen_def undisturbed_def)

lemma undisturbed_trans: "undisturbed s t \<Longrightarrow> undisturbed t u \<Longrightarrow> undisturbed s u"
  by (simp add: undisturbed_def)

text \<open>The four stores of \<open>main\<close>.\<close>

lemma four_stores:
  assumes d: "su_addrs d ! 1 = base" and n: "irqs s < 2 ^ 32" and p: "bn_pend s = 0"
    and t: "t = fold (\<lambda>i s. w_reg (bone_os base ua) d (of_nat i * 8) (e_byte (of_nat i)) s) [0..<4] s"
  shows "undisturbed s t \<and> rw_data (hw_rw0 (bn_hw t)) = 0x02020202 \<and> rw_data (hw_rw1 (bn_hw t)) = 0x03030303"
proof -
  let ?w = "\<lambda>a x s. w_reg (bone_os base ua) d a x s"
  obtain s1 s2 s3 where s: "s1 = ?w 0 (e_byte 0) s" "s2 = ?w 8 (e_byte 1) s1" "s3 = ?w 0x10 (e_byte 2) s2" by blast
  have four: "[0..<4] = [0, 1, 2, 3 :: nat]" by (simp add: upt_rec)
  have t: "t = ?w 0x18 (e_byte 3) s3" using t by (simp add: four s)
  have u1: "undisturbed s s1" using plain_store(1) [OF d n _ p, of 0 ua "e_byte 0"] s(1) by simp
  then have n1: "irqs s1 < 2 ^ 32" "bn_pend s1 = 0" using n by (simp_all add: undisturbed_def)
  have u2: "undisturbed s s2"
    using undisturbed_trans [OF u1] plain_store(1) [OF d n1(1) _ n1(2), of 8 ua "e_byte 1"] s(2) by simp
  then have n2: "irqs s2 < 2 ^ 32" "bn_pend s2 = 0" using n by (simp_all add: undisturbed_def)
  note w2 = plain_store [OF d n2(1) _ n2(2), of "0x10" ua "e_byte 2"]
  have u3: "undisturbed s s3" and r3: "rw_data (hw_rw0 (bn_hw s3)) = 0x02020202"
    using undisturbed_trans [OF u2] w2(1,2) s(3) by simp_all
  then have n3: "irqs s3 < 2 ^ 32" "bn_pend s3 = 0" using n by (simp_all add: undisturbed_def)
  note w3 = plain_store [OF d n3(1) _ n3(2), of "0x18" ua "e_byte 3"]
  show ?thesis using undisturbed_trans [OF u3] w3 r3 t by simp
qed

text \<open>The end of \<open>main\<close>: with interrupts outstanding, \<open>select\<close> returns and the count is theirs.\<close>

lemma loop_ends:
  assumes u: "has_mem (bn_user s) ua 8" and n: "irqs s = 1"
  shows "\<exists>t. irq_loop (bone_os base ua) fd s = Some (1, t) \<and> irqs t = 0 \<and> bn_cfg t = bn_cfg s \<and> bn_hung t = bn_hung s"
proof -
  obtain s1 where s1: "bo_select (bone_os base ua) fd s = (1, s1)" "irqs s1 = 1" "sb_irq_count (bn_drv s1) \<noteq> 0" "same_regs s s1"
    using wait_step [OF u, of base fd] n by auto
  have "0 < unat (sb_irq_count (bn_drv s1))" using s1(3) by (simp add: unat_gt_0)
  then have p: "bn_pend s1 = 0" using s1(2) by (simp add: irqs_def)
  have "has_mem (bn_user s1) ua 8" "irqs s1 < 2 ^ 32" using u s1(2,4) by (simp_all add: same_regs_def)
  from count_step [OF this p, of base fd] obtain t where
    "get_irqcount (bone_os base ua) fd s1 = (0, Some 1, t)" "irqs t = 0" "bn_cfg t = bn_cfg s1" "bn_hung t = bn_hung s1"
    using s1(2) by auto
  then show ?thesis using s1(1,4) by (subst irq_loop.simps) (simp add: same_regs_def)
qed

text \<open>A device with one BAR, and a kernel that grants everything.\<close>

definition one_bar :: "lib_env \<Rightarrow> u64 \<Rightarrow> bool" where
  "one_bar e base \<longleftrightarrow> le_alloc e \<and> le_get_dev e \<and> le_mem_fd e \<noteq> -1 \<and> le_dev_fd e \<noteq> -1 \<and>
     (\<forall>i. i \<noteq> 1 \<longrightarrow> le_base e i = 0 \<and> le_size e i = 0) \<and> le_base e 1 \<noteq> 0 \<and> le_mmap e 1 = base \<and> base \<noteq> U_MAP_FAILED"

lemma open_one:
  assumes e: "one_bar e base" and g: "get_bar_size lib 1 s = (sz, s)" and "sz \<noteq> 0" and l: "length (su_addrs dev) = 6"
  shows "\<exists>dev' cs. sbone_dev_open_pcie lib e dm bus dv fn dev s = (0, dev', cs, s) \<and>
    su_addrs dev' ! 1 = base \<and> su_sizes dev' ! 1 = sz \<and> su_fd dev' = le_dev_fd e"
proof -
  have six: "[0..<6] = [0, 1, 2, 3, 4, 5 :: nat]" by (simp add: upt_rec)
  have skip: "open_map_bar lib e i (d, cs, s) = (False, d\<lparr>su_sizes := (su_sizes d)[i := 0]\<rparr>, cs, s)"
    if "i \<noteq> 1" "i < length (su_sizes d)" for i d cs
    using e that by (simp add: open_map_bar_def one_bar_def)
  have hit: "open_map_bar lib e 1 (d, cs, s) = (False, d\<lparr>su_sizes := (su_sizes d)[1 := sz], su_addrs := (su_addrs d)[1 := base]\<rparr>,
      cs @ [Lc_mmap sz (le_base e 1) base], s)" if "1 < length (su_sizes d)" "1 < length (su_addrs d)" for d cs
    using e g assms(3) that by (simp add: open_map_bar_def one_bar_def Let_def)
  show ?thesis
    using e l skip hit by (simp add: sbone_dev_open_pcie_def SBONE_NBAR_def six one_bar_def Let_def)
qed

text \<open>
  C33. The SBONE program on its device: with BAR 1 of 16 bytes or a multiple, whatever the schedule of
  the interrupts, it measures and maps the BAR, reads back from the two registers what it wrote,
  triggers an interrupt, waits for it and is told of exactly one; it returns 0 with everything given
  back, the configuration space as it was and no interrupt left.
\<close>

theorem sbone_main_runs:
  assumes "one_bar e base" and "length (su_addrs dev) = 6" and "dev_wf (bn_cfg s)"
    and "bar_sz 1 s \<noteq> 0" and "bar_sz 1 s AND 0xf = 0" and "bar_reg 1 s \<noteq> -1"
    and "has_mem (bn_user s) ua 8" and "bn_pend s = 0"
  shows "\<exists>cs t. sbone_main bone_lib e (bone_os base ua) dev s = Some (0, [0x02020202, 0x03030303, 1], cs, t) \<and>
    lib_held cs = nothing_held \<and> irqs t = 0 \<and> bn_cfg t = bn_cfg s \<and> bn_hung t = bn_hung s"
proof -
  let ?os = "bone_os base ua"
  have six: "(1 :: nat) < 6" by simp
  have "get_bar_size bone_lib 1 s = (ucast (bar_sz 1 s), s)"
    by (rule cfg_lib.get_bar_size_exact [OF assms(3) six assms(4-6)])
  moreover have "(ucast (bar_sz 1 s) :: u64) \<noteq> 0" using assms(4) by (metis ucast_u32_zero)
  ultimately obtain d cs where d: "sbone_dev_open_pcie bone_lib e 0 0 4 0 dev s = (0, d, cs, s)"
    "su_addrs d ! 1 = base" "su_sizes d ! 1 \<noteq> 0" "su_fd d = le_dev_fd e"
    using open_one [OF assms(1) _ _ assms(2)] by metis
  have lg: "lib_held (cs @ snd (sbone_dev_close d)) = nothing_held"
    using open_close_ledger [OF d(1) assms(2)] .
  have n: "irqs s < 2 ^ 32" using assms(8) unsigned_less [of "sb_irq_count (bn_drv s)", where ?'a = nat] by (simp add: irqs_def)
  obtain s1 where s1: "s1 = fold (\<lambda>i s. w_reg ?os d (of_nat i * 8) (e_byte (of_nat i)) s) [0..<4] s" by blast
  have f: "undisturbed s s1" "rw_data (hw_rw0 (bn_hw s1)) = 0x02020202" "rw_data (hw_rw1 (bn_hw s1)) = 0x03030303"
    using four_stores [OF d(2) n assms(8) s1] by blast+
  have n1: "irqs s1 < 2 ^ 32" "bn_pend s1 = 0" using f(1) n by (simp_all add: undisturbed_def)
  obtain s2 where s2: "r_reg ?os d 0x10 s1 = (0x02020202, s2)" "seen s2 = seen s1" "bn_user s2 = bn_user s1" "bn_pend s2 \<le> bn_pend s1"
    using load_step [OF d(2) n1(1), of "0x10" ua] f(2) by auto
  have n2: "irqs s2 < 2 ^ 32" using s2(2) n1 by (simp add: seen_def)
  obtain s3 where s3: "r_reg ?os d 0x18 s2 = (0x03030303, s3)" "seen s3 = seen s2" "bn_user s3 = bn_user s2" "bn_pend s3 \<le> bn_pend s2"
    using load_step [OF d(2) n2, of "0x18" ua] s2(2) f(3) by (auto simp: seen_def)
  have n3: "irqs s3 < 2 ^ 32" "bn_pend s3 = 0" "has_mem (bn_user s3) ua 8" "bn_cfg s3 = bn_cfg s" "bn_hung s3 = bn_hung s"
    using s2(2-4) s3(2-4) n1 f(1) assms(7) by (auto simp: seen_def undisturbed_def)
  obtain s4 where s4: "get_irqcount ?os (su_fd d) s3 = (0, Some (of_nat (irqs s3)), s4)" "irqs s4 = 0" "bn_pend s4 = 0"
    "bn_cfg s4 = bn_cfg s3" "bn_hung s4 = bn_hung s3" "has_mem (bn_user s4) ua 8"
    using count_step [OF n3(3,1,2)] by blast
  obtain s5 where s5: "s5 = w_reg ?os d 0x20 0 s4" by blast
  have n5: "irqs s5 = 1" "has_mem (bn_user s5) ua 8" "bn_cfg s5 = bn_cfg s" "bn_hung s5 = bn_hung s"
    using store_step [OF d(2), of s4 "0x20" ua 0] s4(2-6) n3(4,5) s5 by (simp_all add: seen_def)
  obtain t where t: "irq_loop ?os (su_fd d) s5 = Some (1, t)" "irqs t = 0" "bn_cfg t = bn_cfg s5" "bn_hung t = bn_hung s5"
    using loop_ends [OF n5(2,1)] by blast
  have "sbone_main bone_lib e ?os dev s = Some (0, [0x02020202, 0x03030303, 1], cs @ snd (sbone_dev_close d), t)"
    using d(1,3) s1 s2(1) s3(1) s4(1) s5 t(1) by (simp add: sbone_main_def clear_irqcount_def)
  then show ?thesis using lg t(2-4) n5(3,4) by auto
qed

section \<open>A system\<close>

definition bone_env :: lib_env where
  "bone_env = \<lparr>le_alloc = True, le_get_dev = True, le_base = (\<lambda>i. if i = 1 then 0xf0000000 else 0), le_size = (\<lambda>_. 0),
     le_mem_fd = 3, le_mmap = (\<lambda>_. 0x7000), le_dev_fd = 4\<rparr>"

definition udev_junk :: sbone_udev where
  "udev_junk = \<lparr>su_fd = 9, su_nid = 9, su_addrs = replicate 6 9, su_sizes = replicate 6 9\<rparr>"

definition bone_zero :: bone where
  "bone_zero = \<lparr>bn_cfg = zero_dev\<lparr>bar_size := [0, 256, 0, 0, 0, 0]\<rparr>, bn_method = 0,
     bn_hw = \<lparr>hw_wo0 = 1, hw_wo1 = 1, hw_rw0 = \<lparr>rw_data = 1, rw_rep_en = True, rw_rep_data = 1\<rparr>,
       hw_rw1 = \<lparr>rw_data = 1, rw_rep_en = True, rw_rep_data = 1\<rparr>, hw_msi = (1, True), hw_rep = (True, 1)\<rparr>,
     bn_drv = wit_sb, bn_user = wit_sb_user, bn_pend = 0, bn_sched = [0, 3, 0, 1], bn_hung = False\<rparr>"

lemma bone_zero_ok:
  "dev_wf (bn_cfg bone_zero)" "bar_sz 1 bone_zero = 256" "bar_reg 1 bone_zero \<noteq> -1" "has_mem (bn_user bone_zero) 0x2000 8"
proof -
  show wf: "dev_wf (bn_cfg bone_zero)" by (simp add: bone_zero_def dev_wf_def zero_dev_def PCIE_BAR_COUNT_def)
  show "bar_sz 1 bone_zero = 256" by (simp add: bar_sz_def bone_zero_def)
  have "take 4 (drop (16 + 4 * 1) (config (bn_cfg bone_zero))) = replicate 4 0" by (simp add: bone_zero_def zero_dev_def)
  then have "bar_reg 1 bone_zero = of_le (replicate 4 0)" using cfg_read [OF wf, of 1] by (simp add: bar_reg_def)
  also have "\<dots> = 0" by code_simp
  finally show "bar_reg 1 bone_zero \<noteq> -1" by simp
  show "has_mem (bn_user bone_zero) 0x2000 8"
    by (auto simp: bone_zero_def has_mem_def wit_sb_user_def dom_def unat_of_nat_u64)
qed

theorem sbone_main_runs_witness:
  "\<exists>cs t. sbone_main bone_lib bone_env (bone_os 0x7000 0x2000) udev_junk bone_zero =
    Some (0, [0x02020202, 0x03030303, 1], cs, t) \<and> lib_held cs = nothing_held"
proof -
  have e: "one_bar bone_env 0x7000" by (simp add: one_bar_def bone_env_def U_MAP_FAILED_def)
  have z: "bar_sz 1 bone_zero \<noteq> 0" "bar_sz 1 bone_zero AND 0xf = 0" using bone_zero_ok(2) by simp_all
  have "length (su_addrs udev_junk) = 6" "bn_pend bone_zero = 0" by (simp_all add: udev_junk_def bone_zero_def)
  from sbone_main_runs [OF e this(1) bone_zero_ok(1) z bone_zero_ok(3,4) this(2)] show ?thesis by blast
qed

text \<open>
  C35. On the device the measurement of a BAR of a multiple of 16 bytes returns the size it was
  registered with, and leaves the configuration space as it was.
\<close>

theorem bar_measured:
  assumes "dev_wf (bn_cfg s)" and "i < 6" and "bar_sz i s \<noteq> 0" and "bar_sz i s AND 0xf = 0" and "bar_reg i s \<noteq> -1"
  shows "get_bar_size bone_lib i s = (ucast (bar_sz i s), s)"
  by (rule cfg_lib.get_bar_size_exact [OF assms])

theorem bar_measured_witness: "get_bar_size bone_lib 1 bone_zero = (256, bone_zero)"
proof -
  have z: "bar_sz 1 bone_zero \<noteq> 0" "bar_sz 1 bone_zero AND 0xf = 0" "(1 :: nat) < 6" using bone_zero_ok(2) by simp_all
  from bar_measured [OF bone_zero_ok(1) z(3,1,2) bone_zero_ok(3)] show ?thesis using bone_zero_ok(2) by simp
qed

end
