(* ===== verification/Bridge_Life.thy ===== *)
theory Bridge_Life
  imports Vm_Bridge
begin

text \<open>
  Start and end of the device in QEMU (\<open>pciefw_pci_init\<close>, \<open>pciefw_pci_exit\<close>), and what it acquires and
  releases in between, over any sequence of the calls QEMU makes: the memory regions of the BARs, the
  connection and its handler, the MSI capability and the allocations.
\<close>

section \<open>Start and end\<close>

text \<open>\<open>pciefw_props_t\<close>; a property that is not given is \<open>NULL\<close>.\<close>

record pciefw_props =
  laddr :: "string option"
  lport :: "string option"
  raddr :: "string option"
  rport :: "string option"

definition check_props :: "pciefw_props \<Rightarrow> pciefw_props" where
  "check_props p = (let d = (\<lambda>x s. if x = None then Some s else x) in
     \<lparr>laddr = d (laddr p) ''127.0.0.1'', lport = d (lport p) ''42424'',
      raddr = d (raddr p) ''127.0.0.1'', rport = d (rport p) ''42425''\<rparr>)"

text \<open>The options the connection is opened with.\<close>

definition pciefw_opts :: "pciefw_props \<Rightarrow> (string \<times> string option) list" where
  "pciefw_opts p = [(''host'', raddr p), (''port'', rport p), (''localaddr'', laddr p), (''localport'', lport p),
     (''block'', Some ''on'')]"

text \<open>
  \<open>pciefw_pci_init\<close>: what the three allocations return (whether they succeed), and the contents of
  the message buffer. QEMU opens the connection with the options given.
\<close>

definition pciefw_pci_init ::
  "((string \<times> string option) list \<Rightarrow> 'z bridge_scheme qemu) \<Rightarrow> pciefw_props \<Rightarrow> bool \<times> bool \<times> bool \<Rightarrow> net_msg \<Rightarrow>
     'z bridge_scheme \<Rightarrow> (int \<times> 'z bridge_scheme) option" where
  "pciefw_pci_init qs p oks junk s = (case oks of (ok_msg, ok_optlist, ok_opts) \<Rightarrow> do {
     let p = check_props p;
     let s = s\<lparr>br_up := False, br_probed := False\<rparr>;
     if \<not> ok_msg then Some (-1, s)
     else do {
       let s = qemu_do (Q_alloc Blk_msg) (s\<lparr>br_msg := junk\<rparr>);
       if \<not> ok_optlist then Some (-1, qemu_do (Q_free Blk_msg) s)
       else do {
         let s = qemu_do (Q_alloc Blk_optlist) s;
         if \<not> ok_opts then Some (-1, qemu_do (Q_free Blk_optlist) (qemu_do (Q_free Blk_msg) s))
         else do {
           let s = qemu_do (Q_alloc Blk_opts) s;
           (_, s) \<leftarrow> pciefw_connect_probe_device (qs (pciefw_opts p)) s;
           Some (0, s) } } } })"

text \<open>\<open>pciefw_pci_exit\<close> releases whatever there is, and also what there is not.\<close>

definition exit_region :: "nat \<Rightarrow> 'z bridge_scheme \<Rightarrow> 'z bridge_scheme" where
  "exit_region i s = (if br_bar_size s ! i = 0 then s else qemu_do (Q_region_destroy i) s)"

definition pciefw_pci_exit :: "'z bridge_scheme qemu \<Rightarrow> 'z bridge_scheme \<Rightarrow> 'z bridge_scheme" where
  "pciefw_pci_exit q s = (let s = qemu_do Q_msi_uninit s;
       s = fold exit_region [0..<q_regions q] s;
       s = qemu_do Q_clear_handler s; s = qemu_do Q_closesocket s;
       s = qemu_do (Q_free Blk_opts) s; s = qemu_do (Q_free Blk_optlist) s
     in qemu_do (Q_free Blk_msg) s)"

text \<open>What QEMU calls in between: accesses of the guest, and the handler of the descriptor.\<close>

datatype qemu_event = Ev_mmio_read nat u64 nat | Ev_mmio_write nat u64 u64 nat
  | Ev_config_read u32 nat | Ev_config_write u32 u32 nat | Ev_readable

fun bridge_event where
  "bridge_event q dflt (Ev_mmio_read bar a w) s = map_option snd (pciefw_mmio_read q bar a w s)"
| "bridge_event q dflt (Ev_mmio_write bar a x w) s = pciefw_mmio_write q bar a x w s"
| "bridge_event q dflt (Ev_config_read a w) s = map_option snd (pciefw_read_config q a w s)"
| "bridge_event q dflt (Ev_config_write a x w) s = pciefw_write_config q dflt a x w s"
| "bridge_event q dflt Ev_readable s = pciefw_on_read s"

primrec bridge_events where
  "bridge_events q dflt [] s = Some s"
| "bridge_events q dflt (e # es) s = do { s \<leftarrow> bridge_event q dflt e s; bridge_events q dflt es s }"

section \<open>The ledger\<close>

text \<open>
  The regions that exist after some calls: initialising one that exists, or destroying one that does
  not, is an error.
\<close>

fun region_step :: "qemu_call \<Rightarrow> nat set \<Rightarrow> nat set option" where
  "region_step (Q_region_init i n) L = (if i \<in> L then None else Some (insert i L))"
| "region_step (Q_region_destroy i) L = (if i \<in> L then Some (L - {i}) else None)"
| "region_step c L = Some L"

primrec live_regions :: "qemu_call list \<Rightarrow> nat set \<Rightarrow> nat set option" where
  "live_regions [] L = Some L"
| "live_regions (c # cs) L = do { L \<leftarrow> region_step c L; live_regions cs L }"

lemma live_append [simp]: "live_regions (xs @ ys) L = do { L \<leftarrow> live_regions xs L; live_regions ys L }"
  by (induction xs arbitrary: L) (auto split: Option.bind_split)

text \<open>The other calls.\<close>

fun is_region :: "qemu_call \<Rightarrow> bool" where
  "is_region (Q_region_init i n) = True"
| "is_region (Q_region_destroy i) = True"
| "is_region (Q_register_bar i) = True"
| "is_region (Q_del_subregion i) = True"
| "is_region c = False"

definition other_calls :: "qemu_call list \<Rightarrow> qemu_call list" where
  "other_calls cs = filter (\<lambda>c. \<not> is_region c) cs"

lemma other_calls_simps [simp]:
  "other_calls [] = []" "other_calls (xs @ ys) = other_calls xs @ other_calls ys"
  "other_calls (c # cs) = (if is_region c then other_calls cs else c # other_calls cs)"
  by (simp_all add: other_calls_def)

lemma count_other: "\<not> is_region c \<Longrightarrow> count_list (other_calls cs) c = count_list cs c"
  by (induction cs) auto

definition ledger :: "'z bridge_scheme \<Rightarrow> bool \<times> bool \<times> u64 list \<times> qemu_call list" where
  "ledger s = (br_up s, br_probed s, br_bar_size s, br_calls s)"

lemma ledger_simps [simp]:
  "ledger (s\<lparr>br_sock := k\<rparr>) = ledger s" "ledger (s\<lparr>br_msg := m\<rparr>) = ledger s" "ledger (s\<lparr>br_mem := x\<rparr>) = ledger s"
  "ledger (s\<lparr>br_msis := n\<rparr>) = ledger s" "ledger (s\<lparr>br_conf := c\<rparr>) = ledger s"
  by (simp_all add: ledger_def)

lemma qemu_do_simps [simp]:
  "br_calls (qemu_do c s) = br_calls s @ [c]" "br_up (qemu_do c s) = br_up s" "br_probed (qemu_do c s) = br_probed s"
  "br_bar_size (qemu_do c s) = br_bar_size s" "br_conf (qemu_do c s) = br_conf s" "br_sock (qemu_do c s) = br_sock s"
  "br_msg (qemu_do c s) = br_msg s"
  by (simp_all add: qemu_do_def)

section \<open>Accesses do not touch the ledger\<close>

lemma ledger_send_msg: "pciefw_send_msg s = Some (r, s') \<Longrightarrow> ledger s' = ledger s"
  by (auto simp: pciefw_send_msg_def pciefw_send_buf_def Let_def bind_eq_Some_conv case_prod_beta split: if_splits)

lemma ledger_recv_msg: "pciefw_recv_msg s = Some (r, s') \<Longrightarrow> ledger s' = ledger s"
  by (auto simp: pciefw_recv_msg_def pciefw_recv_buf_def Let_def bind_eq_Some_conv case_prod_beta split: if_splits)

lemma ledger_process_msg: "process_msg s = Some s' \<Longrightarrow> ledger s' = ledger s"
  by (auto simp: process_msg_def Let_def split: if_splits)

lemma ledger_recv_reply:
  "pciefw_recv_reply sel s = Some y \<Longrightarrow> (\<And>s n e s'. sel s = Some (n, e, s') \<Longrightarrow> ledger s' = ledger s) \<Longrightarrow>
     ledger (snd (snd y)) = ledger s"
proof (induction rule: pciefw_recv_reply.raw_induct [rotated, consumes 1, case_names step])
  case (step f sel s y)
  obtain n e s1 where 1: "sel s = Some (n, e, s1)" "ledger s1 = ledger s"
    using step(2,3) by (cases "sel s") auto
  have IH: "ledger (snd (snd y)) = ledger s2" if "f sel s2 = Some y" for s2
    using step(1) [OF that] step(3) by blast
  show ?case
  proof (cases "n \<le> 0")
    case True
    then show ?thesis using step(2) 1 IH by (auto split: if_splits)
  next
    case False
    then obtain err s2 where 2: "pciefw_recv_msg s1 = Some (err, s2)" "ledger s2 = ledger s"
      using step(2) 1 ledger_recv_msg [of s1] by (auto simp: bind_eq_Some_conv)
    then show ?thesis
      using step(2) 1 False IH ledger_process_msg [of s2] by (auto simp: bind_eq_Some_conv split: if_splits)
  qed
qed

lemma ledger_write_mem: "pciefw_send_write_mem bar a w x s = Some (r, s') \<Longrightarrow> ledger s' = ledger s"
  by (auto simp: pciefw_send_write_mem_def Let_def bind_eq_Some_conv dest!: ledger_send_msg)

lemma ledger_write_config: "pciefw_send_write_config a w x s = Some (r, s') \<Longrightarrow> ledger s' = ledger s"
  by (auto simp: pciefw_send_write_config_def Let_def bind_eq_Some_conv dest!: ledger_send_msg)

lemma ledger_read_common:
  assumes "pciefw_send_read_common sel a w s = Some (r, d, s')"
    and sel: "\<And>s n e s'. sel s = Some (n, e, s') \<Longrightarrow> ledger s' = ledger s"
  shows "ledger s' = ledger s"
proof -
  have rep: "ledger s2 = ledger s1" if "pciefw_recv_reply sel s1 = Some (r, rep, s2)" for s1 r rep s2
    using ledger_recv_reply [OF that sel] by simp
  show ?thesis
    using assms(1) by (auto simp: pciefw_send_read_common_def Let_def bind_eq_Some_conv
        split: if_splits option.splits dest!: ledger_send_msg rep)
qed

section \<open>Probing\<close>

text \<open>
  What is assumed of QEMU: none of its functions the bridge calls changes the fields of the bridge
  that make up the ledger.
\<close>

locale quiet_bridge =
  fixes q :: "'z bridge_scheme qemu" and dflt :: "u32 \<Rightarrow> u32 \<Rightarrow> nat \<Rightarrow> 'z bridge_scheme \<Rightarrow> 'z bridge_scheme"
  assumes select: "q_select q s = Some (n, e, s') \<Longrightarrow> ledger s' = ledger s"
    and dial: "ledger (snd (q_dial q s)) = ledger s"
    and register: "ledger (q_register q i n32 s) = ledger s"
    and msi: "ledger (q_msi q s) = ledger s"
    and default_write: "ledger (dflt a x w s) = ledger s"

text \<open>
  The state of the ledger while the BARs are probed, \<open>k\<close> of them done: a region exists exactly for a
  BAR whose size is not 0.
\<close>

definition sized :: "nat \<Rightarrow> 'z bridge_scheme \<Rightarrow> nat set" where
  "sized k s = {i. i < k \<and> br_bar_size s ! i \<noteq> 0}"

definition probing :: "nat \<Rightarrow> nat \<Rightarrow> 'z bridge_scheme \<Rightarrow> bool" where
  "probing n k s \<longleftrightarrow> length (br_bar_size s) = n \<and> live_regions (br_calls s) {} = Some (sized k s)"

lemma ledger_fields:
  assumes "ledger s = ledger t"
  shows "br_up s = br_up t" "br_probed s = br_probed t" "br_bar_size s = br_bar_size t" "br_calls s = br_calls t"
  using assms by (simp_all add: ledger_def)

lemma sized_Suc:
  "k < length z \<Longrightarrow> br_bar_size s = z[k := x] \<Longrightarrow> br_bar_size t = z \<Longrightarrow>
     sized (Suc k) s = (if x = 0 then sized k t else insert k (sized k t))"
  by (auto simp: sized_def less_Suc_eq)

context quiet_bridge begin

lemma write_ledger: "pciefw_send_write_config a w x s = Some (r, s') \<Longrightarrow> ledger s' = ledger s"
  by (rule ledger_write_config)

lemma read_ledger: "pciefw_send_read_config (q_select q) a w s = Some (r, d, s') \<Longrightarrow> ledger s' = ledger s"
  using ledger_read_common [OF _ select] by (fastforce simp: pciefw_send_read_config_def)

text \<open>One turn of the probe: nothing happens but, perhaps, that the region of the BAR is initialised.\<close>

lemma probe_bar_ledger:
  assumes "probe_bar (q_select q) (q_register q) i s = Some s'"
  shows "(ledger s' = ledger (s\<lparr>br_bar_size := (br_bar_size s)[i := 0]\<rparr>)) \<or>
     (\<exists>z. z \<noteq> 0 \<and> ledger s' = ledger (s\<lparr>br_bar_size := (br_bar_size s)[i := z],
        br_calls := br_calls s @ [Q_region_init i z, Q_register_bar i]\<rparr>))"
proof -
  let ?s0 = "s\<lparr>br_bar_size := (br_bar_size s)[i := 0]\<rparr>" and ?a = "PCI_BASE_ADDRESS_0 + of_nat (i * 4)"
  note p = assms [unfolded probe_bar_def Let_def]
  obtain r1 s1 where 1: "pciefw_send_write_config ?a 4 (-1) ?s0 = Some (r1, s1)" "ledger s1 = ledger ?s0"
    using p write_ledger [of ?a 4 "-1" ?s0] by (auto simp: bind_eq_Some_conv)
  show ?thesis
  proof (cases "r1 = 0")
    case False
    then show ?thesis using p 1 by simp
  next
    case r1: True
    obtain r2 d s2 where 2: "pciefw_send_read_config (q_select q) ?a 4 s1 = Some (r2, d, s2)" "ledger s2 = ledger ?s0"
      using p 1 r1 read_ledger [of ?a 4 s1] by (auto simp: bind_eq_Some_conv)
    let ?z = "NOT ((of_le d :: u32) AND NOT PCI_ADDR_FLAG_MASK) + 1"
    show ?thesis
    proof (cases "r2 = 0")
      case False
      then show ?thesis using p 1 2 r1 by simp
    next
      case r2: True
      obtain b x s3 where 3: "mem_read (br_conf s2) (unat ?a) 4 = Some b"
        "pciefw_send_write_config ?a 4 (ucast (of_le b :: u32)) s2 = Some (x, s3)" "ledger s3 = ledger ?s0"
        using p 1 2 r1 r2 write_ledger [of ?a 4 _ s2] by (auto simp: bind_eq_Some_conv)
      let ?s4 = "qemu_do (Q_register_bar i) (qemu_do (Q_region_init i (ucast ?z))
          (s3\<lparr>br_bar_size := (br_bar_size s3)[i := ucast ?z]\<rparr>))"
      show ?thesis
      proof (cases "?z = 0")
        case True
        then show ?thesis using p 1(1) 2(1) 3 r1 r2 by simp
      next
        case False
        obtain s5 where 5: "ledger s5 = ledger (q_register q i ?z ?s4)" "s' = s5"
          using p 1(1) 2(1) 3(1,2) r1 r2 False write_ledger [of ?a 4 _ "q_register q i ?z ?s4"]
          by (auto simp: bind_eq_Some_conv)
        have "ledger ?s4 = ledger (s\<lparr>br_bar_size := (br_bar_size s)[i := ucast ?z],
            br_calls := br_calls s @ [Q_region_init i (ucast ?z), Q_register_bar i]\<rparr>)"
          using 3(3) by (simp add: ledger_def)
        moreover have "(ucast ?z :: u64) \<noteq> 0" using False ucast_u32_zero by blast
        ultimately show ?thesis using 5 register by metis
      qed
    qed
  qed
qed

lemma probe_bar_probing:
  assumes "probe_bar (q_select q) (q_register q) i s = Some s'" and "probing n i s" and "i < n"
  shows "probing n (Suc i) s' \<and> br_up s' = br_up s \<and> br_probed s' = br_probed s \<and>
     other_calls (br_calls s') = other_calls (br_calls s)"
proof -
  have len: "i < length (br_bar_size s)" using assms(2,3) by (simp add: probing_def)
  have i: "i \<notin> sized i s" by (simp add: sized_def)
  show ?thesis using probe_bar_ledger [OF assms(1)]
  proof (elim disjE exE conjE)
    assume l: "ledger s' = ledger (s\<lparr>br_bar_size := (br_bar_size s)[i := 0]\<rparr>)"
    show ?thesis using ledger_fields [OF l] assms(2) sized_Suc [OF len, of s' 0 s] by (simp add: probing_def)
  next
    fix z :: u64 assume z: "z \<noteq> 0" and l: "ledger s' = ledger (s\<lparr>br_bar_size := (br_bar_size s)[i := z],
        br_calls := br_calls s @ [Q_region_init i z, Q_register_bar i]\<rparr>)"
    show ?thesis using ledger_fields [OF l] assms(2) sized_Suc [OF len, of s' z s] z i by (simp add: probing_def)
  qed
qed

lemma probe_bars_probing:
  "probe_bars (q_select q) (q_register q) k s = Some s' \<Longrightarrow> probing n 0 s \<Longrightarrow> k \<le> n \<Longrightarrow>
     probing n k s' \<and> br_up s' = br_up s \<and> br_probed s' = br_probed s \<and>
     other_calls (br_calls s') = other_calls (br_calls s)"
proof (induction k arbitrary: s')
  case (Suc k)
  then obtain s1 where "probe_bars (q_select q) (q_register q) k s = Some s1"
    "probe_bar (q_select q) (q_register q) k s1 = Some s'"
    by (auto simp: bind_eq_Some_conv)
  then show ?case using Suc.IH [of s1] Suc.prems(2,3) probe_bar_probing [of k s1 s' n] by simp
qed simp

end

text \<open>Taking back: every region that exists is destroyed once.\<close>

lemma regions_released:
  assumes f: "\<And>i t. br_bar_size (f i t) = br_bar_size t \<and> br_up (f i t) = br_up t \<and> br_probed (f i t) = br_probed t \<and>
      other_calls (br_calls (f i t)) = other_calls (br_calls t) \<and>
      live_regions (br_calls (f i t)) {} = (do { L \<leftarrow> live_regions (br_calls t) {};
         if br_bar_size t ! i = 0 then Some L else region_step (Q_region_destroy i) L })"
    and "live_regions (br_calls s) {} = Some (sized n s)" and "k \<le> n"
  shows "let t = fold f [0..<k] s in br_bar_size t = br_bar_size s \<and> br_up t = br_up s \<and> br_probed t = br_probed s \<and>
      other_calls (br_calls t) = other_calls (br_calls s) \<and>
      live_regions (br_calls t) {} = Some (sized n s - {..<k})"
  using assms(3)
proof (induction k)
  case 0
  then show ?case using assms(2) by simp
next
  case (Suc k)
  let ?t = "fold f [0..<k] s"
  have t: "br_bar_size ?t = br_bar_size s" "live_regions (br_calls ?t) {} = Some (sized n s - {..<k})"
    using Suc by (simp_all add: Let_def)
  have "sized n s - {..<Suc k} = sized n s - {..<k} - {k}" by auto
  moreover have "br_bar_size s ! k = 0 \<Longrightarrow> sized n s - {..<k} - {k} = sized n s - {..<k}" by (auto simp: sized_def)
  ultimately show ?case using Suc f [of k ?t] t by (auto simp: Let_def sized_def)
qed

lemma unprobe_region_step:
  "br_bar_size (unprobe_region q i t) = br_bar_size t \<and> br_up (unprobe_region q i t) = br_up t \<and>
     br_probed (unprobe_region q i t) = br_probed t \<and>
     other_calls (br_calls (unprobe_region q i t)) = other_calls (br_calls t) \<and>
     live_regions (br_calls (unprobe_region q i t)) {} = (do { L \<leftarrow> live_regions (br_calls t) {};
         if br_bar_size t ! i = 0 then Some L else region_step (Q_region_destroy i) L })"
  by (cases "live_regions (br_calls t) {}") (simp_all add: unprobe_region_def Let_def)

lemma exit_region_step:
  "br_bar_size (exit_region i t) = br_bar_size t \<and> br_up (exit_region i t) = br_up t \<and>
     br_probed (exit_region i t) = br_probed t \<and> other_calls (br_calls (exit_region i t)) = other_calls (br_calls t) \<and>
     live_regions (br_calls (exit_region i t)) {} = (do { L \<leftarrow> live_regions (br_calls t) {};
         if br_bar_size t ! i = 0 then Some L else region_step (Q_region_destroy i) L })"
  by (cases "live_regions (br_calls t) {}") (simp_all add: exit_region_def)

lemma sized_gone: "sized n s - {..<n} = {}"
  by (auto simp: sized_def)

section \<open>The invariant of the ledger\<close>

text \<open>
  Regions exist for the BARs with a size, and for none before the first probe; every connection that
  was opened is closed unless the socket is up, and so for its handler; the MSI capability is there
  while the device is probed; the three blocks are allocated.
\<close>

definition matched :: "qemu_call list \<Rightarrow> bool \<Rightarrow> bool \<Rightarrow> bool" where
  "matched cs up probed \<longleftrightarrow> (let c = count_list cs in
     c (Q_connect True) = c Q_closesocket + of_bool up \<and> c Q_set_handler = c Q_clear_handler + of_bool up \<and>
     c Q_msi_init = c Q_msi_uninit + of_bool probed \<and> (\<forall>b. c (Q_alloc b) = 1 \<and> c (Q_free b) = 0))"

lemma matched_steps:
  "matched cs False p \<Longrightarrow> matched (cs @ [Q_connect False]) False p"
  "matched cs False p \<Longrightarrow>
     matched (cs @ Q_connect True # (if p then [Q_msi_uninit] else []) @ [Q_msi_init, Q_set_handler]) True True"
  "matched cs True p \<Longrightarrow> matched (cs @ [Q_clear_handler, Q_closesocket]) False p"
  by (simp_all add: matched_def Let_def)

definition life :: "nat \<Rightarrow> 'z bridge_scheme \<Rightarrow> bool" where
  "life n s \<longleftrightarrow> length (br_bar_size s) = n \<and> live_regions (br_calls s) {} = Some (sized n s) \<and>
     (br_probed s \<or> sized n s = {}) \<and> matched (other_calls (br_calls s)) (br_up s) (br_probed s)"

lemma life_ledger: "ledger s = ledger t \<Longrightarrow> life n s = life n t"
  using ledger_fields [of s t] by (simp add: life_def sized_def)

lemma unprobe_released:
  assumes "length (br_bar_size s) = q_regions q" and "live_regions (br_calls s) {} = Some (sized (q_regions q) s)"
    and "br_probed s \<or> sized (q_regions q) s = {}"
  shows "let t = pciefw_unprobe_device q s in probing (q_regions q) 0 t \<and> br_up t = br_up s \<and> \<not> br_probed t \<and>
     other_calls (br_calls t) = other_calls (br_calls s) @ (if br_probed s then [Q_msi_uninit] else [])"
proof (cases "br_probed s")
  case False
  then show ?thesis using assms by (simp add: pciefw_unprobe_device_def probing_def sized_def)
next
  case True
  let ?s = "qemu_do Q_msi_uninit s"
  have "live_regions (br_calls ?s) {} = Some (sized (q_regions q) ?s)"
    using assms(2) by (simp add: sized_def)
  from regions_released [OF unprobe_region_step [of q] this order_refl]
  have "let t = fold (unprobe_region q) [0..<q_regions q] ?s in br_bar_size t = br_bar_size s \<and> br_up t = br_up s \<and>
      other_calls (br_calls t) = other_calls (br_calls s) @ [Q_msi_uninit] \<and> live_regions (br_calls t) {} = Some {}"
    by (simp add: Let_def sized_gone)
  then show ?thesis
    using True assms(1) by (simp add: pciefw_unprobe_device_def probing_def sized_def Let_def)
qed

context quiet_bridge begin

lemma probe_device_life:
  assumes "pciefw_probe_device q s = Some s'" and "length (br_bar_size s) = q_regions q"
    and "live_regions (br_calls s) {} = Some (sized (q_regions q) s)" and "br_probed s \<or> sized (q_regions q) s = {}"
  shows "length (br_bar_size s') = q_regions q \<and> live_regions (br_calls s') {} = Some (sized (q_regions q) s') \<and>
     br_probed s' \<and> br_up s' = br_up s \<and>
     other_calls (br_calls s') = other_calls (br_calls s) @ (if br_probed s then [Q_msi_uninit] else []) @ [Q_msi_init]"
proof -
  let ?t = "pciefw_unprobe_device q s"
  have t: "probing (q_regions q) 0 ?t" "br_up ?t = br_up s" "\<not> br_probed ?t"
     "other_calls (br_calls ?t) = other_calls (br_calls s) @ (if br_probed s then [Q_msi_uninit] else [])"
    using unprobe_released [OF assms(2-4)] by (simp_all add: Let_def)
  obtain c s1 where s1: "probe_bars (q_select q) (q_register q) (q_regions q) (?t\<lparr>br_conf := c\<rparr>) = Some s1"
    "s' = (q_msi q (qemu_do Q_msi_init s1))\<lparr>br_probed := True\<rparr>"
    using assms(1) by (auto simp: pciefw_probe_device_def Let_def bind_eq_Some_conv)
  have "probing (q_regions q) 0 (?t\<lparr>br_conf := c\<rparr>)" using t(1) by (simp add: probing_def sized_def)
  from probe_bars_probing [OF s1(1) this order_refl] t(2-4)
  have p: "probing (q_regions q) (q_regions q) s1" "br_up s1 = br_up s"
    "other_calls (br_calls s1) = other_calls (br_calls s) @ (if br_probed s then [Q_msi_uninit] else [])"
    by simp_all
  show ?thesis using p ledger_fields [OF msi [of "qemu_do Q_msi_init s1"]] s1(2) by (simp add: probing_def sized_def)
qed

lemma connect_probe_life:
  assumes "pciefw_connect_probe_device q s = Some (r, s')" and "life (q_regions q) s" and "\<not> br_up s"
  shows "life (q_regions q) s'"
proof -
  obtain ok s1 where d: "q_dial q s = (ok, s1)" "ledger s1 = ledger s" using dial [of s] by (cases "q_dial q s") simp
  note l = ledger_fields [OF d(2)]
  let ?s = "(qemu_do (Q_connect ok) s1)\<lparr>br_up := ok\<rparr>"
  have s: "length (br_bar_size ?s) = q_regions q" "live_regions (br_calls ?s) {} = Some (sized (q_regions q) ?s)"
    "br_probed ?s \<or> sized (q_regions q) ?s = {}"
    using assms(2) l by (simp_all add: life_def sized_def)
  show ?thesis
  proof (cases ok)
    case False
    then show ?thesis using assms d l s by (auto simp: pciefw_connect_probe_device_def life_def sized_def Let_def matched_steps(1))
  next
    case True
    then obtain s2 where s2: "pciefw_probe_device q ?s = Some s2" "s' = qemu_do Q_set_handler s2"
      using assms(1) d(1) by (auto simp: pciefw_connect_probe_device_def Let_def bind_eq_Some_conv)
    have "matched (other_calls (br_calls s)) False (br_probed s)" using assms(2,3) by (simp add: life_def)
    from matched_steps(2) [OF this] show ?thesis
      using probe_device_life [OF s2(1) s] s2(2) l True by (simp add: life_def sized_def)
  qed
qed

lemma connect_life:
  assumes "pciefw_connect_if_unconnected q s = Some (r, s')" and "life (q_regions q) s"
  shows "life (q_regions q) s'"
  using assms connect_probe_life [of s r s'] by (auto simp: pciefw_connect_if_unconnected_def split: if_splits)

lemma event_life:
  assumes "bridge_event q dflt e s = Some s'" and "life (q_regions q) s"
  shows "life (q_regions q) s'"
proof -
  note l = life_ledger [THEN iffD1, rotated]
  have c: "life (q_regions q) s1" if "pciefw_connect_if_unconnected q s = Some (r, s1)" for r s1
    using connect_life [OF that assms(2)] .
  have rm: "ledger s2 = ledger s1" if "pciefw_send_read_mem (q_select q) b a w s1 = Some (r, d, s2)" for b a w s1 r d s2
    using ledger_read_common [OF _ select] that by (fastforce simp: pciefw_send_read_mem_def)
  show ?thesis
  proof (cases e)
    case (Ev_mmio_read b a w)
    then show ?thesis using assms(1)
      by (auto simp: pciefw_mmio_read_def bind_eq_Some_conv dest!: c rm split: if_splits intro: l)
  next
    case (Ev_mmio_write b a x w)
    then show ?thesis using assms(1)
      by (auto simp: pciefw_mmio_write_def bind_eq_Some_conv dest!: c ledger_write_mem split: if_splits intro: l)
  next
    case (Ev_config_read a w)
    then show ?thesis using assms(1)
      by (auto simp: pciefw_read_config_def bind_eq_Some_conv dest!: c read_ledger split: if_splits intro: l)
  next
    case (Ev_config_write a x w)
    then show ?thesis using assms(1)
      by (auto simp: pciefw_write_config_def bind_eq_Some_conv default_write dest!: c write_ledger
          split: if_splits intro: l)
  next
    case Ev_readable
    show ?thesis
    proof (cases "sk_rx (br_sock s) = []")
      case True
      then show ?thesis using assms Ev_readable by (simp add: pciefw_on_read_def)
    next
      case False
      then obtain err s1 where 1: "pciefw_recv_msg s = Some (err, s1)"
        "(if err \<noteq> 0 then Some (if br_up s1 then (qemu_do Q_closesocket (qemu_do Q_clear_handler s1))\<lparr>br_up := False\<rparr> else s1)
          else process_msg s1) = Some s'"
        using assms(1) Ev_readable by (auto simp: pciefw_on_read_def bind_eq_Some_conv)
      have s1: "life (q_regions q) s1" by (rule l [OF assms(2)]) (simp add: ledger_recv_msg [OF 1(1)])
      show ?thesis
      proof (cases "err = 0")
        case True
        then show ?thesis using 1(2) l [OF s1, of s'] ledger_process_msg [of s1 s'] by simp
      next
        case False
        then show ?thesis
          using 1(2) s1 matched_steps(3) [of "other_calls (br_calls s1)"] by (auto simp: life_def sized_def split: if_splits)
      qed
    qed
  qed
qed

lemma events_life:
  "bridge_events q dflt es s = Some s' \<Longrightarrow> life (q_regions q) s \<Longrightarrow> life (q_regions q) s'"
  by (induction es arbitrary: s) (auto simp: bind_eq_Some_conv dest: event_life)

text \<open>The start, on a state without calls whose sizes are all 0, as QEMU allocates it.\<close>

lemma init_life:
  assumes "pciefw_pci_init qs p oks junk s = Some (0, s')" and "qs (pciefw_opts (check_props p)) = q"
    and "br_calls s = []" and "br_bar_size s = replicate (q_regions q) 0"
  shows "life (q_regions q) s'"
proof -
  obtain a b c where oks: "oks = (a, b, c)" by (cases oks)
  let ?s = "qemu_do (Q_alloc Blk_opts) (qemu_do (Q_alloc Blk_optlist) (qemu_do (Q_alloc Blk_msg)
       (s\<lparr>br_up := False, br_probed := False, br_msg := junk\<rparr>)))"
  obtain r s1 where 1: "pciefw_connect_probe_device q ?s = Some (r, s1)" "s' = s1"
    using assms(1,2) oks by (auto simp: pciefw_pci_init_def Let_def bind_eq_Some_conv split: if_splits)
  have "matched [Q_alloc Blk_msg, Q_alloc Blk_optlist, Q_alloc Blk_opts] False False"
    unfolding matched_def Let_def by (auto, (case_tac b, auto)+)
  then have "life (q_regions q) ?s" using assms(3,4) by (simp add: life_def sized_def)
  from connect_probe_life [OF 1(1) this] 1(2) show ?thesis by simp
qed

end

lemma exit_calls:
  assumes "life (q_regions q) s"
  shows "live_regions (br_calls (pciefw_pci_exit q s)) {} = Some {} \<and>
     other_calls (br_calls (pciefw_pci_exit q s)) = other_calls (br_calls s) @
       [Q_msi_uninit, Q_clear_handler, Q_closesocket, Q_free Blk_opts, Q_free Blk_optlist, Q_free Blk_msg]"
proof -
  let ?s = "qemu_do Q_msi_uninit s"
  have "live_regions (br_calls ?s) {} = Some (sized (q_regions q) ?s)"
    using assms by (simp add: life_def sized_def)
  from regions_released [where f = exit_region, OF exit_region_step this order_refl]
  show ?thesis by (simp add: pciefw_pci_exit_def Let_def sized_gone)
qed

text \<open>A start that fails gives back what it allocated and has not connected.\<close>

lemma init_failure_releases:
  assumes "pciefw_pci_init qs p oks junk s = Some (-1, s')" and "br_calls s = []"
  shows "(\<forall>b. count_list (br_calls s') (Q_alloc b) = count_list (br_calls s') (Q_free b)) \<and>
     (\<forall>ok. Q_connect ok \<notin> set (br_calls s')) \<and> \<not> br_up s'"
  using assms by (auto simp: pciefw_pci_init_def Let_def bind_eq_Some_conv split: if_splits prod.splits)

text \<open>
  \<open>io_regions\<close> keeps the entry of a BAR whose region was destroyed. When the device behind the
  connection has lost that BAR, the next probe removes its region from the address space once more,
  although it does not exist: \<open>del_subregion\<close> is called for every mapped BAR (\<open>M\<close>), whatever its size.
\<close>

lemma unprobe_calls:
  assumes "br_probed s" and "\<And>i t. q_mapped q i t = (i \<in> M)"
  shows "br_calls (pciefw_unprobe_device q s) = br_calls s @ Q_msi_uninit # concat (map (\<lambda>i.
     (if i \<in> M then [Q_del_subregion i] else []) @ (if br_bar_size s ! i \<noteq> 0 then [Q_region_destroy i] else []))
     [0..<q_regions q])"
proof -
  have "let t = fold (unprobe_region q) [0..<k] s' in br_bar_size t = br_bar_size s' \<and>
      br_calls t = br_calls s' @ concat (map (\<lambda>i. (if i \<in> M then [Q_del_subregion i] else []) @
         (if br_bar_size s' ! i \<noteq> 0 then [Q_region_destroy i] else [])) [0..<k])" for k s'
    by (induction k) (simp_all add: unprobe_region_def assms(2) Let_def)
  from this [of "q_regions q" "qemu_do Q_msi_uninit s"] show ?thesis
    using assms(1) by (simp add: pciefw_unprobe_device_def Let_def)
qed

text \<open>
  C21. From the start of the device in QEMU, over any sequence of accesses of the guest, lost
  connections, reconnections and probes, to its end: no memory region is initialised while it exists
  or destroyed while it does not, all are destroyed at the end, and the allocations are freed once.
  The end closes the socket, clears its handler and removes the MSI capability also when there is
  none: that happens exactly once too often when the device is not connected, or was never probed.
\<close>

theorem bridge_life_balanced:
  assumes "quiet_bridge q dflt" and "qs (pciefw_opts (check_props p)) = q"
    and "br_calls s0 = []" and "br_bar_size s0 = replicate (q_regions q) 0"
    and "pciefw_pci_init qs p oks junk s0 = Some (0, s1)" and "bridge_events q dflt es s1 = Some s2"
  shows "let c = count_list (br_calls (pciefw_pci_exit q s2)) in
     live_regions (br_calls (pciefw_pci_exit q s2)) {} = Some {} \<and>
     (\<forall>b. c (Q_alloc b) = 1 \<and> c (Q_free b) = 1) \<and>
     c Q_closesocket = c (Q_connect True) + of_bool (\<not> br_up s2) \<and>
     c Q_clear_handler = c Q_set_handler + of_bool (\<not> br_up s2) \<and>
     c Q_msi_uninit = c Q_msi_init + of_bool (\<not> br_probed s2)"
proof -
  have "life (q_regions q) s2"
    using quiet_bridge.events_life [OF assms(1,6)] quiet_bridge.init_life [OF assms(1,5,2,3,4)] by blast
  note e = exit_calls [OF this] and m = this [unfolded life_def, THEN conjunct2, THEN conjunct2, THEN conjunct2]
  let ?t = "pciefw_pci_exit q s2"
  have c: "count_list (br_calls ?t) x = count_list (other_calls (br_calls ?t)) x" if "\<not> is_region x" for x
    using count_other [OF that] by simp
  have b: "(\<forall>x. P x) \<longleftrightarrow> P Blk_msg \<and> P Blk_optlist \<and> P Blk_opts" for P
    by (metis bridge_block.exhaust)
  show ?thesis using e m by (simp add: c matched_def Let_def b)
qed

section \<open>The environment of the virtual machine\<close>

text \<open>
  QEMU with a device process that accepts every connection: \<open>select\<close> lets the device run, and
  registering a BAR, adding the MSI capability and the default write change the configuration space
  only, by functions of QEMU that are arguments.
\<close>

definition vm_dial :: "('f, 'z) pcie_net_scheme vm \<Rightarrow> bool \<times> ('f, 'z) pcie_net_scheme vm" where
  "vm_dial s = (let k = \<lparr>sk_rx = [], sk_tx = [], sk_snd = [], sk_fail = []\<rparr> in
     (True, s\<lparr>br_sock := k, vm_dev := (vm_dev s)\<lparr>sock := k\<rparr>\<rparr>))"

definition vm_qemu ::
  "('f, ('f, 'z) pcie_net_scheme) callbacks \<Rightarrow> (nat \<Rightarrow> u32 \<Rightarrow> byte list \<Rightarrow> byte list) \<Rightarrow>
     (byte list \<Rightarrow> byte list) \<Rightarrow> (nat \<Rightarrow> byte list \<Rightarrow> bool) \<Rightarrow> ('f, 'z) pcie_net_scheme vm qemu" where
  "vm_qemu cb bar cap mapd = \<lparr>q_select = vm_select cb, q_dial = vm_dial,
     q_register = (\<lambda>i n s. s\<lparr>br_conf := bar i n (br_conf s)\<rparr>), q_msi = (\<lambda>s. s\<lparr>br_conf := cap (br_conf s)\<rparr>),
     q_mapped = (\<lambda>i s. mapd i (br_conf s)), q_regions = 7\<rparr>"

lemma ledger_wire: "ledger (wire s) = ledger s"
  by (simp add: wire_def ledger_def Let_def)

lemma ledger_dev_turn: "dev_turn cb s = Some s' \<Longrightarrow> ledger s' = ledger s"
  by (auto simp: dev_turn_def bind_eq_Some_conv Let_def ledger_wire simp del: pcie_net_loop_iter.simps split: if_splits)
    (simp_all add: ledger_def)

lemma ledger_vm_select: "vm_select cb s = Some y \<Longrightarrow> ledger (snd (snd y)) = ledger s"
proof (induction rule: vm_select.raw_induct [rotated, consumes 1, case_names step])
  case (step f cb s y)
  show ?case
  proof (cases "sk_rx (br_sock (wire s)) \<noteq> [] \<or> dev_blocked (wire s)")
    case True
    then show ?thesis using step(2) by (auto simp: Let_def ledger_wire split: if_splits)
  next
    case False
    then obtain s1 where "dev_turn cb (wire s) = Some s1" "f cb s1 = Some y"
      using step(2) by (auto simp: Let_def bind_eq_Some_conv)
    then show ?thesis using step(1) [of cb s1] ledger_dev_turn [of cb "wire s" s1] by (simp add: ledger_wire)
  qed
qed

interpretation vm_quiet: quiet_bridge "vm_qemu cb bar cap mapd" "\<lambda>a x w s. s\<lparr>br_conf := dw a x w (br_conf s)\<rparr>"
  for cb :: "('f, ('f, 'z) pcie_net_scheme) callbacks" and bar cap mapd dw
  by unfold_locales (auto simp: vm_qemu_def vm_dial_def Let_def ledger_def dest!: ledger_vm_select)

end
