(* ===== verification/Bridge_Probe.thy ===== *)
theory Bridge_Probe
  imports Bridge_Life Dma_Link
begin

text \<open>
  The probe of the BARs carried out against the device layer of \<open>Pcie_Dev\<close>: what size the bridge
  takes each BAR of the endpoint to have, for every endpoint.
\<close>

section \<open>Configuration requests of the probe\<close>

text \<open>A write of the BAR \<open>i\<close>; \<open>b\<close> is whatever the buffer holds in the field \<open>bar\<close>.\<close>

definition cfg_req :: "nat \<times> nat \<times> u64 \<Rightarrow> net_msg" where
  "cfg_req = (\<lambda>(b, i, x). write_req PCIE_NET_OP_WRITE_CONFIG b (bar_addr i) 4 x)"

text \<open>Its effect on the configuration space of an endpoint with BARs of the sizes \<open>sz\<close>.\<close>

definition cfg_eff :: "u64 list \<Rightarrow> nat \<times> nat \<times> u64 \<Rightarrow> byte list \<Rightarrow> byte list" where
  "cfg_eff sz = (\<lambda>(b, i, x) c. let x = (ucast x :: u32) in
     if i < 6 \<and> x = -1 then
       (if sz ! i \<noteq> 0 then mem_patch c (16 + 4 * i) (le_bytes 4 (NOT (ucast (sz ! i) - 1 :: u32))) else c)
     else mem_patch c (16 + 4 * i) (le_bytes 4 x))"

lemma length_cfg_eff [simp]: "length c = 4096 \<Longrightarrow> fst (snd w) < 7 \<Longrightarrow> length (cfg_eff sz w c) = 4096"
  by (cases w) (simp add: cfg_eff_def length_mem_patch Let_def)

lemma cfg_req_fields [simp]:
  "m_op (cfg_req w) = PCIE_NET_OP_WRITE_CONFIG" "m_width (cfg_req w) = 4" "m_addr (cfg_req w) = bar_addr (fst (snd w))"
  "m_size (cfg_req w) = 4" "m_data (cfg_req w) = le_bytes 8 (snd (snd w))"
  by (cases w; simp add: cfg_req_def write_req_def)+

lemma cfg_req_fits: "msg_fits (cfg_req w)"
  by (simp add: msg_fits_def)

lemma bar_addr_7:
  assumes "i < 7"
  shows "unat (bar_addr i) = 16 + 4 * i" "config_aligned (bar_addr i) 4"
    "PCI_BASE_ADDRESS_0 \<le> bar_addr i \<and> bar_addr i \<le> PCI_BASE_ADDRESS_5 \<longleftrightarrow> i < 6" "bar_addr i \<noteq> PCI_ROM_ADDRESS"
proof -
  have "i < 6 \<or> i = 6" using assms by arith
  then show u: "unat (bar_addr i) = 16 + 4 * i" using bar_addr_props(4) [of i] by (auto simp: bar_addr_def const_defs)
  show "config_aligned (bar_addr i) 4" using u assms by (simp add: config_aligned_def config_width_def mod_mult_self2)
  show "PCI_BASE_ADDRESS_0 \<le> bar_addr i \<and> bar_addr i \<le> PCI_BASE_ADDRESS_5 \<longleftrightarrow> i < 6"
    unfolding word_le_nat_alt u by (auto simp: const_defs)
  show "bar_addr i \<noteq> PCI_ROM_ADDRESS"
  proof
    assume "bar_addr i = PCI_ROM_ADDRESS"
    from arg_cong [OF this, of unat] show False using assms u by (simp add: const_defs)
  qed
qed

lemma low_half: "take 4 (le_bytes 8 x) = le_bytes 4 (ucast (x :: u64) :: u32)"
proof (rule nth_equalityI)
  fix i assume "i < length (take 4 (le_bytes 8 x))"
  then have i: "i < 4" by simp
  show "take 4 (le_bytes 8 x) ! i = le_bytes 4 (ucast x :: u32) ! i"
    using i by (auto simp: nth_le_bytes bit_simps intro!: bit_word_eqI)
qed simp

text \<open>The endpoint handles it, whatever the buffer holds behind its four bytes.\<close>

lemma recv_cfg_req:
  assumes d: "dev_wf d" and w: "fst (snd w) < 7" and m: "msg_norm m = msg_norm (cfg_req w)"
  shows "on_msg_recv cr cw m rep d = Some (0, rep, d\<lparr>config := cfg_eff (bar_size d) w (config d)\<rparr>)"
proof -
  obtain b i x where w': "w = (b, i, x)" by (cases w)
  have f: "m_op m = PCIE_NET_OP_WRITE_CONFIG" "m_width m = 4" "m_addr m = bar_addr i" "m_size m = 4"
    using arg_cong [OF m, of m_op] arg_cong [OF m, of m_width] arg_cong [OF m, of m_addr] arg_cong [OF m, of m_size] w'
    by simp_all
  let ?x = "ucast x :: u32"
  have "take 4 (m_data m) = le_bytes 4 ?x"
    using arg_cong [OF m, of m_data] f(4) w' by (simp add: low_half)
  moreover have "4 \<le> length (m_data m)" using arg_cong [OF calculation, of length] by simp
  ultimately have rd: "mem_read (m_data m) 0 4 = Some (le_bytes 4 ?x)" by (simp add: mem_read_def)
  have v: "(of_le (le_bytes 4 ?x) :: u32) = ?x" by (rule of_le_le_bytes) simp
  have i: "i < 7" using w w' by simp
  note a = bar_addr_7 [OF i]
  have c: "length (config d) = 4096" using d by (simp add: dev_wf_def)
  have wr: "pcie_write_config_long d (bar_addr i) y = Some (0, d\<lparr>config := mem_patch (config d) (16 + 4 * i) (le_bytes 4 y)\<rparr>)" for y
    using write_config_ok [of "bar_addr i" "le_bytes 4 y" d] a(1,2) c by (simp add: pcie_write_config_long_def)
  have "on_write_config d m = Some (d\<lparr>config := cfg_eff (bar_size d) w (config d)\<rparr>)"
  proof (cases "i < 6")
    case True
    note b = bar_addr_props(1-3) [OF True]
    have "(-1 :: u32) AND y = y" for y by (rule and.left_neutral)
    then show ?thesis using True b f rd wr v w'
      by (cases "?x = -1") (simp_all add: on_write_config_def write_config_default_def cfg_eff_def Let_def)
  next
    case False
    then have "\<not> (PCI_BASE_ADDRESS_0 \<le> bar_addr i \<and> bar_addr i \<le> PCI_BASE_ADDRESS_5)" using a(3) by blast
    then show ?thesis using False f rd wr v w' a(4)
      by (auto simp: on_write_config_def write_config_default_def cfg_eff_def Let_def)
  qed
  then show ?thesis using f(1) by (simp add: on_msg_recv_def const_defs Let_def)
qed

lemma recv_cfg_read:
  assumes d: "dev_wf d" and i: "i < 7" and m: "msg_norm m = msg_norm (read_req PCIE_NET_OP_READ_CONFIG b (bar_addr i) 4)"
  shows "on_msg_recv cr cw m rep d = Some (1, rep\<lparr>r_status := 0,
     r_data := le_bytes 8 (ucast (of_le (take 4 (drop (16 + 4 * i) (config d))) :: u32) :: u64)\<rparr>, d)"
proof -
  have f: "m_op m = PCIE_NET_OP_READ_CONFIG" "m_width m = 4" "m_addr m = bar_addr i"
    using arg_cong [OF m, of m_op] arg_cong [OF m, of m_width] arg_cong [OF m, of m_addr] by (simp_all add: read_req_def)
  note a = bar_addr_7 [OF i]
  have c: "length (config d) = 4096" using d by (simp add: dev_wf_def)
  show ?thesis using f a(1) read_config_ok [OF a(2) c]
    by (simp add: on_msg_recv_def on_read_config_def pcie_read_config_long_def const_defs Let_def)
qed

section \<open>Bridge and endpoint while BARs are probed\<close>

text \<open>
  Configuration writes \<open>P\<close> are on their way, perhaps followed by the request \<open>rq\<close> of a read, and
  nothing is on its way back; \<open>c\<close> is the configuration space once all of them are done.
\<close>

definition conn :: "byte list \<Rightarrow> (nat \<times> nat \<times> u64) list \<Rightarrow> byte list \<Rightarrow> ('f, 'z) pcie_dev_scheme vm \<Rightarrow> bool" where
  "conn rq P c s \<longleftrightarrow> bridge_ok s \<and> loc_ok (vm_loc s) \<and> dev_wf (vm_dev s) \<and> ev_fd (vm_dev s) = -1 \<and>
     0 \<le> net_fd (vm_dev s) \<and> sk_snd (sock (vm_dev s)) = [] \<and> sk_fail (sock (vm_dev s)) = [] \<and>
     sk_rx (sock (vm_dev s)) @ sk_tx (br_sock s) = concat (map (\<lambda>w. msg_frame (cfg_req w)) P) @ rq \<and>
     sk_rx (br_sock s) = [] \<and> sk_tx (sock (vm_dev s)) = [] \<and> (\<forall>w\<in>set P. fst (snd w) < 7) \<and>
     c = fold (cfg_eff (bar_size (vm_dev s))) P (config (vm_dev s))"

text \<open>What the requests leave alone.\<close>

definition kept :: "('f, 'z) pcie_dev_scheme vm \<Rightarrow> ('f, 'z) pcie_dev_scheme vm \<Rightarrow> bool" where
  "kept s s' \<longleftrightarrow> br_conf s' = br_conf s \<and> bar_size (vm_dev s') = bar_size (vm_dev s) \<and> ledger s' = ledger s"

lemma kept_trans: "kept s t \<Longrightarrow> kept t u \<Longrightarrow> kept s u"
  by (simp add: kept_def)

lemma conn_wire:
  assumes "conn rq P c s"
  shows "conn rq P c (wire s)" "sk_tx (br_sock (wire s)) = []" "sk_tx (sock (vm_dev (wire s))) = []"
    "sk_rx (sock (vm_dev (wire s))) = concat (map (\<lambda>w. msg_frame (cfg_req w)) P) @ rq"
    "sk_rx (br_sock (wire s)) = []" "kept s (wire s)"
  using assms by (simp_all add: conn_def wire_def Let_def bridge_ok_def kept_def dev_wf_def ledger_def)

lemma conn_turn:
  assumes cb: "cb_recv cb = on_msg_recv cr cw" and i: "conn rq (w # P) c s"
  shows "\<exists>s'. dev_turn cb (wire s) = Some s' \<and> conn rq P c s' \<and> kept s s'"
proof -
  let ?s = "wire s"
  note W = conn_wire [OF i]
  let ?rest = "concat (map (\<lambda>w. msg_frame (cfg_req w)) P) @ rq"
  let ?d = "(vm_dev ?s)\<lparr>sock := (sock (vm_dev ?s))\<lparr>sk_rx := ?rest\<rparr>\<rparr>"
  let ?d' = "?d\<lparr>config := cfg_eff (bar_size ?d) w (config ?d)\<rparr>"
  have I: "sk_fail (sock (vm_dev ?s)) = []" "sk_snd (sock (vm_dev ?s)) = []" "dev_wf (vm_dev ?s)"
    "0 \<le> net_fd (vm_dev ?s)" "loc_ok (vm_loc ?s)" "fst (snd w) < 7" "ev_fd (vm_dev ?s) = -1"
    using W(1) by (simp_all add: conn_def)
  have rx: "sk_rx (sock (vm_dev ?s)) = msg_frame (cfg_req w) @ ?rest" using W(4) by simp
  have wf: "dev_wf ?d" using I(3) by (simp add: dev_wf_def)
  have "\<exists>l. dev_turn cb ?s = Some (wire (?s\<lparr>vm_loc := l, vm_dev := (if (0 :: nat) = 0 then ?d' else ?d'\<lparr>sock :=
      (sock ?d')\<lparr>sk_tx := sk_tx (sock ?d') @ encode_reply ((l_reply (vm_loc ?s))\<lparr>r_hsize := of_nat sizeof_reply\<rparr>)\<rparr>\<rparr>)\<rparr>)) \<and> loc_ok l"
    by (rule dev_turn_frame [OF rx I(1,7,4) cfg_req_fits I(5)])
      (use recv_cfg_req [OF wf I(6)] I cb in \<open>simp_all add: loc_ok_def\<close>)
  then obtain l where l: "dev_turn cb ?s = Some (wire (?s\<lparr>vm_loc := l, vm_dev := ?d'\<rparr>))" "loc_ok l" by auto
  have "dev_wf ?d'" using I(3,6) by (simp add: dev_wf_def)
  then have "conn rq P c (?s\<lparr>vm_loc := l, vm_dev := ?d'\<rparr>)"
    using W(1-3) l(2) rx I by (simp add: conn_def bridge_ok_def)
  moreover have "kept s (?s\<lparr>vm_loc := l, vm_dev := ?d'\<rparr>)" using W(6) by (simp add: kept_def ledger_def)
  ultimately show ?thesis using conn_wire(1,6) l(1) kept_trans by blast
qed

lemma conn_select:
  assumes cb: "cb_recv cb = on_msg_recv cr cw"
  shows "conn rq P c s \<Longrightarrow> \<exists>s'. vm_select cb s = vm_select cb s' \<and> conn rq [] c s' \<and> kept s s'"
proof (induction P arbitrary: s)
  case Nil
  then show ?case by (auto simp: kept_def)
next
  case (Cons w P)
  obtain s1 where s1: "dev_turn cb (wire s) = Some s1" "conn rq P c s1" "kept s s1"
    using conn_turn [OF cb Cons.prems] by blast
  have "\<not> dev_blocked (wire s)" using conn_wire(4) [OF Cons.prems] by (simp add: dev_blocked_def msg_frame_split)
  then have "vm_select cb s = vm_select cb s1"
    using s1(1) conn_wire(5) [OF Cons.prems] by (subst vm_select.simps) (simp add: Let_def)
  then show ?case using Cons.IH [OF s1(2)] s1(3) kept_trans by metis
qed

text \<open>The endpoint has answered a read of the BAR \<open>i\<close>: the reply is all the bridge can read.\<close>

definition cfg_rep :: "nat \<Rightarrow> byte list \<Rightarrow> net_reply \<Rightarrow> net_reply" where
  "cfg_rep i c r = r\<lparr>r_status := 0,
     r_data := le_bytes 8 (ucast (of_le (take 4 (drop (16 + 4 * i) c)) :: u32) :: u64),
     r_hsize := of_nat sizeof_reply\<rparr>"

lemma conn_reply:
  assumes cb: "cb_recv cb = on_msg_recv cr cw" and i: "i < 7"
    and c: "conn (msg_frame (read_req PCIE_NET_OP_READ_CONFIG b (bar_addr i) 4)) [] c s"
  shows "\<exists>r s'. vm_select cb s = Some (1, False, s') \<and> sk_rx (br_sock s') = encode_reply (cfg_rep i c r) \<and>
     conn [] [] c (s'\<lparr>br_sock := (br_sock s')\<lparr>sk_rx := []\<rparr>\<rparr>) \<and> kept s s'"
proof -
  let ?m = "read_req PCIE_NET_OP_READ_CONFIG b (bar_addr i) 4"
  let ?s = "wire s"
  note W = conn_wire [OF c]
  let ?d = "(vm_dev ?s)\<lparr>sock := (sock (vm_dev ?s))\<lparr>sk_rx := []\<rparr>\<rparr>"
  have I: "sk_fail (sock (vm_dev ?s)) = []" "sk_snd (sock (vm_dev ?s)) = []" "dev_wf (vm_dev ?s)"
    "0 \<le> net_fd (vm_dev ?s)" "loc_ok (vm_loc ?s)" "ev_fd (vm_dev ?s) = -1" "config ?d = c"
    using W(1) by (simp_all add: conn_def)
  have rx: "sk_rx (sock (vm_dev ?s)) = msg_frame ?m @ []" using W(4) by simp
  have wf: "dev_wf ?d" using I(3) by (simp add: dev_wf_def)
  let ?rep = "(l_reply (vm_loc ?s))\<lparr>r_status := 0,
     r_data := le_bytes 8 (ucast (of_le (take 4 (drop (16 + 4 * i) (config ?d))) :: u32) :: u64)\<rparr>"
  let ?d2 = "?d\<lparr>sock := (sock ?d)\<lparr>sk_tx := sk_tx (sock ?d) @ encode_reply (?rep\<lparr>r_hsize := of_nat sizeof_reply\<rparr>)\<rparr>\<rparr>"
  have "msg_fits ?m" by (simp add: msg_fits_def read_req_def)
  then have "\<exists>l. dev_turn cb ?s = Some (wire (?s\<lparr>vm_loc := l, vm_dev := (if (1 :: nat) = 0 then ?d else ?d2)\<rparr>)) \<and> loc_ok l"
    by (rule dev_turn_frame [OF rx I(1,6,4) _ I(5)])
      (use recv_cfg_read [OF wf i] I cb in simp_all)
  then obtain l where l: "dev_turn cb ?s = Some (wire (?s\<lparr>vm_loc := l, vm_dev := ?d2\<rparr>))" "loc_ok l" by auto
  obtain t where t: "t = wire (?s\<lparr>vm_loc := l, vm_dev := ?d2\<rparr>)" by blast
  have tx: "sk_rx (br_sock t) = encode_reply (cfg_rep i c (l_reply (vm_loc ?s)))" "wire t = t"
    using W(2,3,5) I(7) by (simp_all add: t wire_def Let_def cfg_rep_def)
  have sel: "vm_select cb t = Some (1, False, t)"
    by (subst vm_select.simps) (use tx in \<open>simp add: Let_def encode_reply_def\<close>)
  have "\<not> dev_blocked ?s" using rx by (simp add: dev_blocked_def msg_frame_split)
  then have "vm_select cb s = Some (1, False, t)"
    using W(5) l(1) sel t by (subst vm_select.simps) (simp add: Let_def)
  moreover have "conn [] [] c (t\<lparr>br_sock := (br_sock t)\<lparr>sk_rx := []\<rparr>\<rparr>)"
    using W(1-3) I l(2) by (simp add: t conn_def wire_def Let_def bridge_ok_def dev_wf_def)
  moreover have "kept s t" using W(6) by (simp add: t kept_def ledger_def wire_def Let_def)
  ultimately show ?thesis using tx(1) by blast
qed

section \<open>The accesses of the probe\<close>

lemma cfg_eff_bar: "cfg_eff sz (b, i, x) = cfg_eff sz (0, i, x)"
  by (simp add: cfg_eff_def)

lemma probe_write:
  assumes c: "conn [] P c s" and i: "i < 7"
  shows "\<exists>P' s'. pciefw_send_write_config (bar_addr i) 4 x s = Some (0, s') \<and>
     conn [] P' (cfg_eff (bar_size (vm_dev s)) (0, i, x) c) s' \<and> kept s s'"
proof -
  let ?d = "le_bytes 8 x @ drop 8 (m_data (br_msg s))"
  have ok: "bridge_ok s" using c by (simp add: conn_def)
  have d: "mem_write (m_data (br_msg s)) 0 (le_bytes 8 x) = Some ?d"
    using ok by (simp add: mem_write_def bridge_ok_def msg_room_def)
  let ?m = "(br_msg s)\<lparr>m_op := PCIE_NET_OP_WRITE_CONFIG, m_width := of_nat 4, m_addr := bar_addr i,
      m_size := of_nat 4, m_data := ?d\<rparr>"
  let ?w = "(unat (m_bar (br_msg s)), i, x)"
  have fits: "msg_fits ?m" using ok by (simp add: msg_fits_def bridge_ok_def msg_room_def)
  have fr: "msg_frame ?m = msg_frame (cfg_req ?w)"
    by (rule msg_frame_norm [OF _ fits cfg_req_fits]) (simp add: msg_norm_def cfg_req_def write_req_def)
  have "bridge_ok (s\<lparr>br_msg := ?m\<rparr>)" using ok by (simp add: bridge_ok_def msg_room_def)
  from bridge_send_msg [OF this] obtain m where m: "pciefw_send_msg (s\<lparr>br_msg := ?m\<rparr>) = Some (0, s\<lparr>br_msg := m,
       br_sock := (br_sock s)\<lparr>sk_tx := sk_tx (br_sock s) @ msg_frame (cfg_req ?w)\<rparr>\<rparr>)" "msg_room m"
    using fits fr by auto
  let ?s = "s\<lparr>br_msg := m, br_sock := (br_sock s)\<lparr>sk_tx := sk_tx (br_sock s) @ msg_frame (cfg_req ?w)\<rparr>\<rparr>"
  have "pciefw_send_write_config (bar_addr i) 4 x s = Some (0, ?s)" using d m(1) by (simp add: pciefw_send_write_config_def)
  moreover have "conn [] (P @ [?w]) (cfg_eff (bar_size (vm_dev s)) (0, i, x) c) ?s"
    using c i m(2) cfg_eff_bar [of _ "unat (m_bar (br_msg s))" i x] by (auto simp: conn_def bridge_ok_def)
  moreover have "kept s ?s" by (simp add: kept_def)
  ultimately show ?thesis by blast
qed

lemma probe_read:
  assumes cb: "cb_recv cb = on_msg_recv cr cw" and c: "conn [] P c s" and i: "i < 7"
  shows "\<exists>s'. pciefw_send_read_config (vm_select cb) (bar_addr i) 4 s = Some (0, take 4 (drop (16 + 4 * i) c), s') \<and>
     conn [] [] c s' \<and> kept s s'"
proof -
  let ?s0 = "s\<lparr>br_msg := (br_msg s)\<lparr>m_op := PCIE_NET_OP_READ_CONFIG\<rparr>\<rparr>"
  let ?rq = "msg_frame (read_req PCIE_NET_OP_READ_CONFIG (m_bar (br_msg s)) (bar_addr i) 4)"
  have ok: "bridge_ok s" "bridge_ok ?s0" using c by (simp_all add: conn_def bridge_ok_def msg_room_def)
  obtain m where m: "pciefw_send_read_common (vm_select cb) (bar_addr i) 4 ?s0 = do {
       (r, reply, s) \<leftarrow> pciefw_recv_reply (vm_select cb) (s\<lparr>br_msg := m, br_sock := (br_sock s)\<lparr>sk_tx := sk_tx (br_sock s) @ ?rq\<rparr>\<rparr>);
       case reply of None \<Rightarrow> Some (-1, [], s)
       | Some reply \<Rightarrow> Some (0, if (4 :: nat) \<in> {1, 2, 4, 8} then take 4 (r_data reply) else [], s) }" "msg_room m"
    using bridge_read_common [OF ok(2), of "vm_select cb" "bar_addr i" 4] by auto
  let ?s1 = "s\<lparr>br_msg := m, br_sock := (br_sock s)\<lparr>sk_tx := sk_tx (br_sock s) @ ?rq\<rparr>\<rparr>"
  have c1: "conn ?rq P c ?s1" "kept s ?s1" using c m(2) by (auto simp: conn_def bridge_ok_def kept_def)
  obtain s2 where s2: "vm_select cb ?s1 = vm_select cb s2" "conn ?rq [] c s2" "kept ?s1 s2"
    using conn_select [OF cb c1(1)] by blast
  obtain r s3 where s3: "vm_select cb s2 = Some (1, False, s3)" "sk_rx (br_sock s3) = encode_reply (cfg_rep i c r)"
    "conn [] [] c (s3\<lparr>br_sock := (br_sock s3)\<lparr>sk_rx := []\<rparr>\<rparr>)" "kept s2 s3"
    using conn_reply [OF cb i s2(2)] by blast
  have b3: "bridge_ok s3" using s3(3) by (simp add: conn_def bridge_ok_def)
  obtain m' where m': "pciefw_recv_msg s3 = Some (0, s3\<lparr>br_sock := (br_sock s3)\<lparr>sk_rx := []\<rparr>, br_msg := m'\<rparr>)"
    "msg_room m'" "m_hsize m' = of_nat sizeof_reply" "take sizeof_reply (encode_msg m') = encode_reply (cfg_rep i c r)"
    using bridge_recv_reply_frame [of s3 "cfg_rep i c r" "[]"] s3(2) b3 by (auto simp: bridge_ok_def cfg_rep_def)
  let ?s4 = "s3\<lparr>br_sock := (br_sock s3)\<lparr>sk_rx := []\<rparr>, br_msg := m'\<rparr>"
  have rep: "pciefw_recv_reply (vm_select cb) ?s1 = Some (0, Some (cfg_rep i c r), ?s4)"
    by (subst pciefw_recv_reply.simps)
      (use s2(1) s3(1) m' in \<open>simp add: decode_encode_reply sizeof_reply_def cfg_rep_def\<close>)
  have "length c = 4096" using s2(2) by (simp add: conn_def dev_wf_def)
  then have "length (take 4 (drop (16 + 4 * i) c)) = 4" using i by simp
  then have "le_bytes 4 (of_le (take 4 (drop (16 + 4 * i) c)) :: u32) = take 4 (drop (16 + 4 * i) c)"
    using le_bytes_of_le [of "take 4 (drop (16 + 4 * i) c)", where 'a = 32] by simp
  then have "take 4 (r_data (cfg_rep i c r)) = take 4 (drop (16 + 4 * i) c)"
    by (simp add: cfg_rep_def take_4_bytes del: take_drop)
  then have "pciefw_send_read_config (vm_select cb) (bar_addr i) 4 s = Some (0, take 4 (drop (16 + 4 * i) c), ?s4)"
    using m(1) rep by (simp add: pciefw_send_read_config_def)
  moreover have "conn [] [] c ?s4" using s3(3) m'(2) by (simp add: conn_def bridge_ok_def)
  moreover have "kept s ?s4" using c1(2) s2(3) s3(4) by (simp add: kept_def)
  ultimately show ?thesis by blast
qed

section \<open>What the bridge measures\<close>

text \<open>The size rounded up to 16, since the low bits of the BAR are masked; 0 for a multiple of \<open>2 ^ 32\<close>.\<close>

definition probed_size :: "u64 \<Rightarrow> u32" where
  "probed_size z = (if z = 0 then 0 else ((ucast z - 1) OR 0xf) + 1)"

text \<open>The seventh region is the one at offset 0x28, where the endpoint stores what is written.\<close>

definition measured :: "u64 list \<Rightarrow> nat \<Rightarrow> u64" where
  "measured sz i = (if i < 6 then ucast (probed_size (sz ! i)) else 16)"

definition bar_bytes :: "nat \<Rightarrow> byte list \<Rightarrow> byte list" where
  "bar_bytes i c = take 4 (drop (16 + 4 * i) c)"

lemma bar_bytes_patch:
  assumes "length c = 4096" and "i < 7" and "j < 7" and "length d = 4"
  shows "bar_bytes j (mem_patch c (16 + 4 * i) d) = (if j = i then d else bar_bytes j c)"
proof (rule nth_equalityI)
  show "length (bar_bytes j (mem_patch c (16 + 4 * i) d)) = length (if j = i then d else bar_bytes j c)"
    using assms by (simp add: bar_bytes_def length_mem_patch)
  fix k assume "k < length (bar_bytes j (mem_patch c (16 + 4 * i) d))"
  then have k: "k < 4" by (simp add: bar_bytes_def)
  then show "bar_bytes j (mem_patch c (16 + 4 * i) d) ! k = (if j = i then d else bar_bytes j c) ! k"
    using assms by (auto simp: bar_bytes_def nth_mem_patch length_mem_patch)
qed

lemma bar_bytes_eff:
  assumes "length c = 4096" and "i < 7" and "j < 7"
  shows "bar_bytes j (cfg_eff sz (b, i, x) c) = (if j \<noteq> i then bar_bytes j c
     else if i < 6 \<and> (ucast x :: u32) = -1 then
       (if sz ! i \<noteq> 0 then le_bytes 4 (NOT (ucast (sz ! i) - 1 :: u32)) else bar_bytes i c)
     else le_bytes 4 (ucast x :: u32))"
  using assms by (simp add: cfg_eff_def bar_bytes_patch Let_def)

lemma mask_to_size: "NOT (NOT y AND NOT m) + 1 = (y OR m) + (1 :: u32)"
  by simp

text \<open>The value read back after all ones were written gives the size.\<close>

lemma probed_value:
  assumes "length c = 4096" and "i < 7" and "i < 6 \<and> sz ! i = 0 \<Longrightarrow> bar_bytes i c = [0, 0, 0, 0]"
  shows "ucast (NOT ((of_le (bar_bytes i (cfg_eff sz (0, i, -1) c)) :: u32) AND NOT PCI_ADDR_FLAG_MASK) + 1) = measured sz i"
proof -
  have m1: "(ucast (-1 :: u64) :: u32) = -1" by (rule bit_word_eqI) (auto simp: bit_simps)
  have v: "(of_le (le_bytes 4 y) :: u32) = y" for y :: u32 by (rule of_le_le_bytes) simp
  consider "i < 6" "sz ! i = 0" | "i < 6" "sz ! i \<noteq> 0" | "i = 6" using assms(2) by linarith
  then show ?thesis
  proof cases
    case 1
    then show ?thesis using assms m1 by (simp add: bar_bytes_eff measured_def probed_size_def)
  next
    case 2
    then have "bar_bytes i (cfg_eff sz (0, i, -1) c) = le_bytes 4 (NOT (ucast (sz ! i) - 1 :: u32))"
      using assms m1 by (simp add: bar_bytes_eff)
    then show ?thesis using 2 by (simp only: v mask_to_size) (simp add: measured_def probed_size_def PCI_ADDR_FLAG_MASK_def)
  next
    case 3
    then have "bar_bytes i (cfg_eff sz (0, i, -1) c) = le_bytes 4 (-1 :: u32)"
      using assms m1 by (simp add: bar_bytes_eff)
    then show ?thesis using 3 by (simp only: v) (simp add: measured_def PCI_ADDR_FLAG_MASK_def)
  qed
qed

text \<open>The state between two turns of the probe.\<close>

definition probe_ok :: "u64 list \<Rightarrow> nat \<Rightarrow> ('f, 'z) pcie_dev_scheme vm \<Rightarrow> bool" where
  "probe_ok sz k s \<longleftrightarrow> (\<exists>P c. conn [] P c s \<and> (\<forall>j. k \<le> j \<and> j < 6 \<and> sz ! j = 0 \<longrightarrow> bar_bytes j c = [0, 0, 0, 0])) \<and>
     length (br_conf s) = 256 \<and> bar_size (vm_dev s) = sz \<and> length (br_bar_size s) = 7 \<and>
     (\<forall>j<k. br_bar_size s ! j = measured sz j)"

lemma conn_length: "conn rq P c s \<Longrightarrow> length c = 4096"
proof -
  assume c: "conn rq P c s"
  have "length (fold (cfg_eff sz) P b) = 4096" if "length b = 4096" "\<forall>w\<in>set P. fst (snd w) < 7" for b sz
    using that by (induction P arbitrary: b) simp_all
  then show ?thesis using c by (simp add: conn_def dev_wf_def)
qed

lemma conn_quiet:
  assumes "conn rq P c s" and "br_sock s' = br_sock s" and "br_msg s' = br_msg s" and "br_up s' = br_up s"
    and "vm_dev s' = vm_dev s" and "vm_loc s' = vm_loc s"
  shows "conn rq P c s'"
  using assms by (simp add: conn_def bridge_ok_def)

text \<open>Registering a BAR writes into the configuration space, which keeps its length.\<close>

definition conf_kept :: "(nat \<Rightarrow> u32 \<Rightarrow> byte list \<Rightarrow> byte list) \<Rightarrow> bool" where
  "conf_kept bar \<longleftrightarrow> (\<forall>i n c. length c = 256 \<longrightarrow> length (bar i n c) = 256)"

lemma probe_bar_measures:
  assumes cb: "cb_recv cb = on_msg_recv cr cw" and k: "k < 7" and s: "probe_ok sz k s"
    and bar: "conf_kept bar"
  shows "\<exists>s'. probe_bar (vm_select cb) (\<lambda>i n s. s\<lparr>br_conf := bar i n (br_conf s)\<rparr>) k s = Some s' \<and> probe_ok sz (Suc k) s'"
proof -
  let ?reg = "\<lambda>i n s. s\<lparr>br_conf := bar i n (br_conf s)\<rparr>"
  obtain P c where c: "conn [] P c s" "\<forall>j. k \<le> j \<and> j < 6 \<and> sz ! j = 0 \<longrightarrow> bar_bytes j c = [0, 0, 0, 0]"
    and s: "length (br_conf s) = 256" "bar_size (vm_dev s) = sz" "length (br_bar_size s) = 7"
      "\<forall>j<k. br_bar_size s ! j = measured sz j"
    using s by (auto simp: probe_ok_def)
  have a: "PCI_BASE_ADDRESS_0 + word_of_nat (k * 4) = bar_addr k" by (simp add: bar_addr_def mult.commute)
  have rd: "\<exists>d. mem_read x (unat (bar_addr k)) 4 = Some d" if "length x = 256" for x :: "byte list"
    using that bar_addr_7(1) [OF k] k by (simp add: mem_read_def)
  let ?s0 = "s\<lparr>br_bar_size := (br_bar_size s)[k := 0]\<rparr>"
  obtain P1 s1 where 1: "pciefw_send_write_config (bar_addr k) 4 (-1) ?s0 = Some (0, s1)"
    "conn [] P1 (cfg_eff sz (0, k, -1) c) s1" "kept ?s0 s1"
    using probe_write [OF conn_quiet [OF c(1), of ?s0] k, of "-1"] s(2) by auto
  let ?c1 = "cfg_eff sz (0, k, -1) c"
  obtain s2 where 2: "pciefw_send_read_config (vm_select cb) (bar_addr k) 4 s1 = Some (0, bar_bytes k ?c1, s2)"
    "conn [] [] ?c1 s2" "kept ?s0 s2"
    using probe_read [OF cb 1(2) k] 1(3) kept_trans unfolding bar_bytes_def by blast
  obtain d where d: "mem_read (br_conf s2) (unat (bar_addr k)) 4 = Some d" using rd s(1) 2(3) by (auto simp: kept_def)
  obtain P3 s3 x3 where 3: "pciefw_send_write_config (bar_addr k) 4 (ucast (of_le d :: u32)) s2 = Some (0, s3)"
    "conn [] P3 (cfg_eff sz (0, k, x3) ?c1) s3" "kept ?s0 s3"
    using probe_write [OF 2(2) k] 2(3) s(2) kept_trans by (fastforce simp: kept_def)
  let ?z = "NOT ((of_le (bar_bytes k ?c1) :: u32) AND NOT PCI_ADDR_FLAG_MASK) + 1"
  have len: "length c = 4096" "length ?c1 = 4096" using conn_length c(1) 1(2) by blast+
  have z: "ucast ?z = measured sz k" by (rule probed_value [OF len(1) k]) (use c(2) in simp)
  have fin: "probe_ok sz (Suc k) t" if "conn [] Q C t" "\<And>j. j < 7 \<Longrightarrow> j \<noteq> k \<Longrightarrow> bar_bytes j C = bar_bytes j c"
    "length (br_conf t) = 256" "bar_size (vm_dev t) = sz" "br_bar_size t = (br_bar_size s)[k := measured sz k]" for t Q C
  proof -
    have "\<forall>j. Suc k \<le> j \<and> j < 6 \<and> sz ! j = 0 \<longrightarrow> bar_bytes j C = [0, 0, 0, 0]" using that(2) c(2) by simp
    then have "\<exists>P c. conn [] P c t \<and> (\<forall>j. Suc k \<le> j \<and> j < 6 \<and> sz ! j = 0 \<longrightarrow> bar_bytes j c = [0, 0, 0, 0])"
      using that(1) by blast
    then show ?thesis using that(3-5) s(3,4) k by (simp add: probe_ok_def less_Suc_eq nth_list_update)
  qed
  let ?c3 = "cfg_eff sz (0, k, x3) ?c1"
  have b3: "bar_bytes j ?c3 = bar_bytes j c" if "j < 7" "j \<noteq> k" for j
    using that len k by (simp add: bar_bytes_eff)
  note pre = 1(1) 2(1) d 3(1)
  have z3: "br_bar_size s3 = (br_bar_size s)[k := 0]" using ledger_fields(3) [of s3 ?s0] 3(3) by (simp add: kept_def)
  show ?thesis
  proof (cases "?z = 0")
    case True
    have "probe_ok sz (Suc k) s3"
      by (rule fin [OF 3(2) b3]) (use 3(3) s z3 z True in \<open>simp_all add: kept_def\<close>)
    then show ?thesis using True unfolding probe_bar_def Let_def a by (simp add: pre)
  next
    case False
    let ?s4 = "?reg k ?z (qemu_do (Q_register_bar k) (qemu_do (Q_region_init k (ucast ?z))
        (s3\<lparr>br_bar_size := (br_bar_size s3)[k := ucast ?z]\<rparr>)))"
    have c4: "conn [] P3 ?c3 ?s4" by (rule conn_quiet [OF 3(2)]) (simp_all add: qemu_do_def)
    have s4: "length (br_conf ?s4) = 256" "bar_size (vm_dev ?s4) = sz" using bar s(1,2) 3(3) by (simp_all add: kept_def qemu_do_def conf_kept_def)
    obtain d4 where d4: "mem_read (br_conf ?s4) (unat (bar_addr k)) 4 = Some d4" using rd s4(1) by blast
    obtain P5 s5 x5 where 5: "pciefw_send_write_config (bar_addr k) 4 (ucast (of_le d4 :: u32)) ?s4 = Some (0, s5)"
      "conn [] P5 (cfg_eff sz (0, k, x5) ?c3) s5" "kept ?s4 s5"
      using probe_write [OF c4 k] s4(2) by metis
    have len3: "length ?c3 = 4096" using conn_length 3(2) by blast
    have "probe_ok sz (Suc k) s5"
    proof (rule fin [OF 5(2)])
      show "bar_bytes j (cfg_eff sz (0, k, x5) ?c3) = bar_bytes j c" if "j < 7" "j \<noteq> k" for j
        using that b3 len3 k by (simp add: bar_bytes_eff)
      show "length (br_conf s5) = 256" "bar_size (vm_dev s5) = sz" using 5(3) s4 unfolding kept_def by simp_all
      have "br_bar_size s5 = br_bar_size ?s4" using ledger_fields(3) [of s5 ?s4] 5(3) by (simp add: kept_def)
      then show "br_bar_size s5 = (br_bar_size s)[k := measured sz k]" using z3 z by simp
    qed
    then show ?thesis using False d4 5(1) unfolding probe_bar_def Let_def a by (simp add: pre)
  qed
qed

lemma probe_bars_measure:
  assumes cb: "cb_recv cb = on_msg_recv cr cw" and s: "probe_ok sz 0 s"
    and bar: "conf_kept bar"
  shows "k \<le> 7 \<Longrightarrow> \<exists>s'. probe_bars (vm_select cb) (\<lambda>i n s. s\<lparr>br_conf := bar i n (br_conf s)\<rparr>) k s = Some s' \<and> probe_ok sz k s'"
proof (induction k)
  case (Suc k)
  then obtain s1 where s1: "probe_bars (vm_select cb) (\<lambda>i n s. s\<lparr>br_conf := bar i n (br_conf s)\<rparr>) k s = Some s1"
    "probe_ok sz k s1" by auto
  have "k < 7" using Suc.prems by simp
  from probe_bar_measures [OF cb this s1(2) bar] s1(1) show ?case by simp
qed (use s in simp)

text \<open>The size of a BAR below 4 GiB that is a multiple of 16 is measured exactly.\<close>

lemma or_low_ones:
  fixes x :: u32
  assumes "unat x mod 16 = 15"
  shows "x OR 0xf = x"
proof -
  have "unat (take_bit 4 x) = unat (mask 4 :: u32)"
    using assms by (simp add: take_bit_eq_mod mask_eq_exp_minus_1 unat_mod_distrib)
  then have t: "take_bit 4 x = mask 4" by (simp add: word_unat_eq_iff)
  have "bit x n" if "bit (0xf :: u32) n" for n
  proof -
    have "(0xf :: u32) = mask 4" by (simp add: mask_eq_exp_minus_1)
    then have "bit (take_bit 4 x) n" using that t by simp
    then show ?thesis by (simp add: bit_take_bit_iff)
  qed
  then show ?thesis by (auto intro!: bit_word_eqI simp: bit_or_iff)
qed

lemma probed_size_exact:
  assumes "unat z mod 16 = 0" and "unat z < 2 ^ 32"
  shows "ucast (probed_size z) = z"
proof (cases "z = 0")
  case True
  then show ?thesis by (simp add: probed_size_def)
next
  case False
  let ?y = "ucast z :: u32"
  have y: "unat ?y = unat z" using assms(2) by (simp add: unsigned_ucast_eq take_bit_nat_eq_self)
  have nz: "unat z \<noteq> 0" using False by (simp add: unat_eq_zero)
  then have "?y \<noteq> 0" using y by auto
  then have "unat (?y - 1) = unat z - 1" using y by (simp add: unat_minus_one)
  moreover have "(unat z - 1) mod 16 = 15"
  proof -
    obtain k where k: "unat z = 16 * k" using assms(1) by (metis mod_0_imp_dvd dvdE)
    then obtain m where "k = Suc m" using nz by (cases k) simp_all
    then have "unat z - 1 = 15 + 16 * m" using k by simp
    then show ?thesis by simp
  qed
  ultimately have "(?y - 1) OR 0xf = ?y - 1" by (intro or_low_ones) simp
  then have "probed_size z = ?y" using False by (simp add: probed_size_def)
  moreover have "ucast ?y = z" using y by (simp add: word_unat_eq_iff unat_ucast_up)
  ultimately show ?thesis by simp
qed

lemma measured_exact:
  "i < 6 \<Longrightarrow> unat (sz ! i) mod 16 = 0 \<Longrightarrow> unat (sz ! i) < 2 ^ 32 \<Longrightarrow> measured sz i = sz ! i"
  by (simp add: measured_def probed_size_exact)

text \<open>Taking back what an earlier probe registered does not touch the connection.\<close>

lemma unprobe_frame:
  fixes s :: "('f, 'z) pcie_net_scheme vm"
  shows "\<exists>cs b. pciefw_unprobe_device q s = s\<lparr>br_calls := cs, br_probed := b\<rparr>"
proof -
  have "\<exists>cs. fold (unprobe_region q) ks t = t\<lparr>br_calls := cs\<rparr>" for ks t
  proof (induction ks arbitrary: t)
    case (Cons k ks)
    have "unprobe_region q k t = t\<lparr>br_calls := br_calls (unprobe_region q k t)\<rparr>"
      by (simp add: unprobe_region_def qemu_do_def Let_def)
    moreover obtain cs where "fold (unprobe_region q) ks (unprobe_region q k t) = (unprobe_region q k t)\<lparr>br_calls := cs\<rparr>"
      using Cons.IH by blast
    ultimately have "fold (unprobe_region q) (k # ks) t = t\<lparr>br_calls := br_calls (unprobe_region q k t), br_calls := cs\<rparr>"
      by (metis comp_apply fold_simps(2))
    then show ?case by auto
  next
    case Nil
    show ?case by (rule exI [of _ "br_calls t"]) simp
  qed
  then obtain cs where "fold (unprobe_region q) [0..<q_regions q] (qemu_do Q_msi_uninit s) = (qemu_do Q_msi_uninit s)\<lparr>br_calls := cs\<rparr>"
    by blast
  then have "pciefw_unprobe_device q s = s\<lparr>br_calls := if br_probed s then cs else br_calls s, br_probed := False\<rparr>"
    by (simp add: pciefw_unprobe_device_def qemu_do_def)
  then show ?thesis by blast
qed

lemma connect_measures:
  fixes s :: "('f, 'z) pcie_dev_scheme vm"
  assumes cb: "cb_recv cb = on_msg_recv cr cw"
    and s: "msg_room (br_msg s)" "loc_ok (vm_loc s)" "dev_wf (vm_dev s)" "ev_fd (vm_dev s) = -1"
      "0 \<le> net_fd (vm_dev s)" "length (br_conf s) = 256" "length (br_bar_size s) = 7"
    and z: "\<And>i. i < 6 \<Longrightarrow> bar_size (vm_dev s) ! i = 0 \<Longrightarrow> bar_bytes i (config (vm_dev s)) = [0, 0, 0, 0]"
    and bar: "conf_kept bar"
  shows "\<exists>s'. pciefw_connect_probe_device (vm_qemu cb bar cap mapd) s = Some (0, s') \<and> br_up s' \<and> br_probed s' \<and>
     br_bar_size s' = map (measured (bar_size (vm_dev s))) [0..<7] \<and> (\<exists>P c. conn [] P c s')"
proof -
  let ?q = "vm_qemu cb bar cap mapd" and ?sz = "bar_size (vm_dev s)"
  let ?s0 = "(qemu_do (Q_connect True) (snd (vm_dial s)))\<lparr>br_up := True\<rparr>"
  obtain cs b where u: "pciefw_unprobe_device ?q ?s0 = ?s0\<lparr>br_calls := cs, br_probed := b\<rparr>" using unprobe_frame by blast
  let ?c = "mem_patch (br_conf s) 4 [3]"
  let ?s1 = "?s0\<lparr>br_calls := cs, br_probed := b, br_conf := ?c\<rparr>"
  have w: "mem_write (br_conf s) 4 [3] = Some ?c" "length ?c = 256"
    using s(6) by (simp_all add: mem_write_patch length_mem_patch)
  have "conn [] [] (config (vm_dev s)) ?s1"
    using s(1-5) by (simp add: conn_def bridge_ok_def vm_dial_def Let_def qemu_do_def dev_wf_def)
  then have "\<exists>P c. conn [] P c ?s1 \<and> (\<forall>j. 0 \<le> j \<and> j < 6 \<and> ?sz ! j = 0 \<longrightarrow> bar_bytes j c = [0, 0, 0, 0])" using z by blast
  then have ok: "probe_ok ?sz 0 ?s1" using s(7) w(2) by (simp add: probe_ok_def vm_dial_def Let_def qemu_do_def)
  obtain s2 where s2: "probe_bars (vm_select cb) (\<lambda>i n s. s\<lparr>br_conf := bar i n (br_conf s)\<rparr>) 7 ?s1 = Some s2" "probe_ok ?sz 7 s2"
    using probe_bars_measure [OF cb ok bar, of 7] by auto
  have conf: "br_conf ?s0 = br_conf s" by (simp add: vm_dial_def Let_def qemu_do_def)
  have "pciefw_probe_device ?q ?s0 = Some ((q_msi ?q (qemu_do Q_msi_init s2))\<lparr>br_probed := True\<rparr>)"
    using w(1) s2(1) conf unfolding pciefw_probe_device_def Let_def u by (simp add: vm_qemu_def)
  then have "pciefw_connect_probe_device ?q s =
      Some (0, qemu_do Q_set_handler ((q_msi ?q (qemu_do Q_msi_init s2))\<lparr>br_probed := True\<rparr>))"
    by (simp add: pciefw_connect_probe_device_def vm_qemu_def vm_dial_def Let_def)
  moreover have "br_bar_size s2 = map (measured ?sz) [0..<7]"
    using s2(2) by (auto simp: probe_ok_def intro!: nth_equalityI)
  moreover obtain P c where c: "conn [] P c s2" using s2(2) by (auto simp: probe_ok_def)
  moreover have "br_up s2" using c by (simp add: conn_def bridge_ok_def)
  moreover have "conn [] P c (qemu_do Q_set_handler ((q_msi ?q (qemu_do Q_msi_init s2))\<lparr>br_probed := True\<rparr>))"
    by (rule conn_quiet [OF c]) (simp_all add: vm_qemu_def qemu_do_def)
  ultimately show ?thesis by (simp add: vm_qemu_def) blast
qed

section \<open>The start against the endpoint\<close>

text \<open>The device QEMU creates: nothing set, and an endpoint that is ready to be connected.\<close>

definition fresh_vm :: "('f, 'z) pcie_dev_scheme vm \<Rightarrow> bool" where
  "fresh_vm s \<longleftrightarrow> loc_ok (vm_loc s) \<and> dev_wf (vm_dev s) \<and> ev_fd (vm_dev s) = -1 \<and> 0 \<le> net_fd (vm_dev s) \<and>
     length (br_conf s) = 256 \<and> br_bar_size s = replicate 7 0 \<and> br_calls s = [] \<and>
     (\<forall>i<6. bar_size (vm_dev s) ! i = 0 \<longrightarrow> bar_bytes i (config (vm_dev s)) = [0, 0, 0, 0])"

lemma start_measures:
  fixes s :: "('f, 'z) pcie_dev_scheme vm"
  assumes cb: "cb_recv cb = on_msg_recv cr cw" and s: "fresh_vm s" and m: "msg_room junk"
    and bar: "conf_kept bar"
  shows "\<exists>s'. pciefw_pci_init (\<lambda>_. vm_qemu cb bar cap mapd) p (True, True, True) junk s = Some (0, s') \<and> br_up s' \<and>
     br_bar_size s' = map (measured (bar_size (vm_dev s))) [0..<7] \<and> (\<exists>P c. conn [] P c s')"
proof -
  let ?s = "qemu_do (Q_alloc Blk_opts) (qemu_do (Q_alloc Blk_optlist) (qemu_do (Q_alloc Blk_msg)
       (s\<lparr>br_up := False, br_probed := False, br_msg := junk\<rparr>)))"
  have "\<exists>s'. pciefw_connect_probe_device (vm_qemu cb bar cap mapd) ?s = Some (0, s') \<and> br_up s' \<and> br_probed s' \<and>
     br_bar_size s' = map (measured (bar_size (vm_dev ?s))) [0..<7] \<and> (\<exists>P c. conn [] P c s')"
    by (rule connect_measures [OF cb]) (use s m bar in \<open>auto simp: fresh_vm_def qemu_do_def\<close>)
  then obtain s' P c where s': "pciefw_connect_probe_device (vm_qemu cb bar cap mapd) ?s = Some (0, s')" "br_up s'"
    "br_bar_size s' = map (measured (bar_size (vm_dev ?s))) [0..<7]" "conn [] P c s'" by blast
  then have "pciefw_pci_init (\<lambda>_. vm_qemu cb bar cap mapd) p (True, True, True) junk s = Some (0, s')"
    by (simp add: pciefw_pci_init_def Let_def)
  moreover have "vm_dev ?s = vm_dev s" by (simp add: qemu_do_def)
  ultimately show ?thesis using s'(2-4) by metis
qed

text \<open>
  C20. When the device in QEMU starts it takes the size of each BAR of the endpoint behind the connection,
  whatever they are, as a multiple of 16 and modulo 4 GiB, which is exact for a BAR of a multiple of
  16 bytes below 4 GiB; and it always registers a seventh region of 16 bytes.
\<close>

theorem bridge_start_measures:
  fixes s :: "('f, 'z) pcie_dev_scheme vm"
  assumes "cb_recv cb = on_msg_recv cr cw" and "fresh_vm s" and "msg_room junk"
    and "conf_kept bar"
  shows "\<exists>s'. pciefw_pci_init (\<lambda>_. vm_qemu cb bar cap mapd) p (True, True, True) junk s = Some (0, s') \<and> br_up s' \<and>
     br_bar_size s' = map (\<lambda>i. ucast (probed_size (bar_size (vm_dev s) ! i))) [0..<6] @ [16] \<and>
     (\<forall>i<6. unat (bar_size (vm_dev s) ! i) mod 16 = 0 \<and> unat (bar_size (vm_dev s) ! i) < 2 ^ 32 \<longrightarrow>
        br_bar_size s' ! i = bar_size (vm_dev s) ! i)"
proof -
  obtain s' where s': "pciefw_pci_init (\<lambda>_. vm_qemu cb bar cap mapd) p (True, True, True) junk s = Some (0, s')" "br_up s'"
    "br_bar_size s' = map (measured (bar_size (vm_dev s))) [0..<7]"
    using start_measures [OF assms] by blast
  have "map (measured sz) [0..<7] = map (\<lambda>i. ucast (probed_size (sz ! i))) [0..<6] @ [16]" for sz
    by (simp add: upt_rec measured_def)
  moreover have "br_bar_size s' ! i = bar_size (vm_dev s) ! i" if "i < 6" "unat (bar_size (vm_dev s) ! i) mod 16 = 0"
    "unat (bar_size (vm_dev s) ! i) < 2 ^ 32" for i
    using measured_exact [OF that] that(1) by (simp add: s'(3))
  ultimately show ?thesis using s' by metis
qed

lemma vm_zero_fresh: "fresh_vm vm_zero" "msg_room junk_page" "bar_size (vm_dev vm_zero) = [0, 0x100, 0, 0, 0, 0]"
proof -
  have "bar_bytes i (replicate 4096 0) = [0, 0, 0, 0]" if "i < 6" for i
  proof -
    have "bar_bytes i (replicate 4096 0) = replicate 4 0" using that by (simp add: bar_bytes_def min_def)
    moreover have "replicate 4 0 = [0, 0, 0, 0 :: byte]" by (simp add: eval_nat_numeral)
    ultimately show ?thesis by simp
  qed
  moreover have "config (vm_dev vm_zero) = replicate 4096 0" "dev_wf (vm_dev vm_zero)"
    using zero_dma_inv by (simp_all add: vm_zero_def dma_inv_def) (simp add: zero_dma_def)
  ultimately show "fresh_vm vm_zero" using vm_zero_ready(1)
    by (simp add: fresh_vm_def vm_zero_def loc_ok_def zero_dma_def const_defs)
  show "msg_room junk_page" "bar_size (vm_dev vm_zero) = [0, 0x100, 0, 0, 0, 0]"
    by (simp_all add: msg_room_def junk_page_def vm_zero_def zero_dma_def)
qed

lemma conf_id: "conf_kept (\<lambda>i n c. c)"
  by (simp add: conf_kept_def)

theorem bridge_start_measures_witness:
  "\<exists>s'. pciefw_pci_init (\<lambda>_. vm_qemu (dma_cb junk_page junk_page) (\<lambda>i n c. c) (\<lambda>c. c) (\<lambda>i c. False))
       \<lparr>laddr = None, lport = None, raddr = None, rport = None\<rparr> (True, True, True) junk_page vm_zero = Some (0, s') \<and>
     br_bar_size s' = [0, 0x100, 0, 0, 0, 0, 16]"
proof -
  have "cb_recv (dma_cb junk_page junk_page) = on_msg_recv dma_call_read dma_call_write" by (simp add: dma_cb_def)
  from bridge_start_measures [OF this vm_zero_fresh(1,2) conf_id, where cap = "\<lambda>c. c"
      and mapd = "\<lambda>i c. False" and p = "\<lparr>laddr = None, lport = None, raddr = None, rport = None\<rparr>"]
  show ?thesis unfolding vm_zero_fresh(3) by (auto simp: upt_rec probed_size_def)
qed

theorem bridge_life_balanced_witness:
  "\<exists>s1 s2. pciefw_pci_init (\<lambda>_. vm_qemu (dma_cb junk_page junk_page) (\<lambda>i n c. c) (\<lambda>c. c) (\<lambda>i c. False))
       \<lparr>laddr = None, lport = None, raddr = None, rport = None\<rparr> (True, True, True) junk_page vm_zero = Some (0, s1) \<and>
     br_bar_size s1 ! 1 = 0x100 \<and>
     bridge_events (vm_qemu (dma_cb junk_page junk_page) (\<lambda>i n c. c) (\<lambda>c. c) (\<lambda>i c. False))
       (\<lambda>a x w s. s\<lparr>br_conf := br_conf s\<rparr>) [Ev_readable, Ev_config_read 0x14 4] s1 = Some s2 \<and>
     live_regions (br_calls (pciefw_pci_exit (vm_qemu (dma_cb junk_page junk_page) (\<lambda>i n c. c) (\<lambda>c. c) (\<lambda>i c. False)) s2)) {} = Some {}"
proof -
  let ?cb = "dma_cb junk_page junk_page"
  let ?q = "vm_qemu ?cb (\<lambda>i n c. c) (\<lambda>c. c) (\<lambda>i c. False)" and ?d = "\<lambda>(a :: u32) (x :: u32) (w :: nat) (s :: dma vm). s\<lparr>br_conf := br_conf s\<rparr>"
  let ?p = "\<lparr>laddr = None, lport = None, raddr = None, rport = None\<rparr>"
  have cb: "cb_recv ?cb = on_msg_recv dma_call_read dma_call_write" by (simp add: dma_cb_def)
  obtain s1 P c where s1: "pciefw_pci_init (\<lambda>_. ?q) ?p (True, True, True) junk_page vm_zero = Some (0, s1)" "br_up s1"
    "br_bar_size s1 = map (measured (bar_size (vm_dev vm_zero))) [0..<7]" "conn [] P c s1"
    using start_measures [OF cb vm_zero_fresh(1,2) conf_id, where cap = "\<lambda>c. c"
        and mapd = "\<lambda>i c. False" and p = ?p] by blast
  have "sk_rx (br_sock s1) = []" using s1(4) by (simp add: conn_def)
  then have e1: "bridge_event ?q ?d Ev_readable s1 = Some s1" by (simp add: pciefw_on_read_def)
  have "bar_addr 1 = ucast (0x14 :: u32)" by (simp add: bar_addr_def const_defs)
  then obtain s2 where "pciefw_send_read_config (vm_select ?cb) (ucast (0x14 :: u32)) 4 s1 = Some (0, take 4 (drop 20 c), s2)"
    using probe_read [OF cb s1(4), of 1] by auto
  then have e2: "bridge_event ?q ?d (Ev_config_read 0x14 4) s1 = Some s2"
    using s1(2) by (simp add: pciefw_read_config_def pciefw_connect_if_unconnected_def vm_qemu_def)
  have ev: "bridge_events ?q ?d [Ev_readable, Ev_config_read 0x14 4] s1 = Some s2" using e1 e2 by simp
  have "br_bar_size s1 ! 1 = 0x100" using s1(3) vm_zero_fresh(3) by (simp add: measured_def probed_size_def)
  moreover have "live_regions (br_calls (pciefw_pci_exit ?q s2)) {} = Some {}"
    using bridge_life_balanced [OF vm_quiet.quiet_bridge_axioms [where dw = "\<lambda>a x w c. c" and cb = ?cb] refl _ _ s1(1) ev]
    by (simp add: vm_zero_def vm_qemu_def Let_def)
  ultimately show ?thesis using s1(1) ev by blast
qed

end
