(* ===== verification/Net_Udp.thy ===== *)
theory Net_Udp
  imports Pcie_Net
begin

text \<open>
  The variant of \<open>src/src/pcie/pcie_net.c\<close> for datagrams, which \<open>CONFIG_USE_UDP\<close> selects: opening
  the socket, and sending and receiving one message, with the retry after a refused datagram. The
  loop of the file is the one of \<open>Pcie_Net\<close>.
\<close>

section \<open>Opening the socket\<close>

text \<open>What the system calls of one attempt return.\<close>

record udp_env =
  ue_local :: int
  ue_socket :: int
  ue_bind :: int
  ue_remote :: int
  ue_connect :: int

text \<open>The label \<open>on_error\<close>, which success passes too: the descriptor and the clean-up calls.\<close>

definition udp_on_error :: "bool \<Rightarrow> bool \<Rightarrow> int \<Rightarrow> int \<Rightarrow> int \<times> os_call list" where
  "udp_on_error rai lai err fd =
     (let calls = (if rai then [Os_freeaddrinfo] else []) @ (if lai then [Os_freeaddrinfo] else []) in
      if err = -1 then (if fd \<noteq> -1 then (-1, calls @ [Os_close fd]) else (fd, calls))
      else (fd, calls))"

definition open_udp_socket :: "udp_env \<Rightarrow> int \<times> os_call list" where
  "open_udp_socket e =
     (let p1 = [Os_getaddrinfo] in
      if ue_local e \<noteq> 0 then let (r, c) = udp_on_error False False (-1) (-1) in (r, p1 @ c)
      else let fd = ue_socket e; p2 = p1 @ [Os_socket] in
      if fd = -1 then let (r, c) = udp_on_error False True (-1) fd in (r, p2 @ c)
      else let p3 = p2 @ [Os_setsockopt fd, Os_bind fd] in
      if ue_bind e < 0 then let (r, c) = udp_on_error False True (-1) fd in (r, p3 @ c)
      else let p4 = p3 @ [Os_getaddrinfo] in
      if ue_remote e \<noteq> 0 then let (r, c) = udp_on_error False True (-1) fd in (r, p4 @ c)
      else let p5 = p4 @ [Os_connect fd] in
      if ue_connect e < 0 then let (r, c) = udp_on_error True True (-1) fd in (r, p5 @ c)
      else let (r, c) = udp_on_error True True 0 fd in (r, p5 @ c))"

section \<open>The connection\<close>

text \<open>
  What arrives at the socket, in order: a datagram, the report that an earlier one was refused, or
  another failure; and the results of the next \<open>send\<close> calls, sent when there is no entry left.
\<close>

datatype udp_in = In_dgram "byte list" | In_refused | In_error
datatype udp_out = Out_sent | Out_refused | Out_error

record udp_net =
  un_fd :: int
  un_ev_fd :: int
  un_task :: bool
  un_rx :: "udp_in list"
  un_snd :: "udp_out list"
  un_tx :: "byte list list"

text \<open>\<open>pcie_net_init\<close> and \<open>pcie_net_fini\<close>.\<close>

definition udp_net_init :: "udp_env \<Rightarrow> udp_net \<Rightarrow> int \<times> os_call list \<times> udp_net" where
  "udp_net_init e net =
     (let net = net\<lparr>un_task := False\<rparr>; net = net\<lparr>un_ev_fd := -1\<rparr>;
          (fd, calls) = open_udp_socket e; net = net\<lparr>un_fd := fd\<rparr>
      in if un_fd net = -1 then (-1, calls, net) else (0, calls, net))"

definition udp_net_fini :: "udp_net \<Rightarrow> int \<times> os_call list" where
  "udp_net_fini net = (0, [Os_close (un_fd net)])"

text \<open>
  \<open>send\<close> and \<open>recv\<close>: the result, whether \<open>errno\<close> is \<open>ECONNREFUSED\<close>, and for \<open>recv\<close> the bytes. A
  longer datagram is cut; with nothing to come \<open>recv\<close> never returns.
\<close>

definition udp_send :: "byte list \<Rightarrow> udp_net \<Rightarrow> int \<times> bool \<times> udp_net" where
  "udp_send d net = (case un_snd net of
      Out_refused # r \<Rightarrow> (-1, True, net\<lparr>un_snd := r\<rparr>)
    | Out_error # r \<Rightarrow> (-1, False, net\<lparr>un_snd := r\<rparr>)
    | r \<Rightarrow> (int (length d), False, net\<lparr>un_snd := tl r, un_tx := un_tx net @ [d]\<rparr>))"

definition udp_recv :: "nat \<Rightarrow> udp_net \<Rightarrow> (int \<times> bool \<times> byte list \<times> udp_net) option" where
  "udp_recv n net = (case un_rx net of
      [] \<Rightarrow> None
    | In_dgram d # r \<Rightarrow> Some (int (length (take n d)), False, take n d, net\<lparr>un_rx := r\<rparr>)
    | In_refused # r \<Rightarrow> Some (-1, True, [], net\<lparr>un_rx := r\<rparr>)
    | In_error # r \<Rightarrow> Some (-1, False, [], net\<lparr>un_rx := r\<rparr>))"

section \<open>Sending and receiving\<close>

text \<open>\<open>None\<close>: the call never returns.\<close>

partial_function (option) udp_send_buf :: "byte list \<Rightarrow> udp_net \<Rightarrow> (int \<times> udp_net) option" where
  "udp_send_buf d net = (case udp_send d net of (n, refused, net) \<Rightarrow>
      if refused then do {
        (_, _, _, net) \<leftarrow> udp_recv 1 net;
        udp_send_buf d net }
      else Some (if n \<noteq> int (length d) then -1 else 0, net))"

definition udp_recv_buf ::
  "nat \<Rightarrow> byte list \<Rightarrow> udp_net \<Rightarrow> (int \<times> byte list \<times> udp_net) option" where
  "udp_recv_buf max_size buf net = do {
     (n, refused, d, net) \<leftarrow> udp_recv max_size net;
     buf \<leftarrow> mem_write buf 0 d;
     Some (if refused then 0 else if n \<le> 0 then -1 else n, buf, net)
   }"

section \<open>Opening releases what it took\<close>

text \<open>
  On failure the socket, if there was one, is closed, and on every path the address lists that
  were delivered are freed.
\<close>

lemma open_udp_releases:
  assumes "open_udp_socket e = (fd, calls)"
  shows "(fd \<noteq> -1 \<and> closes calls = [] \<and> fd = ue_socket e \<and> 0 \<le> ue_connect e
      \<or> fd = -1 \<and> closes calls = (if ue_local e = 0 \<and> ue_socket e \<noteq> -1 then [ue_socket e] else []))
    \<and> count_list calls Os_freeaddrinfo = (if ue_local e \<noteq> 0 then 0
        else if ue_socket e = -1 \<or> ue_bind e < 0 \<or> ue_remote e \<noteq> 0 then 1 else 2)"
  using assms
  by (auto simp: open_udp_socket_def udp_on_error_def Let_def split: if_splits)

section \<open>A refused datagram costs one that came in\<close>

text \<open>Any number of refused sends: each takes one entry of what the peer sent, whatever it is.\<close>

lemma udp_send_drops:
  assumes "un_snd net = replicate (length lost) Out_refused" and "un_rx net = lost @ rest"
  shows "udp_send_buf d net = Some (0, net\<lparr>un_snd := [], un_rx := rest, un_tx := un_tx net @ [d]\<rparr>)"
  using assms
proof (induction lost arbitrary: net)
  case Nil
  then show ?case by (subst udp_send_buf.simps) (simp add: udp_send_def)
next
  case (Cons x lost)
  have "udp_recv 1 (net\<lparr>un_snd := replicate (length lost) Out_refused\<rparr>) \<noteq> None"
    "\<And>n r b net'. udp_recv 1 (net\<lparr>un_snd := replicate (length lost) Out_refused\<rparr>) = Some (n, r, b, net') \<Longrightarrow>
       net' = net\<lparr>un_snd := replicate (length lost) Out_refused, un_rx := lost @ rest\<rparr>"
    using Cons.prems(2) by (auto simp: udp_recv_def split: udp_in.splits)
  then obtain n r b where "udp_recv 1 (net\<lparr>un_snd := replicate (length lost) Out_refused\<rparr>) =
      Some (n, r, b, net\<lparr>un_snd := replicate (length lost) Out_refused, un_rx := lost @ rest\<rparr>)"
    by fastforce
  moreover have "udp_send d net = (-1, True, net\<lparr>un_snd := replicate (length lost) Out_refused\<rparr>)"
    using Cons.prems(1) by (simp add: udp_send_def)
  ultimately show ?case
    using Cons.IH [of "net\<lparr>un_snd := replicate (length lost) Out_refused, un_rx := lost @ rest\<rparr>"]
    by (subst udp_send_buf.simps) simp
qed

text \<open>When fewer entries come in than sends are refused, the call never returns.\<close>

lemma udp_send_blocks:
  assumes "un_snd net = replicate k Out_refused" and "length (un_rx net) < k"
  shows "udp_send_buf d net = None"
  using assms
proof (induction k arbitrary: net)
  case (Suc k)
  then have s: "udp_send d net = (-1, True, net\<lparr>un_snd := replicate k Out_refused\<rparr>)"
    by (simp add: udp_send_def)
  show ?case
  proof (cases "un_rx net")
    case Nil
    then show ?thesis using s by (subst udp_send_buf.simps) (simp add: udp_recv_def)
  next
    case (Cons x xs)
    let ?net = "net\<lparr>un_snd := replicate k Out_refused, un_rx := xs\<rparr>"
    obtain n r b where "udp_recv 1 (net\<lparr>un_snd := replicate k Out_refused\<rparr>) = Some (n, r, b, ?net)"
      using Cons by (cases x) (auto simp: udp_recv_def)
    moreover have "udp_send_buf d ?net = None" using Suc Cons by simp
    ultimately show ?thesis using s by (subst udp_send_buf.simps) simp
  qed
qed simp

section \<open>A message comes through\<close>

lemma udp_roundtrip:
  assumes "udp_send_buf d a = Some (0, a')" and "un_snd a = []" and "d \<noteq> []"
    and "length d \<le> max_size" and "max_size \<le> length buf"
    and "un_rx b = map In_dgram (drop (length (un_tx a)) (un_tx a')) @ rest"
  shows "udp_recv_buf max_size buf b = Some (int (length d), d @ drop (length d) buf, b\<lparr>un_rx := rest\<rparr>)"
proof -
  have "a' = a\<lparr>un_tx := un_tx a @ [d]\<rparr>"
    using assms(1,2) by (subst (asm) udp_send_buf.simps) (cases a, auto simp: udp_send_def)
  then have "un_rx b = In_dgram d # rest" using assms(6) by simp
  then show ?thesis
    using assms(3-5) by (simp add: udp_recv_buf_def udp_recv_def mem_write_def)
qed

end
