(* ===== verification/User_Clock.thy ===== *)
theory User_Clock
  imports Dma_User
begin

text \<open>
  How the user program measures time, \<open>src/src/dma/sw/u/main.c\<close>: the cycle counter, the
  frequency of the processor found by counting cycles over ten windows of the wall clock, and the
  conversion of cycles. The clocks are an argument.
\<close>

section \<open>The clocks\<close>

text \<open>Seconds and microseconds; the difference is the macro \<open>timersub\<close> of the C library.\<close>

type_synonym wall = "int \<times> int"

fun timersub :: "wall \<Rightarrow> wall \<Rightarrow> wall" where
  "timersub (s1, u1) (s0, u0) =
     (if u1 - u0 < 0 then (s1 - s0 - 1, u1 - u0 + 1000000) else (s1 - s0, u1 - u0))"

record 's clocks =
  ck_wall :: "'s \<Rightarrow> wall \<times> 's"
  ck_tsc :: "'s \<Rightarrow> u32 \<times> u32 \<times> 's"

text \<open>The instruction leaves the halves of the counter in two registers.\<close>

definition rdtsc :: "'s clocks \<Rightarrow> 's \<Rightarrow> u64 \<times> 's" where
  "rdtsc ck s = (case ck_tsc ck s of (a, d, s) \<Rightarrow> (push_bit 32 (ucast d) OR ucast a, s))"

section \<open>The frequency\<close>

text \<open>
  The inner loop for one window that began at \<open>t0\<close>; \<open>None\<close> if it never ends. Only the
  microseconds of the difference are looked at.
\<close>

partial_function (option) window_loop :: "'s clocks \<Rightarrow> wall \<Rightarrow> 's \<Rightarrow> 's option" where
  "window_loop ck t0 s = (case ck_wall ck s of (t1, s) \<Rightarrow>
      if snd (timersub t1 t0) \<ge> 9998 then Some s else window_loop ck t0 s)"

definition window_ticks :: "'s clocks \<Rightarrow> 's \<Rightarrow> (u64 \<times> 's) option" where
  "window_ticks ck s = do {
     let (t0, s) = ck_wall ck s;
     let (k0, s) = rdtsc ck s;
     s \<leftarrow> window_loop ck t0 s;
     let (k1, s) = rdtsc ck s;
     Some (sub_ticks k0 k1, s)
   }"

primrec all_windows :: "nat \<Rightarrow> 's clocks \<Rightarrow> 's \<Rightarrow> (u64 list \<times> 's) option" where
  "all_windows 0 ck s = Some ([], s)"
| "all_windows (Suc n) ck s = do {
     (x, s) \<leftarrow> window_ticks ck s;
     (xs, s) \<leftarrow> all_windows n ck s;
     Some (x # xs, s)
   }"

text \<open>\<open>hz\<close> is the value kept between calls, which the function returns and stores.\<close>

definition get_cpu_hz :: "'s clocks \<Rightarrow> u64 \<Rightarrow> 's \<Rightarrow> (u64 \<times> 's) option" where
  "get_cpu_hz ck hz s =
     (if hz \<noteq> 0 then Some (hz, s)
      else do { (ts, s) \<leftarrow> all_windows 10 ck s; Some (cpu_hz_of ts, s) })"

section \<open>Differences of the counter\<close>

text \<open>Exact unless the counter wrapped in between, and one too small when it did.\<close>

lemma sub_ticks_exact:
  "sub_ticks a b = (if b < a then b - a - 1 else b - a)"
  by (simp add: sub_ticks_def)

lemma sub_ticks_nat:
  assumes "m \<le> n" and "n < 2 ^ 64"
  shows "sub_ticks (of_nat m) (of_nat n) = of_nat (n - m)"
proof -
  have "unat (of_nat m :: u64) = m" "unat (of_nat n :: u64) = n"
    using assms by (simp_all add: unat_of_nat_u64)
  then have "\<not> (of_nat n :: u64) < of_nat m" using assms(1) by (simp add: word_less_nat_alt)
  then show ?thesis using assms(1) by (simp add: sub_ticks_exact of_nat_diff)
qed

section \<open>A steady clock\<close>

text \<open>
  The state is the time in microseconds. Reading the wall clock takes \<open>step\<close> of them, the counter
  runs at \<open>f\<close> cycles in each.
\<close>

definition wall_of :: "nat \<Rightarrow> wall" where
  "wall_of t = (int (t div 1000000), int (t mod 1000000))"

definition steady :: "nat \<Rightarrow> nat \<Rightarrow> nat clocks" where
  "steady f step = \<lparr>ck_wall = \<lambda>t. (wall_of t, t + step),
     ck_tsc = \<lambda>t. (of_nat (f * t), of_nat (f * t div 2 ^ 32), t)\<rparr>"

lemma timersub_wall: "snd (timersub (wall_of (t + e)) (wall_of t)) = int (e mod 1000000)"
proof -
  let ?u = "t mod 1000000" and ?e = "e mod 1000000"
  have m: "(t + e) mod 1000000 = (if ?u + ?e < 1000000 then ?u + ?e else ?u + ?e - 1000000)"
  proof -
    have "(t + e) mod 1000000 = (?u + ?e) mod 1000000" by (simp add: mod_add_eq)
    moreover have "?u < 1000000" "?e < 1000000" by simp_all
    ultimately show ?thesis by (auto simp: le_mod_geq)
  qed
  have "?u < 1000000" "?e < 1000000" by simp_all
  then show ?thesis unfolding wall_of_def timersub.simps m by auto
qed

lemma bit_of_nat_word: "bit (of_nat n :: 'a::len word) k \<longleftrightarrow> k < LENGTH('a) \<and> bit n k"
  by transfer (simp add: bit_take_bit_iff bit_of_nat_iff)

lemma rdtsc_steady: "rdtsc (steady f step) t = (of_nat (f * t), t)"
proof -
  have "push_bit 32 (ucast (of_nat (n div 2 ^ 32) :: u32)) OR ucast (of_nat n :: u32) = (of_nat n :: u64)" for n :: nat
  proof (rule bit_word_eqI)
    fix k assume k: "k < LENGTH(64)"
    have "bit (n div 2 ^ 32) j = bit n (32 + j)" for j
      by (simp only: drop_bit_eq_div [symmetric] bit_drop_bit_eq comp_def)
    then show "bit (push_bit 32 (ucast (of_nat (n div 2 ^ 32) :: u32)) OR ucast (of_nat n :: u32) :: u64) k =
        bit (of_nat n :: u64) k"
      using k by (cases "k < 32")
        (auto simp: bit_or_iff bit_push_bit_iff bit_ucast_iff bit_of_nat_word simp del: of_nat_div)
  qed
  then show ?thesis by (simp add: rdtsc_def steady_def del: of_nat_mult)
qed

text \<open>The number of readings a window takes.\<close>

definition readings :: "nat \<Rightarrow> nat" where "readings step = (9998 + step - 1) div step"

lemma readings_props:
  assumes "0 < step"
  shows "9998 \<le> readings step * step" "readings step * step < 9998 + step"
    and "k < readings step \<Longrightarrow> k * step < 9998"
proof -
  let ?r = "readings step"
  have d: "?r * step + (9998 + step - 1) mod step = 9998 + step - 1" "(9998 + step - 1) mod step < step"
    unfolding readings_def by (rule div_mult_mod_eq) (rule mod_less_divisor [OF assms])
  then show "9998 \<le> ?r * step" "?r * step < 9998 + step" by linarith+
  assume "k < ?r"
  then have "Suc k * step \<le> ?r * step" by (intro mult_le_mono1) simp
  then show "k * step < 9998" using d by simp
qed

text \<open>One window, from any reading of it on.\<close>

lemma elapsed_wall: "e < 1000000 \<Longrightarrow> snd (timersub (wall_of (t + e)) (wall_of t)) \<ge> 9998 \<longleftrightarrow> 9998 \<le> e"
  unfolding timersub_wall by simp

lemma window_loop_steady:
  assumes s: "0 < step" "step \<le> 990002"
  shows "k + j = readings step \<Longrightarrow> 0 < k \<Longrightarrow>
    window_loop (steady f step) (wall_of t) (t + k * step) = Some (t + Suc (readings step) * step)"
proof (induction j arbitrary: k)
  case 0
  then have "9998 \<le> k * step" "k * step < 1000000" using readings_props(1,2) [OF s(1)] s(2) by auto
  then have "snd (timersub (wall_of (t + k * step)) (wall_of t)) \<ge> 9998" by (simp only: elapsed_wall)
  then show ?case
    using 0 by (subst window_loop.simps) (simp add: steady_def del: timersub.simps)
next
  case (Suc j)
  then have "k * step < 9998" using readings_props(3) [OF s(1), of k] by simp
  then have "\<not> snd (timersub (wall_of (t + k * step)) (wall_of t)) \<ge> 9998"
    using elapsed_wall [of "k * step" t] by linarith
  moreover have "window_loop (steady f step) (wall_of t) (t + Suc k * step) = Some (t + Suc (readings step) * step)"
    using Suc.IH [of "Suc k"] Suc.prems by simp
  ultimately show ?case
    by (subst window_loop.simps) (simp add: steady_def add_ac del: timersub.simps)
qed

lemma window_ticks_steady:
  assumes s: "0 < step" "step \<le> 990002" and w: "f * (t + Suc (readings step) * step) < 2 ^ 64"
  shows "window_ticks (steady f step) t =
     Some (of_nat (f * (readings step * step)), t + Suc (readings step) * step)"
proof -
  let ?t1 = "t + Suc (readings step) * step"
  have "0 < readings step" using readings_props(1) [OF s(1)] by (cases "readings step") simp_all
  then have l: "window_loop (steady f step) (wall_of t) (t + step) = Some ?t1"
    using window_loop_steady [OF s, of 1 "readings step - 1" f t] by simp
  have "f * (t + step) \<le> f * ?t1" by (rule mult_le_mono2) simp
  then have "sub_ticks (of_nat (f * (t + step))) (of_nat (f * ?t1)) = of_nat (f * ?t1 - f * (t + step))"
    using w by (rule sub_ticks_nat)
  also have "f * ?t1 - f * (t + step) = f * (readings step * step)"
    by (simp add: diff_mult_distrib2 [symmetric])
  finally have "sub_ticks (of_nat (f * (t + step))) (of_nat (f * ?t1)) = of_nat (f * (readings step * step))" .
  moreover have "ck_wall (steady f step) t = (wall_of t, t + step)" by (simp add: steady_def)
  ultimately show ?thesis
    by (simp only: window_ticks_def Let_def rdtsc_steady prod.case l bind.bind_lunit)
qed

lemma all_windows_steady:
  assumes s: "0 < step" "step \<le> 990002"
  shows "f * (t + n * (Suc (readings step) * step)) < 2 ^ 64 \<Longrightarrow>
    all_windows n (steady f step) t = Some (replicate n (of_nat (f * (readings step * step))),
      t + n * (Suc (readings step) * step))"
proof (induction n arbitrary: t)
  case (Suc n)
  let ?d = "Suc (readings step) * step"
  have "f * (t + ?d) \<le> f * (t + Suc n * ?d)" by (rule mult_le_mono2) simp
  then have "window_ticks (steady f step) t = Some (of_nat (f * (readings step * step)), t + ?d)"
    using Suc.prems by (intro window_ticks_steady [OF s]) linarith
  moreover have "t + ?d + n * ?d = t + Suc n * ?d" by simp
  ultimately show ?case using Suc.IH [of "t + ?d"] Suc.prems by (simp only: all_windows.simps) simp
qed simp

lemma sum_windows: "cpu_hz_of (replicate 10 (of_nat x)) = of_nat (100 * x)"
proof -
  have "fold (\<lambda>t hz. hz + t) (replicate n y) a = a + of_nat n * y" for n and y a :: u64
    by (induction n arbitrary: a) (simp_all add: algebra_simps del: fold_replicate)
  then show ?thesis by (simp add: cpu_hz_of_def)
qed

text \<open>
  C40. On a steady processor whose clock is read at least once a second, the measurement ends,
  and unless the counter wraps the result is the frequency in cycles per second, at most two in
  ten thousand too small and too large by at most one reading of the clock in a hundred windows.
\<close>

theorem cpu_hz_measured:
  assumes "0 < step" and "step \<le> 990002" and "f * (t + (1000000 + 200 * step)) < 2 ^ 64"
  shows "\<exists>hz t'. get_cpu_hz (steady f step) 0 t = Some (hz, t') \<and>
     9998 * (f * 100) \<le> unat hz \<and> unat hz \<le> (9998 + step) * (f * 100)"
proof -
  obtain e where e: "e = readings step * step" by blast
  have r: "9998 \<le> e" "e < 9998 + step" unfolding e by (rule readings_props [OF assms(1)])+
  have b: "f * x < 2 ^ 64" if "x \<le> t + (1000000 + 200 * step)" for x
    using mult_le_mono2 [OF that, of f] assms(3) by linarith
  have d: "10 * (Suc (readings step) * step) = 10 * e + 10 * step" by (simp add: e)
  have "f * (t + 10 * (Suc (readings step) * step)) < 2 ^ 64" unfolding d by (intro b) (use r in linarith)
  from all_windows_steady [OF assms(1,2) this, folded e]
  have "get_cpu_hz (steady f step) 0 t = Some (of_nat (100 * (f * e)), t + 10 * (Suc (readings step) * step))"
    by (simp only: get_cpu_hz_def sum_windows simp_thms if_False bind.bind_lunit prod.case)
  moreover have "f * (100 * e) < 2 ^ 64" by (intro b) (use r in linarith)
  then have "unat (of_nat (100 * (f * e)) :: u64) = 100 * (f * e)"
    by (intro unat_of_nat_u64) (simp add: mult.left_commute)
  moreover have "9998 * (f * 100) \<le> e * (f * 100)" "e * (f * 100) \<le> (9998 + step) * (f * 100)"
    using r by (intro mult_le_mono1; simp)+
  ultimately show ?thesis by (intro exI conjI) (assumption, simp_all add: mult_ac)
qed

text \<open>A processor of 2 GHz whose clock takes two microseconds to read.\<close>

theorem cpu_hz_measured_witness:
  "\<exists>hz t'. get_cpu_hz (steady 2000 2) 0 5 = Some (hz, t') \<and> 1999600000 \<le> unat hz \<and> unat hz \<le> 2000000000"
  using cpu_hz_measured [of 2 2000 5] by simp

end
