(* ===== verification/User_Rates.thy ===== *)
theory User_Rates
  imports User_Clock "HOL-Library.Log_Nat"
begin

text \<open>
  The report of the user program, \<open>src/src/dma/sw/u/main.c\<close>: the rates of a transfer, which are
  computed in floating point. A \<open>double\<close> is what IEEE 754 makes of it on the processors the program
  is written for (its inline assembly is for the 64-bit one): each operation rounds the exact result
  to 53 significant bits, to the nearest, ties to even. All values here are non-negative, and far
  from overflow and from the subnormal numbers, which are left out.
\<close>

section \<open>Doubles\<close>

datatype dbl = Dbl rat | Dbl_inf | Dbl_nan

text \<open>The exponent of the last of the 53 bits of a positive number.\<close>

definition dbl_exp :: "rat \<Rightarrow> int" where
  "dbl_exp x = (case quotient_of x of (n, d) \<Rightarrow>
     let e = bitlen n - bitlen d - 53 in if 2 powi (e + 53) \<le> x then e + 1 else e)"

definition round_half_even :: "rat \<Rightarrow> int" where
  "round_half_even y = (let f = \<lfloor>y\<rfloor>; r = y - of_int f in
     if r < 1 / 2 then f else if 1 / 2 < r then f + 1 else if even f then f else f + 1)"

definition dbl_round :: "rat \<Rightarrow> rat" where
  "dbl_round x = (if x = 0 then 0 else of_int (round_half_even (x / 2 powi dbl_exp x)) * 2 powi dbl_exp x)"

definition dbl_of :: "u64 \<Rightarrow> dbl" where
  "dbl_of x = Dbl (dbl_round (of_nat (unat x)))"

fun dbl_mul :: "dbl \<Rightarrow> dbl \<Rightarrow> dbl" where
  "dbl_mul (Dbl a) (Dbl b) = Dbl (dbl_round (a * b))"
| "dbl_mul (Dbl a) Dbl_inf = (if a = 0 then Dbl_nan else Dbl_inf)"
| "dbl_mul Dbl_inf (Dbl b) = (if b = 0 then Dbl_nan else Dbl_inf)"
| "dbl_mul Dbl_inf Dbl_inf = Dbl_inf"
| "dbl_mul _ _ = Dbl_nan"

fun dbl_div :: "dbl \<Rightarrow> dbl \<Rightarrow> dbl" where
  "dbl_div (Dbl a) (Dbl b) =
     (if b = 0 then (if a = 0 then Dbl_nan else Dbl_inf) else Dbl (dbl_round (a / b)))"
| "dbl_div (Dbl a) Dbl_inf = Dbl 0"
| "dbl_div Dbl_inf (Dbl b) = Dbl_inf"
| "dbl_div _ _ = Dbl_nan"

text \<open>The conversion to \<open>uint64_t\<close> drops the fraction; out of range it is undefined.\<close>

fun dbl_trunc :: "dbl \<Rightarrow> u64 option" where
  "dbl_trunc (Dbl a) = (if a < 2 ^ 64 then Some (of_int \<lfloor>a\<rfloor>) else None)"
| "dbl_trunc _ = None"

section \<open>The rates\<close>

definition to_payload_mbps :: "u64 \<Rightarrow> u64 \<Rightarrow> dbl" where
  "to_payload_mbps sz usecs =
     dbl_div (dbl_mul (Dbl 1000000) (dbl_of sz)) (dbl_mul (dbl_mul (dbl_of usecs) (Dbl 1024)) (Dbl 1024))"

definition coding_overhead :: dbl where "coding_overhead = Dbl (dbl_round (6 / 5))"

definition raw_size :: "u64 \<Rightarrow> u64 option" where
  "raw_size sz =
     (let max_payload_size = 128; meta_size = 25;
          npackets = sz div max_payload_size;
          npackets = (if sz mod 128 \<noteq> 0 then npackets + 1 else npackets)
      in dbl_trunc (dbl_mul (dbl_of (npackets * meta_size + sz)) coding_overhead))"

definition to_raw_mbps :: "u64 \<Rightarrow> u64 \<Rightarrow> dbl option" where
  "to_raw_mbps sz usecs = do {
     total_size \<leftarrow> raw_size sz;
     Some (dbl_div (dbl_mul (Dbl 1000000) (dbl_of total_size)) (dbl_mul (dbl_mul (dbl_of usecs) (Dbl 1024)) (Dbl 1024)))
   }"

definition to_mtps :: "u64 \<Rightarrow> u64 \<Rightarrow> dbl option" where
  "to_mtps sz usecs = do { mbps \<leftarrow> to_raw_mbps sz usecs; Some (dbl_mul mbps (Dbl 8)) }"

section \<open>The report\<close>

record report =
  rp_usecs :: u64
  rp_payload :: dbl
  rp_mtps :: dbl

text \<open>
  What is printed for one transfer, the new total of the time, and the measured frequency, which
  is kept for the next call. A frequency of zero is a division by zero, which stops the program.
\<close>

definition user_report ::
  "'s clocks \<Rightarrow> dma_buf \<Rightarrow> u64 \<Rightarrow> u64 \<Rightarrow> u64 \<Rightarrow> u64 \<Rightarrow> 's \<Rightarrow> (report \<times> u64 \<times> u64 \<times> 's) option" where
  "user_report ck buf start_ticks stop_ticks total_usecs hz s = do {
     let diff_ticks = sub_ticks start_ticks stop_ticks;
     (hz, s) \<leftarrow> get_cpu_hz ck hz s;
     this_usecs \<leftarrow> (if hz = 0 then None else Some (ticks_to_us hz diff_ticks));
     let total_usecs = total_usecs + this_usecs;
     let total_size = db_size buf;
     mtps \<leftarrow> to_mtps total_size this_usecs;
     Some (\<lparr>rp_usecs = this_usecs, rp_payload = to_payload_mbps total_size this_usecs, rp_mtps = mtps\<rparr>,
       total_usecs, hz, s)
   }"

text \<open>
  One iteration of the loop of \<open>main\<close> with all its readings of the counter; the first and the last
  are not used.
\<close>

definition timed_iter ::
  "'s clocks \<Rightarrow> 's sys \<Rightarrow> u64 \<Rightarrow> u64 \<Rightarrow> dma_handle \<Rightarrow> dma_buf \<Rightarrow> u64 \<Rightarrow> u64 \<Rightarrow> dma_io \<Rightarrow> 's \<Rightarrow>
    (int \<times> report \<times> u64 \<times> u64 \<times> dma_io \<times> 's) option" where
  "timed_iter ck sys sp dp h buf total_usecs hz io s = do {
     let s = reset_buffer sys buf s;
     let (_, s) = rdtsc ck s;
     let (_, io, s) = dma_start_read sys sp dp h io buf s;
     let (start_ticks, s) = rdtsc ck s;
     (_, io, s) \<leftarrow> dma_wait_io sys sp h io s;
     let (stop_ticks, s) = rdtsc ck s;
     let (_, s) = rdtsc ck s;
     (rp, total_usecs, hz, s) \<leftarrow> user_report ck buf start_ticks stop_ticks total_usecs hz s;
     c \<leftarrow> (if io_buf io \<noteq> None then check_io sys io s else Some 0);
     Some (c, rp, total_usecs, hz, io, s)
   }"

section \<open>Rounding\<close>

lemma round_half_even_err: "\<bar>of_int (round_half_even y) - y\<bar> \<le> 1 / 2"
proof -
  have "of_int \<lfloor>y\<rfloor> \<le> y" "y < of_int \<lfloor>y\<rfloor> + 1" by linarith+
  then show ?thesis by (auto simp: round_half_even_def Let_def abs_le_iff)
qed

lemma round_half_even_int: "round_half_even (of_int k) = k"
  by (simp add: round_half_even_def Let_def)

lemma bitlen_powi:
  assumes "0 < n"
  shows "2 powi (bitlen n - 1) \<le> (of_int n :: rat)" "(of_int n :: rat) < 2 powi bitlen n"
proof -
  have b: "2 ^ nat (bitlen n - 1) \<le> n" "n < 2 ^ nat (bitlen n)" using bitlen_bounds [OF assms] by auto
  have p: "1 \<le> bitlen n" using assms bitlen_eq_zero_iff [of n] bitlen_nonneg [of n] by linarith
  have "(of_int (2 ^ nat (bitlen n - 1)) :: rat) \<le> of_int n" using b(1) by (simp only: of_int_le_iff)
  then show "2 powi (bitlen n - 1) \<le> (of_int n :: rat)" using p by (simp add: power_int_def)
  have "(of_int n :: rat) < of_int (2 ^ nat (bitlen n))" using b(2) by (simp only: of_int_less_iff)
  then show "(of_int n :: rat) < 2 powi bitlen n" using p by (simp add: power_int_def)
qed

lemma dbl_exp_bounds:
  assumes "0 < x"
  shows "2 ^ 52 \<le> x / 2 powi dbl_exp x" "x / 2 powi dbl_exp x < 2 ^ 53"
proof -
  obtain n d where q: "quotient_of x = (n, d)" by (cases "quotient_of x")
  have d: "0 < d" using quotient_of_denom_pos [OF q] .
  have x: "x = of_int n / of_int d" by (rule quotient_of_div [OF q])
  have n: "0 < n" using assms d by (simp add: x zero_less_divide_iff)
  let ?e = "bitlen n - bitlen d - 53"
  note bn = bitlen_powi [OF n] and bd = bitlen_powi [OF d]
  have dp: "(0 :: rat) < of_int d" using d by simp
  have lo: "2 powi (?e + 52) \<le> x"
  proof -
    have "2 powi (bitlen n - 1 - bitlen d) * of_int d \<le> 2 powi (bitlen n - 1 - bitlen d) * (2 :: rat) powi bitlen d"
      using bd(2) by (intro mult_left_mono) simp_all
    also have "\<dots> = 2 powi (bitlen n - 1)" by (simp flip: power_int_add)
    also have "\<dots> \<le> of_int n" by (rule bn(1))
    finally show ?thesis using dp by (simp add: x pos_le_divide_eq algebra_simps)
  qed
  have hi: "x < 2 powi (?e + 54)"
  proof -
    have "of_int n < (2 :: rat) powi bitlen n" by (rule bn(2))
    also have "\<dots> = 2 powi (bitlen n - bitlen d + 1) * 2 powi (bitlen d - 1)" by (simp flip: power_int_add)
    also have "\<dots> \<le> 2 powi (bitlen n - bitlen d + 1) * of_int d" using bd(1) by (intro mult_left_mono) simp_all
    finally show ?thesis using dp by (simp add: x pos_divide_less_eq algebra_simps)
  qed
  have e: "dbl_exp x = (if 2 powi (?e + 53) \<le> x then ?e + 1 else ?e)" by (simp add: dbl_exp_def q Let_def)
  obtain k where k: "k = ?e" by blast
  let ?u = "2 powi k :: rat"
  have u: "0 < ?u" by simp
  have s: "2 powi (k + 52) = 2 ^ 52 * ?u" "2 powi (k + 53) = 2 ^ 53 * ?u" "2 powi (k + 54) = 2 ^ 54 * ?u"
      "2 powi (k + 1) = 2 * ?u"
    by (simp_all add: power_int_add)
  have b: "2 ^ 52 * ?u \<le> x" "x < 2 ^ 54 * ?u" using lo hi unfolding k [symmetric] s .
  have "2 ^ 52 \<le> x / 2 powi dbl_exp x \<and> x / 2 powi dbl_exp x < 2 ^ 53"
  proof (cases "2 ^ 53 * ?u \<le> x")
    case True
    then have "dbl_exp x = k + 1" using e unfolding k [symmetric] s by simp
    then have "2 powi dbl_exp x = 2 * ?u" by (simp only: s)
    moreover have "2 ^ 52 \<le> x / (2 * ?u)" using True u by (subst pos_le_divide_eq) (simp_all add: mult.assoc)
    moreover have "x / (2 * ?u) < 2 ^ 53" using b(2) u by (subst pos_divide_less_eq) (simp_all add: mult.assoc)
    ultimately show ?thesis by simp
  next
    case False
    then have d: "2 powi dbl_exp x = ?u" using e unfolding k [symmetric] s by simp
    show ?thesis using b(1) False u unfolding d by (simp add: pos_le_divide_eq pos_divide_less_eq)
  qed
  then show "2 ^ 52 \<le> x / 2 powi dbl_exp x" "x / 2 powi dbl_exp x < 2 ^ 53" by blast+
qed

text \<open>The relative error is at most one in \<open>2 ^ 53\<close>, and integers below \<open>2 ^ 53\<close> are exact.\<close>

lemma dbl_round_err:
  assumes "0 \<le> x"
  shows "\<bar>dbl_round x - x\<bar> \<le> x / 2 ^ 53"
proof (cases "x = 0")
  case True
  then show ?thesis by (simp add: dbl_round_def)
next
  case False
  then have x: "0 < x" using assms by simp
  let ?u = "2 powi dbl_exp x :: rat" and ?y = "x / 2 powi dbl_exp x"
  have u: "0 < ?u" by simp
  have "dbl_round x - x = (of_int (round_half_even ?y) - ?y) * ?u"
    using False u by (simp add: dbl_round_def algebra_simps)
  then have "\<bar>dbl_round x - x\<bar> = \<bar>of_int (round_half_even ?y) - ?y\<bar> * ?u" using u by (simp add: abs_mult)
  also have "\<dots> \<le> 1 / 2 * ?u" using round_half_even_err u by (intro mult_right_mono) simp_all
  also have "1 / 2 * ?u \<le> x / 2 ^ 53" using dbl_exp_bounds(1) [OF x] u by (simp add: pos_le_divide_eq field_simps)
  finally show ?thesis .
qed

lemma dbl_round_nat:
  assumes "n < 2 ^ 53"
  shows "dbl_round (of_nat n) = of_nat n"
proof (cases "n = 0")
  case True
  then show ?thesis by (simp add: dbl_round_def)
next
  case False
  let ?x = "of_nat n :: rat" and ?e = "dbl_exp (of_nat n)"
  have x: "0 < ?x" using False by simp
  have lt: "?x < 2 ^ 53" using assms by (metis of_nat_less_iff of_nat_numeral of_nat_power)
  have e: "?e \<le> 0"
  proof (rule ccontr)
    assume "\<not> ?e \<le> 0"
    then have "(2 :: rat) powi 1 \<le> 2 powi ?e" by (intro power_int_increasing) simp_all
    then have "2 ^ 52 * 2 \<le> 2 ^ 52 * (2 :: rat) powi ?e" by simp
    also have "\<dots> \<le> ?x" using dbl_exp_bounds(1) [OF x] by (simp add: pos_le_divide_eq)
    finally show False using lt by simp
  qed
  have "?x / 2 powi ?e = of_int (int n * 2 ^ nat (- ?e))"
    using e by (cases "?e = 0") (simp_all add: power_int_def field_simps)
  then have "round_half_even (?x / 2 powi ?e) = int n * 2 ^ nat (- ?e)" by (simp only: round_half_even_int)
  then have "of_int (round_half_even (?x / 2 powi ?e)) = ?x / 2 powi ?e"
    using \<open>?x / 2 powi ?e = _\<close> by metis
  then show ?thesis using False by (simp add: dbl_round_def)
qed

section \<open>The overhead\<close>

text \<open>
  The constant \<open>1.2\<close> is a fifth of a unit in the last place too small. The product is rounded up
  to the integer it should be when there is one, and else stays between the same two integers.
\<close>

lemma dbl_six_fifths: "dbl_round (6 / 5) = 5404319552844595 / 2 ^ 52"
  by code_simp

lemma round_half_even_near:
  assumes "\<bar>y - of_int k\<bar> < 1 / 2"
  shows "round_half_even y = k"
proof -
  have b: "of_int k - 1 / 2 < y" "y < of_int k + 1 / 2" using assms by linarith+
  show ?thesis
  proof (cases "of_int k \<le> y")
    case True
    then have "\<lfloor>y\<rfloor> = k" using b by (intro floor_unique) linarith+
    then show ?thesis using b by (simp add: round_half_even_def Let_def)
  next
    case False
    then have "\<lfloor>y\<rfloor> = k - 1" using b by (intro floor_unique) simp_all
    then show ?thesis using b by (simp add: round_half_even_def Let_def)
  qed
qed

lemma dbl_round_near:
  assumes x: "0 < x" "x \<le> of_nat m" "of_nat m - x \<le> of_nat m / (6 * 2 ^ 52)" and m: "m < 2 ^ 52"
  shows "dbl_round x = of_nat m"
proof -
  obtain e u where e: "e = dbl_exp x" and u: "u = (2 :: rat) powi e" by blast
  have u0: "0 < u" by (simp add: u)
  note b = dbl_exp_bounds [OF x(1), folded e, folded u]
  have mm: "(of_nat m :: rat) < 2 ^ 52" using m by (metis of_nat_less_iff of_nat_numeral of_nat_power)
  have "2 ^ 52 * u \<le> x" using b(1) u0 by (simp add: pos_le_divide_eq)
  then have "u < 1" using x(2) mm by simp
  moreover have "1 \<le> u" if "0 \<le> e" using that one_le_power [of "2 :: rat" "nat e"] by (simp add: u power_int_def)
  ultimately have "e \<le> 0" by linarith
  then have k: "of_nat m / u = of_int (int m * 2 ^ nat (- e))"
    by (cases "e = 0") (simp_all add: u power_int_def field_simps)
  have d: "of_nat m / u - x / u \<le> of_nat m / u / (6 * 2 ^ 52)"
    using divide_right_mono [OF x(3), of u] u0 by (simp add: diff_divide_distrib mult.commute)
  have "0 \<le> of_nat m / u - x / u" using x(2) u0 by (simp flip: diff_divide_distrib)
  then have "\<bar>x / u - of_nat m / u\<bar> < 1 / 2" using d b(2) by (simp add: abs_if)
  then have "round_half_even (x / u) = int m * 2 ^ nat (- e)" unfolding k by (rule round_half_even_near)
  then have "of_int (round_half_even (x / u)) = of_nat m / u" by (simp only: k)
  then show ?thesis using x(1) u0 by (simp add: dbl_round_def flip: e u)
qed

lemma floor_six_fifths:
  assumes "n < 2 ^ 40"
  shows "\<lfloor>dbl_round (of_nat n * dbl_round (6 / 5))\<rfloor> = int (6 * n div 5)"
proof (cases "n = 0")
  case True
  then show ?thesis by (simp add: dbl_round_def)
next
  case False
  let ?x = "of_nat n * dbl_round (6 / 5)" and ?q = "6 * n div 5" and ?r = "6 * n mod 5"
  have n: "0 < (of_nat n :: rat)" "(of_nat n :: rat) < 2 ^ 40"
    using False assms by (simp, metis of_nat_less_iff of_nat_numeral of_nat_power)
  have x: "?x = of_nat n * 6 / 5 - of_nat n / (5 * 2 ^ 52)" "0 < ?x"
    using n(1) unfolding dbl_six_fifths by (simp_all add: field_simps)
  have "(of_nat (6 * n) :: rat) = of_nat (5 * ?q + ?r)" by (simp only: mult_div_mod_eq)
  then have q: "of_nat n * 6 / 5 = (of_nat ?q :: rat) + of_nat ?r / 5"
    by (simp only: of_nat_add of_nat_mult of_nat_numeral, linarith?)
  show ?thesis
  proof (cases "?r = 0")
    case True
    then have "dbl_round ?x = of_nat ?q"
      using x n q assms by (intro dbl_round_near) (simp_all add: field_simps)
    then show ?thesis by simp
  next
    case False
    have "?r < 5" by simp
    then have r: "1 \<le> (of_nat ?r :: rat)" "(of_nat ?r :: rat) \<le> 4" using False by simp_all
    have e: "dbl_round ?x - ?x \<le> ?x / 2 ^ 53" "?x - dbl_round ?x \<le> ?x / 2 ^ 53"
      using dbl_round_err [of ?x] x(2) unfolding abs_le_iff by linarith+
    have le: "?x \<le> of_nat n * 6 / 5" unfolding x(1) using n(1) by simp
    also have "\<dots> \<le> 2 ^ 41" using n(2) by simp
    finally have "?x \<le> 2 ^ 41" .
    then have "?x / 2 ^ 53 < 1 / 10" "of_nat n / (5 * 2 ^ 52) < (1 / 10 :: rat)" using n(2) by simp_all
    then have "of_nat ?q \<le> dbl_round ?x" "dbl_round ?x < of_nat ?q + 1"
      using e le x q r n by linarith+
    then show ?thesis by (intro floor_unique) simp_all
  qed
qed

text \<open>The exact number of packets and of bytes on the wire.\<close>

definition wire_bytes :: "nat \<Rightarrow> nat" where
  "wire_bytes n = 6 * (25 * (n div 128 + (if n mod 128 = 0 then 0 else 1)) + n) div 5"

lemma raw_size_wire:
  assumes "unat sz < 2 ^ 32"
  shows "raw_size sz = Some (of_nat (wire_bytes (unat sz)))"
proof -
  let ?n = "unat sz" and ?np = "if sz mod 128 \<noteq> 0 then sz div 128 + 1 else sz div 128"
  obtain k where kd: "k = 25 * (?n div 128 + (if ?n mod 128 = 0 then 0 else 1)) + ?n" by blast
  have k: "k < 2 ^ 34" using assms unfolding kd by (simp split: if_splits) linarith
  have d: "unat (sz div 128) = ?n div 128" "unat (sz mod 128) = ?n mod 128"
    by (simp_all add: unat_div unat_mod)
  have z: "sz mod 128 = 0 \<longleftrightarrow> ?n mod 128 = 0" by (simp add: d(2) flip: unat_eq_zero)
  have "sz = of_nat ?n" "sz div 128 = of_nat (?n div 128)" unfolding d(1) [symmetric] by simp_all
  then have "?np * 25 + sz = of_nat k" unfolding z kd by simp
  moreover have "unat (of_nat k :: u64) = k" using k by (intro unat_of_nat_u64) simp
  ultimately have "unat (?np * 25 + sz) = k" by simp
  moreover have "dbl_round (of_nat k) = of_nat k" using k by (intro dbl_round_nat) simp
  ultimately have c: "dbl_of (?np * 25 + sz) = Dbl (of_nat k)" by (simp only: dbl_of_def)
  have w: "wire_bytes ?n = 6 * k div 5" by (simp only: wire_bytes_def kd)
  have f: "\<lfloor>dbl_round (of_nat k * dbl_round (6 / 5))\<rfloor> = int (wire_bytes ?n)"
    unfolding w using k by (intro floor_six_fifths) simp
  have "wire_bytes ?n < 2 ^ 40" using k unfolding w by simp
  then have "\<lfloor>dbl_round (of_nat k * dbl_round (6 / 5))\<rfloor> < 2 ^ 64" unfolding f by simp
  then have "dbl_round (of_nat k * dbl_round (6 / 5)) < 2 ^ 64"
    by (simp only: floor_less_iff of_int_power of_int_numeral)
  then show ?thesis
    unfolding raw_size_def Let_def c coding_overhead_def dbl_mul.simps dbl_trunc.simps f by simp
qed

text \<open>One operation rounds one exact value; the values that are multiplied and divided are exact here.\<close>

lemma dbl_of_small:
  assumes "unat x < 2 ^ 53"
  shows "dbl_of x = Dbl (of_nat (unat x))"
  unfolding dbl_of_def using assms by (simp only: dbl_round_nat)

lemma rate_rounded:
  assumes "n < 2 ^ 33" and "0 < unat us" and "unat us < 2 ^ 33" and "unat b = n"
  shows "dbl_div (dbl_mul (Dbl 1000000) (dbl_of b)) (dbl_mul (dbl_mul (dbl_of us) (Dbl 1024)) (Dbl 1024)) =
    Dbl (dbl_round (of_nat (1000000 * n) / of_nat (unat us * 2 ^ 20)))"
proof -
  have r: "dbl_round (of_nat k) = of_nat k" if "k < 2 ^ 53" for k using that by (rule dbl_round_nat)
  have "dbl_mul (Dbl 1000000) (dbl_of b) = Dbl (of_nat (1000000 * n))"
    using assms r [of "1000000 * n"] by (simp add: dbl_of_small)
  moreover have "dbl_mul (dbl_mul (dbl_of us) (Dbl 1024)) (Dbl 1024) = Dbl (of_nat (unat us * 2 ^ 20))"
    using assms r [of "unat us * 1024"] r [of "unat us * 1048576"] by (simp add: dbl_of_small mult.commute)
  moreover have "(of_nat (unat us * 2 ^ 20) :: rat) \<noteq> 0" using assms(2) by (simp only: of_nat_eq_0_iff) simp
  ultimately show ?thesis by (simp only: dbl_div.simps if_False)
qed

lemma scale_rounded:
  assumes "0 \<le> x"
  shows "\<bar>dbl_round (dbl_round x * 8) - 8 * x\<bar> \<le> 8 * x / 2 ^ 51"
proof -
  let ?y = "dbl_round x"
  have y: "?y - x \<le> x / 2 ^ 53" "x - ?y \<le> x / 2 ^ 53"
    using dbl_round_err [OF assms] unfolding abs_le_iff by linarith+
  then have "0 \<le> ?y" "?y \<le> 2 * x" using assms by simp_all
  then have "\<bar>dbl_round (?y * 8) - ?y * 8\<bar> \<le> ?y * 8 / 2 ^ 53" by (intro dbl_round_err) simp
  also have "\<dots> \<le> 16 * x / 2 ^ 53" using \<open>?y \<le> 2 * x\<close> by (intro divide_right_mono) simp_all
  finally show ?thesis using y unfolding abs_le_iff by simp
qed

text \<open>
  C39. The rates the report prints, for buffers and times that are not extreme. The payload rate is
  the exact quotient rounded once. The size on the wire that the other is computed from is exactly
  a fifth more than the payload and 25 bytes for each packet of 128, rounded down; the rate itself
  is within one part in \<open>2 ^ 51\<close> of the exact one.
\<close>

theorem rates_accurate:
  assumes "unat sz < 2 ^ 32" and "0 < unat us" and "unat us < 2 ^ 33"
  shows "\<exists>p m. to_payload_mbps sz us = Dbl p \<and> to_mtps sz us = Some (Dbl m) \<and>
     (let e = of_nat (1000000 * unat sz) / of_nat (unat us * 2 ^ 20) in \<bar>p - e\<bar> \<le> e / 2 ^ 53) \<and>
     (let e = 8 * (of_nat (1000000 * wire_bytes (unat sz)) / of_nat (unat us * 2 ^ 20)) in \<bar>m - e\<bar> \<le> e / 2 ^ 51)"
proof -
  have w: "wire_bytes (unat sz) < 2 ^ 33" using assms(1) unfolding wire_bytes_def by (simp split: if_splits) linarith
  then have u: "unat (of_nat (wire_bytes (unat sz)) :: u64) = wire_bytes (unat sz)"
    by (intro unat_of_nat_u64) simp
  let ?e = "of_nat (1000000 * unat sz) / of_nat (unat us * 2 ^ 20) :: rat"
  let ?w = "of_nat (1000000 * wire_bytes (unat sz)) / of_nat (unat us * 2 ^ 20) :: rat"
  have "to_payload_mbps sz us = Dbl (dbl_round ?e)"
    unfolding to_payload_mbps_def using assms by (intro rate_rounded) simp_all
  moreover have "to_mtps sz us = Some (Dbl (dbl_round (dbl_round ?w * 8)))"
    unfolding to_mtps_def to_raw_mbps_def raw_size_wire [OF assms(1)] bind.bind_lunit
      rate_rounded [OF w assms(2,3) u] dbl_mul.simps ..
  moreover have "\<bar>dbl_round ?e - ?e\<bar> \<le> ?e / 2 ^ 53"
    by (rule dbl_round_err) (simp only: divide_nonneg_nonneg of_nat_0_le_iff)
  moreover have "\<bar>dbl_round (dbl_round ?w * 8) - 8 * ?w\<bar> \<le> 8 * ?w / 2 ^ 51"
    by (rule scale_rounded) (simp only: divide_nonneg_nonneg of_nat_0_le_iff)
  ultimately show ?thesis unfolding Let_def by blast
qed

text \<open>The program's buffer in a hundred microseconds.\<close>

theorem rates_accurate_witness:
  "\<exists>p m. to_payload_mbps 32768 100 = Dbl p \<and> to_mtps 32768 100 = Some (Dbl m) \<and>
     \<bar>p - 625 / 2\<bar> \<le> 625 / 2 / 2 ^ 53 \<and> \<bar>m - 29375625 / 8192\<bar> \<le> 29375625 / 8192 / 2 ^ 51"
  using rates_accurate [of 32768 100] by (simp add: wire_bytes_def mult.commute)

text \<open>A transfer too short to measure is reported as infinitely fast.\<close>

lemma rate_of_nothing:
  assumes "0 < unat sz" and "unat sz < 2 ^ 32"
  shows "to_payload_mbps sz 0 = Dbl_inf"
proof -
  have "(of_nat (unat sz) :: rat) \<noteq> 0" using assms(1) by (simp only: of_nat_eq_0_iff)
  then show ?thesis
    using assms dbl_round_nat [of "1000000 * unat sz"] dbl_round_nat [of 0]
    by (simp add: to_payload_mbps_def dbl_of_small)
qed

section \<open>The report changes nothing\<close>

text \<open>
  Once the frequency is known, and with a counter that only reads the state, a turn of the program
  does what \<open>user_iter\<close> says, and prints a report.
\<close>

lemma timed_iter_user:
  assumes "\<And>s. \<exists>a d. ck_tsc ck s = (a, d, s)" and "hz \<noteq> 0" and "unat (db_size buf) < 2 ^ 32"
  shows "map_option (\<lambda>(c, _, _, _, io, s). (c, io, s)) (timed_iter ck sys sp dp h buf total_usecs hz io s) =
    user_iter sys sp dp h buf io s"
proof -
  have r: "\<exists>t. rdtsc ck s = (t, s)" for s
    using assms(1) [of s] by (auto simp: rdtsc_def)
  have g: "get_cpu_hz ck hz s = Some (hz, s)" for s using assms(2) by (simp add: get_cpu_hz_def)
  have m: "\<exists>m. to_mtps (db_size buf) us = Some m" for us
    using raw_size_wire [OF assms(3)] by (simp add: to_mtps_def to_raw_mbps_def)
  have p: "\<exists>rp t. user_report ck buf a b total_usecs hz s = Some (rp, t, hz, s)" for a b s
    using m [of "ticks_to_us hz (sub_ticks a b)"] assms(2) by (auto simp: user_report_def Let_def g)
  obtain x io1 s1 where 1: "dma_start_read sys sp dp h io buf (reset_buffer sys buf s) = (x, io1, s1)"
    by (cases "dma_start_read sys sp dp h io buf (reset_buffer sys buf s)")
  obtain t0 where t0: "rdtsc ck (reset_buffer sys buf s) = (t0, reset_buffer sys buf s)" using r by blast
  obtain t1 where t1: "rdtsc ck s1 = (t1, s1)" using r by blast
  show ?thesis
  proof (cases "dma_wait_io sys sp h io1 s1")
    case None
    then show ?thesis by (simp add: timed_iter_def user_iter_def Let_def 1 t0 t1)
  next
    case (Some a)
    obtain x2 io2 s2 where a: "a = (x2, io2, s2)" by (cases a)
    obtain t2 where t2: "rdtsc ck s2 = (t2, s2)" using r by blast
    obtain rp t where "user_report ck buf t1 t2 total_usecs hz s2 = Some (rp, t, hz, s2)" using p by blast
    then show ?thesis
      using Some by (cases "check_io sys io2 s2")
        (simp_all add: timed_iter_def user_iter_def Let_def 1 a t0 t1 t2)
  qed
qed

end
