(* ===== verification/Pmem_Reserved.thy ===== *)
theory Pmem_Reserved
  imports Kdma
begin

text \<open>
  The two other strategies for physical memory in \<open>src/src/dma/sw/k/kdma.c\<close>, which hand out memory
  that was reserved at boot or when the driver is loaded. Neither is selected, and neither compiles:
  the file operations need the list of the dynamic strategy, and the early one uses names that are
  not declared. It is read here with \<open>struct pmem_list\<close> as \<open>struct pmem_early_list\<close>; what \<open>pmem_head\<close>
  would be is an argument, and \<open>pmem_reserved_vaddr\<close>, which nothing reads, is left out.
\<close>

section \<open>Memory reserved at boot\<close>

definition boot_reserved_size :: u64 where [const_defs]: "boot_reserved_size = 128 * 1024 * 1024"
definition boot_reserved_paddr :: u64 where [const_defs]: "boot_reserved_paddr = 256 * 1024 * 1024"

definition boot_pmem_init :: "u64 \<Rightarrow> int" where
  "boot_pmem_init max_size = (if max_size > boot_reserved_size then - ENOMEM else 0)"

text \<open>
  The allocator of both strategies, on the reserved region of size \<open>rsz\<close> at \<open>rpa\<close>: the error, and
  the address stored through the pointer if there is one. The release does nothing.
\<close>

definition reserved_alloc :: "u64 \<Rightarrow> u64 \<Rightarrow> u64 \<Rightarrow> int \<Rightarrow> int \<times> u64 option" where
  "reserved_alloc rsz rpa sz nid = (if sz > rsz then (- ENOMEM, None) else (0, Some rpa))"

text \<open>Whoever allocates gets the same memory.\<close>

lemma reserved_alloc_shares:
  "reserved_alloc rsz rpa sz nid = (0, Some a) \<Longrightarrow> reserved_alloc rsz rpa sz' nid' = (0, Some b) \<Longrightarrow> a = b"
  by (simp add: reserved_alloc_def split: if_splits)

section \<open>Memory reserved when the driver is loaded\<close>

record early_node =
  en_order :: nat
  en_vaddr :: u64
  en_next :: ptr

record early =
  er_size :: u64
  er_paddr :: u64
  er_head :: ptr
  er_heap :: "ptr \<rightharpoonup> early_node"
  er_log :: "kmem_call list"

text \<open>What the kernel answers in iteration \<open>i\<close>: the pages, or 0, and the new node, or 0.\<close>

record early_env =
  ee_pages :: "nat \<Rightarrow> u64"
  ee_kmalloc :: "nat \<Rightarrow> ptr"
  ee_virt_to_phys :: "u64 \<Rightarrow> u64"
  ee_get_order :: "u64 \<Rightarrow> nat"

definition PAGE_SIZE :: u64 where [const_defs]: "PAGE_SIZE = 4096"
definition MAX_ORDER :: nat where [const_defs]: "MAX_ORDER = 11"

text \<open>\<open>None\<close>: a node that does not exist, or a list without an end.\<close>

partial_function (option) early_pmem_fini :: "early \<Rightarrow> early option" where
  "early_pmem_fini s =
     (if er_head s = 0 then Some s
      else do {
        n \<leftarrow> er_heap s (er_head s);
        early_pmem_fini (s\<lparr>er_head := en_next n, er_heap := (er_heap s)(er_head s := None),
          er_log := er_log s @ [Km_free_pages (en_vaddr n) (en_order n)]\<rparr>)
      })"

text \<open>One iteration: whether it goes on, the addresses to compare with in the next one, the state.\<close>

definition early_iter ::
  "early_env \<Rightarrow> ptr \<Rightarrow> u64 \<Rightarrow> nat \<Rightarrow> u64 \<Rightarrow> u64 \<Rightarrow> early \<Rightarrow> bool \<times> u64 \<times> u64 \<times> early" where
  "early_iter e pmem_head total_size i prev_vaddr prev_paddr s =
     (let max_order = MAX_ORDER - 1; max_size = of_nat max_order * PAGE_SIZE;
          vaddr = ee_pages e i in
      if vaddr = 0 then (False, prev_vaddr, prev_paddr, s)
      else let s = s\<lparr>er_log := er_log s @ [Km_alloc_pages (-1) vaddr max_order]\<rparr>;
               paddr = ee_virt_to_phys e vaddr in
      if i \<noteq> 0 \<and> (prev_paddr + max_size \<noteq> paddr \<or> prev_vaddr + max_size \<noteq> vaddr)
      then (False, prev_vaddr, prev_paddr, s)
      else let s = (if i \<noteq> 0 then s else s\<lparr>er_paddr := paddr, er_size := total_size\<rparr>);
               new_head = ee_kmalloc e i in
      if new_head = 0 then (False, prev_vaddr, prev_paddr, s)
      else (True, vaddr, paddr, s\<lparr>er_heap := (er_heap s)(new_head \<mapsto>
              \<lparr>en_order = max_order, en_vaddr = vaddr, en_next = pmem_head\<rparr>), er_head := new_head\<rparr>))"

function early_loop ::
  "early_env \<Rightarrow> ptr \<Rightarrow> u64 \<Rightarrow> nat \<Rightarrow> nat \<Rightarrow> u64 \<Rightarrow> u64 \<Rightarrow> early \<Rightarrow> bool \<times> early" where
  "early_loop e ph total_size norder i pv pp s =
     (if i < norder then
        case early_iter e ph total_size i pv pp s of (ok, pv, pp, s) \<Rightarrow>
          if ok then early_loop e ph total_size norder (i + 1) pv pp s else (False, s)
      else (True, s))"
  by pat_completeness auto

termination early_loop
  by (relation "measure (\<lambda>(_, _, _, norder, i, _). norder - i)") auto

declare early_loop.simps [simp del]

definition early_pmem_init :: "early_env \<Rightarrow> ptr \<Rightarrow> u64 \<Rightarrow> early \<Rightarrow> (int \<times> early) option" where
  "early_pmem_init e ph total_size s =
     (let total_order = ee_get_order e total_size; max_order = MAX_ORDER - 1;
          norder = total_order div max_order;
          norder = (if total_order mod max_order \<noteq> 0 then norder + 1 else norder);
          (ok, s) = early_loop e ph total_size norder 0 0 0 s in
      if ok then Some (0, s) else do { s \<leftarrow> early_pmem_fini s; Some (- ENOMEM, s) })"

text \<open>
  The blocks must follow each other at ten pages, the order times the size of a page, but each has
  1024 pages. So the second block, which cannot lie in the first, is always refused: the 128 MiB
  of the driver are never reserved, and the block in hand at the failure is never given back.
\<close>

lemma early_init_fails:
  assumes order: "ee_get_order e total_size = 15"
    and apart: "ee_pages e 0 \<noteq> 0 \<Longrightarrow> ee_pages e 1 \<noteq> 0 \<Longrightarrow> 1024 * PAGE_SIZE \<le> ee_pages e 1 - ee_pages e 0"
    and new: "er_head s = 0" "er_log s = []"
  shows "\<exists>s'. early_pmem_init e 0 total_size s = Some (- ENOMEM, s') \<and>
     pages (er_log s') =
       (if ee_pages e 0 = 0 then {#}
        else if ee_kmalloc e 0 = 0 then {#(ee_pages e 0, 10)#}
        else if ee_pages e 1 = 0 then {#} else {#(ee_pages e 1, 10)#}, True)"
proof -
  let ?v = "ee_pages e 0" and ?w = "ee_pages e 1"
  have fini: "early_pmem_fini t = Some t" if "er_head t = 0" for t
    using that by (subst early_pmem_fini.simps) simp
  have gap: "?v + 40960 \<noteq> ?w" if "?v \<noteq> 0" "?w \<noteq> 0"
  proof
    assume "?v + 40960 = ?w"
    then have "?w - ?v = 40960" by (metis add_diff_cancel_left')
    then show False using apart [OF that] by (simp add: const_defs)
  qed
  have init: "early_pmem_init e 0 total_size s =
      (case early_loop e 0 total_size 2 0 0 0 s of (ok, s) \<Rightarrow>
        if ok then Some (0, s) else do { s \<leftarrow> early_pmem_fini s; Some (- ENOMEM, s) })"
    by (simp add: early_pmem_init_def order const_defs numeral_2_eq_2)
  note loop = early_loop.simps [of e 0 total_size 2 0] early_loop.simps [of e 0 total_size 2 1]
  note sd = early_iter_def Let_def const_defs pages_def
  show ?thesis
  proof (cases "?v = 0 \<or> ee_kmalloc e 0 = 0")
    case True
    then show ?thesis using new fini by (auto simp: init loop(1) sd)
  next
    case False
    let ?s1 = "s\<lparr>er_log := [Km_alloc_pages (-1) ?v 10], er_paddr := ee_virt_to_phys e ?v, er_size := total_size,
      er_heap := (er_heap s)(ee_kmalloc e 0 \<mapsto> \<lparr>en_order = 10, en_vaddr = ?v, en_next = 0\<rparr>), er_head := ee_kmalloc e 0\<rparr>"
    have 1: "early_loop e 0 total_size 2 0 0 0 s = early_loop e 0 total_size 2 1 ?v (ee_virt_to_phys e ?v) ?s1"
      using False new by (simp add: loop(1) sd del: One_nat_def)
    let ?s2 = "if ?w = 0 then ?s1 else ?s1\<lparr>er_log := er_log ?s1 @ [Km_alloc_pages (-1) ?w 10]\<rparr>"
    have 2: "early_loop e 0 total_size 2 1 ?v (ee_virt_to_phys e ?v) ?s1 = (False, ?s2)"
      using False gap by (simp add: loop(2) sd del: One_nat_def)
    obtain s' where f: "early_pmem_fini ?s2 = Some s'" "er_log s' = er_log ?s2 @ [Km_free_pages ?v 10]"
    proof -
      have "\<exists>s'. early_pmem_fini ?s2 = Some s' \<and> er_log s' = er_log ?s2 @ [Km_free_pages ?v 10]"
        using False fini by (subst early_pmem_fini.simps) auto
      then show ?thesis using that by blast
    qed
    have "early_pmem_init e 0 total_size s = Some (- ENOMEM, s')"
      by (simp only: init 1 2 prod.case if_False f(1) bind.bind_lunit)
    then show ?thesis using False f(2) by (auto simp: pages_def)
  qed
qed

end
