(* ===== verification/Vhdl_Endpoint.thy ===== *)
theory Vhdl_Endpoint
  imports Glue_System Sbone_System
begin

text \<open>
  The endpoint of \<open>src/src/pcie/pcie_endpoint.vhdl\<close>, which the simulated devices share: a process that
  calls the routines of the glue (\<open>Glue_System\<close>) at each edge of the clock and drives the request
  signals (\<open>sb_req\<close>). Signals are two-valued; what the simulator calls uninitialised is not \<open>'1'\<close>.
\<close>

section \<open>The routines with their histories\<close>

definition sim_msi :: "nat \<Rightarrow> net_msg \<Rightarrow> glue_sys \<Rightarrow> glue_sys option" where
  "sim_msi a j g = do { c \<leftarrow> pcie_glue_send_msi a j (gs_c g); Some (g\<lparr>gs_c := c\<rparr>) }"

definition sim_write :: "nat \<Rightarrow> net_msg \<Rightarrow> u64 \<Rightarrow> 1024 word \<Rightarrow> u16 \<Rightarrow> u16 \<Rightarrow> glue_sys \<Rightarrow> glue_sys option" where
  "sim_write a j addr data ds sz g = do {
     c \<leftarrow> pcie_glue_send_write a j (uint_to_logic addr) (uint_to_logic data) (uint_to_logic ds) (uint_to_logic sz) (gs_c g);
     Some (g\<lparr>gs_c := c\<rparr>) }"

definition sim_reply :: "u64 \<Rightarrow> glue_sys \<Rightarrow> glue_sys option" where
  "sim_reply x g = do {
     c \<leftarrow> pcie_glue_send_reply (uint_to_logic x) (gs_c g);
     Some (g\<lparr>gs_c := c, gs_replies := gs_replies g @ (if g_reply (gs_c g) = None then [] else [x])\<rparr>) }"

definition sim_poll :: "glue_sys \<Rightarrow> (poll_out \<times> glue_sys) option" where
  "sim_poll g = do {
     (out, c) \<leftarrow> pcie_glue_poll_rx_fifo (gs_c g);
     Some (out, g\<lparr>gs_c := c,
       gs_polled := gs_polled g @ (if f_head (g_rx (gs_c g)) = None then [] else [out])\<rparr>) }"

section \<open>The endpoint\<close>

text \<open>The variables of the process, and the request signals it drives.\<close>

record endpoint =
  ep_wait :: bool
  ep_is_read :: byte
  ep_bar :: byte
  ep_addr :: u64
  ep_data :: u64
  ep_size :: u16
  ep_req :: sb_req

record ep_in =
  in_ack :: bool
  in_rep :: "bool \<times> u64"
  in_mwr :: bool
  in_mwr_addr :: u64
  in_mwr_data :: "1024 word"
  in_mwr_size :: u16
  in_msi :: bool

text \<open>A variable after a call it was an output of.\<close>

definition out_var :: "byte list option \<Rightarrow> 'a::len word \<Rightarrow> 'a word option" where
  "out_var l x = (case l of None \<Rightarrow> Some x | Some l \<Rightarrow> logic_to_uint l 0)"

definition endpoint_poll :: "endpoint \<Rightarrow> glue_sys \<Rightarrow> (endpoint \<times> glue_sys) option" where
  "endpoint_poll ep g = do {
     (out, g) \<leftarrow> sim_poll g;
     r \<leftarrow> out_var (po_is_read out) (ep_is_read ep);
     b \<leftarrow> out_var (po_bar out) (ep_bar ep);
     a \<leftarrow> out_var (po_addr out) (ep_addr ep);
     d \<leftarrow> out_var (po_data out) (ep_data ep);
     n \<leftarrow> out_var (po_size out) (ep_size ep);
     let ep = ep\<lparr>ep_is_read := r, ep_bar := b, ep_addr := a, ep_data := d, ep_size := n\<rparr>;
     Some (if n \<noteq> 0 then ep\<lparr>ep_wait := True\<rparr> else ep, g)
   }"

text \<open>
  The signals for a pending request. For a new one the process assigns the same values twice.
\<close>

definition drive :: "endpoint \<Rightarrow> sb_req \<Rightarrow> sb_req" where
  "drive ep req =
     (if ep_wait ep then
        let req = req\<lparr>rq_en := True, rq_bar := ucast (ep_bar ep), rq_addr := ep_addr ep\<rparr> in
        if ep_is_read ep = 0 then req\<lparr>rq_data := ep_data ep, rq_wr := True\<rparr> else req
      else req)"

text \<open>A rising edge. \<open>a\<close>, \<open>j\<close> and \<open>b\<close>, \<open>k\<close> are what \<open>malloc\<close> returns to the two routines that allocate.\<close>

definition endpoint_clk ::
  "nat \<times> net_msg \<Rightarrow> nat \<times> net_msg \<Rightarrow> ep_in \<Rightarrow> endpoint \<Rightarrow> glue_sys \<Rightarrow> (endpoint \<times> glue_sys) option" where
  "endpoint_clk = (\<lambda>(a, j) (b, k) i ep g. do {
     let req = (ep_req ep)\<lparr>rq_en := False, rq_wr := False, rq_bar := 0, rq_addr := 0\<rparr>;
     g \<leftarrow> (if in_msi i then sim_msi a j g else Some g);
     g \<leftarrow> (if in_mwr i then sim_write b k (in_mwr_addr i) (in_mwr_data i) (1024 div 8) (in_mwr_size i) g else Some g);
     g \<leftarrow> (if fst (in_rep i) then sim_reply (snd (in_rep i)) g else Some g);
     let ep = (if in_ack i then ep\<lparr>ep_wait := False\<rparr> else ep);
     (ep, g) \<leftarrow> (if \<not> ep_wait ep then endpoint_poll ep g else Some (ep, g));
     Some (ep\<lparr>ep_req := drive ep req\<rparr>, g)
   })"

section \<open>The network thread\<close>

text \<open>The steps of the network thread, which are those of \<open>glue_step\<close> that are not the simulation's.\<close>

inductive net_step :: "glue_sys \<Rightarrow> glue_sys \<Rightarrow> bool" where
  read_start: "\<lbrakk>gs_io g = Io_idle; g_heap (gs_c g) a = None; sz \<le> 8; length data = 8;
      on_bar_read_start a junk bar addr data sz (gs_c g) = Some c\<rbrakk> \<Longrightarrow>
    net_step g (g\<lparr>gs_c := c, gs_io := Io_wait a data sz, gs_issued := gs_issued g @ [Rd bar addr sz]\<rparr>)"
| read_finish: "\<lbrakk>gs_io g = Io_wait a data sz; is_replied a (gs_c g);
      on_bar_read_finish a data sz (gs_c g) = Some (d, c)\<rbrakk> \<Longrightarrow>
    net_step g (g\<lparr>gs_c := c, gs_io := Io_idle, gs_results := gs_results g @ [take sz d]\<rparr>)"
| bar_write: "\<lbrakk>gs_io g = Io_idle; g_heap (gs_c g) a = None; sz \<le> 8; sz \<le> length data;
      on_bar_write a junk bar addr data sz (gs_c g) = Some c\<rbrakk> \<Longrightarrow>
    net_step g (g\<lparr>gs_c := c, gs_issued := gs_issued g @ [Wr bar addr (take sz data)]\<rparr>)"
| event: "\<lbrakk>gs_io g = Io_idle; on_event key (gs_c g) = Some (r, c)\<rbrakk> \<Longrightarrow> net_step g (g\<lparr>gs_c := c\<rparr>)"
| other: "\<lbrakk>gs_io g = Io_idle; g_heap c = g_heap (gs_c g);
      g_rx c = g_rx (gs_c g); g_tx c = g_tx (gs_c g); g_reply c = g_reply (gs_c g)\<rbrakk> \<Longrightarrow>
    net_step g (g\<lparr>gs_c := c\<rparr>)"

section \<open>Requests and request signals\<close>

text \<open>
  A request for an address of BAR 1. The endpoint takes the three low bits of the BAR number, and an
  access of no bytes is no access.
\<close>

fun hits :: "bar_req \<Rightarrow> u64 \<Rightarrow> bool" where
  "hits (Rd bar addr sz) a \<longleftrightarrow> sz \<noteq> 0 \<and> (ucast bar :: 3 word) = 1 \<and> addr = a"
| "hits (Wr bar addr d) a \<longleftrightarrow> d \<noteq> [] \<and> (ucast bar :: 3 word) = 1 \<and> addr = a"

text \<open>The signals show the request.\<close>

fun asks :: "bar_req \<Rightarrow> sb_req \<Rightarrow> bool" where
  "asks (Rd bar addr sz) q \<longleftrightarrow> (rq_en q \<longleftrightarrow> sz \<noteq> 0) \<and> (sz \<noteq> 0 \<longrightarrow> \<not> rq_wr q \<and> rq_bar q = ucast bar \<and> rq_addr q = addr)"
| "asks (Wr bar addr d) q \<longleftrightarrow> (rq_en q \<longleftrightarrow> d \<noteq> []) \<and>
     (d \<noteq> [] \<longrightarrow> rq_wr q \<and> rq_bar q = ucast bar \<and> rq_addr q = addr \<and> rq_data q = of_le d)"

lemma asks_cases:
  assumes "asks r q"
  obtains (idle) "\<not> rq_en q" "rd_size r = 0"
  | (read) "rq_en q" "\<not> rq_wr q" "is_rd r" "\<And>a. bar_addr_cmp 1 a q = hits r a"
  | (wr) bar addr d where "rq_en q" "rq_wr q" "r = Wr bar addr d" "\<And>a. bar_addr_cmp 1 a q = hits r a" "rq_data q = of_le d"
proof (cases "rd_size r = 0")
  case True
  then have "\<not> rq_en q" using assms by (cases r) simp_all
  then show ?thesis using idle True by blast
next
  case False
  show ?thesis
  proof (cases r)
    case (Rd bar addr sz)
    then show ?thesis using assms False by (intro read) (simp_all add: bar_addr_cmp_def)
  next
    case (Wr bar addr d)
    then show ?thesis using assms False by (intro wr) (simp_all add: bar_addr_cmp_def)
  qed
qed

lemma no_hit: "rd_size r = 0 \<Longrightarrow> \<not> hits r a"
  by (cases r) simp_all

section \<open>The routines in any state of the glue\<close>

lemma uint_logic: "logic_to_uint (uint_to_logic (x :: 'a::len word)) 0 = Some x"
  using logic_to_uint_at [of "[]" 0 x "[]"] by simp

lemma sim_msi_ok:
  assumes "glue_inv g" and "g_heap (gs_c g) a = None"
  obtains c where "sim_msi a j g = Some (g\<lparr>gs_c := c\<rparr>)" and "glue_inv (g\<lparr>gs_c := c\<rparr>)"
  using msi_step_ok [OF assms, of j] that by (auto simp: sim_msi_def)

text \<open>What the polls have shown, as a number of requests.\<close>

definition shown :: "glue_sys \<Rightarrow> nat" where "shown g = length (gs_polled g)"

lemma polled_shown:
  assumes "glue_inv g"
  shows "shown g \<le> length (gs_issued g)" "gs_polled g = map req_out (take (shown g) (gs_issued g))"
proof -
  obtain pend where m: "map req_out (gs_issued g) = gs_polled g @ map req_out pend" by (rule glue_invE [OF assms])
  from arg_cong [OF this, of length] show "shown g \<le> length (gs_issued g)" by (simp add: shown_def)
  show "gs_polled g = map req_out (take (shown g) (gs_issued g))"
    using arg_cong [OF m, of "take (shown g)"] by (simp add: shown_def take_map)
qed

lemma is_rd_out: "is_rd r \<longleftrightarrow> po_data (req_out r) = None"
  by (cases r) simp_all

text \<open>
  A reply is accepted when the simulation has seen a read that is not answered yet: the network
  thread has only one read at a time.
\<close>

lemma reply_accepted:
  assumes i: "glue_inv g"
    and l: "length (gs_replies g) < length (filter is_rd (take (shown g) (gs_issued g)))"
  shows "g_reply (gs_c g) \<noteq> None"
proof -
  obtain rx pend tx ms where q: "queues_inv (gs_c g) (wait_node (gs_io g)) rx pend tx ms"
    "map req_out (gs_issued g) = gs_polled g @ map req_out pend" "reply_phase g (gs_io g) rx tx"
    by (rule glue_invE [OF i])
  have d: "map req_out (drop (shown g) (gs_issued g)) = map req_out pend"
    using arg_cong [OF q(2), of "drop (shown g)"] by (simp add: shown_def drop_map)
  have f: "length (filter is_rd xs) = length (filter (\<lambda>u. po_data u = None) (map req_out xs))" for xs
    by (simp add: filter_map comp_def flip: is_rd_out)
  have "length (reads g) = length (filter is_rd (take (shown g) (gs_issued g))) + length (filter is_rd pend)"
    unfolding reads_def length_map
    by (subst append_take_drop_id [of "shown g" "gs_issued g", symmetric], subst filter_append)
      (simp add: f [of pend] f [of "drop _ _"] d)
  then have r: "length (gs_replies g) + length (filter is_rd pend) < length (reads g)" using l by simp
  then obtain n data sz where io: "gs_io g = Io_wait n data sz" using q(3) by (cases "gs_io g") simp_all
  have nr: "n \<notin> set rx"
  proof
    assume "n \<in> set rx"
    then obtain k where k: "k < length rx" "rx ! k = n" by (auto simp: in_set_conv_nth)
    then have "rx_node (g_heap (gs_c g)) (Some n) n (pend ! k)" "k < length pend"
      using list_all2_nthD [OF queues_rep(4) [OF q(1)], of k] list_all2_lengthD [OF queues_rep(4) [OF q(1)]] io by auto
    then have "pend ! k \<in> set (filter is_rd pend)" by (simp add: rx_node_def)
    then have "0 < length (filter is_rd pend)" by (rule length_pos_if_in_set)
    moreover have "length (reads g) \<le> Suc (length (gs_replies g))" using q(3) io by auto
    ultimately show False using r by linarith
  qed
  then show ?thesis using q(3) io r by auto
qed

lemma sim_reply_ok:
  assumes i: "glue_inv g"
    and l: "length (gs_replies g) < length (filter is_rd (take (shown g) (gs_issued g)))"
  obtains c where "sim_reply x g = Some (g\<lparr>gs_c := c, gs_replies := gs_replies g @ [x]\<rparr>)"
    and "glue_inv (g\<lparr>gs_c := c, gs_replies := gs_replies g @ [x]\<rparr>)"
proof -
  show ?thesis using reply_step_ok [OF i uint_logic [of x]] reply_accepted [OF assms] that
    by (auto simp: sim_reply_def)
qed

lemma sim_poll_request:
  assumes i: "glue_inv g" and n: "shown g < length (gs_issued g)"
  obtains c where "sim_poll g = Some (req_out (gs_issued g ! shown g),
      g\<lparr>gs_c := c, gs_polled := gs_polled g @ [req_out (gs_issued g ! shown g)]\<rparr>)"
    and "glue_inv (g\<lparr>gs_c := c, gs_polled := gs_polled g @ [req_out (gs_issued g ! shown g)]\<rparr>)"
proof -
  let ?h = "f_head (g_rx (gs_c g)) = None"
  obtain out c where p: "pcie_glue_poll_rx_fifo (gs_c g) = Some (out, c)"
    "glue_inv (g\<lparr>gs_c := c, gs_polled := gs_polled g @ (if ?h then [] else [out])\<rparr>)"
    using poll_step_ok [OF i] by blast
  obtain rx pend tx ms where q: "queues_inv (gs_c g) (wait_node (gs_io g)) rx pend tx ms"
    "map req_out (gs_issued g) = gs_polled g @ map req_out pend"
    by (rule glue_invE [OF i])
  have "pend \<noteq> []" using arg_cong [OF q(2), of length] n by (auto simp: shown_def)
  then have h: "\<not> ?h" using queues_rep(1,4) [OF q(1)] by (cases rx) (auto simp: fifo_rep_def)
  have "gs_polled g @ [out] = map req_out (take (Suc (shown g)) (gs_issued g))"
    using polled_shown(2) [OF p(2)] h by (simp add: shown_def)
  then have "out = req_out (gs_issued g ! shown g)" using n by (simp add: take_Suc_conv_app_nth)
  then show ?thesis using that [of c] p h by (simp add: sim_poll_def)
qed

lemma sim_poll_nothing:
  assumes i: "glue_inv g" and n: "shown g = length (gs_issued g)"
  obtains c out where "sim_poll g = Some (poll_empty out, g\<lparr>gs_c := c\<rparr>)" and "po_addr out = None"
    and "glue_inv (g\<lparr>gs_c := c\<rparr>)"
proof -
  let ?h = "f_head (g_rx (gs_c g)) = None"
  obtain rx pend tx ms where q: "queues_inv (gs_c g) (wait_node (gs_io g)) rx pend tx ms"
    "map req_out (gs_issued g) = gs_polled g @ map req_out pend"
    by (rule glue_invE [OF i])
  have "pend = []" using arg_cong [OF q(2), of length] n by (simp add: shown_def)
  then have rx: "rx = []" using queues_rep(4) [OF q(1)] by simp
  note e = poll_none [OF q(1) [unfolded rx]]
  have "fifo_pop_node (g_heap (gs_c g), g_rx (gs_c g)) = Some (None, g_heap (gs_c g), g_rx (gs_c g))"
    using queues_rep(1) [OF q(1)] unfolding rx by (rule fq.pop_empty)
  then have "sim_poll g = Some (poll_empty \<lparr>po_is_read = None, po_bar = None, po_addr = None, po_data = None, po_size = None\<rparr>,
      g\<lparr>gs_c := gs_c g\<rparr>)"
    using e(2) by (simp add: sim_poll_def pcie_glue_poll_rx_fifo_def)
  then show ?thesis by (rule that) (simp_all add: i)
qed

section \<open>The endpoint polls\<close>

lemma out_logic: "out_var (Some (uint_to_logic (x :: 'a::len word))) y = Some x"
  by (simp add: out_var_def uint_logic)

lemma small_size: "n \<le> 8 \<Longrightarrow> (of_nat n :: u16) = 0 \<longleftrightarrow> n = 0"
  by (auto simp: word_of_nat_eq_0_iff dest: dvd_imp_le)

lemma low_bits: "(ucast (ucast (x :: u32) :: byte) :: 3 word) = ucast x"
  by (rule bit_word_eqI) (auto simp: bit_ucast_iff)

lemma endpoint_poll_request:
  assumes i: "glue_inv g" and n: "shown g < length (gs_issued g)" and w: "\<not> ep_wait ep"
    and r: "r = gs_issued g ! shown g" "rd_size r \<le> 8"
  obtains c ep' where "endpoint_poll ep g = Some (ep', g\<lparr>gs_c := c, gs_polled := gs_polled g @ [req_out r]\<rparr>)"
    and "glue_inv (g\<lparr>gs_c := c, gs_polled := gs_polled g @ [req_out r]\<rparr>)"
    and "\<And>q. \<not> rq_en q \<Longrightarrow> \<not> rq_wr q \<Longrightarrow> asks r (drive ep' q)"
proof -
  obtain c where c: "sim_poll g = Some (req_out r, g\<lparr>gs_c := c, gs_polled := gs_polled g @ [req_out r]\<rparr>)"
    "glue_inv (g\<lparr>gs_c := c, gs_polled := gs_polled g @ [req_out r]\<rparr>)"
    using sim_poll_request [OF i n, folded r(1)] by blast
  have "\<exists>ep'. endpoint_poll ep g = Some (ep', g\<lparr>gs_c := c, gs_polled := gs_polled g @ [req_out r]\<rparr>) \<and>
      (\<forall>q. \<not> rq_en q \<longrightarrow> \<not> rq_wr q \<longrightarrow> asks r (drive ep' q))"
  proof (cases r)
    case (Rd bar addr sz)
    then show ?thesis
      using c(1) w r(2) small_size [of sz]
      by (simp add: endpoint_poll_def out_logic Let_def) (simp add: drive_def out_var_def low_bits)
  next
    case (Wr bar addr d)
    then show ?thesis
      using c(1) w r(2) small_size [of "length d"]
      by (simp add: endpoint_poll_def out_logic Let_def) (simp add: drive_def out_var_def low_bits)
  qed
  then show ?thesis using that c(2) by blast
qed

lemma endpoint_poll_nothing:
  assumes i: "glue_inv g" and n: "shown g = length (gs_issued g)" and w: "\<not> ep_wait ep"
  obtains c ep' where "endpoint_poll ep g = Some (ep', g\<lparr>gs_c := c\<rparr>)"
    and "glue_inv (g\<lparr>gs_c := c\<rparr>)" and "\<And>q. drive ep' q = q"
proof -
  obtain c out where c: "sim_poll g = Some (poll_empty out, g\<lparr>gs_c := c\<rparr>)" "po_addr out = None"
    "glue_inv (g\<lparr>gs_c := c\<rparr>)"
    by (rule sim_poll_nothing [OF i n])
  then show ?thesis
    using w that by (simp add: endpoint_poll_def poll_empty_def out_logic Let_def) (simp add: drive_def out_var_def)
qed

text \<open>The host makes requests of at most eight bytes.\<close>

definition small :: "glue_sys \<Rightarrow> bool" where
  "small g \<longleftrightarrow> (\<forall>r\<in>set (gs_issued g). rd_size r \<le> 8)"

fun on_signals :: "bar_req list \<Rightarrow> sb_req \<Rightarrow> bool" where
  "on_signals [] q \<longleftrightarrow> \<not> rq_en q"
| "on_signals [r] q \<longleftrightarrow> asks r q"
| "on_signals _ q \<longleftrightarrow> False"

lemma ep_ack: "ep_wait (ep\<lparr>ep_wait := False\<rparr>) = False"
  by simp

text \<open>What the variables of the process hold: the signals it drives from them show the request.\<close>

definition holds :: "bar_req list \<Rightarrow> endpoint \<Rightarrow> bool" where
  "holds cur ep \<longleftrightarrow> (\<forall>q. \<not> rq_en q \<longrightarrow> \<not> rq_wr q \<longrightarrow> on_signals cur (drive ep q))"

lemma holdsD: "holds cur ep \<Longrightarrow> \<not> rq_en q \<Longrightarrow> \<not> rq_wr q \<Longrightarrow> on_signals cur (drive ep q)"
  by (simp add: holds_def)

text \<open>The poll of an edge takes the next request if there is one.\<close>

lemma endpoint_poll_ok:
  assumes i: "glue_inv g" and z: "small g" and w: "\<not> ep_wait ep"
  obtains ep' c out cur where "endpoint_poll ep g = Some (ep', g\<lparr>gs_c := c, gs_polled := gs_polled g @ out\<rparr>)"
    and "glue_inv (g\<lparr>gs_c := c, gs_polled := gs_polled g @ out\<rparr>)" and "holds cur ep'"
    and "take (shown g + length out) (gs_issued g) = take (shown g) (gs_issued g) @ cur"
    and "shown g + length out = min (Suc (shown g)) (length (gs_issued g))"
proof (cases "shown g < length (gs_issued g)")
  case True
  let ?r = "gs_issued g ! shown g"
  have "rd_size ?r \<le> 8" using z True by (simp add: small_def)
  from endpoint_poll_request [OF i True w refl this] obtain c ep' where
    c: "endpoint_poll ep g = Some (ep', g\<lparr>gs_c := c, gs_polled := gs_polled g @ [req_out ?r]\<rparr>)"
    "glue_inv (g\<lparr>gs_c := c, gs_polled := gs_polled g @ [req_out ?r]\<rparr>)"
    "\<And>q. \<not> rq_en q \<Longrightarrow> \<not> rq_wr q \<Longrightarrow> asks ?r (drive ep' q)" by blast
  show ?thesis
    by (rule that [OF c(1,2), of "[?r]"]) (use True c(3) in \<open>simp_all add: holds_def take_Suc_conv_app_nth\<close>)
next
  case False
  then have n: "shown g = length (gs_issued g)" using polled_shown(1) [OF i] by simp
  from endpoint_poll_nothing [OF i n w] obtain c ep' where c: "endpoint_poll ep g = Some (ep', g\<lparr>gs_c := c\<rparr>)"
    "glue_inv (g\<lparr>gs_c := c\<rparr>)" "\<And>q. drive ep' q = q" by blast
  have "holds [] ep'" by (simp add: holds_def c(3))
  show ?thesis by (rule that [where ep' = ep' and c = c and out = "[]" and cur = "[]"]) (use c n \<open>holds [] ep'\<close> in simp_all)
qed

section \<open>An edge in any state\<close>

lemma sim_write_ok:
  assumes i: "glue_inv g" and a: "g_heap (gs_c g) a = None"
  obtains c where "sim_write a j addr data (1024 div 8) sz g = Some (g\<lparr>gs_c := c\<rparr>)" and "glue_inv (g\<lparr>gs_c := c\<rparr>)"
proof -
  have "64 \<le> length (uint_to_logic addr)" "8 * unat (1024 div 8 :: u16) \<le> length (uint_to_logic data)" by simp_all
  then obtain c where c: "pcie_glue_send_write a j (uint_to_logic addr) (uint_to_logic data)
      (uint_to_logic (1024 div 8 :: u16)) (uint_to_logic sz) (gs_c g) = Some c"
    using send_write_defined [OF i a _ uint_logic, of _ "1024 div 8" "uint_to_logic data" j "uint_to_logic sz"] by blast
  show ?thesis
    by (rule that [of c]) (simp_all only: sim_write_def c send_write_step_ok [OF i a c] bind.bind_lunit)
qed

lemma sim_reply_any:
  assumes i: "glue_inv g"
  obtains c rs where "sim_reply x g = Some (g\<lparr>gs_c := c, gs_replies := gs_replies g @ rs\<rparr>)"
    and "glue_inv (g\<lparr>gs_c := c, gs_replies := gs_replies g @ rs\<rparr>)" and "set rs \<subseteq> {x}"
proof -
  obtain c where "pcie_glue_send_reply (uint_to_logic x) (gs_c g) = Some c"
    "glue_inv (g\<lparr>gs_c := c, gs_replies := gs_replies g @ (if g_reply (gs_c g) = None then [] else [x])\<rparr>)"
    using reply_step_ok [OF i uint_logic] by blast
  then show ?thesis by (intro that [where c = c and rs = "if g_reply (gs_c g) = None then [] else [x]"]) (simp_all add: sim_reply_def)
qed

text \<open>What the endpoint does before it polls leaves the requests alone.\<close>

definition same_queue :: "glue_sys \<Rightarrow> glue_sys \<Rightarrow> bool" where
  "same_queue g g' \<longleftrightarrow> gs_io g' = gs_io g \<and> gs_issued g' = gs_issued g \<and> gs_polled g' = gs_polled g"

definition endpoint_outs :: "nat \<times> net_msg \<Rightarrow> nat \<times> net_msg \<Rightarrow> ep_in \<Rightarrow> glue_sys \<Rightarrow> glue_sys option" where
  "endpoint_outs = (\<lambda>(a, j) (b, k) i g. do {
     g \<leftarrow> (if in_msi i then sim_msi a j g else Some g);
     g \<leftarrow> (if in_mwr i then sim_write b k (in_mwr_addr i) (in_mwr_data i) (1024 div 8) (in_mwr_size i) g else Some g);
     if fst (in_rep i) then sim_reply (snd (in_rep i)) g else Some g })"

definition endpoint_rest :: "bool \<Rightarrow> endpoint \<Rightarrow> glue_sys \<Rightarrow> (endpoint \<times> glue_sys) option" where
  "endpoint_rest ack ep g = do {
     let req = (ep_req ep)\<lparr>rq_en := False, rq_wr := False, rq_bar := 0, rq_addr := 0\<rparr>;
     let ep = (if ack then ep\<lparr>ep_wait := False\<rparr> else ep);
     (ep, g) \<leftarrow> (if \<not> ep_wait ep then endpoint_poll ep g else Some (ep, g));
     Some (ep\<lparr>ep_req := drive ep req\<rparr>, g) }"

lemma endpoint_split: "endpoint_clk m m' i ep g = do { g \<leftarrow> endpoint_outs m m' i g; endpoint_rest (in_ack i) ep g }"
  by (cases m, cases m') (simp only: endpoint_clk_def endpoint_outs_def endpoint_rest_def prod.case Let_def bind_assoc)

lemma endpoint_before:
  assumes i: "glue_inv g" and a: "g_heap (gs_c g) a = None" "g_heap (gs_c g) b = None" and x: "\<not> (in_msi i \<and> in_mwr i)"
  obtains g' rs where "glue_inv g'" and "same_queue g g'" and "gs_replies g' = gs_replies g @ rs"
    and "set rs \<subseteq> (if fst (in_rep i) then {snd (in_rep i)} else {})"
    and "endpoint_outs (a, j) (b, k) i g = Some g'"
proof -
  obtain c1 where c1: "(if in_msi i then sim_msi a j g else Some g) = Some (g\<lparr>gs_c := c1\<rparr>)" "glue_inv (g\<lparr>gs_c := c1\<rparr>)"
    "\<not> in_msi i \<Longrightarrow> c1 = gs_c g"
  proof (cases "in_msi i")
    case True
    then show ?thesis using that sim_msi_ok [OF i a(1), of j] by (metis (full_types))
  next
    case False
    then show ?thesis using that [of "gs_c g"] i by simp
  qed
  let ?g1 = "g\<lparr>gs_c := c1\<rparr>"
  obtain c2 where c2: "(if in_mwr i then sim_write b k (in_mwr_addr i) (in_mwr_data i) (1024 div 8) (in_mwr_size i) ?g1 else Some ?g1)
     = Some (?g1\<lparr>gs_c := c2\<rparr>)" "glue_inv (?g1\<lparr>gs_c := c2\<rparr>)"
  proof (cases "in_mwr i")
    case True
    then have "g_heap (gs_c ?g1) b = None" using x c1(3) a(2) by simp
    then show ?thesis using that True sim_write_ok [OF c1(2)] by (metis (full_types))
  next
    case False
    then show ?thesis using that [of c1] c1(2) by simp
  qed
  let ?g2 = "?g1\<lparr>gs_c := c2\<rparr>"
  obtain c3 rs where c3: "(if fst (in_rep i) then sim_reply (snd (in_rep i)) ?g2 else Some ?g2) =
      Some (?g2\<lparr>gs_c := c3, gs_replies := gs_replies ?g2 @ rs\<rparr>)"
    "glue_inv (?g2\<lparr>gs_c := c3, gs_replies := gs_replies ?g2 @ rs\<rparr>)" "set rs \<subseteq> (if fst (in_rep i) then {snd (in_rep i)} else {})"
  proof (cases "fst (in_rep i)")
    case True
    obtain c rs where "sim_reply (snd (in_rep i)) ?g2 = Some (?g2\<lparr>gs_c := c, gs_replies := gs_replies ?g2 @ rs\<rparr>)"
      "glue_inv (?g2\<lparr>gs_c := c, gs_replies := gs_replies ?g2 @ rs\<rparr>)" "set rs \<subseteq> {snd (in_rep i)}"
      by (rule sim_reply_any [OF c2(2)])
    then show ?thesis using that [where ?c3.0 = c and ?rs = rs] True by (simp only: if_True)
  next
    case False
    then show ?thesis using that [where ?c3.0 = c2 and ?rs = "[]"] c2(2) by simp
  qed
  have o: "endpoint_outs (a, j) (b, k) i g = Some (?g2\<lparr>gs_c := c3, gs_replies := gs_replies ?g2 @ rs\<rparr>)"
    by (simp only: endpoint_outs_def prod.case c1(1) c2(1) c3(1) bind.bind_lunit)
  show ?thesis by (rule that [OF c3(2) _ _ c3(3) o]) (simp_all add: same_queue_def)
qed

lemma endpoint_rest_ok:
  assumes "glue_inv g" and "small g"
  obtains ep' g' where "endpoint_rest ack ep g = Some (ep', g')" and "glue_inv g'" and "gs_issued g' = gs_issued g"
proof -
  obtain ep1 where ep1: "ep1 = (if ack then ep\<lparr>ep_wait := False\<rparr> else ep)" by blast
  obtain ep2 g' where p: "(if \<not> ep_wait ep1 then endpoint_poll ep1 g else Some (ep1, g)) = Some (ep2, g')"
    "glue_inv g'" "gs_issued g' = gs_issued g"
  proof (cases "ep_wait ep1")
    case False
    from endpoint_poll_ok [OF assms False] obtain ep2 c out where
      "endpoint_poll ep1 g = Some (ep2, g\<lparr>gs_c := c, gs_polled := gs_polled g @ out\<rparr>)"
      "glue_inv (g\<lparr>gs_c := c, gs_polled := gs_polled g @ out\<rparr>)" by blast
    then show ?thesis using that False by simp
  next
    case True
    then show ?thesis using that assms by simp
  qed
  show ?thesis
    by (rule that [OF _ p(2,3)]) (simp only: endpoint_rest_def Let_def ep1 [symmetric] p(1) bind.bind_lunit prod.case)
qed

lemma drive_en: "\<not> rq_en q \<Longrightarrow> rq_en (drive ep q) \<longleftrightarrow> ep_wait ep"
  by (simp add: drive_def Let_def)

lemma drive_req: "drive (ep\<lparr>ep_req := q\<rparr>) = drive ep"
  by (rule ext) (simp add: drive_def Let_def)

lemma holds_req: "holds cur (ep\<lparr>ep_req := q\<rparr>) = holds cur ep"
  by (simp add: holds_def drive_req)

section \<open>Steps of the network thread\<close>

lemma net_glue: "net_step g g' \<Longrightarrow> glue_step g g'"
  by (cases rule: net_step.cases, assumption) (blast intro: glue_step.intros)+

lemma net_keeps:
  "net_step g g' \<Longrightarrow> gs_polled g' = gs_polled g \<and> gs_replies g' = gs_replies g \<and>
     (\<exists>rs. gs_issued g' = gs_issued g @ rs \<and> (\<forall>r\<in>set rs. rd_size r \<le> 8))"
  by (cases rule: net_step.cases, assumption) auto

lemma fresh_exists:
  assumes "glue_inv g"
  obtains a where "g_heap (gs_c g) a = None"
proof -
  obtain rx tx pend ms where "queues_inv (gs_c g) (wait_node (gs_io g)) rx pend tx ms"
    by (rule glue_invE [OF assms])
  then have "dom (g_heap (gs_c g)) = set rx \<union> set tx \<union> set_option (wait_node (gs_io g))" by (simp add: queues_inv_def)
  then have "finite (dom (g_heap (gs_c g)))" by simp
  then obtain a where "a \<notin> dom (g_heap (gs_c g))" using ex_new_if_finite infinite_UNIV_nat by metis
  then show ?thesis using that by blast
qed

section \<open>An example of two requests\<close>

text \<open>The host writes a byte to an address of BAR 1, and then reads four from another.\<close>

definition ep_zero :: endpoint where
  "ep_zero = \<lparr>ep_wait = False, ep_is_read = 0, ep_bar = 0, ep_addr = 0, ep_data = 0, ep_size = 0, ep_req = sb_idle\<rparr>"

lemma host_example:
  obtains c g n where "thread_init (\<lambda>_. None) (\<lambda>_. 0) (5, 6) env_zero 0 glue_zero = Some c"
    and "rtranclp net_step (glue_start c) g" and "gs_io g = Io_wait n (replicate 8 0) 4"
    and "gs_issued g = [Wr 1 addr [x], Rd 1 addr' 4]" and "shown g = 0"
proof -
  obtain c where c: "thread_init (\<lambda>_. None) (\<lambda>_. 0) (5, 6) env_zero 0 glue_zero = Some c" by (rule start_example)
  have i0: "glue_inv (glue_start c)" by (rule start_inv [OF c]) (simp add: glue_zero_def)
  obtain a where a: "g_heap c a = None" using fresh_exists [OF i0] by (auto simp: glue_start_def)
  obtain c1 where c1: "on_bar_write a [] 1 addr [x] 1 c = Some c1"
    using bar_write_ok [OF i0, of a 1 "[x]" "[]" 1 addr] a by (auto simp: glue_start_def)
  let ?g = "(glue_start c)\<lparr>gs_c := c1, gs_issued := gs_issued (glue_start c) @ [Wr 1 addr (take 1 [x])]\<rparr>"
  have n1: "net_step (glue_start c) ?g"
    by (rule net_step.bar_write) (use a c1 in \<open>simp_all add: glue_start_def\<close>)
  have i1: "glue_inv ?g" by (rule glue_step_inv [OF net_glue [OF n1] i0])
  obtain b where b: "g_heap c1 b = None" using fresh_exists [OF i1] by (auto simp: glue_start_def)
  obtain c2 where c2: "on_bar_read_start b [] 1 addr' (replicate 8 0) 4 c1 = Some c2"
    using read_start_ok [OF i1, of b 4 "replicate 8 0" "[]" 1 addr'] b by (auto simp: glue_start_def)
  let ?g' = "?g\<lparr>gs_c := c2, gs_io := Io_wait b (replicate 8 0) 4, gs_issued := gs_issued ?g @ [Rd 1 addr' 4]\<rparr>"
  have "net_step ?g ?g'"
    by (rule net_step.read_start [where junk = "[]"]) (use b c2 in \<open>simp_all add: glue_start_def\<close>)
  then have r: "rtranclp net_step (glue_start c) ?g'" using n1 by (meson r_into_rtranclp rtranclp.rtrancl_into_rtrancl)
  show ?thesis by (rule that [OF c r, of b]) (simp_all add: glue_start_def shown_def)
qed

end
