(* ===== verification/Vhdl_Sbone.thy ===== *)
theory Vhdl_Sbone
  imports Vhdl_Endpoint
begin

text \<open>
  The SBONE device as it is simulated: the endpoint (\<open>Vhdl_Endpoint\<close>) wired to the registers of
  \<open>src/src/sbone/d\<close> (\<open>Sbone_System\<close>) as in \<open>main.vhdl\<close>, with the network thread running beside it.
  The state begins after the reset.
\<close>

section \<open>The device and the network thread\<close>

text \<open>\<open>vs_msis\<close> counts the interrupts the endpoint has sent.\<close>

record vsys =
  vs_g :: glue_sys
  vs_ep :: endpoint
  vs_hw :: sb_hw
  vs_msis :: nat

definition vsys_in :: "sb_hw \<Rightarrow> ep_in" where
  "vsys_in h = \<lparr>in_ack = True, in_rep = hw_rep h, in_mwr = False, in_mwr_addr = 0, in_mwr_data = 0,
     in_mwr_size = 0, in_msi = snd (hw_msi h)\<rparr>"

text \<open>An edge: the endpoint sees the registers and they see its signals as they were before.\<close>

definition vsys_clk :: "nat \<times> net_msg \<Rightarrow> nat \<times> net_msg \<Rightarrow> vsys \<Rightarrow> vsys option" where
  "vsys_clk m m' s = do {
     (ep, g) \<leftarrow> endpoint_clk m m' (vsys_in (vs_hw s)) (vs_ep s) (vs_g s);
     Some (s\<lparr>vs_g := g, vs_ep := ep, vs_hw := sb_clk (ep_req (vs_ep s)) (vs_hw s),
       vs_msis := vs_msis s + (if snd (hw_msi (vs_hw s)) then 1 else 0)\<rparr>)
   }"

inductive vsys_step :: "vsys \<Rightarrow> vsys \<Rightarrow> bool" where
  net: "net_step (vs_g s) g \<Longrightarrow> vsys_step s (s\<lparr>vs_g := g\<rparr>)"
| clk: "g_heap (gs_c (vs_g s)) a = None \<Longrightarrow> vsys_clk (a, j) m s = Some s' \<Longrightarrow> vsys_step s s'"

text \<open>After the reset the registers are zero and nothing is asserted.\<close>

definition hw_reset :: "sb_hw \<Rightarrow> bool" where
  "hw_reset h \<longleftrightarrow> hw_wo0 h = 0 \<and> hw_wo1 h = 0 \<and> rw_data (hw_rw0 h) = 0 \<and> rw_data (hw_rw1 h) = 0 \<and>
     \<not> rw_rep_en (hw_rw0 h) \<and> \<not> rw_rep_en (hw_rw1 h) \<and> \<not> fst (hw_rep h) \<and> hw_msi h = (0, False)"

inductive vsys_reach :: "vsys \<Rightarrow> bool" where
  start: "\<lbrakk>thread_init env strtoul16 fds e self c0 = Some c; g_heap c0 = Map.empty;
      hw_reset h; \<not> ep_wait ep; \<not> rq_en (ep_req ep)\<rbrakk> \<Longrightarrow>
    vsys_reach \<lparr>vs_g = glue_start c, vs_ep = ep, vs_hw = h, vs_msis = 0\<rparr>"
| step: "\<lbrakk>vsys_reach s; vsys_step s s'\<rbrakk> \<Longrightarrow> vsys_reach s'"

section \<open>What the host sees: one request after the other\<close>

text \<open>
  The registers as a pair of numbers. A write of fewer than eight bytes clears the others.
\<close>

fun written :: "bar_req \<Rightarrow> u64 \<Rightarrow> u64 \<Rightarrow> u64" where
  "written (Rd bar addr sz) a x = x"
| "written (Wr bar addr d) a x = (if hits (Wr bar addr d) a then of_le d else x)"

definition regs_after :: "bar_req \<Rightarrow> u64 \<times> u64 \<Rightarrow> u64 \<times> u64" where
  "regs_after r = (\<lambda>(x, y). (written r 0x10 x, written r 0x18 y))"

definition reply_of :: "bar_req \<Rightarrow> u64 \<times> u64 \<Rightarrow> u64 list" where
  "reply_of r = (\<lambda>(x, y). if is_rd r \<and> hits r 0x10 then [x] else if is_rd r \<and> hits r 0x18 then [y] else [])"

primrec served :: "bar_req list \<Rightarrow> u64 \<times> u64 \<Rightarrow> u64 list" where
  "served [] q = []"
| "served (r # rs) q = reply_of r q @ served rs (regs_after r q)"

definition raises :: "bar_req \<Rightarrow> bool" where
  "raises r \<longleftrightarrow> \<not> is_rd r \<and> hits r 0x20"

lemma served_append: "served (xs @ ys) q = served xs q @ served ys (fold regs_after xs q)"
  by (induction xs arbitrary: q) simp_all

lemma reply_of_read: "length (reply_of r q) \<le> (if is_rd r then 1 else 0)"
  by (auto simp: reply_of_def split: prod.splits)

lemma served_reads: "length (served rs q) \<le> length (filter is_rd rs)"
proof (induction rs arbitrary: q)
  case (Cons r rs)
  have "length (served rs (regs_after r q)) \<le> length (filter is_rd rs)" by (rule Cons.IH)
  then show ?case using reply_of_read [of r q] by (cases "is_rd r") simp_all
qed simp

lemma served_no_reads: "filter is_rd rs = [] \<Longrightarrow> served rs q = []"
  using served_reads [of rs q] by simp

section \<open>The registers\<close>

definition regs :: "sb_hw \<Rightarrow> u64 \<times> u64" where
  "regs h = (rw_data (hw_rw0 h), rw_data (hw_rw1 h))"

definition rw_reply :: "sb_rw \<Rightarrow> u64 list" where
  "rw_reply w = (if rw_rep_en w then [rw_rep_data w] else [])"

definition mux_reply :: "sb_hw \<Rightarrow> u64 list" where
  "mux_reply h = (if fst (hw_rep h) then [snd (hw_rep h)] else [])"

definition one_reply :: "sb_hw \<Rightarrow> bool" where
  "one_reply h \<longleftrightarrow> \<not> (rw_rep_en (hw_rw0 h) \<and> rw_rep_en (hw_rw1 h))"

definition rw_replies :: "sb_hw \<Rightarrow> u64 list" where
  "rw_replies h = rw_reply (hw_rw0 h) @ rw_reply (hw_rw1 h)"

lemmas hw_defs = sb_clk_def reg_rw_def reg_wo_msi_def rep_mux_def bar_addr_cmp_def regs_def rw_reply_def
  mux_reply_def one_reply_def rw_replies_def Let_def

lemma mux_step: "one_reply h \<Longrightarrow> mux_reply (sb_clk q h) = rw_replies h"
  by (auto simp: hw_defs)

lemma not_written: "is_rd r \<or> rd_size r = 0 \<Longrightarrow> written r a x = x"
  by (cases r) simp_all

lemma reg_rw_asks:
  assumes "asks r q"
  shows "rw_data (reg_rw 1 a q w) = written r a (rw_data w)"
    and "rw_reply (reg_rw 1 a q w) = (if is_rd r \<and> hits r a then [rw_data w] else [])"
    and "snd (reg_wo_msi 1 a q d) \<longleftrightarrow> \<not> is_rd r \<and> hits r a"
  using assms
  by (cases rule: asks_cases;
      simp add: reg_rw_def rw_reply_def reg_wo_msi_def Let_def no_hit not_written del: hits.simps)+

lemma regs_step:
  assumes "asks r q"
  shows "regs (sb_clk q h) = regs_after r (regs h)" "rw_replies (sb_clk q h) = reply_of r (regs h)"
    "snd (hw_msi (sb_clk q h)) = raises r"
proof -
  have "\<not> (hits r 0x10 \<and> hits r 0x18)" by (cases r) auto
  then show "rw_replies (sb_clk q h) = reply_of r (regs h)"
    by (auto simp: rw_replies_def sb_clk_def reply_of_def regs_def reg_rw_asks [OF assms])
qed (simp_all add: sb_clk_def regs_def regs_after_def raises_def reg_rw_asks [OF assms])

lemma regs_idle:
  assumes "\<not> rq_en q"
  shows "regs (sb_clk q h) = regs h" "rw_replies (sb_clk q h) = []" "\<not> snd (hw_msi (sb_clk q h))"
  using assms by (simp_all add: hw_defs)

lemma one_step: "one_reply (sb_clk q h)"
  by (auto simp: hw_defs)

section \<open>The pipeline\<close>

text \<open>
  Of the requests shown, all but the one on the signals have reached the registers; the replies
  they made have been accepted, or wait in the multiplexer, or in a register.
\<close>

text \<open>A read that waits is the last request, and the earlier reads were answered.\<close>

fun waits :: "io_state \<Rightarrow> bar_req list \<Rightarrow> bool" where
  "waits Io_idle rs \<longleftrightarrow> True"
| "waits (Io_wait n data sz) rs \<longleftrightarrow> (\<exists>pre bar addr. rs = pre @ [Rd bar addr sz] \<and>
     length (served pre (0, 0)) = length (filter is_rd pre))"

definition pipe_at :: "vsys \<Rightarrow> bar_req list \<Rightarrow> bar_req list \<Rightarrow> bool" where
  "pipe_at s dn cur \<longleftrightarrow> take (shown (vs_g s)) (gs_issued (vs_g s)) = dn @ cur \<and>
     on_signals cur (ep_req (vs_ep s)) \<and> regs (vs_hw s) = fold regs_after dn (0, 0) \<and> one_reply (vs_hw s) \<and>
     served dn (0, 0) = gs_replies (vs_g s) @ mux_reply (vs_hw s) @ rw_replies (vs_hw s) \<and>
     vs_msis s + (if snd (hw_msi (vs_hw s)) then 1 else 0) = length (filter raises dn)"

definition vs_inv :: "vsys \<Rightarrow> bool" where
  "vs_inv s \<longleftrightarrow> glue_inv (vs_g s) \<and> small (vs_g s) \<and> waits (gs_io (vs_g s)) (gs_issued (vs_g s)) \<and>
     (\<exists>dn cur. pipe_at s dn cur)"

lemma vs_invI:
  "glue_inv (vs_g s) \<Longrightarrow> small (vs_g s) \<Longrightarrow> waits (gs_io (vs_g s)) (gs_issued (vs_g s)) \<Longrightarrow> pipe_at s dn cur \<Longrightarrow>
     vs_inv s"
  by (auto simp: vs_inv_def)

lemma vsys_in_fields: "in_ack (vsys_in h) = True" "in_rep (vsys_in h) = hw_rep h" "in_mwr (vsys_in h) = False"
  "in_msi (vsys_in h) = snd (hw_msi h)"
  by (simp_all add: vsys_in_def)

text \<open>An edge, seen from the glue: what the endpoint does before it polls.\<close>

lemma clk_reply:
  assumes i: "glue_inv g" and a: "g_heap (gs_c g) a = None"
    and l: "mux_reply h \<noteq> [] \<Longrightarrow> length (gs_replies g) < length (filter is_rd (take (shown g) (gs_issued g)))"
  obtains c where "glue_inv (g\<lparr>gs_c := c, gs_replies := gs_replies g @ mux_reply h\<rparr>)"
    and "\<And>ep. endpoint_clk (a, j) m (vsys_in h) ep g = (do {
       (ep', g) \<leftarrow> endpoint_poll (ep\<lparr>ep_wait := False\<rparr>) (g\<lparr>gs_c := c, gs_replies := gs_replies g @ mux_reply h\<rparr>);
       Some (ep'\<lparr>ep_req := drive ep' ((ep_req ep)\<lparr>rq_en := False, rq_wr := False, rq_bar := 0, rq_addr := 0\<rparr>)\<rparr>, g) })"
proof -
  obtain c1 where c1: "(if snd (hw_msi h) then sim_msi a j g else Some g) = Some (g\<lparr>gs_c := c1\<rparr>)" "glue_inv (g\<lparr>gs_c := c1\<rparr>)"
  proof (cases "snd (hw_msi h)")
    case True
    then show ?thesis using that sim_msi_ok [OF i a, of j] by (metis (full_types))
  next
    case False
    then show ?thesis using that [of "gs_c g"] i by simp
  qed
  let ?g1 = "g\<lparr>gs_c := c1\<rparr>"
  obtain c2 where c2: "(if fst (hw_rep h) then sim_reply (snd (hw_rep h)) ?g1 else Some ?g1) =
      Some (g\<lparr>gs_c := c2, gs_replies := gs_replies g @ mux_reply h\<rparr>)"
    "glue_inv (g\<lparr>gs_c := c2, gs_replies := gs_replies g @ mux_reply h\<rparr>)"
  proof (cases "fst (hw_rep h)")
    case True
    then have m: "mux_reply h = [snd (hw_rep h)]" by (simp add: mux_reply_def)
    then have "length (gs_replies ?g1) < length (filter is_rd (take (shown ?g1) (gs_issued ?g1)))"
      using l by (simp add: shown_def)
    from sim_reply_ok [OF c1(2) this, of "snd (hw_rep h)"] obtain c where
      "sim_reply (snd (hw_rep h)) ?g1 = Some (?g1\<lparr>gs_c := c, gs_replies := gs_replies ?g1 @ [snd (hw_rep h)]\<rparr>)"
      "glue_inv (?g1\<lparr>gs_c := c, gs_replies := gs_replies ?g1 @ [snd (hw_rep h)]\<rparr>)" by blast
    then show ?thesis using that [of c] True m by simp
  next
    case False
    then show ?thesis using that [of c1] c1(2) by (simp add: mux_reply_def)
  qed
  show ?thesis
    by (rule that [OF c2(2)], cases m)
      (simp only: endpoint_clk_def vsys_in_fields prod.case Let_def c1(1) c2(1) bind.bind_lunit if_True if_False
        endpoint.simps simp_thms ep_ack)
qed

text \<open>The registers take the request on the signals.\<close>

lemma hw_cur:
  assumes "on_signals cur q"
  shows "regs (sb_clk q h) = fold regs_after cur (regs h)" "rw_replies (sb_clk q h) = served cur (regs h)"
    "(if snd (hw_msi (sb_clk q h)) then 1 else 0) = length (filter raises cur)"
  using assms by (cases "(cur, q)" rule: on_signals.cases; simp add: regs_step regs_idle)+

lemma clk_pipe:
  assumes v: "vs_inv s" and p: "pipe_at s dn cur" and a: "g_heap (gs_c (vs_g s)) a = None"
  obtains s' cur' where "vsys_clk (a, j) m s = Some s'" and "vs_inv s'" and "pipe_at s' (dn @ cur) cur'"
    and "gs_issued (vs_g s') = gs_issued (vs_g s)" and "gs_io (vs_g s') = gs_io (vs_g s)"
    and "gs_results (vs_g s') = gs_results (vs_g s)"
    and "shown (vs_g s') = min (Suc (shown (vs_g s))) (length (gs_issued (vs_g s)))"
    and "vs_hw s' = sb_clk (ep_req (vs_ep s)) (vs_hw s)"
proof -
  let ?g = "vs_g s" and ?h = "vs_hw s" and ?q = "ep_req (vs_ep s)"
  have v: "glue_inv ?g" "small ?g" "waits (gs_io ?g) (gs_issued ?g)" using v by (simp_all add: vs_inv_def)
  note p = p [unfolded pipe_at_def]
  have "length (gs_replies ?g) < length (filter is_rd (take (shown ?g) (gs_issued ?g)))" if "mux_reply ?h \<noteq> []"
  proof -
    have "length (gs_replies ?g) < length (served dn (0, 0))" using p that by (cases "mux_reply ?h") simp_all
    also have "\<dots> \<le> length (filter is_rd dn)" by (rule served_reads)
    finally show ?thesis using p by simp
  qed
  then obtain c where c: "glue_inv (?g\<lparr>gs_c := c, gs_replies := gs_replies ?g @ mux_reply ?h\<rparr>)"
    "\<And>ep. endpoint_clk (a, j) m (vsys_in ?h) ep ?g = (do {
       (ep', g) \<leftarrow> endpoint_poll (ep\<lparr>ep_wait := False\<rparr>) (?g\<lparr>gs_c := c, gs_replies := gs_replies ?g @ mux_reply ?h\<rparr>);
       Some (ep'\<lparr>ep_req := drive ep' ((ep_req ep)\<lparr>rq_en := False, rq_wr := False, rq_bar := 0, rq_addr := 0\<rparr>)\<rparr>, g) })"
    using clk_reply [OF v(1) a, where h = ?h and j = j and m = m] by blast
  obtain g1 where g1: "g1 = ?g\<lparr>gs_c := c, gs_replies := gs_replies ?g @ mux_reply ?h\<rparr>" by blast
  note c = c [folded g1]
  have f: "gs_issued g1 = gs_issued ?g" "gs_io g1 = gs_io ?g" "gs_results g1 = gs_results ?g"
    "gs_replies g1 = gs_replies ?g @ mux_reply ?h" "shown g1 = shown ?g"
    by (simp_all add: g1 shown_def)
  let ?epz = "(vs_ep s)\<lparr>ep_wait := False\<rparr>" and ?idle = "?q\<lparr>rq_en := False, rq_wr := False, rq_bar := 0, rq_addr := 0\<rparr>"
  have sm: "small g1" using v(2) by (simp add: small_def f)
  have q0: "\<not> ep_wait ?epz" by simp
  obtain ep' c' out cur' where
    e: "endpoint_poll ?epz g1 = Some (ep', g1\<lparr>gs_c := c', gs_polled := gs_polled g1 @ out\<rparr>)"
    "glue_inv (g1\<lparr>gs_c := c', gs_polled := gs_polled g1 @ out\<rparr>)" "holds cur' ep'"
    "take (shown ?g + length out) (gs_issued ?g) = take (shown ?g) (gs_issued ?g) @ cur'"
    "shown ?g + length out = min (Suc (shown ?g)) (length (gs_issued ?g))"
    by (rule endpoint_poll_ok [OF c(1) sm q0, unfolded f])
  let ?g2 = "g1\<lparr>gs_c := c', gs_polled := gs_polled g1 @ out\<rparr>"
  let ?s = "s\<lparr>vs_g := ?g2, vs_ep := ep'\<lparr>ep_req := drive ep' ?idle\<rparr>, vs_hw := sb_clk ?q ?h,
    vs_msis := vs_msis s + (if snd (hw_msi ?h) then 1 else 0)\<rparr>"
  have s': "vsys_clk (a, j) m s = Some ?s" by (simp only: vsys_clk_def c(2) e(1) bind.bind_lunit prod.case)
  have s2: "shown ?g2 = shown ?g + length out" using f(5) by (simp add: shown_def)
  have p': "pipe_at ?s (dn @ cur) cur'"
    unfolding pipe_at_def using p holdsD [OF e(3), of ?idle] e(4) hw_cur [OF conjunct1 [OF conjunct2 [OF p]]]
    by (simp add: s2 f mux_step one_step served_append)
  have "vs_inv ?s" by (rule vs_invI [OF _ _ _ p']) (use v e(2) in \<open>simp_all add: small_def f\<close>)
  then show ?thesis using p' by (intro that [OF s']) (simp_all add: f s2 e(5))
qed

section \<open>The network thread beside the device\<close>

lemma pipe_net:
  assumes "net_step (vs_g s) g" and "glue_inv (vs_g s)" and "pipe_at s dn cur"
  shows "pipe_at (s\<lparr>vs_g := g\<rparr>) dn cur"
proof -
  obtain rs where "gs_polled g = gs_polled (vs_g s)" "gs_replies g = gs_replies (vs_g s)"
    "gs_issued g = gs_issued (vs_g s) @ rs"
    using net_keeps [OF assms(1)] by blast
  then show ?thesis using assms(3) polled_shown(1) [OF assms(2)] by (simp add: pipe_at_def shown_def)
qed

text \<open>While no read waits, every read was of a readable register and has been answered.\<close>

lemma all_served:
  assumes v: "vs_inv s" and io: "gs_io (vs_g s) = Io_idle"
  shows "gs_replies (vs_g s) = served (gs_issued (vs_g s)) (0, 0)"
    and "length (served (gs_issued (vs_g s)) (0, 0)) = length (filter is_rd (gs_issued (vs_g s)))"
proof -
  let ?g = "vs_g s" and ?rest = "drop (shown (vs_g s)) (gs_issued (vs_g s))"
  obtain dn cur where i: "glue_inv ?g" and p: "pipe_at s dn cur" using v by (auto simp: vs_inv_def)
  have l: "length (gs_replies ?g) = length (filter is_rd (gs_issued ?g))"
    by (rule glue_invE [OF i]) (simp add: io reads_def)
  have d: "take (shown ?g) (gs_issued ?g) = dn @ cur"
    and f: "served dn (0, 0) = gs_replies ?g @ mux_reply (vs_hw s) @ rw_replies (vs_hw s)"
    using p by (simp_all add: pipe_at_def)
  have iss: "gs_issued ?g = dn @ cur @ ?rest" using append_take_drop_id [of "shown ?g" "gs_issued ?g"] d by simp
  have "length (served dn (0, 0)) \<le> length (filter is_rd dn)" by (rule served_reads)
  moreover have "length (filter is_rd (gs_issued ?g)) = length (filter is_rd dn) + length (filter is_rd (cur @ ?rest))"
    by (subst iss) simp
  ultimately have z: "filter is_rd (cur @ ?rest) = []" "served dn (0, 0) = gs_replies ?g"
    using arg_cong [OF f, of length] f l by simp_all
  show "gs_replies ?g = served (gs_issued ?g) (0, 0)"
    by (subst iss, subst served_append) (simp only: z(2) served_no_reads [OF z(1)] append_Nil2)
  then show "length (served (gs_issued ?g) (0, 0)) = length (filter is_rd (gs_issued ?g))" using l by simp
qed

lemma net_inv:
  assumes v: "vs_inv s" and n: "net_step (vs_g s) g"
  shows "vs_inv (s\<lparr>vs_g := g\<rparr>)"
proof -
  obtain dn cur where i: "glue_inv (vs_g s)" and z: "small (vs_g s)" and p: "pipe_at s dn cur"
    using v by (auto simp: vs_inv_def)
  have "small g" using net_keeps [OF n] z by (auto simp: small_def)
  moreover have "waits (gs_io g) (gs_issued g)"
    using n
  proof cases
    case (read_start a sz data junk bar addr c)
    then show ?thesis using all_served [OF v] by auto
  qed simp_all
  ultimately show ?thesis
    using pipe_net [OF n i p] glue_step_inv [OF net_glue [OF n] i] by (intro vs_invI) simp_all
qed

lemma start_inv_vs:
  assumes t: "thread_init env strtoul16 fds e self c0 = Some c" "g_heap c0 = Map.empty"
    and h: "hw_reset h" "\<not> rq_en (ep_req ep)"
  shows "vs_inv \<lparr>vs_g = glue_start c, vs_ep = ep, vs_hw = h, vs_msis = 0\<rparr>"
proof (rule vs_invI [where dn = "[]" and cur = "[]"])
  show "glue_inv (vs_g \<lparr>vs_g = glue_start c, vs_ep = ep, vs_hw = h, vs_msis = 0\<rparr>)"
    using start_inv [OF t] by simp
qed (use h in \<open>simp_all add: glue_start_def small_def pipe_at_def shown_def hw_reset_def hw_defs\<close>)

lemma vsys_reach_inv: "vsys_reach s \<Longrightarrow> vs_inv s"
proof (induction rule: vsys_reach.induct)
  case (start env strtoul16 fds e self c0 c h ep)
  then show ?case by (intro start_inv_vs)
next
  case (step s s')
  from step.hyps(2) show ?case
  proof cases
    case (net g)
    then show ?thesis using net_inv [OF step.IH] by simp
  next
    case (clk a j m)
    obtain dn cur where "pipe_at s dn cur" using step.IH by (auto simp: vs_inv_def)
    from clk_pipe [OF step.IH this clk(1), of j m] show ?thesis using clk(2) by auto
  qed
qed

text \<open>
  C13. The simulated device is a sequential memory of two registers to the host, whatever the
  interleaving of network thread and clock and whatever the depth of the pipeline between them: its
  registers are what the requests shown so far leave, in order, except the one on the signals; it
  has sent one interrupt for each write to the address 0x20 among them, or is about to; and when
  no read waits, every read has returned the bytes of the value last written.
\<close>

theorem vhdl_reads_sequential:
  assumes "vsys_reach s"
  shows "(\<exists>n. let dn = take n (gs_issued (vs_g s)) in
       n \<le> shown (vs_g s) \<and> shown (vs_g s) \<le> Suc n \<and>
       regs (vs_hw s) = fold regs_after dn (0, 0) \<and>
       vs_msis s + (if snd (hw_msi (vs_hw s)) then 1 else 0) = length (filter raises dn)) \<and>
     (gs_io (vs_g s) = Io_idle \<longrightarrow>
       length (served (gs_issued (vs_g s)) (0, 0)) = length (reads (vs_g s)) \<and>
       gs_results (vs_g s) = map2 read_result (reads (vs_g s)) (served (gs_issued (vs_g s)) (0, 0)))"
proof (intro conjI impI)
  note v = vsys_reach_inv [OF assms]
  obtain dn cur where p: "glue_inv (vs_g s)" "pipe_at s dn cur" using v by (auto simp: vs_inv_def)
  have "length cur \<le> 1" using p(2) by (cases "(cur, ep_req (vs_ep s))" rule: on_signals.cases) (simp_all add: pipe_at_def)
  moreover have t: "take (shown (vs_g s)) (gs_issued (vs_g s)) = dn @ cur" using p(2) by (simp add: pipe_at_def)
  then have "take (length dn) (gs_issued (vs_g s)) = dn"
    by (metis append_eq_conv_conj append_take_drop_id append.assoc)
  moreover have "shown (vs_g s) = length dn + length cur"
    using arg_cong [OF t, of length] polled_shown(1) [OF p(1)] by simp
  ultimately show "\<exists>n. let dn = take n (gs_issued (vs_g s)) in
       n \<le> shown (vs_g s) \<and> shown (vs_g s) \<le> Suc n \<and>
       regs (vs_hw s) = fold regs_after dn (0, 0) \<and>
       vs_msis s + (if snd (hw_msi (vs_hw s)) then 1 else 0) = length (filter raises dn)"
    using p(2) by (intro exI [of _ "length dn"]) (simp add: pipe_at_def Let_def)
  assume io: "gs_io (vs_g s) = Io_idle"
  note a = all_served [OF v io]
  show "length (served (gs_issued (vs_g s)) (0, 0)) = length (reads (vs_g s))" using a(2) by (simp add: reads_def)
  show "gs_results (vs_g s) = map2 read_result (reads (vs_g s)) (served (gs_issued (vs_g s)) (0, 0))"
    by (rule glue_invE [OF p(1)]) (use io in \<open>simp add: a(1)\<close>)
qed

section \<open>Edges of the clock\<close>

text \<open>Some edges in a row, with the network thread blocked in a read.\<close>

inductive edges :: "nat \<Rightarrow> vsys \<Rightarrow> vsys \<Rightarrow> bool" where
  none: "edges 0 s s"
| more: "\<lbrakk>g_heap (gs_c (vs_g s)) a = None; vsys_clk (a, j) m s = Some s1; edges k s1 s2\<rbrakk> \<Longrightarrow> edges (Suc k) s s2"

inductive_cases edges_moreE: "edges (Suc k) s s'"
inductive_cases edges_noneE: "edges 0 s s'"

definition same_requests :: "vsys \<Rightarrow> vsys \<Rightarrow> bool" where
  "same_requests s t \<longleftrightarrow> gs_issued (vs_g t) = gs_issued (vs_g s) \<and> gs_io (vs_g t) = gs_io (vs_g s)"

lemma edges_run:
  assumes "vs_inv s"
  shows "\<exists>s'. edges k s s'"
  using assms
proof (induction k arbitrary: s)
  case 0
  then show ?case using edges.none by blast
next
  case (Suc k)
  obtain dn cur where i: "glue_inv (vs_g s)" and p: "pipe_at s dn cur" using Suc.prems by (auto simp: vs_inv_def)
  obtain a where a: "g_heap (gs_c (vs_g s)) a = None" by (rule fresh_exists [OF i])
  obtain s1 where s1: "vsys_clk (a, undefined) undefined s = Some s1" "vs_inv s1"
    using clk_pipe [OF Suc.prems p a, of undefined undefined] by blast
  obtain s' where "edges k s1 s'" using Suc.IH [OF s1(2)] by blast
  then show ?case using edges.more [OF a s1(1)] by blast
qed

lemma edges_reach: "edges k s s' \<Longrightarrow> vsys_reach s \<Longrightarrow> vsys_reach s'"
  by (induction rule: edges.induct) (blast intro: vsys_reach.step vsys_step.clk)+

lemma edges_split: "edges (k + l) s s' \<Longrightarrow> \<exists>t. edges k s t \<and> edges l t s'"
proof (induction k arbitrary: s)
  case 0
  then show ?case using edges.none by auto
next
  case (Suc k)
  then obtain a j m s1 where s1: "g_heap (gs_c (vs_g s)) a = None" "vsys_clk (a, j) m s = Some s1" "edges (k + l) s1 s'"
    by (auto elim: edges_moreE)
  then show ?case using Suc.IH edges.more by blast
qed

lemma edge_pipe:
  assumes "edges (Suc 0) s s'" and "vs_inv s" and "pipe_at s dn cur"
  shows "vs_inv s' \<and> (\<exists>cur'. pipe_at s' (dn @ cur) cur') \<and> same_requests s s' \<and>
    shown (vs_g s') = min (Suc (shown (vs_g s))) (length (gs_issued (vs_g s))) \<and>
    vs_hw s' = sb_clk (ep_req (vs_ep s)) (vs_hw s)"
proof -
  obtain a j m where c: "g_heap (gs_c (vs_g s)) a = None" "vsys_clk (a, j) m s = Some s'"
    using assms(1) by (auto elim!: edges_moreE edges_noneE)
  from clk_pipe [OF assms(2,3) c(1), of j m] show ?thesis unfolding c(2) same_requests_def by blast
qed

lemma edges_shown:
  "edges k s s' \<Longrightarrow> vs_inv s \<Longrightarrow> vs_inv s' \<and> same_requests s s' \<and>
     shown (vs_g s') = min (shown (vs_g s) + k) (length (gs_issued (vs_g s)))"
proof (induction k arbitrary: s)
  case 0
  then have "shown (vs_g s) \<le> length (gs_issued (vs_g s))" using polled_shown(1) by (simp add: vs_inv_def)
  then show ?case using 0 by (auto simp: same_requests_def elim!: edges_noneE)
next
  case (Suc k)
  obtain t where t: "edges (Suc 0) s t" "edges k t s'" using edges_split [of "Suc 0" k] Suc.prems(1) by auto
  obtain dn cur where "pipe_at s dn cur" using Suc.prems(2) by (auto simp: vs_inv_def)
  note 1 = edge_pipe [OF t(1) Suc.prems(2) this]
  then show ?case using Suc.IH [OF t(2)] by (auto simp: same_requests_def)
qed

text \<open>After the last request is shown, three more edges empty the pipeline.\<close>

lemma edges_answer:
  assumes e: "edges k s s'" and k: "length (gs_issued (vs_g s)) - shown (vs_g s) + 3 \<le> k" and v: "vs_inv s"
  shows "vs_inv s' \<and> same_requests s s' \<and> gs_replies (vs_g s') = served (gs_issued (vs_g s)) (0, 0)"
proof -
  let ?n = "length (gs_issued (vs_g s))"
  have "edges ((k - 3) + 3) s s'" using e k by simp
  then obtain t0 where t0: "edges (k - 3) s t0" "edges (Suc 0 + 2) t0 s'"
    using edges_split [of "k - 3" 3] by (auto simp: numeral_3_eq_3 numeral_2_eq_2)
  obtain t1 where t1: "edges (Suc 0) t0 t1" "edges (Suc 0 + Suc 0) t1 s'"
    using edges_split [OF t0(2)] by (auto simp: numeral_2_eq_2)
  obtain t2 where t2: "edges (Suc 0) t1 t2" "edges (Suc 0) t2 s'" using edges_split [OF t1(2)] by blast
  note t = t0(1) t1(1) t2
  have "shown (vs_g s) \<le> ?n" using polled_shown(1) v by (simp add: vs_inv_def)
  then have 0: "vs_inv t0" "same_requests s t0" "shown (vs_g t0) = ?n" using edges_shown [OF t(1) v] k by auto
  obtain dn cur where p0: "pipe_at t0 dn cur" using 0(1) by (auto simp: vs_inv_def)
  obtain c1 where 1: "vs_inv t1" "pipe_at t1 (dn @ cur) c1" "same_requests s t1" "shown (vs_g t1) = ?n"
    using edge_pipe [OF t(2) 0(1) p0] 0 by (auto simp: same_requests_def)
  obtain c2 where 2: "vs_inv t2" "pipe_at t2 ((dn @ cur) @ c1) c2" "same_requests s t2" "shown (vs_g t2) = ?n"
    "vs_hw t2 = sb_clk (ep_req (vs_ep t1)) (vs_hw t1)"
    using edge_pipe [OF t(3) 1(1,2)] 1 by (auto simp: same_requests_def)
  obtain c3 where 3: "vs_inv s'" "pipe_at s' (((dn @ cur) @ c1) @ c2) c3" "same_requests s s'" "shown (vs_g s') = ?n"
    "vs_hw s' = sb_clk (ep_req (vs_ep t2)) (vs_hw t2)"
    using edge_pipe [OF t(4) 2(1,2)] 2 by (auto simp: same_requests_def)
  have d: "dn @ cur = gs_issued (vs_g s)" "c1 = []" "c2 = []" "c3 = []"
    using p0 1 2 3 0 by (auto simp: pipe_at_def same_requests_def)
  then have "rw_replies (vs_hw t2) = []" "rw_replies (vs_hw s') = []" "one_reply (vs_hw t2)"
    using 1(2) 2(2,5) 3(5) by (auto simp: pipe_at_def regs_idle one_step)
  moreover from this have "mux_reply (vs_hw s') = []" using mux_step 3(5) by simp
  ultimately show ?thesis using 3(1-3) d by (simp add: pipe_at_def)
qed

text \<open>When the pipeline is empty, a read that waits is answered exactly if it can be.\<close>

lemma answer_given:
  assumes v: "vs_inv s" and io: "gs_io (vs_g s) = Io_wait n data sz"
    and iss: "gs_issued (vs_g s) = pre @ [Rd bar addr sz]" and rp: "gs_replies (vs_g s) = served (gs_issued (vs_g s)) (0, 0)"
  shows "case reply_of (Rd bar addr sz) (fold regs_after pre (0, 0)) of
       [] \<Rightarrow> \<not> is_replied n (gs_c (vs_g s))
     | x # _ \<Rightarrow> is_replied n (gs_c (vs_g s)) \<and>
         (\<exists>d c. on_bar_read_finish n data sz (gs_c (vs_g s)) = Some (d, c) \<and> take sz d = read_result sz x)"
    (is "case ?r of [] \<Rightarrow> \<not> is_replied n ?c | x # _ \<Rightarrow> ?R x")
proof -
  have rp: "gs_replies (vs_g s) = served pre (0, 0) @ ?r" by (simp add: rp iss served_append)
  have l: "length (served pre (0, 0)) = length (filter is_rd pre)" using v io iss by (simp add: vs_inv_def)
  have i: "glue_inv (vs_g s)" using v by (simp add: vs_inv_def)
  obtain rx pend tx ms where q: "queues_inv ?c (Some n) rx pend tx ms" "reply_phase (vs_g s) (Io_wait n data sz) rx tx"
    using glue_invE [OF i] io by (metis wait_node.simps(2))
  have rd: "reads (vs_g s) = map rd_size (filter is_rd pre) @ [sz]" by (simp add: reads_def iss)
  have w: "is_replied n ?c = ba_is_replied ba" if "wait_access (g_heap ?c) n sz ba" for ba
    using that by (auto simp: is_replied_def wait_access_def)
  show ?thesis
  proof (cases ?r)
    case Nil
    then show ?thesis using q(2) l w by (auto simp: rd rp)
  next
    case (Cons x xs)
    then have r: "?r = [x]" using reply_of_read [of "Rd bar addr sz" "fold regs_after pre (0, 0)"] by simp
    then obtain ba where a: "n \<notin> set rx" "n \<notin> set tx" "length data = 8" "wait_access (g_heap ?c) n sz ba"
      "ba_is_replied ba" "ba_data ba = le_bytes 8 x"
      using q(2) l by (auto simp: rd rp)
    then show ?thesis
      using finish_ok [OF q(1) a(1,2,4,3)] w [OF a(4)] unfolding r by (fastforce simp: read_result_def)
  qed
qed

text \<open>
  C14. A read of the host that waits: the clock can always go on, and once the requests before it
  have been polled and three more edges have passed, the read is answered if it is of one of the two
  registers that can be read, and then ends with the value last written; any other read is never
  answered, and the network thread, which waits without a bound, serves nothing any more.
\<close>

theorem vhdl_read_answered:
  assumes "vsys_reach s" and "gs_io (vs_g s) = Io_wait n data sz"
    and "gs_issued (vs_g s) = pre @ [Rd bar addr sz]"
    and "length (gs_issued (vs_g s)) - shown (vs_g s) + 3 \<le> k"
  shows "(\<exists>s'. edges k s s') \<and> (\<forall>s'. edges k s s' \<longrightarrow>
    (case reply_of (Rd bar addr sz) (fold regs_after pre (0, 0)) of
       [] \<Rightarrow> \<not> is_replied n (gs_c (vs_g s'))
     | x # _ \<Rightarrow> is_replied n (gs_c (vs_g s')) \<and>
         (\<exists>d c. on_bar_read_finish n data sz (gs_c (vs_g s')) = Some (d, c) \<and> take sz d = read_result sz x)))"
proof (intro conjI allI impI)
  note v = vsys_reach_inv [OF assms(1)]
  then show "\<exists>s'. edges k s s'" by (rule edges_run)
  fix s' assume "edges k s s'"
  from edges_answer [OF this assms(4) v] show "case reply_of (Rd bar addr sz) (fold regs_after pre (0, 0)) of
       [] \<Rightarrow> \<not> is_replied n (gs_c (vs_g s'))
     | x # _ \<Rightarrow> is_replied n (gs_c (vs_g s')) \<and>
         (\<exists>d c. on_bar_read_finish n data sz (gs_c (vs_g s')) = Some (d, c) \<and> take sz d = read_result sz x)"
    using assms by (intro answer_given) (simp_all add: same_requests_def)
qed

section \<open>The accesses of the driver's system\<close>

text \<open>
  \<open>Sbone_System\<close> takes an access of the host for a write or a read of the registers at once. That is
  what serving the request does.
\<close>

lemma sb_write_request:
  assumes "d \<noteq> []"
  shows "regs (snd (sb_write a (of_le d) h)) = regs_after (Wr 1 a d) (regs h)"
    and "fst (sb_write a (of_le d) h) = raises (Wr 1 a d)"
  using assms by (auto simp: regs_def regs_after_def raises_def sb_write_cases)

lemma sb_read_request:
  assumes "sz \<noteq> 0"
  shows "(case fst (sb_read a h) of Some x \<Rightarrow> [x] | None \<Rightarrow> []) = reply_of (Rd 1 a sz) (regs h)"
    and "regs (snd (sb_read a h)) = regs h"
proof -
  show "regs (snd (sb_read a h)) = regs h" by (simp add: regs_def sb_read_cases)
  show "(case fst (sb_read a h) of Some x \<Rightarrow> [x] | None \<Rightarrow> []) = reply_of (Rd 1 a sz) (regs h)"
    using assms by (cases "a = 0x10 \<or> a = 0x18") (auto simp: reply_of_def regs_def sb_read_cases)
qed

section \<open>An example\<close>

text \<open>The host writes one byte to the first readable register and reads four.\<close>

abbreviation ex_requests :: "bar_req list" where
  "ex_requests \<equiv> [Wr 1 0x10 [7], Rd 1 0x10 4]"

definition hw_zero :: sb_hw where
  "hw_zero = (let w = \<lparr>rw_data = 0, rw_rep_en = False, rw_rep_data = 0\<rparr> in
     \<lparr>hw_wo0 = 0, hw_wo1 = 0, hw_rw0 = w, hw_rw1 = w, hw_msi = (0, False), hw_rep = (False, 0)\<rparr>)"

lemma vsys_net_reach: "rtranclp net_step (vs_g s) g \<Longrightarrow> vsys_reach s \<Longrightarrow> vsys_reach (s\<lparr>vs_g := g\<rparr>)"
proof (induction rule: rtranclp_induct)
  case (step g g')
  have "vsys_step (s\<lparr>vs_g := g\<rparr>) (s\<lparr>vs_g := g, vs_g := g'\<rparr>)" using vsys_step.net [of "s\<lparr>vs_g := g\<rparr>" g'] step(2) by simp
  then show ?case using vsys_reach.step [OF step.IH [OF step.prems]] by simp
qed simp

lemma example_waits:
  obtains s n where "vsys_reach s" and "gs_io (vs_g s) = Io_wait n (replicate 8 0) 4"
    and "gs_issued (vs_g s) = ex_requests" and "shown (vs_g s) = 0"
proof -
  obtain c g n where c: "thread_init (\<lambda>_. None) (\<lambda>_. 0) (5, 6) env_zero 0 glue_zero = Some c"
    and g: "rtranclp net_step (glue_start c) g" "gs_io g = Io_wait n (replicate 8 0) 4" "gs_issued g = ex_requests" "shown g = 0"
    by (rule host_example)
  let ?s = "\<lparr>vs_g = glue_start c, vs_ep = ep_zero, vs_hw = hw_zero, vs_msis = 0\<rparr>"
  have r: "vsys_reach ?s"
    by (rule vsys_reach.start [OF c])
      (simp_all add: glue_zero_def hw_reset_def hw_zero_def ep_zero_def sb_idle_def Let_def)
  have "vsys_reach (?s\<lparr>vs_g := g\<rparr>)" using vsys_net_reach [OF _ r, of g] g(1) by simp
  then show ?thesis by (rule that) (simp_all add: g)
qed

lemma example_served: "reply_of (Rd 1 0x10 4) (fold regs_after [Wr 1 0x10 [7]] (0, 0)) = [7]"
  "read_result 4 7 = [7, 0, 0, 0]"
  by (simp_all add: reply_of_def regs_after_def of_le_def read_result_def le_bytes_def upt_rec)

theorem vhdl_read_answered_witness:
  "\<exists>s n s' d c. vsys_reach s \<and> gs_issued (vs_g s) = ex_requests \<and> edges 5 s s' \<and> is_replied n (gs_c (vs_g s')) \<and>
     on_bar_read_finish n (replicate 8 0) 4 (gs_c (vs_g s')) = Some (d, c) \<and> take 4 d = [7, 0, 0, 0]"
proof -
  obtain s n where s: "vsys_reach s" "gs_io (vs_g s) = Io_wait n (replicate 8 0) 4"
    "gs_issued (vs_g s) = [Wr 1 0x10 [7]] @ [Rd 1 0x10 4]" "shown (vs_g s) = 0"
    by (rule example_waits) simp
  have "length (gs_issued (vs_g s)) - shown (vs_g s) + 3 \<le> 5" by (simp add: s(3,4))
  from vhdl_read_answered [OF s(1-3) this, unfolded example_served list.case] obtain s' where "edges 5 s s'"
    "is_replied n (gs_c (vs_g s'))" "\<exists>d c. on_bar_read_finish n (replicate 8 0) 4 (gs_c (vs_g s')) = Some (d, c) \<and> take 4 d = [7, 0, 0, 0]"
    by blast
  moreover have "gs_issued (vs_g s) = ex_requests" using s(3) by simp
  ultimately show ?thesis using s(1) by blast
qed

theorem vhdl_reads_sequential_witness:
  "\<exists>s. vsys_reach s \<and> gs_issued (vs_g s) = ex_requests \<and> gs_results (vs_g s) = [[7, 0, 0, 0]]"
proof -
  obtain s n where s: "vsys_reach s" "gs_io (vs_g s) = Io_wait n (replicate 8 0) 4"
    "gs_issued (vs_g s) = [Wr 1 0x10 [7]] @ [Rd 1 0x10 4]" "shown (vs_g s) = 0"
    by (rule example_waits) simp
  note v = vsys_reach_inv [OF s(1)]
  obtain s' where e: "edges 5 s s'" using edges_run [OF v] by blast
  have "length (gs_issued (vs_g s)) - shown (vs_g s) + 3 \<le> 5" by (simp add: s(3,4))
  note e' = edges_answer [OF e this v]
  have io: "gs_io (vs_g s') = Io_wait n (replicate 8 0) 4" "gs_issued (vs_g s') = [Wr 1 0x10 [7]] @ [Rd 1 0x10 4]"
    using e' s by (simp_all add: same_requests_def)
  have "is_replied n (gs_c (vs_g s'))"
    using answer_given [OF _ io] e' s(3) unfolding example_served by (simp add: same_requests_def)
  moreover obtain d c where "on_bar_read_finish n (replicate 8 0) 4 (gs_c (vs_g s')) = Some (d, c)"
    using read_finish_ok [OF _ io(1) calculation] e' by (auto simp: vs_inv_def)
  ultimately have "vsys_step s' (s'\<lparr>vs_g := (vs_g s')\<lparr>gs_c := c, gs_io := Io_idle,
      gs_results := gs_results (vs_g s') @ [take 4 d]\<rparr>\<rparr>)"
    using io(1) by (intro vsys_step.net net_step.read_finish)
  from vsys_reach.step [OF edges_reach [OF e s(1)] this] obtain t where t: "vsys_reach t"
    "gs_io (vs_g t) = Io_idle" "gs_issued (vs_g t) = ex_requests"
    using io(2) by auto
  have "served ex_requests (0, 0) = [7]" using example_served(1) by (simp add: reply_of_def)
  then have "gs_results (vs_g t) = [[7, 0, 0, 0]]"
    using vhdl_reads_sequential [OF t(1)] t(2,3) example_served(2) by (simp add: reads_def)
  then show ?thesis using t by blast
qed

end
