(* ===== verification/Vhdl_Dma.thy ===== *)
theory Vhdl_Dma
  imports Vhdl_Endpoint
begin

text \<open>
  The engine in VHDL, \<open>src/src/dma/hw/d_in_vhdl/dma.vhdl\<close>, edge by edge. A process runs only when a
  signal of its sensitivity list changes, and sees what the signals were before the changes it makes
  itself, so one edge is the clocked processes followed by the processes that their changes wake.
  Signals are two-valued, and the state begins after the reset.
\<close>

section \<open>The registers\<close>

text \<open>A register has its contents and, one edge later, what it shows to the engine.\<close>

record wo_reg =
  wo_data :: u64
  wo_out :: u64

definition reg_wo_clk :: "3 word \<Rightarrow> u64 \<Rightarrow> bool \<Rightarrow> sb_req \<Rightarrow> wo_reg \<Rightarrow> wo_reg" where
  "reg_wo_clk b a clr q w =
     \<lparr>wo_data = (if clr then 0 else if bar_addr_cmp b a q \<and> rq_en q \<and> rq_wr q then rq_data q else wo_data w),
      wo_out = wo_data w\<rparr>"

record ro_reg =
  ro_data :: u64
  ro_rep_en :: bool
  ro_rep_data :: u64
  ro_out :: u64

definition reg_ro_clk :: "3 word \<Rightarrow> u64 \<Rightarrow> bool \<Rightarrow> u64 \<Rightarrow> sb_req \<Rightarrow> ro_reg \<Rightarrow> ro_reg" where
  "reg_ro_clk b a set_en x q w =
     (let is_en = bar_addr_cmp b a q \<and> rq_en q \<and> \<not> rq_wr q; w' = w\<lparr>ro_rep_en := False\<rparr>;
        w' = (if set_en then w'\<lparr>ro_data := x\<rparr>
              else if is_en then w'\<lparr>ro_rep_data := ro_data w, ro_rep_en := True\<rparr> else w')
      in w'\<lparr>ro_out := ro_data w\<rparr>)"

section \<open>The engine\<close>

datatype dma_state = Idle | Write_start | Write_one | Write_next | Write_done

record dma_hw =
  dv_ctl :: wo_reg
  dv_sta :: ro_reg
  dv_adl :: wo_reg
  dv_adh :: wo_reg
  dv_baz :: wo_reg
  dv_sta_set_en :: bool
  dv_sta_set_data :: u64
  dv_ctl_clr_en :: bool
  dv_state :: dma_state
  dv_next_state :: dma_state
  dv_addr :: u64
  dv_size :: u16
  dv_dma_msi_en :: bool
  dv_ptr :: u64
  dv_off :: u16
  dv_counter_reg :: u16
  dv_counter_clr :: bool
  dv_counter_en :: bool
  dv_req_ack :: bool
  dv_mwr_en :: bool
  dv_mwr_addr :: u64
  dv_mwr_size :: u16
  dv_msi_en :: bool

definition DMA_BLOCK_SIZE :: nat where "DMA_BLOCK_SIZE = 1024 div 8"

fun log2_from :: "nat \<Rightarrow> nat \<Rightarrow> nat \<Rightarrow> nat" where
  "log2_from 0 i x = 30"
| "log2_from (Suc n) i x = (if 2 ^ i > x then i - 1 else log2_from n (Suc i) x)"

definition log2 :: "nat \<Rightarrow> nat" where "log2 = log2_from 30 1"

definition mul_pow2 :: "nat \<Rightarrow> u16 \<Rightarrow> u16" where
  "mul_pow2 x s = push_bit (log2 x) s"

definition next_state :: "dma_hw \<Rightarrow> dma_state" where
  "next_state h = (case dv_state h of
     Idle \<Rightarrow> if bit (wo_out (dv_ctl h)) 31 then Write_start else Idle
   | Write_start \<Rightarrow> Write_one
   | Write_one \<Rightarrow> Write_next
   | Write_next \<Rightarrow> if dv_off h = dv_size h then Write_done else Write_one
   | Write_done \<Rightarrow> Idle)"

text \<open>An assignment to the low half of a signal leaves the other.\<close>

definition set_low :: "u32 \<Rightarrow> u64 \<Rightarrow> u64" where
  "set_low x y = word_cat (ucast (drop_bit 32 y) :: u32) x"

text \<open>The signals of the output process, read before it assigns to them.\<close>

definition output_logic :: "dma_hw \<Rightarrow> dma_hw" where
  "output_logic h =
     (let h' = h\<lparr>dv_counter_clr := False, dv_counter_en := False, dv_req_ack := False, dv_mwr_en := False,
        dv_msi_en := False, dv_sta_set_en := False, dv_ctl_clr_en := False\<rparr>
      in case dv_state h of
        Idle \<Rightarrow> h'
      | Write_start \<Rightarrow> h'\<lparr>dv_size := ucast (wo_out (dv_ctl h)),
          dv_addr := word_cat (ucast (wo_out (dv_adh h)) :: u32) (ucast (wo_out (dv_adl h)) :: u32),
          dv_counter_clr := True, dv_sta_set_data := set_low 0 (dv_sta_set_data h), dv_sta_set_en := True,
          dv_dma_msi_en := bit (wo_out (dv_ctl h)) 30, dv_ctl_clr_en := True\<rparr>
      | Write_one \<Rightarrow> h'\<lparr>dv_mwr_addr := dv_ptr h, dv_mwr_size := of_nat DMA_BLOCK_SIZE, dv_mwr_en := True\<rparr>
      | Write_next \<Rightarrow> h'\<lparr>dv_counter_en := True\<rparr>
      | Write_done \<Rightarrow> h'\<lparr>dv_sta_set_data := set_low (word_cat (0x8000 :: u16) (dv_off h)) (dv_sta_set_data h),
          dv_sta_set_en := True, dv_msi_en := dv_dma_msi_en h, dv_req_ack := True\<rparr>)"

text \<open>The clocked processes: counter, registers and state.\<close>

definition dma_counter :: "dma_hw \<Rightarrow> u16" where
  "dma_counter h =
     (if dv_counter_clr h then 0 else if dv_counter_en h then dv_counter_reg h + 1 else dv_counter_reg h)"

definition dma_registers :: "sb_req \<Rightarrow> dma_hw \<Rightarrow> dma_hw" where
  "dma_registers q h = h\<lparr>
     dv_ctl := reg_wo_clk 1 0x00 (dv_ctl_clr_en h) q (dv_ctl h),
     dv_sta := reg_ro_clk 1 0x04 (dv_sta_set_en h) (dv_sta_set_data h) q (dv_sta h),
     dv_adl := reg_wo_clk 1 0x08 False q (dv_adl h),
     dv_adh := reg_wo_clk 1 0x0c False q (dv_adh h),
     dv_baz := reg_wo_clk 1 0x10 False q (dv_baz h)\<rparr>"

definition dma_edge :: "sb_req \<Rightarrow> dma_hw \<Rightarrow> dma_hw" where
  "dma_edge q h = (dma_registers q h)\<lparr>dv_state := dv_next_state h, dv_counter_reg := dma_counter h\<rparr>"

text \<open>
  The processes that wake: the next state (\<open>dma_state\<close>, \<open>ctl_data\<close>), the outputs (\<open>dma_state\<close>), both of
  which still see the old offset and pointer, the offset (\<open>dma_counter_reg\<close>), and after them the pointer.
\<close>

definition dma_settle :: "dma_hw \<Rightarrow> dma_hw \<Rightarrow> dma_hw" where
  "dma_settle old h =
     (let ev = dv_state h \<noteq> dv_state old;
        nx = (if ev \<or> wo_out (dv_ctl h) \<noteq> wo_out (dv_ctl old) then next_state h else dv_next_state h);
        h' = (if ev then output_logic h else h)\<lparr>dv_next_state := nx, dv_off := mul_pow2 DMA_BLOCK_SIZE (dv_counter_reg h)\<rparr>
      in h'\<lparr>dv_ptr := dv_addr h' + ucast (dv_off h')\<rparr>)"

definition dma_clk :: "sb_req \<Rightarrow> dma_hw \<Rightarrow> dma_hw" where
  "dma_clk q h = dma_settle h (dma_edge q h)"

definition dv_mwr_data :: "dma_hw \<Rightarrow> 1024 word" where
  "dv_mwr_data h = of_le (replicate DMA_BLOCK_SIZE (ucast (wo_out (dv_baz h))))"

text \<open>What the endpoint is given for the sequence of requests it shows: the states at its edges.\<close>

primrec dma_trace :: "sb_req list \<Rightarrow> dma_hw \<Rightarrow> dma_hw list" where
  "dma_trace [] h = []"
| "dma_trace (q # qs) h = h # dma_trace qs (dma_clk q h)"

definition dma_mwr :: "dma_hw \<Rightarrow> (u64 \<times> 1024 word \<times> u16) list" where
  "dma_mwr h = (if dv_mwr_en h then [(dv_mwr_addr h, dv_mwr_data h, dv_mwr_size h)] else [])"

section \<open>The engine as a synchronous machine\<close>

text \<open>
  After the signals have settled, the outputs are those of the state and the next state is the one
  of the transition table, although the processes see old values.
\<close>

definition settled :: "dma_hw \<Rightarrow> bool" where
  "settled h \<longleftrightarrow> dv_next_state h = next_state h \<and> dv_off h = mul_pow2 DMA_BLOCK_SIZE (dv_counter_reg h) \<and>
     dv_ptr h = dv_addr h + ucast (dv_off h) \<and>
     (dv_counter_clr h \<longleftrightarrow> dv_state h = Write_start) \<and> (dv_counter_en h \<longleftrightarrow> dv_state h = Write_next) \<and>
     (dv_ctl_clr_en h \<longleftrightarrow> dv_state h = Write_start) \<and> (dv_mwr_en h \<longleftrightarrow> dv_state h = Write_one) \<and>
     (dv_req_ack h \<longleftrightarrow> dv_state h = Write_done) \<and> (dv_msi_en h \<longleftrightarrow> dv_state h = Write_done \<and> dv_dma_msi_en h) \<and>
     (dv_sta_set_en h \<longleftrightarrow> dv_state h = Write_start \<or> dv_state h = Write_done) \<and>
     (dv_state h = Write_one \<longrightarrow> dv_mwr_size h = of_nat DMA_BLOCK_SIZE)"

lemmas clk_defs = dma_clk_def dma_settle_def dma_edge_def dma_counter_def dma_registers_def output_logic_def reg_wo_clk_def next_state_def Let_def

lemma settled_cases:
  assumes "settled h"
  obtains (stay) "dv_state h = Idle" "\<not> bit (wo_out (dv_ctl h)) 31" "dv_next_state h = Idle"
      "\<not> dv_counter_clr h" "\<not> dv_counter_en h" "\<not> dv_ctl_clr_en h" "\<not> dv_mwr_en h" "\<not> dv_req_ack h" "\<not> dv_msi_en h" "\<not> dv_sta_set_en h"
  | (leave) "dv_state h = Idle" "bit (wo_out (dv_ctl h)) 31" "dv_next_state h = Write_start"
      "\<not> dv_counter_clr h" "\<not> dv_counter_en h" "\<not> dv_ctl_clr_en h"
  | (one) "dv_state h = Write_start" "dv_next_state h = Write_one" "dv_counter_clr h" "dv_ctl_clr_en h"
  | (step) "dv_state h = Write_one" "dv_next_state h = Write_next" "\<not> dv_counter_clr h" "\<not> dv_counter_en h"
      "\<not> dv_ctl_clr_en h" "dv_off h = mul_pow2 DMA_BLOCK_SIZE (dv_counter_reg h)"
  | (again) "dv_state h = Write_next" "dv_off h \<noteq> dv_size h" "dv_next_state h = Write_one"
      "\<not> dv_counter_clr h" "dv_counter_en h" "\<not> dv_ctl_clr_en h"
  | (finish) "dv_state h = Write_next" "dv_off h = dv_size h" "dv_next_state h = Write_done"
      "\<not> dv_counter_clr h" "dv_counter_en h" "\<not> dv_ctl_clr_en h"
  | (ack) "dv_state h = Write_done" "dv_next_state h = Idle" "\<not> dv_counter_clr h" "\<not> dv_counter_en h" "\<not> dv_ctl_clr_en h"
  using assms by (cases "dv_state h") (auto simp: settled_def next_state_def)

lemma settled_clk:
  assumes "settled h"
  shows "settled (dma_clk q h)"
  by (rule settled_cases [OF assms]; simp add: settled_def clk_defs)

lemma settled_fold: "settled h \<Longrightarrow> settled (fold dma_clk qs h)"
  by (induction qs arbitrary: h) (simp_all add: settled_clk)

text \<open>One edge of the settled machine, field by field.\<close>

lemma clk_state: "dv_state (dma_clk q h) = dv_next_state h"
  by (simp add: clk_defs split: dma_state.splits)

lemma clk_counter:
  "dv_counter_reg (dma_clk q h) =
     (if dv_counter_clr h then 0 else if dv_counter_en h then dv_counter_reg h + 1 else dv_counter_reg h)"
  by (simp add: clk_defs split: dma_state.splits)

lemma clk_regs:
  "dv_ctl (dma_clk q h) = reg_wo_clk 1 0x00 (dv_ctl_clr_en h) q (dv_ctl h)"
  "dv_sta (dma_clk q h) = reg_ro_clk 1 0x04 (dv_sta_set_en h) (dv_sta_set_data h) q (dv_sta h)"
  "dv_adl (dma_clk q h) = reg_wo_clk 1 0x08 False q (dv_adl h)"
  "dv_adh (dma_clk q h) = reg_wo_clk 1 0x0c False q (dv_adh h)"
  "dv_baz (dma_clk q h) = reg_wo_clk 1 0x10 False q (dv_baz h)"
  by (simp_all add: dma_clk_def dma_settle_def dma_edge_def dma_registers_def output_logic_def Let_def split: dma_state.splits)

lemma clk_latched:
  assumes "settled h"
  shows "dv_addr (dma_clk q h) = (if dv_next_state h = Write_start
      then word_cat (ucast (wo_data (dv_adh h)) :: u32) (ucast (wo_data (dv_adl h)) :: u32) else dv_addr h)"
    and "dv_size (dma_clk q h) = (if dv_next_state h = Write_start then ucast (wo_data (dv_ctl h)) else dv_size h)"
    and "dv_dma_msi_en (dma_clk q h) = (if dv_next_state h = Write_start then bit (wo_data (dv_ctl h)) 30 else dv_dma_msi_en h)"
    and "dv_next_state h = Write_one \<Longrightarrow> dv_mwr_addr (dma_clk q h) = dv_ptr h"
    and "dv_next_state h = Write_done \<Longrightarrow>
      dv_sta_set_data (dma_clk q h) = set_low (word_cat (0x8000 :: u16) (dv_off h)) (dv_sta_set_data h)"
  by (rule settled_cases [OF assms]; simp add: clk_defs)+

section \<open>Blocks\<close>

text \<open>A block of the byte the register holds.\<close>

definition blk :: "u64 \<Rightarrow> u64 \<Rightarrow> u64 \<times> 1024 word \<times> u16" where
  "blk b a = (a, of_le (replicate DMA_BLOCK_SIZE (ucast b)), of_nat DMA_BLOCK_SIZE)"

definition sent :: "dma_hw list \<Rightarrow> (u64 \<times> 1024 word \<times> u16) list" where
  "sent hs = concat (map dma_mwr hs)"

definition silent :: "dma_hw list \<Rightarrow> bool" where
  "silent hs \<longleftrightarrow> (\<forall>h\<in>set hs. \<not> dv_req_ack h \<and> \<not> dv_msi_en h)"

lemma trace_append: "dma_trace (qs @ qs') h = dma_trace qs h @ dma_trace qs' (fold dma_clk qs h)"
  by (induction qs arbitrary: h) simp_all

lemma sent_simps [simp]: "sent [] = []" "sent (h # hs) = dma_mwr h @ sent hs" "sent (hs @ hs') = sent hs @ sent hs'"
  by (simp_all add: sent_def)

lemma silent_simps [simp]:
  "silent []" "silent (h # hs) \<longleftrightarrow> \<not> dv_req_ack h \<and> \<not> dv_msi_en h \<and> silent hs"
  "silent (hs @ hs') \<longleftrightarrow> silent hs \<and> silent hs'"
  by (auto simp: silent_def)

lemma block_offset: "mul_pow2 DMA_BLOCK_SIZE s = push_bit 7 s"
proof -
  have "log2 DMA_BLOCK_SIZE = 7" by code_simp
  then show ?thesis by (simp add: mul_pow2_def)
qed

text \<open>The offset of a block.\<close>

definition span :: "nat \<Rightarrow> 'a::len word" where "span k = of_nat (128 * k)"

lemma offset_of: "push_bit 7 (of_nat k :: u16) = span k"
  by (simp add: push_bit_eq_mult span_def)

lemma ucast_span:
  assumes "k < 512"
  shows "ucast (span k :: u16) = (span k :: u64)"
proof -
  have "unat (of_nat (128 * k) :: u16) = 128 * k" using assms by (simp only: unat_of_nat) simp
  moreover have "(ucast (of_nat (128 * k) :: u16) :: u64) = of_nat (unat (of_nat (128 * k) :: u16))" by simp
  ultimately show ?thesis unfolding span_def by (simp only:)
qed

text \<open>The registers of the transfer are not written: no write, or one of the control register.\<close>

definition keeps :: "sb_req \<Rightarrow> bool" where
  "keeps q \<longleftrightarrow> (rq_en q \<and> rq_wr q \<longrightarrow> rq_addr q = 0)"

definition params :: "u64 \<Rightarrow> u64 \<Rightarrow> dma_hw \<Rightarrow> bool" where
  "params base b h \<longleftrightarrow> wo_out (dv_baz h) = b \<and> wo_data (dv_baz h) = b \<and>
     word_cat (ucast (wo_data (dv_adh h)) :: u32) (ucast (wo_data (dv_adl h)) :: u32) = base"

lemma keeps_reg: "keeps q \<Longrightarrow> a \<noteq> 0 \<Longrightarrow> reg_wo_clk bar a False q w = \<lparr>wo_data = wo_data w, wo_out = wo_data w\<rparr>"
  by (auto simp: reg_wo_clk_def keeps_def bar_addr_cmp_def)

lemma params_clk: "params base b h \<Longrightarrow> keeps q \<Longrightarrow> params base b (dma_clk q h)"
  by (simp add: params_def clk_regs keeps_reg)

lemma mwr_one: "settled h \<Longrightarrow> params base b h \<Longrightarrow> dv_state h = Write_one \<Longrightarrow> dma_mwr h = [blk b (dv_mwr_addr h)]"
  by (simp add: settled_def dma_mwr_def dv_mwr_data_def blk_def params_def)

lemma mwr_other: "settled h \<Longrightarrow> dv_state h \<noteq> Write_one \<Longrightarrow> dma_mwr h = []"
  by (simp add: settled_def dma_mwr_def)

lemma settled_ack: "settled h \<Longrightarrow> dv_req_ack h \<longleftrightarrow> dv_state h = Write_done"
  "settled h \<Longrightarrow> dv_msi_en h \<longleftrightarrow> dv_state h = Write_done \<and> dv_dma_msi_en h"
  by (simp_all add: settled_def)

text \<open>A transfer of \<open>n\<close> blocks under way, in a given state of the engine and with a given count.\<close>

definition moving :: "dma_state \<Rightarrow> nat \<Rightarrow> nat \<Rightarrow> u64 \<Rightarrow> u64 \<Rightarrow> bool \<Rightarrow> dma_hw \<Rightarrow> bool" where
  "moving st k n base b mi h \<longleftrightarrow> settled h \<and> dv_state h = st \<and> dv_counter_reg h = of_nat k \<and>
     dv_size h = span n \<and> dv_addr h = base \<and> dv_dma_msi_en h = mi \<and> params base b h"

lemma moving_step:
  assumes m: "moving st k n base b mi h" and q: "keeps q" and nx: "dv_next_state h \<noteq> Write_start"
  shows "moving (dv_next_state h) (if st = Write_start then 0 else if st = Write_next then Suc k else k) n base b mi (dma_clk q h)"
proof -
  have h: "settled h" using m by (simp add: moving_def)
  have "dv_counter_clr h \<longleftrightarrow> dv_state h = Write_start" "dv_counter_en h \<longleftrightarrow> dv_state h = Write_next"
    using h by (simp_all add: settled_def)
  then show ?thesis
    using m nx settled_clk [OF h, of q] params_clk [OF _ q, of base b h]
    by (simp add: moving_def clk_state clk_counter clk_latched [OF h])
qed

lemma span_eq:
  assumes "k \<le> n" and "n < 512"
  shows "(span k :: u16) = span n \<longleftrightarrow> k = n"
proof -
  have "unat (span i :: u16) = 128 * i" if "i < 512" for i
    unfolding span_def using that by (simp only: unat_of_nat) simp
  then have "unat (span k :: u16) = 128 * k" "unat (span n :: u16) = 128 * n" using assms by simp_all
  then show ?thesis by (metis mult_cancel1 zero_neq_numeral)
qed

lemma moving_next:
  assumes "moving Write_next k n base b mi h" and "k \<le> n" and "n < 512"
  shows "dv_next_state h = (if k = n then Write_done else Write_one)"
    and "dv_off h = span k" and "dv_ptr h = base + span k"
proof -
  have h: "settled h" "dv_state h = Write_next" "dv_counter_reg h = of_nat k" "dv_size h = span n" "dv_addr h = base"
    using assms(1) by (simp_all add: moving_def)
  show off: "dv_off h = span k" using h(1,3) by (simp add: settled_def block_offset offset_of)
  show "dv_next_state h = (if k = n then Write_done else Write_one)"
    using h(1,2,4) span_eq [OF assms(2,3)] by (simp add: settled_def next_state_def flip: off)
  show "dv_ptr h = base + span k" using h(1,5) off ucast_span [of k] assms(2,3) by (simp add: settled_def)
qed

section \<open>A transfer\<close>

lemma movingD: "moving st k n base b mi h \<Longrightarrow> settled h \<and> dv_state h = st \<and> params base b h"
  by (simp add: moving_def)

lemma moving_table: "moving st k n base b mi h \<Longrightarrow> dv_next_state h = next_state h \<and> dv_state h = st"
  by (simp add: moving_def settled_def)

lemma moving_mwr: "moving Write_one k n base b mi h \<Longrightarrow> dma_mwr h = [blk b (dv_mwr_addr h)]"
  using movingD mwr_one by blast

text \<open>From one block to the next.\<close>

lemma moving_block:
  assumes m: "moving Write_next k n base b mi h" and k: "k < n" "n < 512" and q: "keeps q" "keeps q'"
  shows "moving Write_next (Suc k) n base b mi (dma_clk q' (dma_clk q h))"
    and "sent (dma_trace [q, q'] h) = [blk b (base + span k)]" and "silent (dma_trace [q, q'] h)"
proof -
  note n = moving_next [OF m less_imp_le [OF k(1)] k(2)]
  have nx: "dv_next_state h = Write_one" using n(1) k(1) by simp
  have m1: "moving Write_one (Suc k) n base b mi (dma_clk q h)" using moving_step [OF m q(1)] nx by simp
  have "dv_next_state (dma_clk q h) = Write_next" using moving_table [OF m1] by (simp add: next_state_def)
  then show "moving Write_next (Suc k) n base b mi (dma_clk q' (dma_clk q h))" using moving_step [OF m1 q(2)] by simp
  have h: "settled h" "dv_state h = Write_next" using m by (simp_all add: moving_def)
  have "dv_mwr_addr (dma_clk q h) = base + span k" using clk_latched(4) [OF h(1) nx] n(3) by simp
  then show "sent (dma_trace [q, q'] h) = [blk b (base + span k)]"
    using moving_mwr [OF m1] h by (simp add: mwr_other)
  show "silent (dma_trace [q, q'] h)" using movingD [OF m1] h by (simp add: settled_ack)
qed

lemma moving_loop:
  assumes "moving Write_next k n base b mi h" and "k \<le> n" and "n < 512" and "\<forall>q\<in>set qs. keeps q" and "length qs = 2 * (n - k)"
  shows "moving Write_next n n base b mi (fold dma_clk qs h) \<and>
     sent (dma_trace qs h) = map (\<lambda>i. blk b (base + span i)) [k..<n] \<and> silent (dma_trace qs h)"
  using assms
proof (induction "n - k" arbitrary: k h qs)
  case 0
  then show ?case by simp
next
  case (Suc d)
  have k: "k < n" "d = n - Suc k" "Suc k \<le> n" using Suc.hyps(2) by simp_all
  then have "length qs = Suc (Suc (2 * d))" using Suc.prems(5) by simp
  then obtain q q' qs' where qs: "qs = q # q' # qs'" "length qs' = 2 * d" by (auto simp: length_Suc_conv)
  have q: "keeps q" "keeps q'" "\<forall>q\<in>set qs'. keeps q" using Suc.prems(4) qs(1) by simp_all
  note m = moving_block [OF Suc.prems(1) k(1) Suc.prems(3) q(1,2)]
  have "dma_trace qs h = dma_trace [q, q'] h @ dma_trace qs' (dma_clk q' (dma_clk q h))" by (simp add: qs(1))
  moreover have "map (\<lambda>i. blk b (base + span i)) [k..<n] = blk b (base + span k) # map (\<lambda>i. blk b (base + span i)) [Suc k..<n]"
    using k(1) by (simp add: upt_conv_Cons)
  ultimately show ?case
    using Suc.hyps(1) [OF k(2) m(1) k(3) Suc.prems(3) q(3)] m(2,3) qs k(2) by simp
qed

text \<open>
  The blocks of a run. The first goes to the offset that the run before left, since the address is
  taken before the pointer follows the counter.
\<close>

definition run_blocks :: "nat \<Rightarrow> u64 \<Rightarrow> u64 \<Rightarrow> u16 \<Rightarrow> (u64 \<times> 1024 word \<times> u16) list" where
  "run_blocks n base b stale = blk b (base + ucast stale) # map (\<lambda>i. blk b (base + span i)) [0..<n]"

lemma moving_run:
  assumes m: "moving Write_start k n base b mi h" and n: "n < 512" and q: "\<forall>q\<in>set (q1 # q2 # qs @ [q3]). keeps q"
    and l: "length qs = 2 * n"
  defines "h1 \<equiv> dma_clk q1 h" and "h' \<equiv> fold dma_clk qs (dma_clk q2 (dma_clk q1 h))"
  shows "moving Write_next n n base b mi h'" and "moving Write_done (Suc n) n base b mi (dma_clk q3 h')"
    and "sent (dma_trace (q1 # q2 # qs @ [q3]) h) = run_blocks n base b (dv_off h)"
    and "silent (dma_trace (q1 # q2 # qs @ [q3]) h)"
    and "dv_sta_set_data (dma_clk q3 h') = set_low (word_cat (0x8000 :: u16) (span n :: u16)) (dv_sta_set_data h')"
proof -
  have qq: "keeps q1" "keeps q2" "\<forall>q\<in>set qs. keeps q" "keeps q3" using q by simp_all
  have nx: "dv_next_state h = Write_one" using moving_table [OF m] by (simp add: next_state_def)
  have m1: "moving Write_one 0 n base b mi h1" using moving_step [OF m qq(1)] nx by (simp add: h1_def)
  have nx1: "dv_next_state h1 = Write_next" using moving_table [OF m1] by (simp add: next_state_def)
  have m2: "moving Write_next 0 n base b mi (dma_clk q2 h1)" using moving_step [OF m1 qq(2)] nx1 by simp
  have loop: "moving Write_next n n base b mi h' \<and> sent (dma_trace qs (dma_clk q2 h1)) = map (\<lambda>i. blk b (base + span i)) [0..<n] \<and>
     silent (dma_trace qs (dma_clk q2 h1))"
    using moving_loop [OF m2 _ n qq(3)] l by (simp add: h'_def h1_def)
  show m': "moving Write_next n n base b mi h'" using loop by simp
  note nn = moving_next [OF m' le_refl n]
  show "moving Write_done (Suc n) n base b mi (dma_clk q3 h')" using moving_step [OF m' qq(4)] nn(1) by simp
  have h: "settled h" "dv_state h = Write_start" "dv_addr h = base" "settled h'" "dv_state h' = Write_next"
    using m m' by (simp_all add: moving_def)
  show "dv_sta_set_data (dma_clk q3 h') = set_low (word_cat (0x8000 :: u16) (span n :: u16)) (dv_sta_set_data h')"
    using clk_latched(5) [OF h(4)] nn by simp
  have tr: "dma_trace (q1 # q2 # qs @ [q3]) h = [h, h1] @ dma_trace qs (dma_clk q2 h1) @ [h']"
    by (simp add: trace_append h1_def h'_def)
  have "dv_mwr_addr h1 = base + ucast (dv_off h)"
    using clk_latched(4) [OF h(1) nx] h(1,3) by (simp add: h1_def settled_def)
  then show "sent (dma_trace (q1 # q2 # qs @ [q3]) h) = run_blocks n base b (dv_off h)"
    unfolding tr using loop h moving_mwr [OF m1] by (simp add: mwr_other run_blocks_def)
  show "silent (dma_trace (q1 # q2 # qs @ [q3]) h)"
    unfolding tr using loop h movingD [OF m1] by (simp add: settled_ack)
qed

section \<open>From the request to the acknowledgement\<close>

definition ctl_is :: "u64 \<Rightarrow> u64 \<Rightarrow> dma_hw \<Rightarrow> bool" where
  "ctl_is x y h \<longleftrightarrow> wo_data (dv_ctl h) = x \<and> wo_out (dv_ctl h) = y"

definition ready :: "u64 \<Rightarrow> u64 \<Rightarrow> dma_hw \<Rightarrow> bool" where
  "ready base b h \<longleftrightarrow> settled h \<and> dv_state h = Idle \<and> ctl_is 0 0 h \<and> params base b h"

text \<open>A write of the control register.\<close>

definition sets_ctl :: "u64 \<Rightarrow> sb_req \<Rightarrow> bool" where
  "sets_ctl x q \<longleftrightarrow> rq_en q \<and> rq_wr q \<and> rq_bar q = 1 \<and> rq_addr q = 0 \<and> rq_data q = x"

definition no_write :: "sb_req \<Rightarrow> bool" where
  "no_write q \<longleftrightarrow> \<not> (rq_en q \<and> rq_wr q)"

lemma sets_ctl_keeps: "sets_ctl x q \<Longrightarrow> keeps q"
  by (simp add: sets_ctl_def keeps_def)

lemma no_write_keeps: "no_write q \<Longrightarrow> keeps q"
  by (auto simp: no_write_def keeps_def)

lemma ctl_held:
  "sets_ctl x q \<Longrightarrow> settled h \<Longrightarrow> dv_state h \<noteq> Write_start \<Longrightarrow> ctl_is x (wo_data (dv_ctl h)) (dma_clk q h)"
  by (simp add: ctl_is_def clk_regs reg_wo_clk_def sets_ctl_def settled_def bar_addr_cmp_def)

lemma ctl_left:
  "no_write q \<Longrightarrow> settled h \<Longrightarrow> ctl_is (if dv_state h = Write_start then 0 else wo_data (dv_ctl h)) (wo_data (dv_ctl h)) (dma_clk q h)"
  by (auto simp: ctl_is_def clk_regs reg_wo_clk_def no_write_def settled_def)

lemma ctl_zero: "ctl_is 0 0 h \<Longrightarrow> no_write q \<Longrightarrow> ctl_is 0 0 (dma_clk q h)"
  by (auto simp: ctl_is_def clk_regs reg_wo_clk_def no_write_def)

lemma ctl_zeros: "\<forall>q\<in>set qs. no_write q \<Longrightarrow> ctl_is 0 0 h \<Longrightarrow> ctl_is 0 0 (fold dma_clk qs h)"
  by (induction qs arbitrary: h) (simp_all add: ctl_zero)

lemma counter_nat: "\<exists>k. (c :: u16) = of_nat k"
  by (metis word_nat_cases)

text \<open>The command is in both stages of its register: the run begins.\<close>

lemma run_begins:
  assumes h: "settled h" "dv_state h = Idle" "ctl_is x x h" "params base b h" and x: "bit x 31" "ucast x = (span n :: u16)"
    and q: "keeps q"
  obtains k where "moving Write_start k n base b (bit x 30) (dma_clk q h)" and "dv_off (dma_clk q h) = dv_off h"
    and "sent (dma_trace [q] h) = []" and "silent (dma_trace [q] h)"
proof -
  obtain k where k: "dv_counter_reg h = of_nat k" using counter_nat by blast
  have nx: "dv_next_state h = Write_start" using h x(1) by (simp add: settled_def next_state_def ctl_is_def)
  have c: "\<not> dv_counter_clr h" "\<not> dv_counter_en h" using h(1,2) by (simp_all add: settled_def)
  have "moving Write_start k n base b (bit x 30) (dma_clk q h)"
    unfolding moving_def
    using settled_clk [OF h(1)] params_clk [OF h(4) q] h(3,4) x(2) nx c
    by (simp add: clk_state clk_counter clk_latched [OF h(1)] k ctl_is_def params_def)
  moreover have "dv_off (dma_clk q h) = dv_off h"
    using settled_clk [OF h(1), of q] h(1) c by (simp add: settled_def clk_counter)
  ultimately show ?thesis using that h by (simp add: mwr_other settled_ack)
qed

lemma run_ends:
  assumes m: "moving Write_done k n base b mi h" and q: "keeps q"
  shows "settled (dma_clk q h)" "dv_state (dma_clk q h) = Idle" "params base b (dma_clk q h)"
    "dv_off (dma_clk q h) = span k" "sent (dma_trace [q] h) = []" "dv_req_ack h" "dv_msi_en h = mi"
proof -
  have nx: "dv_next_state h = Idle" using moving_table [OF m] by (simp add: next_state_def)
  have "moving Idle k n base b mi (dma_clk q h)" using moving_step [OF m q] nx by simp
  then show "settled (dma_clk q h)" "dv_state (dma_clk q h) = Idle" "params base b (dma_clk q h)" "dv_off (dma_clk q h) = span k"
    by (simp_all add: moving_def settled_def block_offset offset_of)
  show "sent (dma_trace [q] h) = []" "dv_req_ack h" "dv_msi_en h = mi"
    using m by (simp_all add: moving_def mwr_other settled_ack)
qed

lemma silent_maps:
  assumes "silent hs"
  shows "map dv_req_ack hs = replicate (length hs) False" and "map dv_msi_en hs = replicate (length hs) False"
  using assms by (induction hs) simp_all

lemma trace_length [simp]: "length (dma_trace qs h) = length qs"
  by (induction qs arbitrary: h) simp_all

lemma set_low_half: "(ucast (set_low x y) :: u32) = x"
  by (rule bit_word_eqI) (simp add: set_low_def bit_ucast_iff bit_word_cat_iff)

text \<open>What is seen until the acknowledgement, and the state that makes it.\<close>

definition run_done :: "nat \<Rightarrow> u64 \<Rightarrow> u64 \<Rightarrow> bool \<Rightarrow> dma_hw \<Rightarrow> bool" where
  "run_done n base b mi h \<longleftrightarrow> moving Write_done (Suc n) n base b mi h \<and>
     ucast (dv_sta_set_data h) = (word_cat (0x8000 :: u16) (span n :: u16) :: u32)"

lemma run_whole:
  assumes h: "settled h" "dv_state h = Idle" "ctl_is x x h" "params base b h" and x: "bit x 31" "ucast x = (span n :: u16)"
    and n: "n < 512" and q: "\<forall>q\<in>set qs. keeps q" and l: "length qs = 4 + 2 * n"
  shows "run_done n base b (bit x 30) (fold dma_clk qs h)" and "sent (dma_trace qs h) = run_blocks n base b (dv_off h)"
    and "silent (dma_trace qs h)"
proof -
  have "length qs = Suc (Suc (Suc (Suc (2 * n))))" using l by simp
  then obtain q1 q2 q3 qs' where qs1: "qs = q1 # q2 # q3 # qs'" "length qs' = Suc (2 * n)" by (auto simp: length_Suc_conv)
  obtain qs'' q4 where qs2: "qs' = qs'' @ [q4]" "length qs'' = 2 * n" using qs1(2) by (cases qs' rule: rev_cases) auto
  note qs = qs1(1) [unfolded qs2(1)]
  have k: "keeps q1" "\<forall>q\<in>set (q2 # q3 # qs'' @ [q4]). keeps q" using q unfolding qs by simp_all
  obtain c where c: "moving Write_start c n base b (bit x 30) (dma_clk q1 h)" "dv_off (dma_clk q1 h) = dv_off h"
    "sent (dma_trace [q1] h) = []" "silent (dma_trace [q1] h)" by (rule run_begins [OF h x k(1)])
  note r = moving_run [OF c(1) n k(2) qs2(2)]
  have f: "fold dma_clk qs h = dma_clk q4 (fold dma_clk qs'' (dma_clk q3 (dma_clk q2 (dma_clk q1 h))))" by (simp add: qs)
  show "run_done n base b (bit x 30) (fold dma_clk qs h)" unfolding f run_done_def using r(2) by (simp add: r(5) set_low_half)
  have t: "dma_trace qs h = dma_trace [q1] h @ dma_trace (q2 # q3 # qs'' @ [q4]) (dma_clk q1 h)" unfolding qs by simp
  show "sent (dma_trace qs h) = run_blocks n base b (dv_off h)" unfolding t sent_simps(3) c(3) r(3) c(2) by simp
  show "silent (dma_trace qs h)" unfolding t silent_simps(3) using c(4) r(4) by simp
qed

text \<open>The request is held: two edges bring the command to both stages.\<close>

lemma first_run:
  assumes r: "ready base b h" and q: "sets_ctl x q" and x: "bit x 31" "ucast x = (span n :: u16)" and n: "n < 512"
  defines "h1 \<equiv> dma_clk q (dma_clk q h)"
  shows "settled h1" "dv_state h1 = Idle" "ctl_is x x h1" "params base b h1" "dv_off h1 = dv_off h"
    "sent (dma_trace [q, q] h) = []" "silent (dma_trace [q, q] h)"
proof -
  have h: "settled h" "dv_state h = Idle" "ctl_is 0 0 h" "params base b h" using r by (simp_all add: ready_def)
  let ?h = "dma_clk q h"
  have nx: "dv_next_state h = Idle" using h by (simp add: settled_def next_state_def ctl_is_def)
  have 1: "settled ?h" "dv_state ?h = Idle" "ctl_is x 0 ?h" "params base b ?h"
    using settled_clk [OF h(1)] nx ctl_held [OF q h(1)] h params_clk [OF h(4) sets_ctl_keeps [OF q]]
    by (simp_all add: clk_state ctl_is_def)
  have nx1: "dv_next_state ?h = Idle" using 1 by (simp add: settled_def next_state_def ctl_is_def)
  show s: "settled h1" using settled_clk [OF 1(1)] by (simp add: h1_def)
  show "dv_state h1 = Idle" using nx1 by (simp add: h1_def clk_state)
  show "ctl_is x x h1" using ctl_held [OF q 1(1)] 1(2,3) by (simp add: h1_def ctl_is_def)
  show "params base b h1" using params_clk [OF 1(4) sets_ctl_keeps [OF q]] by (simp add: h1_def)
  have "\<not> dv_counter_clr h" "\<not> dv_counter_en h" "\<not> dv_counter_clr ?h" "\<not> dv_counter_en ?h"
    using h(1,2) 1(1,2) by (simp_all add: settled_def)
  then have "dv_counter_reg h1 = dv_counter_reg h" by (simp add: h1_def clk_counter)
  then show "dv_off h1 = dv_off h" using s h(1) by (simp add: settled_def)
  show "sent (dma_trace [q, q] h) = []" "silent (dma_trace [q, q] h)" using h 1 by (simp_all add: mwr_other settled_ack)
qed

text \<open>Where the control register is cleared and not written again.\<close>

lemma second_ctl:
  assumes h: "settled h" "dv_state h = Idle" "ctl_is x x h" "bit x 31" and q: "\<forall>q\<in>set (q1 # q2 # q3 # qs). no_write q"
  shows "ctl_is 0 0 (fold dma_clk (q1 # q2 # q3 # qs) h)"
proof -
  let ?h1 = "dma_clk q1 h" let ?h2 = "dma_clk q2 ?h1"
  have "dv_next_state h = Write_start" using h by (simp add: settled_def next_state_def ctl_is_def)
  then have 1: "settled ?h1" "dv_state ?h1 = Write_start" using settled_clk [OF h(1)] by (simp_all add: clk_state)
  then have "dv_next_state ?h1 = Write_one" by (simp add: settled_def next_state_def)
  then have 2: "settled ?h2" "dv_state ?h2 = Write_one" using settled_clk [OF 1(1)] by (simp_all add: clk_state)
  have "wo_data (dv_ctl ?h2) = 0" using ctl_left [of q2 ?h1] q 1 by (simp add: ctl_is_def)
  then have "ctl_is 0 0 (dma_clk q3 ?h2)" using ctl_left [of q3 ?h2] q 2 by (simp add: ctl_is_def)
  then show ?thesis using ctl_zeros [of qs] q by simp
qed

lemma trace_acks:
  assumes "silent (dma_trace qs h)" and "settled (fold dma_clk qs h)" and "dv_state (fold dma_clk qs h) = Write_done"
  shows "map dv_req_ack (dma_trace (qs @ [q]) h) = replicate (length qs) False @ [True]"
    and "map dv_msi_en (dma_trace (qs @ [q]) h) = replicate (length qs) False @ [dv_dma_msi_en (fold dma_clk qs h)]"
  using silent_maps [OF assms(1)] settled_ack [OF assms(2)] assms(3) by (simp_all add: trace_append)

lemma run_doneD:
  assumes "run_done n base b mi h"
  shows "moving Write_done (Suc n) n base b mi h" "settled h" "dv_state h = Write_done" "dv_dma_msi_en h = mi"
    "dv_sta_set_en h" "ucast (dv_sta_set_data h) = (word_cat (0x8000 :: u16) (span n :: u16) :: u32)"
  using assms by (simp_all add: run_done_def moving_def settled_def)

lemma held_run:
  assumes "ready base b h" and "sets_ctl x q" and "bit x 31" and "ucast x = (span n :: u16)" and "n < 512"
  shows "run_done n base b (bit x 30) (fold dma_clk (replicate (6 + 2 * n) q) h)"
    and "sent (dma_trace (replicate (6 + 2 * n) q) h) = run_blocks n base b (dv_off h)"
    and "silent (dma_trace (replicate (6 + 2 * n) q) h)"
    and "wo_data (dv_ctl (fold dma_clk (replicate (6 + 2 * n) q) h)) = x"
proof -
  let ?h1 = "dma_clk q (dma_clk q h)" and ?qs = "replicate (4 + 2 * n) q"
  note f = first_run [OF assms]
  have k: "\<forall>q\<in>set ?qs. keeps q" using sets_ctl_keeps [OF assms(2)] by simp
  note w = run_whole [OF f(1-4) assms(3-5) k length_replicate]
  have e: "replicate (6 + 2 * n) q = [q, q] @ ?qs" by (simp add: numeral_eq_Suc)
  show "run_done n base b (bit x 30) (fold dma_clk (replicate (6 + 2 * n) q) h)" unfolding e using w(1) by simp
  show "sent (dma_trace (replicate (6 + 2 * n) q) h) = run_blocks n base b (dv_off h)"
    unfolding e trace_append sent_simps(3) f(6) using w(2) f(5) by simp
  show "silent (dma_trace (replicate (6 + 2 * n) q) h)"
    unfolding e trace_append silent_simps(3) using w(3) f(7) by simp
  let ?p = "fold dma_clk (replicate (5 + 2 * n) q) h"
  have "replicate (6 + 2 * n) q = replicate (5 + 2 * n) q @ [q]" by (simp add: numeral_eq_Suc replicate_append_same)
  then have p: "fold dma_clk (replicate (6 + 2 * n) q) h = dma_clk q ?p" by (simp only: fold_append comp_apply fold_simps)
  have st: "settled ?p" using assms(1) unfolding ready_def by (blast intro: settled_fold)
  moreover have "dv_state ?p \<noteq> Write_start"
  proof
    assume "dv_state ?p = Write_start"
    then have "dv_state (dma_clk q ?p) = Write_one" using st by (simp add: clk_state settled_def next_state_def)
    then show False using run_doneD(3) [OF w(1)] p e by simp
  qed
  ultimately show "wo_data (dv_ctl (fold dma_clk (replicate (6 + 2 * n) q) h)) = x"
    unfolding p using ctl_held [OF assms(2)] by (simp add: ctl_is_def)
qed

text \<open>
  C16. The engine in VHDL, from a command for \<open>n\<close> blocks whose request is held until it is acknowledged,
  as the endpoint does. The buffer receives its \<open>n\<close> blocks, the status and the interrupt are those of a
  transfer, and the acknowledgement comes after a fixed number of edges. But a block more is
  written first, at the offset where the transfer before ended; and the command, written into its
  register again while it is held, runs a second time, with a second interrupt and its first block
  beyond the end of the buffer.
\<close>

theorem vhdl_dma_runs_twice:
  assumes "ready base b h" and "sets_ctl x q" and "bit x 31" and "ucast x = (of_nat (128 * n) :: u16)" and "n < 512"
    and "\<forall>q'\<in>set qs. no_write q'" and "length qs = 5 + 2 * n"
  shows "let hs = dma_trace (replicate (7 + 2 * n) q) h; h1 = fold dma_clk (replicate (7 + 2 * n) q) h;
       hs' = dma_trace qs h1; h2 = fold dma_clk qs h1 in
     sent hs = run_blocks n base b (dv_off h) \<and>
     map dv_req_ack hs = replicate (6 + 2 * n) False @ [True] \<and>
     map dv_msi_en hs = replicate (6 + 2 * n) False @ [bit x 30] \<and>
     ucast (ro_data (dv_sta h1)) = (word_cat (0x8000 :: u16) (ucast x :: u16) :: u32) \<and>
     sent hs' = run_blocks n base b (of_nat (128 * (n + 1))) \<and>
     map dv_msi_en hs' = replicate (4 + 2 * n) False @ [bit x 30] \<and> ready base b h2"
proof -
  let ?r = "replicate (6 + 2 * n) q" let ?d = "fold dma_clk ?r h" let ?h1 = "dma_clk q ?d"
  have x: "ucast x = (span n :: u16)" using assms(4) by (simp only: span_def)
  note k = sets_ctl_keeps [OF assms(2)] and r = held_run [OF assms(1-3) x assms(5)]
  note d = run_doneD [OF r(1)] and i = run_ends [OF run_doneD(1) [OF r(1)] sets_ctl_keeps [OF assms(2)]]
  have e: "replicate (7 + 2 * n) q = ?r @ [q]" by (simp add: numeral_eq_Suc replicate_append_same)
  have c1: "ctl_is x x ?h1" using ctl_held [OF assms(2) d(2)] d(3) r(4) by (simp add: ctl_is_def)
  have "length qs = Suc (4 + 2 * n)" using assms(7) by simp
  then obtain qs' q' where qs: "qs = qs' @ [q']" "length qs' = 4 + 2 * n" by (metis length_Suc_conv_rev)
  have k': "\<forall>q\<in>set qs'. keeps q" "keeps q'" "\<forall>q\<in>set qs'. no_write q" "no_write q'"
    using assms(6) qs(1) by (simp_all add: no_write_keeps)
  note w = run_whole [OF i(1,2) c1 i(3) assms(3) x assms(5) k'(1) qs(2)]
  let ?d' = "fold dma_clk qs' ?h1"
  note d' = run_doneD [OF w(1)] and i' = run_ends [OF run_doneD(1) [OF w(1)] k'(2)]
  have "length qs' = Suc (Suc (Suc (1 + 2 * n)))" using qs(2) by simp
  then obtain p1 p2 p3 ps where ps: "qs' = p1 # p2 # p3 # ps" by (auto simp: length_Suc_conv)
  have "ctl_is 0 0 ?d'" using second_ctl [OF i(1,2) c1 assms(3)] k'(3) ps by simp
  then have ry: "ready base b (dma_clk q' ?d')" using i'(1-3) ctl_zero k'(4) by (simp add: ready_def)
  have sta: "ro_data (dv_sta ?h1) = dv_sta_set_data ?d" using d(5) by (simp add: clk_regs reg_ro_clk_def Let_def)
  have "sent (dma_trace (?r @ [q]) h) = run_blocks n base b (dv_off h)"
    unfolding trace_append sent_simps(3) i(5) using r(2) by simp
  moreover have "sent (dma_trace qs ?h1) = run_blocks n base b (span (Suc n))"
    unfolding qs(1) trace_append sent_simps(3) i'(5) using w(2) i(4) by simp
  moreover have "fold dma_clk (?r @ [q]) h = ?h1" "fold dma_clk qs ?h1 = dma_clk q' ?d'" by (simp_all add: qs(1))
  moreover have "(span (Suc n) :: u16) = of_nat (128 * (n + 1))" by (simp only: span_def Suc_eq_plus1)
  ultimately show ?thesis
    unfolding e Let_def
    using trace_acks [OF r(3) d(2,3), of q] d(4) sta d(6) ry trace_acks(2) [OF w(3) d'(2,3), of q', folded qs(1)] d'(4) qs(2)
    by (simp only: x length_replicate simp_thms)
qed

section \<open>When a transfer ends\<close>

text \<open>A transfer whose size is not a number of blocks: the offset never meets it.\<close>

definition endless :: "u64 \<Rightarrow> dma_hw \<Rightarrow> bool" where
  "endless x h \<longleftrightarrow> settled h \<and> dv_state h \<noteq> Write_done \<and>
     (dv_state h = Idle \<longrightarrow> wo_out (dv_ctl h) \<in> {0, x} \<and> (wo_out (dv_ctl h) = x \<longrightarrow> wo_data (dv_ctl h) = x) \<and>
        wo_data (dv_ctl h) \<in> {0, x}) \<and>
     (dv_state h \<noteq> Idle \<longrightarrow> dv_size h = ucast x)"

lemma offset_blocks: "128 dvd unat (push_bit 7 (c :: u16))"
proof -
  have "unat (push_bit 7 c) = (128 * unat c) mod 2 ^ 16" by (simp add: push_bit_eq_mult unat_word_ariths mult.commute)
  then show ?thesis by (simp add: dvd_mod)
qed

lemma endless_clk:
  assumes e: "endless x h" and q: "sets_ctl x q" and x: "bit x 31" "\<not> 128 dvd unat (ucast x :: u16)"
  shows "endless x (dma_clk q h)"
proof -
  have h: "settled h" "dv_state h \<noteq> Write_done" using e by (simp_all add: endless_def)
  have d: "dv_state h = Write_next \<Longrightarrow> dv_off h \<noteq> dv_size h"
    using e x(2) offset_blocks [of "dv_counter_reg h"] by (auto simp: endless_def settled_def block_offset)
  have c: "dv_state h \<noteq> Write_start \<Longrightarrow> wo_data (dv_ctl (dma_clk q h)) = x \<and> wo_out (dv_ctl (dma_clk q h)) = wo_data (dv_ctl h)"
    using ctl_held [OF q h(1)] by (simp add: ctl_is_def)
  have n: "dv_next_state h = next_state h" using h(1) by (simp add: settled_def)
  show ?thesis
    using e settled_clk [OF h(1), of q] d c x(1) h(2)
    by (cases "dv_state h") (auto simp: endless_def clk_state clk_latched [OF h(1)] n next_state_def)
qed

lemma endless_run:
  "endless x h \<Longrightarrow> sets_ctl x q \<Longrightarrow> bit x 31 \<Longrightarrow> \<not> 128 dvd unat (ucast x :: u16) \<Longrightarrow> endless x (fold dma_clk (replicate k q) h)"
proof (induction k arbitrary: h)
  case (Suc k)
  then show ?case using endless_clk [OF Suc.prems] by (simp del: fold_replicate)
qed simp

text \<open>
  C17. A command that is held is acknowledged exactly when its size is a number of blocks. Any other
  transfer goes on for ever, over the whole range of the offset.
\<close>

theorem vhdl_dma_ends_iff:
  assumes "ready base b h" and "sets_ctl x q" and "bit x 31"
  shows "(\<exists>k. dv_req_ack (fold dma_clk (replicate k q) h)) \<longleftrightarrow> 128 dvd unat (ucast x :: u16)"
proof
  assume "\<exists>k. dv_req_ack (fold dma_clk (replicate k q) h)"
  then obtain k where k: "dv_req_ack (fold dma_clk (replicate k q) h)" by blast
  have "endless x h" using assms(1,3) by (auto simp: ready_def endless_def ctl_is_def)
  then show "128 dvd unat (ucast x :: u16)"
    using endless_run [OF _ assms(2,3), of h k] k by (auto simp: endless_def settled_def)
next
  assume "128 dvd unat (ucast x :: u16)"
  then obtain n where n: "unat (ucast x :: u16) = 128 * n" by blast
  have "unat (ucast x :: u16) < 2 ^ LENGTH(16)" by (rule unsigned_less)
  then have lt: "n < 512" using n by simp
  have "ucast x = (span n :: u16)" unfolding span_def n [symmetric] by simp
  from run_doneD [OF held_run(1) [OF assms this lt]] have "dv_req_ack (fold dma_clk (replicate (6 + 2 * n) q) h)"
    by (simp add: settled_ack)
  then show "\<exists>k. dv_req_ack (fold dma_clk (replicate k q) h)" by blast
qed

section \<open>Examples\<close>

text \<open>Three blocks to an address, with an interrupt; and a size that is not a number of blocks.\<close>

definition dma_with :: "u64 \<Rightarrow> u64 \<Rightarrow> u64 \<Rightarrow> dma_hw" where
  "dma_with l h b = (let r = (\<lambda>x. \<lparr>wo_data = x, wo_out = x\<rparr>) in
     \<lparr>dv_ctl = r 0, dv_sta = \<lparr>ro_data = 0, ro_rep_en = False, ro_rep_data = 0, ro_out = 0\<rparr>, dv_adl = r l, dv_adh = r h,
      dv_baz = r b, dv_sta_set_en = False, dv_sta_set_data = 0, dv_ctl_clr_en = False, dv_state = Idle,
      dv_next_state = Idle, dv_addr = 0, dv_size = 0, dv_dma_msi_en = False, dv_ptr = 0, dv_off = 0, dv_counter_reg = 0,
      dv_counter_clr = False, dv_counter_en = False, dv_req_ack = False, dv_mwr_en = False, dv_mwr_addr = 0,
      dv_mwr_size = 0, dv_msi_en = False\<rparr>)"

abbreviation ex_dma :: dma_hw where "ex_dma \<equiv> dma_with 0x1000 2 0x2a"

lemma dma_with_settled: "settled (dma_with l h b)"
  by (simp add: dma_with_def settled_def next_state_def block_offset Let_def)

definition ex_req :: "u64 \<Rightarrow> sb_req" where
  "ex_req x = \<lparr>rq_en = True, rq_wr = True, rq_bar = 1, rq_addr = 0, rq_data = x\<rparr>"

lemma ex_dma_ready: "ready 0x200001000 0x2a ex_dma"
proof -
  have "word_cat (2 :: u32) (0x1000 :: u32) = (0x200001000 :: u64)" by code_simp
  then show ?thesis
    by (simp add: ready_def dma_with_settled) (simp add: dma_with_def ctl_is_def params_def Let_def)
qed

lemma ex_req_sets: "sets_ctl x (ex_req x)"
  by (simp add: sets_ctl_def ex_req_def)

theorem vhdl_dma_runs_twice_witness:
  "let h1 = fold dma_clk (replicate 13 (ex_req 0xC0000180)) ex_dma; h2 = fold dma_clk (replicate 11 sb_idle) h1 in
     sent (dma_trace (replicate 13 (ex_req 0xC0000180)) ex_dma) = map (blk 0x2a) [0x200001000, 0x200001000, 0x200001080, 0x200001100] \<and>
     sent (dma_trace (replicate 11 sb_idle) h1) = map (blk 0x2a) [0x200001200, 0x200001000, 0x200001080, 0x200001100] \<and>
     ready 0x200001000 0x2a h2"
proof -
  have x: "bit (0xC0000180 :: u64) 31" "ucast (0xC0000180 :: u64) = (of_nat (128 * 3) :: u16)" by (simp, simp)
  have q: "\<forall>q'\<in>set (replicate 11 sb_idle). no_write q'" "length (replicate 11 sb_idle) = 5 + 2 * 3"
    by (simp_all add: no_write_def sb_idle_def)
  have "(3 :: nat) < 512" by simp
  note t = vhdl_dma_runs_twice [OF ex_dma_ready ex_req_sets x this q, unfolded Let_def]
  have "dv_off ex_dma = 0" by (simp add: dma_with_def Let_def)
  then have "run_blocks 3 0x200001000 0x2a (dv_off ex_dma) = map (blk 0x2a) [0x200001000, 0x200001000, 0x200001080, 0x200001100]"
    "run_blocks 3 0x200001000 0x2a (of_nat (128 * (3 + 1))) = map (blk 0x2a) [0x200001200, 0x200001000, 0x200001080, 0x200001100]"
    by (simp_all add: run_blocks_def span_def upt_rec)
  then show ?thesis using t by (simp add: Let_def)
qed

theorem vhdl_dma_ends_iff_witness:
  "(\<exists>k. dv_req_ack (fold dma_clk (replicate k (ex_req 0x80000180)) ex_dma)) \<and>
   \<not> (\<exists>k. dv_req_ack (fold dma_clk (replicate k (ex_req 0x80000181)) ex_dma))"
proof -
  have b: "bit (0x80000180 :: u64) 31" "bit (0x80000181 :: u64) 31" by (simp, simp)
  show ?thesis
    unfolding vhdl_dma_ends_iff [OF ex_dma_ready ex_req_sets b(1)] vhdl_dma_ends_iff [OF ex_dma_ready ex_req_sets b(2)]
    by simp
qed

end
