(* ===== verification/Vhdl_Dma_System.thy ===== *)
theory Vhdl_Dma_System
  imports Vhdl_Dma
begin

text \<open>
  The engine in VHDL as it is simulated: the endpoint (\<open>Vhdl_Endpoint\<close>) wired to the engine
  (\<open>Vhdl_Dma\<close>) as in \<open>dma/hw/d_in_vhdl/main.vhdl\<close>, with the network thread running beside it.
\<close>

section \<open>The device and the network thread\<close>

text \<open>\<open>ds_msis\<close> counts the interrupts sent, and \<open>ds_mwrs\<close> lists the memory writes.\<close>

record dsys =
  ds_g :: glue_sys
  ds_ep :: endpoint
  ds_hw :: dma_hw
  ds_msis :: nat
  ds_mwrs :: "(u64 \<times> 1024 word \<times> u16) list"

definition dsys_in :: "dma_hw \<Rightarrow> ep_in" where
  "dsys_in h = \<lparr>in_ack = dv_req_ack h, in_rep = (ro_rep_en (dv_sta h), ro_rep_data (dv_sta h)),
     in_mwr = dv_mwr_en h, in_mwr_addr = dv_mwr_addr h, in_mwr_data = dv_mwr_data h,
     in_mwr_size = dv_mwr_size h, in_msi = dv_msi_en h\<rparr>"

definition dsys_clk :: "nat \<times> net_msg \<Rightarrow> nat \<times> net_msg \<Rightarrow> dsys \<Rightarrow> dsys option" where
  "dsys_clk m m' s = do {
     (ep, g) \<leftarrow> endpoint_clk m m' (dsys_in (ds_hw s)) (ds_ep s) (ds_g s);
     Some (s\<lparr>ds_g := g, ds_ep := ep, ds_hw := dma_clk (ep_req (ds_ep s)) (ds_hw s),
       ds_msis := ds_msis s + (if dv_msi_en (ds_hw s) then 1 else 0), ds_mwrs := ds_mwrs s @ dma_mwr (ds_hw s)\<rparr>)
   }"

inductive dsys_step :: "dsys \<Rightarrow> dsys \<Rightarrow> bool" where
  net: "net_step (ds_g s) g \<Longrightarrow> dsys_step s (s\<lparr>ds_g := g\<rparr>)"
| clk: "\<lbrakk>g_heap (gs_c (ds_g s)) a = None; g_heap (gs_c (ds_g s)) b = None; dsys_clk (a, j) (b, k) s = Some s'\<rbrakk> \<Longrightarrow>
    dsys_step s s'"

text \<open>After the reset the registers are zero, the engine is idle, and its signals have settled.\<close>

definition dma_reset :: "dma_hw \<Rightarrow> bool" where
  "dma_reset h \<longleftrightarrow> settled h \<and> dv_state h = Idle \<and> ctl_is 0 0 h \<and> ro_data (dv_sta h) = 0 \<and> \<not> ro_rep_en (dv_sta h) \<and>
     wo_data (dv_adl h) = 0 \<and> wo_data (dv_adh h) = 0 \<and> wo_data (dv_baz h) = 0 \<and> dv_counter_reg h = 0"

inductive dsys_reach :: "dsys \<Rightarrow> bool" where
  start: "\<lbrakk>thread_init env strtoul16 fds e self c0 = Some c; g_heap c0 = Map.empty;
      dma_reset h; \<not> ep_wait ep; \<not> rq_en (ep_req ep)\<rbrakk> \<Longrightarrow>
    dsys_reach \<lparr>ds_g = glue_start c, ds_ep = ep, ds_hw = h, ds_msis = 0, ds_mwrs = []\<rparr>"
| step: "\<lbrakk>dsys_reach s; dsys_step s s'\<rbrakk> \<Longrightarrow> dsys_reach s'"

section \<open>The invariant of the whole device\<close>

definition ds_ok :: "dsys \<Rightarrow> bool" where
  "ds_ok s \<longleftrightarrow> glue_inv (ds_g s) \<and> small (ds_g s) \<and> settled (ds_hw s)"

lemma small_same: "same_queue g g' \<Longrightarrow> small g' = small g"
  by (simp add: same_queue_def small_def)

lemma one_output: "settled h \<Longrightarrow> \<not> (in_msi (dsys_in h) \<and> in_mwr (dsys_in h))"
  by (auto simp: settled_def dsys_in_def)

lemma dsys_clk_ok:
  assumes s: "ds_ok s" and a: "g_heap (gs_c (ds_g s)) a = None" "g_heap (gs_c (ds_g s)) b = None"
  obtains s' where "dsys_clk (a, j) (b, k) s = Some s'" and "ds_ok s'" and "gs_issued (ds_g s') = gs_issued (ds_g s)"
proof -
  have h: "glue_inv (ds_g s)" "small (ds_g s)" "settled (ds_hw s)" using s by (simp_all add: ds_ok_def)
  from endpoint_before [OF h(1) a one_output [OF h(3)], of j k] obtain g' where g: "glue_inv g'" "same_queue (ds_g s) g'"
    "endpoint_outs (a, j) (b, k) (dsys_in (ds_hw s)) (ds_g s) = Some g'" by blast
  have "small g'" using small_same [OF g(2)] h(2) by simp
  from endpoint_rest_ok [OF g(1) this, of "in_ack (dsys_in (ds_hw s))" "ds_ep s"] obtain ep g'' where
    "endpoint_rest (in_ack (dsys_in (ds_hw s))) (ds_ep s) g' = Some (ep, g'')" "glue_inv g''" "gs_issued g'' = gs_issued g'" by blast
  then show ?thesis
    using that g(2,3) h(2) settled_clk [OF h(3)] by (simp add: dsys_clk_def endpoint_split ds_ok_def same_queue_def small_def)
qed

lemma dsys_net_ok: "ds_ok s \<Longrightarrow> net_step (ds_g s) g \<Longrightarrow> ds_ok (s\<lparr>ds_g := g\<rparr>)"
  using net_keeps [of "ds_g s" g] glue_step_inv [OF net_glue] by (auto simp: ds_ok_def small_def)

lemma dsys_start_ok:
  assumes "thread_init env strtoul16 fds e self c0 = Some c" "g_heap c0 = Map.empty" "dma_reset h"
  shows "ds_ok \<lparr>ds_g = glue_start c, ds_ep = ep, ds_hw = h, ds_msis = 0, ds_mwrs = []\<rparr>"
  using start_inv [OF assms(1,2)] assms(3) by (simp add: ds_ok_def dma_reset_def small_def glue_start_def)

lemma dsys_reach_ok: "dsys_reach s \<Longrightarrow> ds_ok s"
proof (induction rule: dsys_reach.induct)
  case (start env strtoul16 fds e self c0 c h ep)
  then show ?case by (intro dsys_start_ok)
next
  case (step s s')
  from step.hyps(2) show ?case
  proof cases
    case (net g)
    then show ?thesis using dsys_net_ok [OF step.IH] by simp
  next
    case (clk a b j k)
    then show ?thesis using dsys_clk_ok [OF step.IH clk(1,2), of j k] by auto
  qed
qed

section \<open>The first access decides\<close>

text \<open>An access that starts a transfer, and the first access of some bytes.\<close>

definition starts :: "bar_req \<Rightarrow> bool" where
  "starts r \<longleftrightarrow> (case r of Rd bar addr sz \<Rightarrow> False | Wr bar addr d \<Rightarrow> hits r 0 \<and> bit (of_le d :: u64) 31)"

definition is_access :: "bar_req \<Rightarrow> bool" where "is_access r \<longleftrightarrow> rd_size r \<noteq> 0"

definition no_start :: "bar_req list \<Rightarrow> bool" where
  "no_start rs \<longleftrightarrow> (\<forall>r. find is_access rs = Some r \<longrightarrow> \<not> starts r)"

lemma find_append: "find P (xs @ ys) = (case find P xs of None \<Rightarrow> find P ys | Some x \<Rightarrow> Some x)"
  by (induction xs) auto

lemma no_start_prefix: "no_start (xs @ ys) \<Longrightarrow> no_start xs"
  by (auto simp: no_start_def find_append)

lemma find_none: "\<forall>z\<in>set zs. \<not> is_access z \<Longrightarrow> find is_access zs = None"
  by (simp add: find_None_iff)

text \<open>The engine is idle and nothing has reached its control register.\<close>

definition asleep :: "dma_hw \<Rightarrow> bool" where
  "asleep h \<longleftrightarrow> settled h \<and> dv_state h = Idle \<and> \<not> bit (wo_data (dv_ctl h)) 31 \<and> \<not> bit (wo_out (dv_ctl h)) 31 \<and>
     ro_data (dv_sta h) = 0 \<and> (ro_rep_en (dv_sta h) \<longrightarrow> ro_rep_data (dv_sta h) = 0)"

lemma asleep_outputs:
  assumes "asleep h"
  shows "\<not> dv_req_ack h" "\<not> dv_msi_en h" "dma_mwr h = []"
  using assms by (simp_all add: asleep_def settled_def dma_mwr_def)

lemma asleep_clk:
  assumes h: "asleep h" and q: "sets_ctl (rq_data q) q \<Longrightarrow> \<not> bit (rq_data q) 31"
  shows "asleep (dma_clk q h)"
proof -
  have "dv_next_state h = Idle" "\<not> dv_sta_set_en h" "\<not> dv_ctl_clr_en h" "settled h"
    using h by (simp_all add: asleep_def settled_def next_state_def)
  then show ?thesis
    using h q settled_clk [of h q]
    by (auto simp: asleep_def clk_state clk_regs reg_wo_clk_def reg_ro_clk_def Let_def sets_ctl_def bar_addr_cmp_def)
qed

text \<open>What the signals show never sets the bit.\<close>

lemma asks_quiet:
  assumes "asks r q" and "\<not> starts r"
  shows "sets_ctl (rq_data q) q \<Longrightarrow> \<not> bit (rq_data q) 31"
  using assms by (cases r) (auto simp: sets_ctl_def starts_def)

lemma idle_quiet: "\<not> rq_en q \<Longrightarrow> sets_ctl (rq_data q) q \<Longrightarrow> \<not> bit (rq_data q) 31"
  by (simp add: sets_ctl_def)

lemma holds_one:
  assumes "holds cur ep"
  obtains (none) "cur = []" "\<not> ep_wait ep" | (one) r where "cur = [r]" "ep_wait ep \<longleftrightarrow> is_access r"
proof -
  have d: "on_signals cur (drive ep sb_idle)" by (rule holdsD [OF assms]) (simp_all add: sb_idle_def)
  have e: "rq_en (drive ep sb_idle) \<longleftrightarrow> ep_wait ep" by (rule drive_en) (simp add: sb_idle_def)
  from d show ?thesis
  proof (cases "(cur, drive ep sb_idle)" rule: on_signals.cases)
    case (2 r q)
    then have "rq_en q \<longleftrightarrow> is_access r" using d by (cases r) (simp_all add: is_access_def)
    then show ?thesis using one [of r] 2 e by simp
  qed (use none e in simp_all)
qed

text \<open>The requests shown: none of them an access, or the last one the first access.\<close>

definition first_shown :: "bar_req list \<Rightarrow> endpoint \<Rightarrow> bool" where
  "first_shown rs ep \<longleftrightarrow>
     (\<forall>z\<in>set rs. \<not> is_access z) \<and> \<not> ep_wait ep \<and> \<not> rq_en (ep_req ep) \<or>
     (\<exists>zs r. rs = zs @ [r] \<and> (\<forall>z\<in>set zs. \<not> is_access z) \<and> is_access r \<and> \<not> starts r \<and> ep_wait ep \<and>
        holds [r] ep \<and> asks r (ep_req ep))"

lemma first_shown_cases:
  assumes "first_shown rs ep"
  obtains (none) "\<forall>z\<in>set rs. \<not> is_access z" "\<not> ep_wait ep" "\<not> rq_en (ep_req ep)"
  | (first) zs r where "rs = zs @ [r]" "\<forall>z\<in>set zs. \<not> is_access z" "is_access r" "\<not> starts r" "ep_wait ep"
      "holds [r] ep" "asks r (ep_req ep)"
  using assms by (auto simp: first_shown_def)

lemma shown_none: "\<forall>z\<in>set rs. \<not> is_access z \<Longrightarrow> \<not> ep_wait ep \<Longrightarrow> \<not> rq_en (ep_req ep) \<Longrightarrow> first_shown rs ep"
  by (simp add: first_shown_def)

lemma shown_first:
  "\<forall>z\<in>set zs. \<not> is_access z \<Longrightarrow> is_access r \<Longrightarrow> \<not> starts r \<Longrightarrow> ep_wait ep \<Longrightarrow> holds [r] ep \<Longrightarrow> asks r (ep_req ep) \<Longrightarrow>
     first_shown (zs @ [r]) ep"
  by (simp add: first_shown_def)

definition read_last :: "glue_sys \<Rightarrow> bool" where
  "read_last g \<longleftrightarrow> (gs_io g \<noteq> Io_idle \<longrightarrow> gs_issued g \<noteq> [] \<and> is_rd (last (gs_issued g)))"

definition shown_reqs :: "glue_sys \<Rightarrow> bar_req list" where
  "shown_reqs g = take (shown g) (gs_issued g)"

definition stalled :: "dsys \<Rightarrow> bool" where
  "stalled s \<longleftrightarrow> ds_ok s \<and> asleep (ds_hw s) \<and> ds_msis s = 0 \<and> ds_mwrs s = [] \<and> set (gs_replies (ds_g s)) \<subseteq> {0} \<and>
     read_last (ds_g s) \<and> first_shown (shown_reqs (ds_g s)) (ds_ep s)"

lemma shown_quiet:
  assumes "first_shown rs ep"
  shows "sets_ctl (rq_data (ep_req ep)) (ep_req ep) \<Longrightarrow> \<not> bit (rq_data (ep_req ep)) 31"
  by (cases rule: first_shown_cases [OF assms]) (use asks_quiet idle_quiet in blast)+

text \<open>One more request shown.\<close>

lemma shown_next:
  assumes n: "no_start (gs_issued g)" and rs: "\<forall>z\<in>set rs. \<not> is_access z"
    and t: "take k (gs_issued g) = rs @ cur" and p: "holds cur ep" and q: "\<not> rq_en q" "\<not> rq_wr q"
  shows "first_shown (rs @ cur) (ep\<lparr>ep_req := drive ep q\<rparr>)"
  using p
proof (cases rule: holds_one)
  case none
  then show ?thesis using rs drive_en [OF q(1), of ep] by (intro shown_none) simp_all
next
  case (one r)
  show ?thesis
  proof (cases "is_access r")
    case True
    have "gs_issued g = (rs @ [r]) @ drop k (gs_issued g)"
      using append_take_drop_id [of k "gs_issued g"] t one(1) by simp
    then have "no_start (rs @ [r])" using n no_start_prefix by metis
    then have "\<not> starts r" using find_none [OF rs] True by (simp add: no_start_def find_append)
    moreover have "asks r (drive ep q)" using holdsD [OF p q] one(1) by simp
    ultimately show ?thesis
      using rs one True p unfolding one(1) by (intro shown_first) (simp_all add: holds_req)
  next
    case False
    then show ?thesis using rs one drive_en [OF q(1), of ep] by (intro shown_none) auto
  qed
qed

text \<open>A request is held until it is acknowledged, and one that starts a transfer is the engine's command.\<close>

lemma rest_holds:
  assumes "ep_wait ep" and "holds [r] ep"
  obtains ep' where "\<And>g. endpoint_rest False ep g = Some (ep', g)" and "ep_wait ep'" and "holds [r] ep'" and "asks r (ep_req ep')"
proof -
  let ?q = "(ep_req ep)\<lparr>rq_en := False, rq_wr := False, rq_bar := 0, rq_addr := 0\<rparr>"
  show ?thesis
    by (rule that [of "ep\<lparr>ep_req := drive ep ?q\<rparr>"])
      (use assms holdsD [OF assms(2), of ?q] in \<open>simp_all add: endpoint_rest_def holds_req\<close>)
qed

lemma asks_start:
  assumes "asks (Wr bar addr d) q" and "starts (Wr bar addr d)"
  shows "sets_ctl (of_le d) q" and "bit (of_le d :: u64) 31"
  using assms by (simp_all add: sets_ctl_def starts_def)

text \<open>The endpoint after an edge without an acknowledgement.\<close>

lemma rest_stalls:
  assumes i: "glue_inv g" "small g" and n: "no_start (gs_issued g)" and f: "first_shown (shown_reqs g) ep"
  obtains ep' g' where "endpoint_rest False ep g = Some (ep', g')" and "gs_issued g' = gs_issued g"
    and "gs_replies g' = gs_replies g" and "gs_io g' = gs_io g" and "first_shown (shown_reqs g') ep'"
proof -
  obtain q where q: "q = (ep_req ep)\<lparr>rq_en := False, rq_wr := False, rq_bar := 0, rq_addr := 0\<rparr>" by blast
  then have q0: "\<not> rq_en q" "\<not> rq_wr q" by simp_all
  from f show ?thesis
  proof (cases rule: first_shown_cases)
    case (first zs r)
    obtain ep' where e: "\<And>g. endpoint_rest False ep g = Some (ep', g)" "ep_wait ep'" "holds [r] ep'" "asks r (ep_req ep')"
      using rest_holds [OF first(5,6)] by blast
    have "first_shown (zs @ [r]) ep'" using first e by (intro shown_first) simp_all
    then show ?thesis using that [OF e(1)] first(1) by simp
  next
    case none
    obtain ep1 c out cur where
      p: "endpoint_poll ep g = Some (ep1, g\<lparr>gs_c := c, gs_polled := gs_polled g @ out\<rparr>)"
        "glue_inv (g\<lparr>gs_c := c, gs_polled := gs_polled g @ out\<rparr>)" "holds cur ep1"
        "take (shown g + length out) (gs_issued g) = take (shown g) (gs_issued g) @ cur"
        "shown g + length out = min (Suc (shown g)) (length (gs_issued g))"
      by (rule endpoint_poll_ok [OF i none(2)])
    let ?g = "g\<lparr>gs_c := c, gs_polled := gs_polled g @ out\<rparr>" and ?ep = "ep1\<lparr>ep_req := drive ep1 q\<rparr>"
    have e: "endpoint_rest False ep g = Some (?ep, ?g)" using none(2) p(1) by (simp add: endpoint_rest_def q)
    have "shown_reqs ?g = shown_reqs g @ cur" using p(4) by (simp add: shown_reqs_def shown_def)
    moreover have "first_shown (shown_reqs g @ cur) ?ep"
      by (rule shown_next [OF n none(1) p(4) [folded shown_reqs_def] p(3) q0])
    ultimately show ?thesis using that [OF e] by simp
  qed
qed

lemma stalled_clk:
  assumes s: "stalled s" and n: "no_start (gs_issued (ds_g s))" and a: "g_heap (gs_c (ds_g s)) a = None" "g_heap (gs_c (ds_g s)) b = None"
    and c: "dsys_clk (a, j) (b, k) s = Some s'"
  shows "stalled s'"
proof -
  let ?g = "ds_g s" and ?h = "ds_hw s"
  have h: "ds_ok s" "glue_inv ?g" "small ?g" "settled ?h" "asleep ?h" "first_shown (shown_reqs ?g) (ds_ep s)"
    using s by (simp_all add: stalled_def ds_ok_def)
  note o = asleep_outputs [OF h(5)]
  from endpoint_before [OF h(2) a one_output [OF h(4)], of j k] obtain g1 rs where g1: "glue_inv g1" "same_queue ?g g1"
    "gs_replies g1 = gs_replies ?g @ rs" "set rs \<subseteq> (if fst (in_rep (dsys_in ?h)) then {snd (in_rep (dsys_in ?h))} else {})"
    "endpoint_outs (a, j) (b, k) (dsys_in ?h) ?g = Some g1" by blast
  have q: "gs_io g1 = gs_io ?g" "gs_issued g1 = gs_issued ?g" "shown_reqs g1 = shown_reqs ?g" "small g1"
    using g1(2) h(3) by (simp_all add: same_queue_def shown_reqs_def shown_def small_def)
  have "no_start (gs_issued g1)" "first_shown (shown_reqs g1) (ds_ep s)" using n h(6) q by simp_all
  then obtain ep g2 where g2: "endpoint_rest False (ds_ep s) g1 = Some (ep, g2)" "gs_issued g2 = gs_issued g1"
    "gs_replies g2 = gs_replies g1" "gs_io g2 = gs_io g1" "first_shown (shown_reqs g2) ep"
    by (rule rest_stalls [OF g1(1) q(4)])
  have ack: "in_ack (dsys_in ?h) = False" using o(1) by (simp add: dsys_in_def)
  have s': "s' = s\<lparr>ds_g := g2, ds_ep := ep, ds_hw := dma_clk (ep_req (ds_ep s)) ?h\<rparr>"
    using c o by (simp add: dsys_clk_def endpoint_split g1(5) g2(1) ack)
  have "set rs \<subseteq> {0}" using g1(4) h(5) by (auto simp: dsys_in_def asleep_def split: if_splits)
  then have r: "set (gs_replies g2) \<subseteq> {0}" using s g1(3) g2(3) by (simp add: stalled_def)
  obtain s'' where "dsys_clk (a, j) (b, k) s = Some s''" "ds_ok s''" by (rule dsys_clk_ok [OF h(1) a])
  then have "ds_ok s'" using c by simp
  moreover have "asleep (dma_clk (ep_req (ds_ep s)) ?h)" using asleep_clk [OF h(5)] shown_quiet [OF h(6)] by blast
  moreover have "read_last g2" using s g2(2,4) q(1,2) by (simp add: stalled_def read_last_def)
  ultimately show ?thesis using s r g2(5) by (simp add: stalled_def s')
qed

lemma stalled_net:
  assumes s: "stalled s" and n: "net_step (ds_g s) g"
  shows "stalled (s\<lparr>ds_g := g\<rparr>)"
proof -
  obtain rs where k: "gs_polled g = gs_polled (ds_g s)" "gs_replies g = gs_replies (ds_g s)" "gs_issued g = gs_issued (ds_g s) @ rs"
    using net_keeps [OF n] by blast
  have h: "ds_ok s" "read_last (ds_g s)" using s by (simp_all add: stalled_def)
  have "shown (ds_g s) \<le> length (gs_issued (ds_g s))" using polled_shown(1) h(1) by (simp add: ds_ok_def)
  then have "shown_reqs g = shown_reqs (ds_g s)" using k by (simp add: shown_reqs_def shown_def)
  moreover have "read_last g" using n h(2) by cases (simp_all add: read_last_def)
  ultimately show ?thesis using s k(2) dsys_net_ok [OF h(1) n] by (simp add: stalled_def)
qed

lemma dsys_stalled: "dsys_reach s \<Longrightarrow> no_start (gs_issued (ds_g s)) \<Longrightarrow> stalled s"
proof (induction rule: dsys_reach.induct)
  case (start env strtoul16 fds e self c0 c h ep)
  then show ?case
    using dsys_start_ok [OF start(1-3), of ep]
    by (simp add: stalled_def asleep_def dma_reset_def ctl_is_def glue_start_def read_last_def shown_reqs_def shown_none)
next
  case (step s s')
  from step.hyps(2) show ?case
  proof cases
    case (net g)
    then have "no_start (gs_issued (ds_g s))" using net_keeps [OF net(2)] step.prems no_start_prefix by fastforce
    then show ?thesis using stalled_net step.IH net by blast
  next
    case (clk a b j k)
    obtain s'' where "dsys_clk (a, j) (b, k) s = Some s''" "gs_issued (ds_g s'') = gs_issued (ds_g s)"
      by (rule dsys_clk_ok [OF dsys_reach_ok [OF step.hyps(1)] clk(1,2)])
    then have "no_start (gs_issued (ds_g s))" using step.prems clk(3) by simp
    then show ?thesis using stalled_clk step.IH clk by blast
  qed
qed

text \<open>A read that is answered was the last request, and has been shown.\<close>

lemma replied_shown:
  assumes i: "glue_inv g" and l: "read_last g" and io: "gs_io g = Io_wait n data sz" and r: "is_replied n (gs_c g)"
  shows "shown g = length (gs_issued g)"
proof -
  obtain rx pend tx ms where q: "queues_inv (gs_c g) (Some n) rx pend tx ms"
    "map req_out (gs_issued g) = gs_polled g @ map req_out pend" "reply_phase g (Io_wait n data sz) rx tx"
    using glue_invE [OF i] io by (metis wait_node.simps(2))
  have nr: "n \<notin> set rx" using q(3) r by (auto simp: is_replied_def wait_access_def)
  have w: "list_all2 (rx_node (g_heap (gs_c g)) (Some n)) rx pend" by (rule queues_rep(4) [OF q(1)])
  have "pend = []"
  proof (rule ccontr)
    assume p: "pend \<noteq> []"
    then have x: "rx \<noteq> []" using w by auto
    have "last (map req_out (gs_issued g)) = last (map req_out pend)" using p by (simp add: q(2))
    then have "req_out (last (gs_issued g)) = req_out (last pend)" using p l io by (simp add: read_last_def last_map)
    then have "is_rd (last pend)" using l io by (simp add: read_last_def is_rd_out)
    moreover have "rx_node (g_heap (gs_c g)) (Some n) (last rx) (last pend)"
      using list_all2_nthD [OF w, of "length rx - 1"] list_all2_lengthD [OF w] x p by (simp add: last_conv_nth)
    ultimately have "n = last rx" by (simp add: rx_node_def)
    then show False using nr x by simp
  qed
  then show ?thesis using arg_cong [OF q(2), of length] by (simp add: shown_def)
qed

text \<open>
  C15. The simulated engine in VHDL, for every interleaving of network thread and clock: unless the first
  access of the host is a command that starts a transfer, that access is the last one the device
  ever takes, since only the end of a transfer acknowledges a request. Nothing after it is polled,
  there is no memory write and no interrupt, every reply is 0, and a read that comes after it is
  never answered. The clock itself always goes on.
\<close>

theorem vhdl_dma_stalls:
  assumes "dsys_reach s" and "gs_issued (ds_g s) = zs @ r # rs" and "\<forall>z\<in>set zs. rd_size z = 0" and "rd_size r \<noteq> 0" and "\<not> starts r"
  shows "prefix (gs_polled (ds_g s)) (map req_out (zs @ [r])) \<and> ds_mwrs s = [] \<and> ds_msis s = 0 \<and>
     set (gs_replies (ds_g s)) \<subseteq> {0} \<and>
     (\<forall>n data sz. gs_io (ds_g s) = Io_wait n data sz \<and> rs \<noteq> [] \<longrightarrow> \<not> is_replied n (gs_c (ds_g s))) \<and>
     (\<forall>a b j k. g_heap (gs_c (ds_g s)) a = None \<and> g_heap (gs_c (ds_g s)) b = None \<longrightarrow> dsys_clk (a, j) (b, k) s \<noteq> None)"
proof -
  let ?g = "ds_g s"
  have z: "\<forall>z\<in>set zs. \<not> is_access z" "is_access r" using assms(3,4) by (simp_all add: is_access_def)
  then have "no_start (gs_issued ?g)" using assms(2,5) find_none [OF z(1)] by (simp add: no_start_def find_append)
  note st = dsys_stalled [OF assms(1) this]
  then have s: "ds_ok s" "glue_inv ?g" "read_last ?g" "first_shown (shown_reqs ?g) (ds_ep s)"
    by (simp_all add: stalled_def ds_ok_def)
  have le: "shown ?g \<le> Suc (length zs)"
  proof (rule ccontr)
    assume "\<not> shown ?g \<le> Suc (length zs)"
    then obtain d where "shown ?g = Suc (length zs) + Suc d" by (metis add_Suc_right less_imp_Suc_add not_le)
    then have sh: "shown_reqs ?g = zs @ r # take (Suc d) rs" by (simp add: shown_reqs_def assms(2))
    from polled_shown(1) [OF s(2)] have ne: "take (Suc d) rs \<noteq> []"
      using \<open>shown ?g = _\<close> by (auto simp: assms(2))
    from s(4) show False
    proof (cases rule: first_shown_cases)
      case none
      then show ?thesis using z(2) sh by simp
    next
      case (first zs' r')
      then have "zs' = butlast (zs @ r # take (Suc d) rs)" using sh by (metis butlast_snoc)
      then have "r \<in> set zs'" using ne by (simp add: butlast_append)
      then show ?thesis using first(2) z(2) by simp
    qed
  qed
  have "gs_polled ?g = map req_out (take (shown ?g) (zs @ r # rs))" using polled_shown(2) [OF s(2)] by (simp add: assms(2))
  also have "take (shown ?g) (zs @ r # rs) = take (shown ?g) (zs @ [r])"
    using le by (cases "shown ?g \<le> length zs") (simp_all add: le_Suc_eq)
  finally have "prefix (gs_polled ?g) (map req_out (zs @ [r]))" by (simp only: take_is_prefix flip: take_map)
  moreover have "\<not> is_replied n (gs_c ?g)" if "gs_io ?g = Io_wait n data sz" "rs \<noteq> []" for n data sz
    using replied_shown [OF s(2,3) that(1)] le that(2) by (auto simp: assms(2))
  moreover have "dsys_clk (a, j) (b, k) s \<noteq> None"
    if h: "g_heap (gs_c ?g) a = None" "g_heap (gs_c ?g) b = None" for a b j k
  proof -
    obtain s' where "dsys_clk (a, j) (b, k) s = Some s'" by (rule dsys_clk_ok [OF s(1) h])
    then show ?thesis by simp
  qed
  ultimately show ?thesis using st by (simp add: stalled_def)
qed

section \<open>An example\<close>

text \<open>The host writes a byte to the address register and reads the status.\<close>

abbreviation reset_dma :: dma_hw where "reset_dma \<equiv> dma_with 0 0 0"

lemma reset_dma_reset: "dma_reset reset_dma"
  by (simp add: dma_reset_def dma_with_settled) (simp add: dma_with_def ctl_is_def Let_def)

lemma dsys_net_reach: "rtranclp net_step (ds_g s) g \<Longrightarrow> dsys_reach s \<Longrightarrow> dsys_reach (s\<lparr>ds_g := g\<rparr>)"
proof (induction rule: rtranclp_induct)
  case (step g g')
  have "dsys_step (s\<lparr>ds_g := g\<rparr>) (s\<lparr>ds_g := g, ds_g := g'\<rparr>)" using dsys_step.net [of "s\<lparr>ds_g := g\<rparr>" g'] step(2) by simp
  then show ?case using dsys_reach.step [OF step.IH [OF step.prems]] by simp
qed simp

theorem vhdl_dma_stalls_witness:
  "\<exists>s n. dsys_reach s \<and> gs_issued (ds_g s) = [Wr 1 8 [7], Rd 1 4 4] \<and> gs_io (ds_g s) = Io_wait n (replicate 8 0) 4 \<and>
     prefix (gs_polled (ds_g s)) [req_out (Wr 1 8 [7])] \<and> \<not> is_replied n (gs_c (ds_g s))"
proof -
  obtain c g n where c: "thread_init (\<lambda>_. None) (\<lambda>_. 0) (5, 6) env_zero 0 glue_zero = Some c"
    and g: "rtranclp net_step (glue_start c) g" "gs_io g = Io_wait n (replicate 8 0) 4"
      "gs_issued g = [Wr 1 8 [7], Rd 1 4 4]" "shown g = 0"
    by (rule host_example)
  let ?s = "\<lparr>ds_g = glue_start c, ds_ep = ep_zero, ds_hw = reset_dma, ds_msis = 0, ds_mwrs = []\<rparr>"
  have r: "dsys_reach ?s"
    by (rule dsys_reach.start [OF c]) (simp_all add: glue_zero_def reset_dma_reset ep_zero_def sb_idle_def)
  have s: "dsys_reach (?s\<lparr>ds_g := g\<rparr>)" using dsys_net_reach [OF _ r, of g] g(1) by simp
  have i: "gs_issued (ds_g (?s\<lparr>ds_g := g\<rparr>)) = [] @ Wr 1 8 [7] # [Rd 1 4 4]" using g(3) by simp
  have "\<not> starts (Wr 1 8 [7])" by (simp add: starts_def)
  from vhdl_dma_stalls [OF s i _ _ this] show ?thesis using s g(2,3) by auto
qed

end
