(* ===== verification/Spec2Isabelle.thy ===== *)
theory Spec2Isabelle
  imports Dma_System Glue_System Sbone_System Bridge_Probe Net_Udp User_Rates Pmem_Reserved Vhdl_Sbone Vhdl_Dma_System
begin

text \<open>
  A verification development for vpcie, an environment in which a PCIe device is an ordinary process
  that talks over a socket to a patched QEMU, and the drivers and programs of the device run in the
  guest unchanged.

  \<^bold>\<open>The program and how its parts interact.\<close> A program of the guest reaches its driver through
  \<open>ioctl\<close>, \<open>select\<close> and \<open>mmap\<close>; the driver reads and writes the mapped BARs; QEMU turns each access
  into a message (\<open>pciefw.patch\<close>) and sends it to the device process, whose network layer
  (\<open>pcie_net.c\<close>) hands it to the device layer (\<open>pcie.c\<close>), which answers configuration accesses itself
  and calls the handlers of the device for the others. Writes to the host's memory and interrupts go
  the other way. The device is either C code (\<open>main_dma.c\<close>) or VHDL in a simulator, which runs in a
  second thread and polls the requests through \<open>pcie_glue.c\<close>.

  \<^bold>\<open>The theories and the sources they model\<close> (paths under \<open>src/src\<close> unless another is given).

  \<^item> \<open>Vp_Prelude\<close>: integer types, bounds-checked copies (the interface \<open>byte_store\<close>), the little-endian
    layout of integers, and the collections \<open>const_defs\<close>, \<open>mem_simps\<close>, \<open>le_simps\<close>.
  \<^item> \<open>Pcie_Net\<close>: \<open>pcie/pcie_net.h\<close>, \<open>pcie/pcie_net.c\<close>. The packed messages (\<open>net_msg\<close>, \<open>net_reply\<close>), the
    connection (\<open>pcie_net\<close> with its socket), sending and receiving one message, opening and closing, and
    the loop with its task and its event descriptor. The locale \<open>net_callbacks\<close> is what the loop needs
    of its callbacks.
  \<^item> \<open>Net_Udp\<close>: the branch of \<open>pcie_net.c\<close> for \<open>CONFIG_USE_UDP\<close> 1, which is not compiled in.
  \<^item> \<open>Pcie_Dev\<close>, \<open>Pcie_Ops\<close>: \<open>pcie/pcie.h\<close>, \<open>pcie/pcie.c\<close>. The endpoint \<open>pcie_dev\<close> (\<open>pcie_dev_t\<close>), the configuration space,
    the BAR table, \<open>on_msg_recv\<close> and \<open>pcie_send_msi\<close>. The locale \<open>pcie_device\<close> is what the layer needs of
    a device, and gives \<open>net_callbacks\<close>. \<open>Pcie_Ops\<close> runs its operations in any order.
  \<^item> \<open>Dma_Device\<close>, \<open>Dma_Transfer\<close>: \<open>dma/hw/d_in_c/main_dma.c\<close>. The registers, the transfer, \<open>main\<close>; \<open>Dma_Transfer\<close>
    interprets \<open>pcie_device\<close> for the engine.
  \<^item> \<open>Pcie_Glue\<close>, \<open>Glue_System\<close>: \<open>pcie/pcie_glue.c\<close> and \<open>main/main_ghdl.c\<close>. Logic vectors, linked queues on an
    explicit heap, the handlers of the network thread and the routines of the simulation; \<open>Glue_System\<close>
    runs both threads in any interleaving (\<open>glue_step\<close>).
  \<^item> \<open>Vm_Bridge\<close>, \<open>Bridge_Life\<close>, \<open>Bridge_Probe\<close>, \<open>Dma_Link\<close>: \<open>pciefw.patch\<close> under \<open>src/qemu\<close>. The bridge in QEMU, bridge
    and device with their sockets connected (\<open>vm\<close>); start and end of the bridge and what it holds in
    between (locale \<open>quiet_bridge\<close>, interpreted for \<open>vm\<close>); its probe of the BARs of any endpoint; and for the
    engine the proof that all this implements a queue of register writes and a queue of messages (\<open>link\<close>).
  \<^item> \<open>Kernel_User\<close>, \<open>Drv_Core\<close>, \<open>Kdma\<close>, \<open>Sbone_Driver\<close>: \<open>dma/sw/k/kdma.c\<close>, \<open>sbone/k/sbone.c\<close> and their \<open>ioctl\<close> headers.
    \<open>Drv_Core\<close> is what the two drivers share word for word: the bitmap of devices (locale \<open>dev_allocator\<close>),
    mapping the BARs, \<open>probe\<close>, \<open>remove\<close> and error recovery. \<open>Kernel_User\<close> is the memory of a process.
  \<^item> \<open>Pmem_Reserved\<close>: the two strategies for reserved memory of \<open>kdma.c\<close>, which are not compiled in.
  \<^item> \<open>Dma_User\<close>, \<open>User_Clock\<close>, \<open>User_Rates\<close>, \<open>Dma_System\<close>: \<open>dma/sw/u/main.c\<close>. The program over an arbitrary system (locale
    \<open>dma_driver\<close>), how it measures time and the rates it prints, and the whole system: \<open>Dma_System\<close> interprets \<open>dma_driver\<close> for the
    program on driver, bridge, link and engine.
  \<^item> \<open>Sbone_User\<close>, \<open>Sbone_System\<close>: \<open>sbone/u/*.c\<close> and the registers of \<open>sbone/d/*.vhdl\<close>. The library (locale
    \<open>config_access\<close>), the program, and the system of program, driver, configuration space and registers.
  \<^item> \<open>Vhdl_Endpoint\<close>, \<open>Vhdl_Sbone\<close>: \<open>pcie/pcie_endpoint.vhdl\<close> and its wiring in \<open>sbone/d/main.vhdl\<close>. The endpoint at
    the level of clock edges, calling the glue; then with the registers, beside the network thread
    (\<open>vsys_step\<close>).
  \<^item> \<open>Vhdl_Dma\<close>, \<open>Vhdl_Dma_System\<close>: \<open>dma/hw/d_in_vhdl/*.vhdl\<close>. The engine in VHDL, an edge being the clocked
    processes and then those that their changes wake, which still see old values (\<open>dma_clk\<close>); then with
    the endpoint, beside the network thread (\<open>dsys_step\<close>).
  \<^item> This theory: what the parts say of each other beyond that.

  \<^bold>\<open>Conventions.\<close> A structure is a record, extended where C embeds it as its first member. Integers
  have their width; \<open>int\<close> is used for results and descriptors, \<open>nat\<close> for lengths and indices that come
  from constants. \<open>None\<close> as the value of an operation is undefined behaviour (a copy outside its buffer,
  a freed node, a call through a pointer of another type) or, where a text says so, a call that never
  returns. Function pointers are names, resolved by an argument. What C does not initialise is an
  argument (\<open>junk\<close>, \<open>stk\<close>, the result of \<open>malloc\<close>), so every statement holds for all of it. The operating
  system, the Linux kernel, QEMU, libpci and the simulator are environments: records of what their
  calls return, with a log of the calls where it matters what was acquired and released. The network
  is a pair of byte queues. \<open>select\<close> is the list of its results; like the system call on most systems
  it is taken not to change the timeout.

  Loops that may not end are \<open>partial_function (option)\<close> (\<open>pciefw_recv_reply\<close>, \<open>vm_wait\<close>, \<open>dma_wait_loop\<close>, \<open>send_nodes\<close>,
  \<open>window_loop\<close>, \<open>udp_send_buf\<close>, \<open>early_pmem_fini\<close>), and the properties say when they return. There is no other fuel: the endless
  loops of the network layer run over the given list of results of \<open>select\<close>, and the loop of \<open>user_main\<close>
  for a number of turns, the properties holding for every list and number.

  Concurrency: the two threads of the glue take turns at the granularity of one routine, since outside
  the locks each touches only nodes the other cannot reach; the atomic operations on the bitmap of
  devices are single steps of any number of processors (\<open>alloc_step\<close>); bridge and device take turns by an
  arbitrary schedule kept in the state of \<open>vm\<close>; interrupts of an SBONE device come by an arbitrary schedule; the
  network thread and the clock of a simulated device take steps in any order.

  \<^bold>\<open>What the lemmas show.\<close>

  \<^item> Network: a stream of messages is received as it was sent (\<open>msg_stream_roundtrip\<close>); exactly which sizes
    make the receiver leave its buffer (\<open>recv_msg_unsafe_iff\<close>) or the sender wrap its header
    (\<open>send_msg_header_exact_iff\<close>); opening leaks nothing on any path (\<open>open_tcp_releases\<close>).
  \<^item> Device layer: exactly which configuration accesses are served, refused or out of bounds
    (\<open>config_access_exact\<close>), the space after initialisation (\<open>init_common_config\<close>); after any sequence of
    operations the arrays have their sizes (\<open>endpoint_well_typed\<close>) and requests of the peer reach the handler
    that was registered last (\<open>bar_requests_dispatched\<close>; \<open>dma_keeps_bars\<close> for the engine).
  \<^item> Engine: a programmed transfer puts memory plus seed at the address (\<open>programmed_transfer\<close>,
    \<open>finalize_transfer_result\<close>); its program is safe for accesses inside the registers (\<open>dma_main_safe\<close>), and
    exactly which are not (\<open>dma_on_write_safe_iff\<close>).
  \<^item> Bridge and engine: reads return what was written last, transfers end with one interrupt, for every
    schedule (\<open>bus_reads_latest\<close>, \<open>bus_transfer_completes\<close>). For any endpoint, the sizes the bridge measures
    (\<open>bridge_start_measures\<close>), and what it acquires and releases over any life (\<open>bridge_life_balanced\<close>).
  \<^item> Whole DMA system: every turn of the program ends with the memory of the engine plus the seed in its
    buffer, and the verdict of the program is characterised (\<open>user_turn_transfers\<close>, \<open>user_main_verdict\<close>).
  \<^item> Glue: in every interleaving, exactly which calls are undefined; requests arrive in order, reads return the
    reply made to them, a waiting read completes after finitely many polls, writes go out in order, and the
    program shuts down with everything freed (\<open>glue_calls_defined\<close>, \<open>glue_requests_in_order\<close>,
    \<open>glue_read_results\<close>, \<open>glue_read_completes\<close>, \<open>glue_writes_on_wire\<close>, \<open>program_shuts_down\<close>).
  \<^item> Drivers: a device is never handed out twice (\<open>alloc_exclusive\<close>, \<open>dev_alloc_lowest_free\<close>); what \<open>probe\<close>, \<open>remove\<close> and
    error recovery acquire and give back (\<open>map_bars_all_or_nothing\<close>, \<open>probe_failure_releases\<close>,
    \<open>probe_remove_balance\<close>, \<open>recovery_leaves_disabled\<close>, \<open>sbone_lifecycle\<close>); the check of an access and the transfer of
    its data (\<open>check_bar_access_exact\<close>, \<open>read_bar_delivers\<close>, \<open>write_bar_exact\<close>); the list of memory blocks
    (\<open>pmem_alloc_balanced\<close>, \<open>pmem_free_trusts_process\<close>, \<open>close_frees_all\<close>); interrupts (\<open>irq_poll_get\<close>, \<open>sbone_irq_conserved\<close>).
    The early reservation of memory never succeeds and what it leaks (\<open>early_init_fails\<close>).
  \<^item> SBONE user side: the size of a BAR is measured exactly and the register restored (\<open>bar_measured\<close>), what the
    library holds on every path (\<open>sbone_open_ledger\<close>), and the program on its device (\<open>sbone_main_runs\<close>).
  \<^item> Simulated SBONE device: for every interleaving of network thread and clock, endpoint, registers and glue
    are a sequential memory to the host (\<open>vhdl_reads_sequential\<close>), and exactly which reads are answered, and
    after how many edges (\<open>vhdl_read_answered\<close>); the accesses of \<open>Sbone_System\<close> are requests served so.
  \<^item> Simulated engine in VHDL: with its endpoint it stops at the first access that does not start a
    transfer (\<open>vhdl_dma_stalls\<close>); alone, what one command writes, twice (\<open>vhdl_dma_runs_twice\<close>), and exactly which
    transfers end (\<open>vhdl_dma_ends_iff\<close>). \<open>settled_clk\<close> and \<open>clk_latched\<close> reduce the order of its processes to a
    synchronous machine.
  \<^item> Time: the measured frequency is right within bounds on a steady processor (\<open>cpu_hz_measured\<close>),
    and the printed rates are right up to rounding (\<open>rates_accurate\<close>).

  Several of them state a defect of the code exactly rather than its absence: a text before the property
  says so.

  \<^bold>\<open>Not modelled.\<close> The table of the device class in QEMU, which only names functions that are modelled;
  debug output; in VHDL the values of a signal other than 0 and 1, what happens before the end of the
  reset, and the stimuli, which are not generated.
\<close>


section \<open>Which driver takes the device\<close>

text \<open>
  The ids the engine announces are in the tables of both drivers, so that each of them takes the
  device when it is loaded first.
\<close>

lemma device_ids_claimed:
  assumes "dma_main_init e self dma = Some (0, calls, dma')"
  shows "\<exists>v d. pcie_read_config_word dma' PCI_VENDOR_ID = Some v \<and>
     pcie_read_config_word dma' PCI_DEVICE_ID = Some d \<and>
     (v, d) \<in> set (pd_id_table kdma_pci_driver) \<and> (v, d) \<in> set (pd_id_table sbone_pci_driver)"
proof -
  let ?d0 = "dma\<lparr>bram := map of_nat [0..<sizeof_bram]\<rparr>"
  obtain c where c: "init_common ?d0 = Some (?d0\<lparr>bar_size := replicate 6 0, bar_writefn := replicate 6 None,
     bar_readfn := replicate 6 None, config := c\<rparr>)" "length c = 4096"
    using init_common_shape by blast
  obtain r srv cli cs where o: "open_tcp_socket e = (r, srv, cli, cs)" by (cases "open_tcp_socket e") auto
  have w: "mem_write x 0 (le_bytes 2 y) = Some (mem_patch x 0 (le_bytes 2 y))"
    "mem_write x 2 (le_bytes 2 y) = Some (mem_patch x 2 (le_bytes 2 y))" if "length x = 4096" for x and y :: u16
    using that by (simp_all add: mem_write_patch)
  let ?c = "mem_patch (mem_patch c 0 (le_bytes 2 (0x2a2a :: u16))) 2 (le_bytes 2 (0x2b2b :: u16))"
  have cf: "config dma' = ?c"
    using assms c o unfolding dma_main_init_def
    by (auto simp: pcie_init_net_def pcie_net_init_def Let_def pcie_set_vendorid_def pcie_set_deviceid_def
        pcie_write_config_safe_def pcie_set_bar_def const_defs w length_mem_patch split: if_splits)
  have l: "length (config dma') = 4096" using c(2) by (simp add: cf length_mem_patch)
  have "?c = le_bytes 2 (0x2a2a :: u16) @ le_bytes 2 (0x2b2b :: u16) @ drop 4 c"
    using c(2) by (simp add: mem_patch_def)
  then have t: "take 2 (config dma') = le_bytes 2 (0x2a2a :: u16)" "take 2 (drop 2 (config dma')) = le_bytes 2 (0x2b2b :: u16)"
    unfolding cf by simp_all
  have "config_aligned PCI_VENDOR_ID 2" "config_aligned PCI_DEVICE_ID 2"
    by (simp_all add: config_aligned_def config_width_def const_defs)
  from this [THEN read_config_ok [OF _ l]] have "pcie_read_config_word dma' PCI_VENDOR_ID = Some 0x2a2a"
    "pcie_read_config_word dma' PCI_DEVICE_ID = Some 0x2b2b"
    using t by (simp_all add: pcie_read_config_word_def const_defs of_le_le_bytes)
  then show ?thesis by (simp add: kdma_pci_driver_def sbone_pci_driver_def kdma_pci_ids_def sbone_pci_ids_def drv_pci_ids_def)
qed

end
